(* ===== verification/Prelude.thy ===== *)
theory Prelude
  imports Main "HOL-Library.AList" "HOL-Library.Char_ord" "HOL-Library.List_Lexorder"
    "HOL-Library.Product_Lexorder" "HOL-Library.Multiset"
begin

text \<open>
  Shared vocabulary of the development: Python dictionaries as association lists in insertion
  order, sorted tuples of sets, the string operations the sources use, and the generic lemmas on
  lists and maps that the component theories apply through the collections \<open>dict_simps\<close>,
  \<open>keyed_simps\<close> and \<open>text_simps\<close>.

  Python text is a list of \<open>char\<close>; a \<open>char\<close> stands for a code point below 256, and the
  lexicographic order of lists over the character order is the order Python's \<open>sorted\<close>
  uses on \<open>str\<close>.
\<close>

named_theorems dict_simps "characteristic equations of dictionary operations"
named_theorems keyed_simps "facts on sorted and deduplicated tuples"
named_theorems text_simps "facts on the text operations"

section \<open>Dictionaries\<close>

type_synonym ('k, 'v) dict = "('k \<times> 'v) list"

text \<open>\<open>d[k] = v\<close> keeps the position of an existing key and appends a new one.\<close>

abbreviation dict_set :: "'k \<Rightarrow> 'v \<Rightarrow> ('k, 'v) dict \<Rightarrow> ('k, 'v) dict" where
  "dict_set \<equiv> AList.update"

text \<open>\<open>d.pop(k, None)\<close>.\<close>

abbreviation dict_pop :: "'k \<Rightarrow> ('k, 'v) dict \<Rightarrow> ('k, 'v) dict" where
  "dict_pop \<equiv> AList.delete"

abbreviation dict_keys :: "('k, 'v) dict \<Rightarrow> 'k list" where
  "dict_keys d \<equiv> map fst d"

abbreviation dict_values :: "('k, 'v) dict \<Rightarrow> 'v list" where
  "dict_values d \<equiv> map snd d"

definition wf_dict :: "('k, 'v) dict \<Rightarrow> bool" where
  "wf_dict d \<longleftrightarrow> distinct (dict_keys d)"

text \<open>\<open>d.get(k, default)\<close>.\<close>

definition dict_get_or :: "('k, 'v) dict \<Rightarrow> 'k \<Rightarrow> 'v \<Rightarrow> 'v" where
  "dict_get_or d k v = (case map_of d k of None \<Rightarrow> v | Some w \<Rightarrow> w)"

text \<open>\<open>d.setdefault(k, []).append(x)\<close>.\<close>

definition dict_append :: "'k \<Rightarrow> 'v \<Rightarrow> ('k, 'v list) dict \<Rightarrow> ('k, 'v list) dict" where
  "dict_append k x d = dict_set k (dict_get_or d k [] @ [x]) d"

lemma wf_dict_Nil [simp, intro]: "wf_dict []"
  by (simp add: wf_dict_def)

lemma wf_dict_set [simp, intro]: "wf_dict d \<Longrightarrow> wf_dict (dict_set k v d)"
  by (simp add: wf_dict_def distinct_update)

lemma wf_dict_pop [simp, intro]: "wf_dict d \<Longrightarrow> wf_dict (dict_pop k d)"
  by (simp add: wf_dict_def distinct_delete)

lemma wf_dict_append [simp, intro]: "wf_dict d \<Longrightarrow> wf_dict (dict_append k x d)"
  by (simp add: dict_append_def)

lemma dict_get_set [dict_simps]: "map_of (dict_set k v d) k' = (if k' = k then Some v else map_of d k')"
  by (simp add: update_conv')

lemma dict_get_pop [dict_simps]: "map_of (dict_pop k d) k' = (if k' = k then None else map_of d k')"
  by (simp add: delete_conv')

lemma dict_get_or_append [dict_simps]:
  "dict_get_or (dict_append k x d) k' v =
     (if k' = k then dict_get_or d k [] @ [x] else dict_get_or d k' v)"
  by (simp add: dict_get_or_def dict_append_def dict_simps)

lemma dict_pop_missing [simp]: "map_of d k = None \<Longrightarrow> dict_pop k d = d"
  by (simp add: map_of_eq_None_iff)

lemma wf_dict_map_of: "wf_dict d \<Longrightarrow> (k, v) \<in> set d \<longleftrightarrow> map_of d k = Some v"
  by (simp add: wf_dict_def)

lemma wf_dict_values_iff:
  "wf_dict d \<Longrightarrow> v \<in> set (dict_values d) \<longleftrightarrow> (\<exists>k. map_of d k = Some v)"
  by (force simp: wf_dict_map_of [symmetric])

lemma dict_set_fresh:
  assumes "map_of d k = None"
  shows "dict_set k v d = d @ [(k, v)]"
  using assms by (induction d) (auto split: if_splits)

lemma set_dict_pop: "set (dict_pop k d) = {p \<in> set d. fst p \<noteq> k}"
  by (auto simp: AList.delete_eq)

lemma set_dict_set:
  "wf_dict d \<Longrightarrow> set (dict_set k v d) = insert (k, v) {p \<in> set d. fst p \<noteq> k}"
  by (induction d) (auto simp: wf_dict_def image_iff)

lemma length_dict_pop:
  assumes "wf_dict d" "map_of d k = Some v"
  shows "Suc (length (dict_pop k d)) = length d"
  using assms
proof (induction d)
  case (Cons p d)
  then show ?case
    by (cases p) (auto simp: wf_dict_def dest: map_of_eq_None_iff [THEN iffD2])
qed simp

lemma length_dict_set_fresh:
  "map_of d k = None \<Longrightarrow> length (dict_set k v d) = Suc (length d)"
  by (simp add: dict_set_fresh)

text \<open>\<open>{f(x): x for x in xs}\<close>\<close>

lemma fold_dict_set_get:
  assumes "distinct (map f xs)"
  shows "map_of (fold (\<lambda>x. dict_set (f x) x) xs []) k = Some x \<longleftrightarrow> x \<in> set xs \<and> f x = k"
  using assms
proof (induction xs rule: rev_induct)
  case (snoc y xs)
  have "x = y" if "x \<in> set (xs @ [y])" "f x = f y" using that snoc.prems by (auto simp: image_iff)
  then show ?case using snoc by (cases "k = f y") (auto simp: dict_simps)
qed simp

text \<open>\<open>for x in xs: d.setdefault(f(x), []).append(x)\<close> from the empty dictionary.\<close>

definition group_by :: "('a \<Rightarrow> 'k) \<Rightarrow> 'a list \<Rightarrow> ('k, 'a list) dict" where
  "group_by f xs = fold (\<lambda>x d. dict_append (f x) x d) xs []"

lemma group_by_snoc [simp]: "group_by f (xs @ [x]) = dict_append (f x) x (group_by f xs)"
  by (simp add: group_by_def)

lemma group_by_Nil [simp]: "group_by f [] = []"
  by (simp add: group_by_def)

lemma wf_group_by [simp, intro]: "wf_dict (group_by f xs)"
  by (induction xs rule: rev_induct) simp_all

lemma dict_get_or_group_by [dict_simps]: "dict_get_or (group_by f xs) k [] = filter (\<lambda>x. f x = k) xs"
proof (induction xs rule: rev_induct)
  case Nil
  then show ?case by (simp add: dict_get_or_def)
next
  case (snoc x xs)
  then show ?case by (auto simp: dict_get_or_append)
qed

lemma dict_keys_append: "set (dict_keys (dict_append k x d)) = insert k (set (dict_keys d))"
  by (simp add: dict_append_def dom_update)

lemma dict_keys_group_by [dict_simps]: "set (dict_keys (group_by f xs)) = f ` set xs"
  by (induction xs rule: rev_induct) (simp_all add: dict_keys_append del: set_map)

lemma dict_get_or_map:
  assumes "g [] = []"
  shows "dict_get_or (map (\<lambda>(k, v). (k, g v)) d) k [] = g (dict_get_or d k [])"
  using assms by (induction d) (auto simp: dict_get_or_def)

lemma map_of_keyed [dict_simps]:
  "map_of (map (\<lambda>k. (k, f k)) ks) k = (if k \<in> set ks then Some (f k) else None)"
  by (induction ks) auto

lemma distinct_concat_map:
  assumes "distinct xs" "\<And>c. c \<in> set xs \<Longrightarrow> distinct (f c)"
    and "\<And>a b. a \<in> set xs \<Longrightarrow> b \<in> set xs \<Longrightarrow> a \<noteq> b \<Longrightarrow> set (f a) \<inter> set (f b) = {}"
  shows "distinct (concat (map f xs))"
  using assms
proof (induction xs)
  case (Cons x xs)
  then have "set (f x) \<inter> set (concat (map f xs)) = {}" by fastforce
  then show ?case using Cons by simp
qed simp

section \<open>Sorted tuples\<close>

text \<open>\<open>tuple(sorted({...}))\<close> over the elements of a list.\<close>

definition sorted_set :: "'a::linorder list \<Rightarrow> 'a list" where
  "sorted_set xs = sort (remdups xs)"

lemma set_sorted_set [simp, keyed_simps]: "set (sorted_set xs) = set xs"
  by (simp add: sorted_set_def)

lemma distinct_sorted_set [simp, keyed_simps]: "distinct (sorted_set xs)"
  by (simp add: sorted_set_def)

lemma sorted_sorted_set [simp, keyed_simps]: "sorted (sorted_set xs)"
  by (simp add: sorted_set_def)

lemma sorted_set_cong: "set xs = set ys \<Longrightarrow> sorted_set xs = sorted_set ys"
  by (rule sorted_distinct_set_unique) simp_all

lemma sorted_set_id [keyed_simps]: "sorted xs \<Longrightarrow> distinct xs \<Longrightarrow> sorted_set xs = xs"
  by (rule sorted_distinct_set_unique) simp_all

lemma sorted_set_Nil [simp]: "sorted_set [] = []"
  by (simp add: sorted_set_def)

lemma sorted_set_eq_Nil [simp]: "sorted_set xs = [] \<longleftrightarrow> xs = []"
  using set_sorted_set [of xs] by (metis set_empty sorted_set_Nil)

text \<open>
  A sort by a key that is injective on the elements is a canonical form of the multiset, so it
  forgets the order of the input.
\<close>

lemma sort_key_canonical:
  assumes "mset xs = mset ys" and "inj_on f (set xs)"
  shows "sort_key f xs = sort_key f ys"
  by (rule sort_key_inj_key_eq) (use assms in simp_all)

section \<open>Text\<close>

text \<open>\<open>str.isspace\<close> on code points below 256.\<close>

definition is_space :: "char \<Rightarrow> bool" where
  "is_space c = (let n = (of_char c :: nat)
     in 9 \<le> n \<and> n \<le> 13 \<or> 28 \<le> n \<and> n \<le> 32 \<or> n = 133 \<or> n = 160)"

definition lstrip :: "string \<Rightarrow> string" where
  "lstrip s = dropWhile is_space s"

definition strip :: "string \<Rightarrow> string" where
  "strip s = rev (lstrip (rev (lstrip s)))"

text \<open>\<open>str.isdigit\<close>: the decimal digits and the superscripts of Latin-1; false for the empty text.\<close>

definition is_digit_char :: "char \<Rightarrow> bool" where
  "is_digit_char c = (let n = (of_char c :: nat)
     in 48 \<le> n \<and> n \<le> 57 \<or> n = 178 \<or> n = 179 \<or> n = 185)"

definition isdigit :: "string \<Rightarrow> bool" where
  "isdigit s \<longleftrightarrow> s \<noteq> [] \<and> list_all is_digit_char s"

text \<open>\<open>s.split(c)\<close>, which never returns the empty list, and \<open>c.join(parts)\<close>.\<close>

fun split_on :: "char \<Rightarrow> string \<Rightarrow> string list" where
  "split_on c [] = [[]]"
| "split_on c (x # xs) =
     (if x = c then [] # split_on c xs
      else (case split_on c xs of [] \<Rightarrow> [[x]] | p # ps \<Rightarrow> (x # p) # ps))"

fun join_with :: "string \<Rightarrow> string list \<Rightarrow> string" where
  "join_with sep [] = []"
| "join_with sep [s] = s"
| "join_with sep (s # t # ts) = s @ sep @ join_with sep (t # ts)"

text \<open>\<open>s.partition(c)\<close>: the text before the first separator and, if it occurs, the text after it.\<close>

fun partition_on :: "char \<Rightarrow> string \<Rightarrow> string \<times> string option" where
  "partition_on c [] = ([], None)"
| "partition_on c (x # xs) =
     (if x = c then ([], Some xs)
      else (case partition_on c xs of (a, b) \<Rightarrow> (x # a, b)))"

text \<open>The decimal rendering of a natural number, and its zero-padded form \<open>f"{n:04d}"\<close>.\<close>

fun show_nat :: "nat \<Rightarrow> string" where
  "show_nat n = (if n < 10 then [char_of (48 + n)] else show_nat (n div 10) @ [char_of (48 + n mod 10)])"

declare show_nat.simps [simp del]

definition pad4 :: "string \<Rightarrow> string" where
  "pad4 s = replicate (4 - length s) (CHR ''0'') @ s"

definition read_digit :: "char \<Rightarrow> nat" where
  "read_digit c = of_char c - 48"

definition read_nat :: "string \<Rightarrow> nat" where
  "read_nat s = foldl (\<lambda>n c. 10 * n + read_digit c) 0 s"

text \<open>\<open>repr\<close> of a text, with the quote Python chooses and its escapes below code point 256.\<close>

definition hex_digit :: "nat \<Rightarrow> char" where
  "hex_digit n = (if n < 10 then char_of (48 + n) else char_of (87 + n))"

definition repr_char :: "char \<Rightarrow> char \<Rightarrow> string" where
  "repr_char q c = (let n = (of_char c :: nat)
     in if c = q \<or> n = 92 then [CHR 0x5C, c]
        else if n = 10 then [CHR 0x5C, CHR ''n'']
        else if n = 13 then [CHR 0x5C, CHR ''r'']
        else if n = 9 then [CHR 0x5C, CHR ''t'']
        else if n < 32 \<or> 127 \<le> n \<and> n \<le> 160 \<or> n = 173
          then [CHR 0x5C, CHR ''x'', hex_digit (n div 16), hex_digit (n mod 16)]
        else [c])"

definition py_repr :: "string \<Rightarrow> string" where
  "py_repr s = (let q = (if CHR 0x27 \<in> set s \<and> CHR 0x22 \<notin> set s then CHR 0x22 else CHR 0x27)
     in q # concat (map (repr_char q) s) @ [q])"

lemma split_on_not_Nil [simp, text_simps]: "split_on c s \<noteq> []"
  by (induction s) (auto split: list.splits)

lemma join_split_on [text_simps]: "join_with [c] (split_on c s) = s"
proof (induction s)
  case (Cons x xs)
  obtain p ps where "split_on c xs = p # ps"
    by (cases "split_on c xs") simp_all
  with Cons show ?case by (cases ps) auto
qed simp

lemma split_on_no_sep: "t \<in> set (split_on c s) \<Longrightarrow> c \<notin> set t"
proof (induction s arbitrary: t)
  case (Cons x xs)
  then show ?case by (cases "split_on c xs") (auto split: if_splits)
qed simp

lemma split_on_single [text_simps]: "c \<notin> set s \<Longrightarrow> split_on c s = [s]"
  by (induction s) auto

lemma split_on_append_sep [text_simps]: "c \<notin> set s \<Longrightarrow> split_on c (s @ c # t) = s # split_on c t"
  by (induction s) auto

lemma partition_on_None [text_simps]: "c \<notin> set s \<Longrightarrow> partition_on c s = (s, None)"
  by (induction s) auto

lemma partition_on_Some [text_simps]: "c \<notin> set s \<Longrightarrow> partition_on c (s @ c # t) = (s, Some t)"
  by (induction s) auto

lemma read_nat_append: "read_nat (s @ [c]) = 10 * read_nat s + read_digit c"
  by (simp add: read_nat_def)

lemma read_digit_char_of: "n < 10 \<Longrightarrow> read_digit (char_of (48 + n)) = n"
  by (simp add: read_digit_def)

lemma read_nat_show_nat [text_simps]: "read_nat (show_nat n) = n"
proof (induction n rule: show_nat.induct)
  case (1 n)
  show ?case
  proof (cases "n < 10")
    case True
    then show ?thesis
      by (simp add: show_nat.simps [of n] read_nat_def read_digit_char_of)
  next
    case False
    with 1 show ?thesis
      by (simp add: show_nat.simps [of n] read_nat_append read_digit_char_of)
  qed
qed

lemma read_nat_pad4 [text_simps]: "read_nat (pad4 s) = read_nat s"
proof -
  have "foldl (\<lambda>n c. 10 * n + read_digit c) 0 (replicate k (CHR ''0'')) = 0" for k
    by (induction k) (simp_all add: read_digit_def)
  then show ?thesis by (simp add: pad4_def read_nat_def)
qed

lemma show_nat_inj [text_simps]: "show_nat m = show_nat n \<longleftrightarrow> m = n"
  by (metis read_nat_show_nat)

lemma pad4_show_nat_inj [text_simps]: "pad4 (show_nat m) = pad4 (show_nat n) \<longleftrightarrow> m = n"
  by (metis read_nat_show_nat read_nat_pad4)

end
