(* ===== verification/Errors.thy ===== *)
theory Errors
  imports Prelude
begin

text \<open>
  The typed error model of \<open>core/errors.py\<close>. One constructor per error class the modelled
  components raise, carrying the summary message of the raise (the structured \<open>context\<close>
  keywords are diagnostic payload and are carried only where a caller reads them back).
  Errors raised by code the harness only calls (plugin callbacks, handlers, context managers) are
  \<open>PyException\<close>, \<open>PyCancelled\<close> or \<open>PyBaseException\<close>: the first two handler
  clauses of Python, \<open>except Exception\<close> and \<open>except BaseException\<close>, tell them apart.
\<close>

datatype py_exn =
    PyException string string
  | PyCancelled
  | PyBaseException string string
  | ScopeClosedError string
  | EffectCleanupError string "cleanup_failure list"
  | PluginLoadError string
  | PluginSetupError string "cleanup_failure list"
  | PluginContractError string
  | PluginCycleError string
  | CapabilityAmbiguous string
  | CapabilityNotFound string
  | CapabilityVersionMismatch string
  | HarnessStateError string
  | ConfigurationError string
  | HookExecutionError string
  | PolicyDenied string
  | BudgetExceeded string
  | ToolNotFound string
  | ToolExecutionError string
  | AgentNotFound string
  | AgentRetired string
  | GenerationConflictError string
  | UnknownLeaseError string
  | ReplayMismatch string
  | FormatError string string
and cleanup_failure = CleanupFailure (cf_description: string) (cf_error: py_exn)

text \<open>\<open>isinstance(error, Exception)\<close>: every Chassis error is one; cancellation is not.\<close>

fun is_exception :: "py_exn \<Rightarrow> bool" where
  "is_exception PyCancelled = False"
| "is_exception (PyBaseException _ _) = False"
| "is_exception _ = True"

type_synonym 'a result = "py_exn + 'a"

definition bind_result :: "'a result \<Rightarrow> ('a \<Rightarrow> 'b result) \<Rightarrow> 'b result" where
  "bind_result r f = (case r of Inl e \<Rightarrow> Inl e | Inr x \<Rightarrow> f x)"

lemma bind_result_simps [simp]:
  "bind_result (Inl e) f = Inl e"
  "bind_result (Inr x) f = f x"
  by (simp_all add: bind_result_def)

lemma bind_result_eq_Inr:
  "bind_result r f = Inr y \<longleftrightarrow> (\<exists>x. r = Inr x \<and> f x = Inr y)"
  by (cases r) simp_all

text \<open>Left-to-right evaluation of a fallible function over a list, stopping at the first error.\<close>

fun map_result :: "('a \<Rightarrow> 'b result) \<Rightarrow> 'a list \<Rightarrow> 'b list result" where
  "map_result f [] = Inr []"
| "map_result f (x # xs) =
     (case f x of Inl e \<Rightarrow> Inl e
      | Inr y \<Rightarrow> (case map_result f xs of Inl e \<Rightarrow> Inl e | Inr ys \<Rightarrow> Inr (y # ys)))"

lemma map_result_Inr:
  "map_result f xs = Inr ys \<longleftrightarrow> list_all2 (\<lambda>x y. f x = Inr y) xs ys"
proof (induction xs arbitrary: ys)
  case (Cons x xs)
  then show ?case
    by (cases "f x"; cases "map_result f xs") (auto simp: list_all2_Cons1)
qed auto

lemma map_result_cong [fundef_cong]:
  assumes "xs = ys" "\<And>x. x \<in> set ys \<Longrightarrow> f x = g x"
  shows "map_result f xs = map_result g ys"
proof -
  have "map_result f ys = map_result g ys" using assms(2) by (induction ys) (simp_all cong del: sum.case_cong_weak)
  then show ?thesis using assms(1) by simp
qed

lemma bind_result_cong [fundef_cong]:
  assumes "r = s" "\<And>x. s = Inr x \<Longrightarrow> f x = g x"
  shows "bind_result r f = bind_result s g"
  using assms by (cases s) simp_all

end
