(* ===== verification/Scope.thy ===== *)
theory Scope
  imports Errors
begin

text \<open>
  Scoped ownership of reversible effects (\<open>core/scope.py\<close>).

  A scope owns disposers (cleanup callbacks, entered context managers, child scopes), a diagnostic
  record per effect, background tasks and the failures recorded while tearing down. Scopes live in
  a store indexed by their identity; fresh identities (\<open>uuid4\<close>) come from a counter. The code a
  disposer runs belongs to registries, plugins or users: it is an argument \<open>run\<close> that acts on
  an environment \<open>'w\<close> and may raise. How an awaited task ends is an argument \<open>tasks\<close>.

  Closing is one function with fuel that recurses into child scopes; \<open>None\<close> means that the
  call does not return (no fuel, or a disposer that awaits the close it is part of).
\<close>

section \<open>State\<close>

datatype scope_state = SCOPE_OPEN | SCOPE_CLOSING | SCOPE_CLOSED

type_synonym sid = nat

record effect_record =
  fx_effect_id :: nat
  fx_kind :: string
  fx_description :: string
  fx_scope_id :: sid

datatype 'f disposer = CallCleanup 'f | ExitContext 'f | CloseChild sid

type_synonym 'f handler = "effect_record \<times> 'f disposer"

record 'f scope =
  sc_name :: string
  sc_parent :: "sid option"
  sc_state :: scope_state
  sc_stack :: "'f handler list"
  sc_effects :: "(nat, effect_record) dict"
  sc_children :: "sid list"
  sc_tasks :: "(nat, string) dict"
  sc_failures :: "cleanup_failure list"
  sc_close_task :: "py_exn option option"
  sc_stragglers :: "(nat \<times> string) list"

record ('f, 'w) sys =
  sy_scopes :: "sid \<Rightarrow> 'f scope option"
  sy_next :: nat
  sy_world :: 'w

type_synonym 'w callback = "'w \<Rightarrow> py_exn option \<times> 'w"

datatype task_result = TaskCancelled | TaskFinished | TaskFailed py_exn | TaskStillRunning

definition new_scope :: "string \<Rightarrow> sid option \<Rightarrow> 'f scope" where
  "new_scope name parent =
     \<lparr>sc_name = name, sc_parent = parent, sc_state = SCOPE_OPEN, sc_stack = [], sc_effects = [],
      sc_children = [], sc_tasks = [], sc_failures = [], sc_close_task = None, sc_stragglers = []\<rparr>"

definition put_scope :: "sid \<Rightarrow> 'f scope \<Rightarrow> ('f, 'w) sys \<Rightarrow> ('f, 'w) sys" where
  "put_scope s sc \<sigma> = \<sigma>\<lparr>sy_scopes := (sy_scopes \<sigma>)(s \<mapsto> sc)\<rparr>"

text \<open>\<open>Scope(name)\<close> with no parent, at a fresh identity.\<close>

definition scope_init :: "string \<Rightarrow> ('f, 'w) sys \<Rightarrow> sid \<times> ('f, 'w) sys" where
  "scope_init name \<sigma> =
     (sy_next \<sigma>, put_scope (sy_next \<sigma>) (new_scope name None) (\<sigma>\<lparr>sy_next := Suc (sy_next \<sigma>)\<rparr>))"

definition update_scope :: "sid \<Rightarrow> ('f scope \<Rightarrow> 'f scope) \<Rightarrow> ('f, 'w) sys \<Rightarrow> ('f, 'w) sys" where
  "update_scope s g \<sigma> =
     \<sigma>\<lparr>sy_scopes := (\<lambda>t. if t = s then map_option g (sy_scopes \<sigma> s) else sy_scopes \<sigma> t)\<rparr>"

definition scope_is_open :: "'f scope \<Rightarrow> bool" where
  "scope_is_open sc \<longleftrightarrow> sc_state sc = SCOPE_OPEN"

definition fully_disposed :: "'f scope \<Rightarrow> bool" where
  "fully_disposed sc \<longleftrightarrow>
     sc_state sc = SCOPE_CLOSED \<and> sc_stragglers sc = [] \<and> sc_effects sc = [] \<and> sc_failures sc = []"

definition scope_assert_open :: "'f scope \<Rightarrow> string \<Rightarrow> unit result" where
  "scope_assert_open sc operation =
     (if sc_state sc \<noteq> SCOPE_OPEN then Inl (ScopeClosedError (''cannot '' @ operation)) else Inr ())"

section \<open>Effects\<close>

definition register_effect ::
  "sid \<Rightarrow> string \<Rightarrow> string \<Rightarrow> ('f, 'w) sys \<Rightarrow> effect_record result \<times> ('f, 'w) sys" where
  "register_effect s kind description \<sigma> =
     (case sy_scopes \<sigma> s of
        None \<Rightarrow> (Inl (ScopeClosedError ''unknown scope''), \<sigma>)
      | Some sc \<Rightarrow>
          (case scope_assert_open sc (''register effect '' @ description) of
             Inl e \<Rightarrow> (Inl e, \<sigma>)
           | Inr _ \<Rightarrow>
               let record = \<lparr>fx_effect_id = sy_next \<sigma>, fx_kind = kind,
                             fx_description = description, fx_scope_id = s\<rparr>
               in (Inr record,
                   put_scope s (sc\<lparr>sc_effects := dict_set (fx_effect_id record) record (sc_effects sc)\<rparr>)
                     (\<sigma>\<lparr>sy_next := Suc (sy_next \<sigma>)\<rparr>))))"

definition release_effect :: "sid \<Rightarrow> effect_record \<Rightarrow> ('f, 'w) sys \<Rightarrow> ('f, 'w) sys" where
  "release_effect s record \<sigma> =
     update_scope s (\<lambda>sc. sc\<lparr>sc_effects := dict_pop (fx_effect_id record) (sc_effects sc)\<rparr>) \<sigma>"

definition push_exit :: "sid \<Rightarrow> 'f handler \<Rightarrow> ('f, 'w) sys \<Rightarrow> ('f, 'w) sys" where
  "push_exit s h \<sigma> = update_scope s (\<lambda>sc. sc\<lparr>sc_stack := h # sc_stack sc\<rparr>) \<sigma>"

definition scope_cleanup ::
  "sid \<Rightarrow> string \<Rightarrow> 'f disposer \<Rightarrow> string \<Rightarrow> ('f, 'w) sys \<Rightarrow> effect_record result \<times> ('f, 'w) sys" where
  "scope_cleanup s description d kind \<sigma> =
     (case register_effect s kind description \<sigma> of
        (Inl e, \<sigma>') \<Rightarrow> (Inl e, \<sigma>')
      | (Inr record, \<sigma>') \<Rightarrow> (Inr record, push_exit s (record, d) \<sigma>'))"

definition enter_context ::
  "sid \<Rightarrow> string \<Rightarrow> 'w callback \<Rightarrow> 'f \<Rightarrow> ('f, 'w) sys \<Rightarrow> unit result \<times> ('f, 'w) sys" where
  "enter_context s cm_type enter exit \<sigma> =
     (case register_effect s ''context'' (''context '' @ cm_type) \<sigma> of
        (Inl e, \<sigma>') \<Rightarrow> (Inl e, \<sigma>')
      | (Inr record, \<sigma>') \<Rightarrow>
          (case enter (sy_world \<sigma>') of
             (Some e, w) \<Rightarrow> (Inl e, release_effect s record (\<sigma>'\<lparr>sy_world := w\<rparr>))
           | (None, w) \<Rightarrow> (Inr (), push_exit s (record, ExitContext exit) (\<sigma>'\<lparr>sy_world := w\<rparr>))))"

text \<open>
  \<open>enter_async_context\<close> awaits between its two halves: other code, a close included, may run
  between \<open>enter_async_begin\<close> and \<open>enter_async_resume\<close>.
\<close>

definition enter_async_begin ::
  "sid \<Rightarrow> string \<Rightarrow> ('f, 'w) sys \<Rightarrow> effect_record result \<times> ('f, 'w) sys" where
  "enter_async_begin s cm_type \<sigma> = register_effect s ''context'' (''async context '' @ cm_type) \<sigma>"

definition enter_async_resume ::
  "('f \<Rightarrow> 'w callback) \<Rightarrow> sid \<Rightarrow> effect_record \<Rightarrow> py_exn option \<Rightarrow> 'f \<Rightarrow> ('f, 'w) sys
     \<Rightarrow> unit result \<times> ('f, 'w) sys" where
  "enter_async_resume run s record outcome exit \<sigma> =
     (case outcome of
        Some e \<Rightarrow> (Inl e, release_effect s record \<sigma>)
      | None \<Rightarrow>
          (case sy_scopes \<sigma> s of
             None \<Rightarrow> (Inl (ScopeClosedError ''unknown scope''), \<sigma>)
           | Some sc \<Rightarrow>
               (if sc_state sc \<noteq> SCOPE_OPEN then
                  (case run exit (sy_world \<sigma>) of
                     (Some e, w) \<Rightarrow> (Inl e, (release_effect s record \<sigma>)\<lparr>sy_world := w\<rparr>)
                   | (None, w) \<Rightarrow> (map_sum id (\<lambda>_. ()) (scope_assert_open sc ''enter async context''),
                                  (release_effect s record \<sigma>)\<lparr>sy_world := w\<rparr>))
                else (Inr (), push_exit s (record, ExitContext exit) \<sigma>))))"

definition scope_child :: "sid \<Rightarrow> string \<Rightarrow> ('f, 'w) sys \<Rightarrow> sid result \<times> ('f, 'w) sys" where
  "scope_child s name \<sigma> =
     (case sy_scopes \<sigma> s of
        None \<Rightarrow> (Inl (ScopeClosedError ''unknown scope''), \<sigma>)
      | Some sc \<Rightarrow>
          (case scope_assert_open sc (''create child scope '' @ name) of
             Inl e \<Rightarrow> (Inl e, \<sigma>)
           | Inr _ \<Rightarrow>
               let c = sy_next \<sigma>;
                   \<sigma>1 = put_scope c (new_scope name (Some s)) (\<sigma>\<lparr>sy_next := Suc c\<rparr>);
                   \<sigma>2 = put_scope s (sc\<lparr>sc_children := sc_children sc @ [c]\<rparr>) \<sigma>1
               in (case scope_cleanup s (''child scope '' @ name) (CloseChild c) ''child'' \<sigma>2 of
                     (Inl e, \<sigma>3) \<Rightarrow> (Inl e, \<sigma>3)
                   | (Inr _, \<sigma>3) \<Rightarrow> (Inr c, \<sigma>3))))"

section \<open>Tasks\<close>

definition record_failure :: "sid \<Rightarrow> string \<Rightarrow> py_exn \<Rightarrow> ('f, 'w) sys \<Rightarrow> ('f, 'w) sys" where
  "record_failure s description e \<sigma> =
     update_scope s (\<lambda>sc. sc\<lparr>sc_failures := sc_failures sc @ [CleanupFailure description e]\<rparr>) \<sigma>"

definition create_task :: "sid \<Rightarrow> string option \<Rightarrow> ('f, 'w) sys \<Rightarrow> nat result \<times> ('f, 'w) sys" where
  "create_task s name \<sigma> =
     (case sy_scopes \<sigma> s of
        None \<Rightarrow> (Inl (ScopeClosedError ''unknown scope''), \<sigma>)
      | Some sc \<Rightarrow>
          (case scope_assert_open sc ''create task'' of
             Inl e \<Rightarrow> (Inl e, \<sigma>)
           | Inr _ \<Rightarrow>
               let t = sy_next \<sigma>;
                   default = sc_name sc @ ''#'' @ show_nat (length (sc_tasks sc) + 1);
                   task_name = (case name of None \<Rightarrow> default | Some n \<Rightarrow> if n = [] then default else n)
               in (Inr t, put_scope s (sc\<lparr>sc_tasks := dict_set t task_name (sc_tasks sc)\<rparr>)
                            (\<sigma>\<lparr>sy_next := Suc t\<rparr>))))"

definition on_task_done :: "sid \<Rightarrow> nat \<times> string \<Rightarrow> task_result \<Rightarrow> ('f, 'w) sys \<Rightarrow> ('f, 'w) sys" where
  "on_task_done s task r \<sigma> =
     (let \<sigma>' = update_scope s (\<lambda>sc. sc\<lparr>sc_tasks := dict_pop (fst task) (sc_tasks sc)\<rparr>) \<sigma>
      in case r of
           TaskFailed e \<Rightarrow> record_failure s (''task '' @ snd task) e \<sigma>'
         | _ \<Rightarrow> \<sigma>')"

definition stop_tasks :: "(nat \<Rightarrow> task_result) \<Rightarrow> sid \<Rightarrow> ('f, 'w) sys \<Rightarrow> ('f, 'w) sys" where
  "stop_tasks tasks s \<sigma> =
     (case sy_scopes \<sigma> s of
        None \<Rightarrow> \<sigma>
      | Some sc \<Rightarrow>
          let pending = sc_tasks sc
          in if pending = [] then \<sigma>
             else
               let finished = filter (\<lambda>t. tasks (fst t) \<noteq> TaskStillRunning) pending;
                   stragglers = sort_key snd (filter (\<lambda>t. tasks (fst t) = TaskStillRunning) pending);
                   \<sigma>1 = fold (\<lambda>t. on_task_done s t (tasks (fst t))) finished \<sigma>;
                   \<sigma>2 = update_scope s (\<lambda>sc. sc\<lparr>sc_stragglers := stragglers\<rparr>) \<sigma>1
               in fold (\<lambda>t. record_failure s (''task '' @ snd t)
                          (PyException ''TimeoutError'' ''task did not stop within scope close''))
                    stragglers \<sigma>2)"

section \<open>Teardown\<close>

text \<open>
  \<open>__aexit__\<close> of the two wrappers: the record is released first, an \<open>Exception\<close> is recorded,
  anything else propagates to the exit stack.
\<close>

definition handler_exit ::
  "(sid \<Rightarrow> ('f, 'w) sys \<Rightarrow> (py_exn option \<times> ('f, 'w) sys) option) \<Rightarrow> ('f \<Rightarrow> 'w callback) \<Rightarrow> sid
     \<Rightarrow> 'f handler \<Rightarrow> ('f, 'w) sys \<Rightarrow> (py_exn option \<times> ('f, 'w) sys) option" where
  "handler_exit close run s h \<sigma> =
     (let \<sigma>0 = release_effect s (fst h) \<sigma>;
          call = (\<lambda>f. case run f (sy_world \<sigma>0) of (r, w) \<Rightarrow> Some (r, \<sigma>0\<lparr>sy_world := w\<rparr>));
          outcome = (case snd h of CallCleanup f \<Rightarrow> call f | ExitContext f \<Rightarrow> call f
                     | CloseChild c \<Rightarrow> close c \<sigma>0)
      in case outcome of
           None \<Rightarrow> None
         | Some (None, \<sigma>1) \<Rightarrow> Some (None, \<sigma>1)
         | Some (Some e, \<sigma>1) \<Rightarrow>
             if is_exception e then Some (None, record_failure s (fx_description (fst h)) e \<sigma>1)
             else Some (Some e, \<sigma>1))"

text \<open>
  \<open>AsyncExitStack.aclose\<close>: pop until empty, newest first; an error that escapes an entry does not
  stop the unwind, and the last one is raised at the end.
\<close>

fun unwind ::
  "(sid \<Rightarrow> ('f, 'w) sys \<Rightarrow> (py_exn option \<times> ('f, 'w) sys) option) \<Rightarrow> ('f \<Rightarrow> 'w callback) \<Rightarrow> sid
     \<Rightarrow> 'f handler list \<Rightarrow> py_exn option \<Rightarrow> ('f, 'w) sys \<Rightarrow> (py_exn option \<times> ('f, 'w) sys) option" where
  "unwind close run s [] pending \<sigma> = Some (pending, \<sigma>)"
| "unwind close run s (h # hs) pending \<sigma> =
     (case handler_exit close run s h (update_scope s (\<lambda>sc. sc\<lparr>sc_stack := hs\<rparr>) \<sigma>) of
        None \<Rightarrow> None
      | Some (r, \<sigma>') \<Rightarrow> unwind close run s hs (case r of None \<Rightarrow> pending | Some e \<Rightarrow> Some e) \<sigma>')"

definition close_error :: "'f scope \<Rightarrow> py_exn option" where
  "close_error sc =
     (if sc_failures sc = [] then None else Some (EffectCleanupError (sc_name sc) (sc_failures sc)))"

fun scope_aclose ::
  "nat \<Rightarrow> (nat \<Rightarrow> task_result) \<Rightarrow> ('f \<Rightarrow> 'w callback) \<Rightarrow> sid \<Rightarrow> ('f, 'w) sys
     \<Rightarrow> (py_exn option \<times> ('f, 'w) sys) option" where
  "scope_aclose 0 tasks run s \<sigma> = None"
| "scope_aclose (Suc fuel) tasks run s \<sigma> =
     (case sy_scopes \<sigma> s of
        None \<Rightarrow> None
      | Some sc \<Rightarrow>
          (case sc_close_task sc of
             Some r \<Rightarrow> Some (r, \<sigma>)
           | None \<Rightarrow>
               (case sc_state sc of
                  SCOPE_CLOSED \<Rightarrow> Some (None, \<sigma>)
                | SCOPE_CLOSING \<Rightarrow> None
                | SCOPE_OPEN \<Rightarrow>
                    (let \<sigma>1 = stop_tasks tasks s (update_scope s (\<lambda>sc. sc\<lparr>sc_state := SCOPE_CLOSING\<rparr>) \<sigma>)
                     in case unwind (scope_aclose fuel tasks run) run s (sc_stack sc) None \<sigma>1 of
                          None \<Rightarrow> None
                        | Some (raised, \<sigma>2) \<Rightarrow>
                            let \<sigma>3 = (case raised of None \<Rightarrow> \<sigma>2
                                      | Some e \<Rightarrow> record_failure s ''effect unwind'' e \<sigma>2);
                                \<sigma>4 = update_scope s (\<lambda>sc. sc\<lparr>sc_state := SCOPE_CLOSED\<rparr>) \<sigma>3;
                                error = (case sy_scopes \<sigma>4 s of None \<Rightarrow> None | Some sc' \<Rightarrow> close_error sc')
                            in Some (error, update_scope s (\<lambda>sc. sc\<lparr>sc_close_task := Some error\<rparr>) \<sigma>4)))))"

section \<open>The store\<close>

lemma update_scope_simps [simp]:
  "sy_scopes (update_scope s g \<sigma>) t =
     (if t = s then map_option g (sy_scopes \<sigma> s) else sy_scopes \<sigma> t)"
  "sy_next (update_scope s g \<sigma>) = sy_next \<sigma>"
  "sy_world (update_scope s g \<sigma>) = sy_world \<sigma>"
  by (simp_all add: update_scope_def)

lemma put_scope_simps [simp]:
  "sy_scopes (put_scope s sc \<sigma>) = (sy_scopes \<sigma>)(s \<mapsto> sc)"
  "sy_next (put_scope s sc \<sigma>) = sy_next \<sigma>"
  "sy_world (put_scope s sc \<sigma>) = sy_world \<sigma>"
  by (simp_all add: put_scope_def)

definition parent_of :: "('f, 'w) sys \<Rightarrow> sid \<Rightarrow> sid option" where
  "parent_of \<sigma> t = (case sy_scopes \<sigma> t of None \<Rightarrow> None | Some sc \<Rightarrow> sc_parent sc)"

text \<open>\<open>descends par a t\<close>: scope \<open>a\<close> is \<open>t\<close> or an ancestor of \<open>t\<close>.\<close>

inductive descends :: "(sid \<Rightarrow> sid option) \<Rightarrow> sid \<Rightarrow> sid \<Rightarrow> bool" for par a where
  descends_refl [simp]: "descends par a a"
| descends_step: "par t = Some u \<Longrightarrow> descends par a u \<Longrightarrow> descends par a t"

definition parents_older :: "(sid \<Rightarrow> sid option) \<Rightarrow> bool" where
  "parents_older par \<longleftrightarrow> (\<forall>t p. par t = Some p \<longrightarrow> p < t)"

lemma descends_le:
  assumes "descends par a t" "parents_older par"
  shows "a \<le> t"
  using assms
proof (induction rule: descends.induct)
  case (descends_step t u)
  then have "a \<le> u" "u < t" by (auto simp: parents_older_def)
  then show ?case by simp
qed simp

lemma descends_linear:
  assumes "descends par a t" "descends par b t"
  shows "descends par a b \<or> descends par b a"
  using assms
proof (induction rule: descends.induct)
  case (descends_step t u)
  from descends_step.prems show ?case
  proof (cases rule: descends.cases)
    case descends_refl
    with descends_step.hyps show ?thesis by (auto intro: descends.descends_step)
  next
    case (descends_step u')
    with \<open>par t = Some u\<close> \<open>descends par b u \<Longrightarrow> descends par a b \<or> descends par b a\<close>
    show ?thesis by simp
  qed
qed simp

lemma descends_child:
  assumes "descends par c t" "par c = Some s"
  shows "descends par s t"
  using assms
proof (induction rule: descends.induct)
  case descends_refl
  then show ?case by (rule descends_step) simp
next
  case (descends_step t u)
  then show ?case by (auto intro: descends.descends_step)
qed

lemma child_not_above: "parents_older par \<Longrightarrow> par c = Some s \<Longrightarrow> \<not> descends par c s"
  by (meson descends_le leD parents_older_def)

lemma descends_parent: "descends par c d \<Longrightarrow> c \<noteq> d \<Longrightarrow> par d = Some s \<Longrightarrow> descends par c s"
  by (erule descends.cases) simp_all

lemma siblings_disjoint:
  assumes "parents_older par" "par c = Some s" "par d = Some s" "c \<noteq> d" "descends par c t"
  shows "\<not> descends par d t"
proof
  assume "descends par d t"
  with assms(5) have "descends par c d \<or> descends par d c" by (rule descends_linear)
  with assms(2-4) have "descends par c s \<or> descends par d s"
    by (metis descends_parent)
  with assms(1-3) show False using child_not_above by blast
qed

definition stack_children :: "'f handler list \<Rightarrow> sid list" where
  "stack_children hs = concat (map (\<lambda>h. case snd h of CloseChild c \<Rightarrow> [c] | _ \<Rightarrow> []) hs)"

lemma stack_children_simps [simp]:
  "stack_children [] = []"
  "stack_children ((r, CloseChild c) # hs) = c # stack_children hs"
  "stack_children ((r, CallCleanup f) # hs) = stack_children hs"
  "stack_children ((r, ExitContext f) # hs) = stack_children hs"
  by (simp_all add: stack_children_def)

text \<open>
  A scope at rest: it is open or closed, a closed one has unwound its stack and kept the result of
  its close, and the child scopes on the stack are distinct children of it.
\<close>

definition scope_ok :: "('f, 'w) sys \<Rightarrow> sid \<Rightarrow> 'f scope \<Rightarrow> bool" where
  "scope_ok \<sigma> s sc \<longleftrightarrow>
     sc_state sc \<noteq> SCOPE_CLOSING
     \<and> (sc_state sc = SCOPE_OPEN \<longrightarrow> sc_close_task sc = None)
     \<and> (sc_state sc = SCOPE_CLOSED \<longrightarrow> sc_close_task sc \<noteq> None \<and> sc_stack sc = [])
     \<and> distinct (stack_children (sc_stack sc))
     \<and> (\<forall>c \<in> set (stack_children (sc_stack sc)). parent_of \<sigma> c = Some s)"

definition store_ok :: "('f, 'w) sys \<Rightarrow> bool" where
  "store_ok \<sigma> \<longleftrightarrow> parents_older (parent_of \<sigma>)
     \<and> (\<forall>s sc. sy_scopes \<sigma> s = Some sc \<longrightarrow> s < sy_next \<sigma> \<and> scope_ok \<sigma> s sc)"

definition subtree_ok :: "('f, 'w) sys \<Rightarrow> sid \<Rightarrow> bool" where
  "subtree_ok \<sigma> s \<longleftrightarrow>
     (\<forall>t. descends (parent_of \<sigma>) s t \<longrightarrow>
        (\<exists>sc. sy_scopes \<sigma> t = Some sc \<and> t < sy_next \<sigma> \<and> scope_ok \<sigma> t sc))"

lemma parent_of_Some: "parent_of \<sigma> c = Some s \<Longrightarrow> \<exists>cc. sy_scopes \<sigma> c = Some cc"
  by (auto simp: parent_of_def split: option.splits)

lemma subtree_okI:
  assumes "store_ok \<sigma>" "sy_scopes \<sigma> s = Some sc"
  shows "subtree_ok \<sigma> s"
  unfolding subtree_ok_def
proof (intro allI impI)
  fix t assume "descends (parent_of \<sigma>) s t"
  then obtain tc where "sy_scopes \<sigma> t = Some tc"
    using assms(2) parent_of_Some by (cases rule: descends.cases) blast+
  with assms(1) show "\<exists>sc. sy_scopes \<sigma> t = Some sc \<and> t < sy_next \<sigma> \<and> scope_ok \<sigma> t sc"
    by (auto simp: store_ok_def)
qed

lemma subtree_ok_child:
  "subtree_ok \<sigma> s \<Longrightarrow> parent_of \<sigma> c = Some s \<Longrightarrow> subtree_ok \<sigma> c"
  by (auto simp: subtree_ok_def intro: descends_child)

section \<open>What a teardown step may touch\<close>

definition frame :: "sid set \<Rightarrow> ('f, 'w) sys \<Rightarrow> ('f, 'w) sys \<Rightarrow> bool" where
  "frame A \<sigma> \<sigma>' \<longleftrightarrow> sy_next \<sigma>' = sy_next \<sigma> \<and> parent_of \<sigma>' = parent_of \<sigma>
     \<and> (\<forall>t. t \<notin> A \<longrightarrow> sy_scopes \<sigma>' t = sy_scopes \<sigma> t)"

text \<open>What teardown keeps of the record of the scope being torn down.\<close>

definition kept :: "'f scope \<Rightarrow> 'f scope \<Rightarrow> bool" where
  "kept sc sc' \<longleftrightarrow> sc_name sc' = sc_name sc \<and> sc_state sc' = sc_state sc
     \<and> sc_close_task sc' = sc_close_task sc \<and> sc_parent sc' = sc_parent sc
     \<and> (\<exists>fs. sc_failures sc' = sc_failures sc @ fs)"

named_theorems teardown_intros "frame and kept facts of the teardown steps"

lemma frame_refl [simp, teardown_intros]: "frame A \<sigma> \<sigma>"
  by (simp add: frame_def)

lemma frame_trans: "frame A \<sigma> \<sigma>' \<Longrightarrow> frame A \<sigma>' \<sigma>'' \<Longrightarrow> frame A \<sigma> \<sigma>''"
  by (simp add: frame_def)

lemma frame_mono: "frame A \<sigma> \<sigma>' \<Longrightarrow> A \<subseteq> B \<Longrightarrow> frame B \<sigma> \<sigma>'"
  by (auto simp: frame_def)

lemma frame_update [teardown_intros]:
  "(\<And>sc. sc_parent (g sc) = sc_parent sc) \<Longrightarrow> s \<in> A \<Longrightarrow> frame A \<sigma> (update_scope s g \<sigma>)"
  by (auto simp: frame_def parent_of_def fun_eq_iff split: option.splits)

lemma frame_world [simp]: "frame A \<sigma> (\<sigma>'\<lparr>sy_world := w\<rparr>) = frame A \<sigma> \<sigma>'"
  by (simp add: frame_def parent_of_def fun_eq_iff)

lemma kept_refl [simp, teardown_intros]: "kept sc sc"
  by (simp add: kept_def)

lemma kept_trans: "kept sc sc' \<Longrightarrow> kept sc' sc'' \<Longrightarrow> kept sc sc''"
  by (auto simp: kept_def)

lemma frame_record_failure [teardown_intros]: "s \<in> A \<Longrightarrow> frame A \<sigma> (record_failure s d e \<sigma>)"
  by (simp add: record_failure_def frame_update)

lemma frame_release_effect [teardown_intros]: "s \<in> A \<Longrightarrow> frame A \<sigma> (release_effect s r \<sigma>)"
  by (simp add: release_effect_def frame_update)

lemma frame_on_task_done [teardown_intros]: "s \<in> A \<Longrightarrow> frame A \<sigma> (on_task_done s t r \<sigma>)"
  by (cases r)
     (auto simp: on_task_done_def Let_def intro!: frame_update
           intro: frame_trans [OF _ frame_record_failure])

lemma frame_fold: "(\<And>x \<sigma>. frame A \<sigma> (f x \<sigma>)) \<Longrightarrow> frame A \<sigma> (fold f xs \<sigma>)"
  by (induction xs arbitrary: \<sigma>) (auto intro: frame_trans)

lemma frame_stop_tasks [teardown_intros]:
  assumes "s \<in> A"
  shows "frame A \<sigma> (stop_tasks tasks s \<sigma>)"
proof -
  have upd: "frame A \<sigma> (update_scope s (\<lambda>sc. sc\<lparr>sc_stragglers := xs\<rparr>) \<sigma>)" for xs
    and \<sigma> :: "('a, 'b) sys"
    using assms by (simp add: frame_update)
  have "frame A \<sigma> (fold (\<lambda>t. record_failure s (D t) E) xs
      (update_scope s (\<lambda>sc. sc\<lparr>sc_stragglers := zs\<rparr>) (fold (\<lambda>t. on_task_done s t (R t)) ys \<sigma>)))"
    for D :: "nat \<times> string \<Rightarrow> string" and E xs zs R ys and \<sigma> :: "('a, 'b) sys"
    by (rule frame_trans [OF frame_trans [OF frame_fold upd] frame_fold])
       (rule frame_on_task_done [OF assms] frame_record_failure [OF assms])+
  then show ?thesis
    by (auto simp: stop_tasks_def Let_def split: option.split)
qed

text \<open>Scope \<open>s\<close> keeps its teardown obligations: same stack and effects, failures only grow.\<close>

definition keeps_scope :: "sid \<Rightarrow> ('f, 'w) sys \<Rightarrow> ('f, 'w) sys \<Rightarrow> bool" where
  "keeps_scope s \<sigma> \<sigma>' \<longleftrightarrow> sy_world \<sigma>' = sy_world \<sigma>
     \<and> (\<forall>sc. sy_scopes \<sigma> s = Some sc \<longrightarrow>
          (\<exists>sc'. sy_scopes \<sigma>' s = Some sc' \<and> kept sc sc' \<and> sc_stack sc' = sc_stack sc
              \<and> sc_effects sc' = sc_effects sc))"

lemma keeps_scope_refl [simp]: "keeps_scope s \<sigma> \<sigma>"
  by (simp add: keeps_scope_def)

lemma keeps_scope_trans: "keeps_scope s \<sigma> \<sigma>' \<Longrightarrow> keeps_scope s \<sigma>' \<sigma>'' \<Longrightarrow> keeps_scope s \<sigma> \<sigma>''"
proof -
  assume 1: "keeps_scope s \<sigma> \<sigma>'" and 2: "keeps_scope s \<sigma>' \<sigma>''"
  have "\<exists>sc''. sy_scopes \<sigma>'' s = Some sc'' \<and> kept sc sc'' \<and> sc_stack sc'' = sc_stack sc
      \<and> sc_effects sc'' = sc_effects sc" if "sy_scopes \<sigma> s = Some sc" for sc
  proof -
    from 1 that obtain sc' where sc': "sy_scopes \<sigma>' s = Some sc'" "kept sc sc'"
      "sc_stack sc' = sc_stack sc" "sc_effects sc' = sc_effects sc"
      by (auto simp: keeps_scope_def)
    from 2 sc'(1) obtain sc'' where "sy_scopes \<sigma>'' s = Some sc''" "kept sc' sc''"
      "sc_stack sc'' = sc_stack sc'" "sc_effects sc'' = sc_effects sc'"
      by (auto simp: keeps_scope_def)
    with sc' show ?thesis by (auto intro: kept_trans)
  qed
  with 1 2 show ?thesis by (simp add: keeps_scope_def)
qed

lemma keeps_scope_update:
  "(\<And>sc. kept sc (g sc) \<and> sc_stack (g sc) = sc_stack sc \<and> sc_effects (g sc) = sc_effects sc)
     \<Longrightarrow> keeps_scope s \<sigma> (update_scope s g \<sigma>)"
  by (auto simp: keeps_scope_def)

lemma keeps_record_failure [teardown_intros]: "keeps_scope s \<sigma> (record_failure s d e \<sigma>)"
  unfolding record_failure_def by (rule keeps_scope_update) (simp add: kept_def)

lemma keeps_on_task_done [teardown_intros]: "keeps_scope s \<sigma> (on_task_done s t r \<sigma>)"
proof -
  have "keeps_scope s \<sigma> (update_scope s (\<lambda>sc. sc\<lparr>sc_tasks := dict_pop (fst t) (sc_tasks sc)\<rparr>) \<sigma>)"
    by (rule keeps_scope_update) (simp add: kept_def)
  then show ?thesis
    by (cases r) (auto simp: on_task_done_def Let_def
        intro: keeps_scope_trans [OF _ keeps_record_failure])
qed

lemma keeps_fold: "(\<And>x \<sigma>. keeps_scope s \<sigma> (f x \<sigma>)) \<Longrightarrow> keeps_scope s \<sigma> (fold f xs \<sigma>)"
  by (induction xs arbitrary: \<sigma>) (auto intro: keeps_scope_trans)

lemma keeps_stop_tasks [teardown_intros]: "keeps_scope s \<sigma> (stop_tasks tasks s \<sigma>)"
proof -
  have upd: "keeps_scope s \<sigma> (update_scope s (\<lambda>sc. sc\<lparr>sc_stragglers := xs\<rparr>) \<sigma>)" for xs
    and \<sigma> :: "('a, 'b) sys"
    by (rule keeps_scope_update) (simp add: kept_def)
  have "keeps_scope s \<sigma> (fold (\<lambda>t. record_failure s (D t) E) xs
      (update_scope s (\<lambda>sc. sc\<lparr>sc_stragglers := zs\<rparr>) (fold (\<lambda>t. on_task_done s t (R t)) ys \<sigma>)))"
    for D :: "nat \<times> string \<Rightarrow> string" and E xs zs R ys and \<sigma> :: "('a, 'b) sys"
    by (rule keeps_scope_trans [OF keeps_scope_trans [OF keeps_fold upd] keeps_fold])
       (rule keeps_on_task_done keeps_record_failure)+
  then show ?thesis
    by (auto simp: stop_tasks_def Let_def split: option.split)
qed

section \<open>The abstract teardown\<close>

text \<open>
  The specification of a close: the disposers of a scope in reverse registration order, with the
  plan of a child scope in the place of the child. A scope that was closed before has no plan.
\<close>

definition handler_plan :: "(sid \<Rightarrow> 'f list) \<Rightarrow> 'f handler \<Rightarrow> 'f list" where
  "handler_plan child h =
     (case snd h of CallCleanup f \<Rightarrow> [f] | ExitContext f \<Rightarrow> [f] | CloseChild c \<Rightarrow> child c)"

fun teardown_plan :: "nat \<Rightarrow> ('f, 'w) sys \<Rightarrow> sid \<Rightarrow> 'f list" where
  "teardown_plan 0 \<sigma> s = []"
| "teardown_plan (Suc fuel) \<sigma> s =
     (case sy_scopes \<sigma> s of
        None \<Rightarrow> []
      | Some sc \<Rightarrow>
          if sc_close_task sc \<noteq> None then []
          else concat (map (handler_plan (teardown_plan fuel \<sigma>)) (sc_stack sc)))"

definition run_all :: "('f \<Rightarrow> 'w callback) \<Rightarrow> 'f list \<Rightarrow> 'w \<Rightarrow> 'w" where
  "run_all run fs w = fold (\<lambda>f w. snd (run f w)) fs w"

lemma run_all_simps [simp]:
  "run_all run [] w = w"
  "run_all run (f # fs) w = run_all run fs (snd (run f w))"
  "run_all run (fs @ gs) w = run_all run gs (run_all run fs w)"
  by (simp_all add: run_all_def)

lemma handler_children_ok:
  assumes "subtree_ok \<sigma> s" "sy_scopes \<sigma> s = Some sc" "c \<in> set (stack_children (sc_stack sc))"
  shows "parent_of \<sigma> c = Some s"
  using assms by (auto simp: subtree_ok_def scope_ok_def dest!: spec [of _ s])

lemma stack_children_plan_cong:
  assumes "\<And>c. c \<in> set (stack_children hs) \<Longrightarrow> p c = q c"
  shows "map (handler_plan p) hs = map (handler_plan q) hs"
  using assms
proof (induction hs)
  case (Cons h hs)
  then show ?case by (cases h; cases "snd h") (auto simp: handler_plan_def)
qed simp

lemma scope_ok_cong: "parent_of \<sigma>' = parent_of \<sigma> \<Longrightarrow> scope_ok \<sigma>' s sc = scope_ok \<sigma> s sc"
  by (simp add: scope_ok_def)

lemma subtree_ok_frame:
  assumes "frame A \<sigma> \<sigma>'" "subtree_ok \<sigma> c" "\<And>t. descends (parent_of \<sigma>) c t \<Longrightarrow> t \<notin> A"
  shows "subtree_ok \<sigma>' c"
  unfolding subtree_ok_def
proof (intro allI impI)
  fix t assume "descends (parent_of \<sigma>') c t"
  then have t: "descends (parent_of \<sigma>) c t" using assms(1) by (simp add: frame_def)
  then obtain sc where "sy_scopes \<sigma> t = Some sc" "t < sy_next \<sigma>" "scope_ok \<sigma> t sc"
    using assms(2) unfolding subtree_ok_def by blast
  then show "\<exists>sc. sy_scopes \<sigma>' t = Some sc \<and> t < sy_next \<sigma>' \<and> scope_ok \<sigma>' t sc"
    using assms(1) assms(3) [OF t] scope_ok_cong [of \<sigma>' \<sigma>] by (simp add: frame_def)
qed

lemma teardown_plan_frame:
  assumes "frame A \<sigma> \<sigma>'" "subtree_ok \<sigma> c" "\<And>t. descends (parent_of \<sigma>) c t \<Longrightarrow> t \<notin> A"
  shows "teardown_plan fuel \<sigma>' c = teardown_plan fuel \<sigma> c"
  using assms
proof (induction fuel arbitrary: c)
  case (Suc fuel)
  have eq: "sy_scopes \<sigma>' c = sy_scopes \<sigma> c"
    using Suc.prems(1,3) by (simp add: frame_def)
  have "teardown_plan fuel \<sigma>' d = teardown_plan fuel \<sigma> d"
    if "sy_scopes \<sigma> c = Some sc" "d \<in> set (stack_children (sc_stack sc))" for d sc
  proof (rule Suc.IH [OF Suc.prems(1)])
    have d: "parent_of \<sigma> d = Some c" using handler_children_ok [OF Suc.prems(2) that] .
    show "subtree_ok \<sigma> d" using subtree_ok_child [OF Suc.prems(2) d] .
    show "t \<notin> A" if "descends (parent_of \<sigma>) d t" for t
      using Suc.prems(3) descends_child [OF that d] .
  qed
  then have "map (handler_plan (teardown_plan fuel \<sigma>')) (sc_stack sc)
      = map (handler_plan (teardown_plan fuel \<sigma>)) (sc_stack sc)" if "sy_scopes \<sigma> c = Some sc" for sc
    using that by (intro stack_children_plan_cong) blast
  then show ?case
    by (cases "sy_scopes \<sigma> c") (simp_all add: eq del: map_eq_conv)
qed simp

text \<open>What closing a scope achieves.\<close>

definition closes ::
  "nat \<Rightarrow> ('f \<Rightarrow> 'w callback) \<Rightarrow> sid \<Rightarrow> ('f, 'w) sys \<Rightarrow> py_exn option \<Rightarrow> ('f, 'w) sys \<Rightarrow> bool" where
  "closes fuel run s \<sigma> r \<sigma>' \<longleftrightarrow>
     frame {t. descends (parent_of \<sigma>) s t} \<sigma> \<sigma>'
     \<and> sy_world \<sigma>' = run_all run (teardown_plan fuel \<sigma> s) (sy_world \<sigma>)
     \<and> subtree_ok \<sigma>' s
     \<and> (\<forall>sc. sy_scopes \<sigma> s = Some sc \<longrightarrow>
          (\<exists>sc'. sy_scopes \<sigma>' s = Some sc' \<and> sc_state sc' = SCOPE_CLOSED \<and> sc_close_task sc' = Some r
             \<and> (sc_close_task sc = None \<longrightarrow> r = close_error sc'
                  \<and> (\<exists>fs. sc_failures sc' = sc_failures sc @ fs)
                  \<and> sc_effects sc' = fold (\<lambda>h. dict_pop (fx_effect_id (fst h))) (sc_stack sc) (sc_effects sc))))"

lemma handler_exit_closes:
  assumes close: "\<And>c. snd h = CloseChild c \<Longrightarrow>
       \<exists>r \<sigma>'. close c (release_effect s (fst h) \<sigma>) = Some (r, \<sigma>')
         \<and> closes fuel run c (release_effect s (fst h) \<sigma>) r \<sigma>'"
    and ok: "\<And>c. snd h = CloseChild c \<Longrightarrow> parent_of \<sigma> c = Some s \<and> subtree_ok \<sigma> c"
    and older: "parents_older (parent_of \<sigma>)"
    and s: "sy_scopes \<sigma> s = Some sc"
  shows "\<exists>r \<sigma>'. handler_exit close run s h \<sigma> = Some (r, \<sigma>')
     \<and> frame ({s} \<union> {t. \<exists>c \<in> set (stack_children [h]). descends (parent_of \<sigma>) c t}) \<sigma> \<sigma>'
     \<and> sy_world \<sigma>' = run_all run (handler_plan (teardown_plan fuel \<sigma>) h) (sy_world \<sigma>)
     \<and> (\<forall>c \<in> set (stack_children [h]). subtree_ok \<sigma>' c)
     \<and> (\<exists>sc'. sy_scopes \<sigma>' s = Some sc' \<and> kept sc sc' \<and> sc_stack sc' = sc_stack sc
           \<and> sc_effects sc' = dict_pop (fx_effect_id (fst h)) (sc_effects sc))"
proof -
  let ?\<sigma>0 = "release_effect s (fst h) \<sigma>"
  let ?sc0 = "sc\<lparr>sc_effects := dict_pop (fx_effect_id (fst h)) (sc_effects sc)\<rparr>"
  have s0: "sy_scopes ?\<sigma>0 s = Some ?sc0" "sy_world ?\<sigma>0 = sy_world \<sigma>"
    using s by (simp_all add: release_effect_def)
  have k0: "kept sc ?sc0" by (simp add: kept_def)
  have f0: "frame {s} \<sigma> ?\<sigma>0" by (rule frame_release_effect) simp
  have call_fr: "frame {s} \<sigma> (record_failure s d e (?\<sigma>0\<lparr>sy_world := w\<rparr>))" for d e w
    by (rule frame_trans [of _ _ "?\<sigma>0\<lparr>sy_world := w\<rparr>"]) (simp_all add: f0 frame_record_failure)
  have call_keep: "\<exists>sc'. sy_scopes (record_failure s d e (?\<sigma>0\<lparr>sy_world := w\<rparr>)) s = Some sc'
       \<and> kept sc sc' \<and> sc_stack sc' = sc_stack sc \<and> sc_effects sc' = sc_effects ?sc0" for d e w
    using s0 by (simp add: record_failure_def kept_def)
  have call_world: "sy_world (record_failure s d e \<sigma>1) = sy_world \<sigma>1" for d e and \<sigma>1 :: "('a, 'b) sys"
    by (simp add: record_failure_def)
  have call: ?thesis if "snd h = CallCleanup f \<or> snd h = ExitContext f" for f
  proof -
    obtain r w where rw: "run f (sy_world \<sigma>) = (r, w)" by (cases "run f (sy_world \<sigma>)")
    have none: "set (stack_children [h]) = {}" using that by (cases h) auto
    have plan: "handler_plan (teardown_plan fuel \<sigma>) h = [f]"
      using that by (auto simp: handler_plan_def)
    show ?thesis
    proof (cases r)
      case None
      then show ?thesis
        using that rw f0 s0 k0 by (auto simp: handler_exit_def Let_def none plan)
    next
      case (Some e)
      then show ?thesis
        using that rw f0 s0 k0 call_fr call_keep
        by (cases "is_exception e") (auto simp: handler_exit_def Let_def none plan call_world)
    qed
  qed
  show ?thesis
  proof (cases "snd h")
    case (CloseChild c)
    have c: "parent_of \<sigma> c = Some s" "subtree_ok \<sigma> c" using ok [OF CloseChild] by simp_all
    have above: "\<not> descends (parent_of \<sigma>) c s" using child_not_above [OF older c(1)] .
    have out: "t \<notin> {s}" if "descends (parent_of \<sigma>) c t" for t using above that by auto
    from close [OF CloseChild] obtain r \<sigma>' where
      cl: "close c ?\<sigma>0 = Some (r, \<sigma>')" "closes fuel run c ?\<sigma>0 r \<sigma>'" by blast
    have p0: "parent_of ?\<sigma>0 = parent_of \<sigma>" using f0 by (simp add: frame_def)
    have plan0: "teardown_plan fuel ?\<sigma>0 c = teardown_plan fuel \<sigma> c"
      using teardown_plan_frame [OF f0 c(2) out] .
    let ?A = "{s} \<union> {t. descends (parent_of \<sigma>) c t}"
    have fr: "frame ?A \<sigma> \<sigma>'"
      using cl(2) p0 by (auto simp: closes_def intro: frame_trans frame_mono [OF f0] frame_mono)
    have s': "sy_scopes \<sigma>' s = Some ?sc0"
      using cl(2) above s0 p0 by (simp add: closes_def frame_def)
    have w': "sy_world \<sigma>' = run_all run (teardown_plan fuel \<sigma> c) (sy_world \<sigma>)"
      using cl(2) plan0 s0 by (simp add: closes_def)
    have ok': "subtree_ok \<sigma>' c" using cl(2) by (simp add: closes_def)
    have sets: "set (stack_children [h]) = {c}" using CloseChild by (cases h) simp
    have fin: "frame ?A \<sigma> (record_failure s d e \<sigma>')" for d e
      using fr frame_record_failure by (blast intro: frame_trans)
    have ok'': "subtree_ok (record_failure s d e \<sigma>') c" for d e
      by (rule subtree_ok_frame [OF frame_record_failure [of s "{s}"] ok'])
         (use fr above in \<open>auto simp: frame_def\<close>)
    have keep'': "\<exists>sc'. sy_scopes (record_failure s d e \<sigma>') s = Some sc' \<and> kept sc sc'
         \<and> sc_stack sc' = sc_stack sc \<and> sc_effects sc' = sc_effects ?sc0" for d e
      using s' by (simp add: record_failure_def kept_def)
    show ?thesis
    proof (cases r)
      case None
      then show ?thesis
        using cl(1) fr s' w' ok' k0
        by (simp add: handler_exit_def Let_def CloseChild handler_plan_def sets)
    next
      case (Some e)
      show ?thesis
      proof (cases "is_exception e")
        case True
        then show ?thesis
          using cl(1) fin ok'' keep'' w' Some
          by (simp add: handler_exit_def Let_def CloseChild handler_plan_def sets record_failure_def)
      next
        case False
        then show ?thesis
          using cl(1) fr s' w' ok' k0 Some
          by (simp add: handler_exit_def Let_def CloseChild handler_plan_def sets)
      qed
    qed
  qed (use call in blast)+
qed

lemma stack_children_Cons: "stack_children (h # hs) = stack_children [h] @ stack_children hs"
  by (simp add: stack_children_def)

lemma unwind_closes:
  assumes close: "\<And>c \<sigma>. subtree_ok \<sigma> c \<Longrightarrow> parents_older (parent_of \<sigma>) \<Longrightarrow> sy_next \<sigma> \<le> c + fuel \<Longrightarrow>
       \<exists>r \<sigma>'. close c \<sigma> = Some (r, \<sigma>') \<and> closes fuel run c \<sigma> r \<sigma>'"
    and "parents_older (parent_of \<sigma>)" and "sy_next \<sigma> \<le> s + Suc fuel"
    and "sy_scopes \<sigma> s = Some sc" and "sc_stack sc = hs" and "distinct (stack_children hs)"
    and "\<forall>c \<in> set (stack_children hs). parent_of \<sigma> c = Some s \<and> subtree_ok \<sigma> c"
  shows "\<exists>r \<sigma>'. unwind close run s hs p \<sigma> = Some (r, \<sigma>')
     \<and> frame ({s} \<union> {t. \<exists>c \<in> set (stack_children hs). descends (parent_of \<sigma>) c t}) \<sigma> \<sigma>'
     \<and> sy_world \<sigma>' = run_all run (concat (map (handler_plan (teardown_plan fuel \<sigma>)) hs)) (sy_world \<sigma>)
     \<and> (\<forall>c \<in> set (stack_children hs). subtree_ok \<sigma>' c)
     \<and> (\<exists>sc'. sy_scopes \<sigma>' s = Some sc' \<and> kept sc sc' \<and> sc_stack sc' = []
           \<and> sc_effects sc' = fold (\<lambda>h. dict_pop (fx_effect_id (fst h))) hs (sc_effects sc))"
  using assms(2-)
proof (induction hs arbitrary: \<sigma> sc p)
  case Nil
  then show ?case by simp
next
  case (Cons h hs)
  let ?pop = "\<lambda>sc. sc\<lparr>sc_stack := hs\<rparr>"
  let ?\<sigma>1 = "update_scope s ?pop \<sigma>"
  let ?C = "\<lambda>hs. {t. \<exists>c \<in> set (stack_children hs). descends (parent_of \<sigma>) c t}"
  have f1: "frame {s} \<sigma> ?\<sigma>1" by (rule frame_update) simp_all
  have p1: "parent_of ?\<sigma>1 = parent_of \<sigma>" and n1: "sy_next ?\<sigma>1 = sy_next \<sigma>"
    using f1 by (simp_all add: frame_def)
  have par: "parent_of \<sigma> c = Some s" and sub: "subtree_ok \<sigma> c"
    if "c \<in> set (stack_children (h # hs))" for c using Cons.prems(6) that by blast+
  have below: "t \<noteq> s" if "c \<in> set (stack_children (h # hs))" "descends (parent_of \<sigma>) c t" for c t
    using child_not_above [OF Cons.prems(1) par [OF that(1)]] that(2) by blast
  have sub1: "subtree_ok ?\<sigma>1 c" if "c \<in> set (stack_children (h # hs))" for c
    using subtree_ok_frame [OF f1 sub [OF that]] below that by blast
  have plan1: "teardown_plan fuel ?\<sigma>1 c = teardown_plan fuel \<sigma> c"
    if "c \<in> set (stack_children (h # hs))" for c
    using teardown_plan_frame [OF f1 sub [OF that]] below that by blast
  have hc: "snd h = CloseChild c \<Longrightarrow> c \<in> set (stack_children (h # hs))" for c
    by (cases h) simp
  have step: "\<exists>r \<sigma>'. handler_exit close run s h ?\<sigma>1 = Some (r, \<sigma>')
     \<and> frame ({s} \<union> {t. \<exists>c \<in> set (stack_children [h]). descends (parent_of ?\<sigma>1) c t}) ?\<sigma>1 \<sigma>'
     \<and> sy_world \<sigma>' = run_all run (handler_plan (teardown_plan fuel ?\<sigma>1) h) (sy_world ?\<sigma>1)
     \<and> (\<forall>c \<in> set (stack_children [h]). subtree_ok \<sigma>' c)
     \<and> (\<exists>sc'. sy_scopes \<sigma>' s = Some sc' \<and> kept (?pop sc) sc' \<and> sc_stack sc' = sc_stack (?pop sc)
           \<and> sc_effects sc' = dict_pop (fx_effect_id (fst h)) (sc_effects (?pop sc)))"
  proof (rule handler_exit_closes)
    fix c assume h: "snd h = CloseChild c"
    let ?\<sigma>0 = "release_effect s (fst h) ?\<sigma>1"
    have f0: "frame {s} ?\<sigma>1 ?\<sigma>0" by (rule frame_release_effect) simp
    have "subtree_ok ?\<sigma>0 c"
      using subtree_ok_frame [OF f0 sub1 [OF hc [OF h]]] below [OF hc [OF h]] p1 by auto
    moreover have "s < c"
      using par [OF hc [OF h]] Cons.prems(1) by (auto simp: parents_older_def)
    ultimately show "\<exists>r \<sigma>'. close c ?\<sigma>0 = Some (r, \<sigma>') \<and> closes fuel run c ?\<sigma>0 r \<sigma>'"
      using f0 p1 n1 Cons.prems(1,2) by (intro close) (simp_all add: frame_def)
    show "parent_of ?\<sigma>1 c = Some s \<and> subtree_ok ?\<sigma>1 c"
      using par sub1 p1 hc [OF h] by simp
  qed (use Cons.prems(1,3) p1 in simp_all)
  then obtain r2 \<sigma>2 sc2 where h2: "handler_exit close run s h ?\<sigma>1 = Some (r2, \<sigma>2)"
    and f2: "frame ({s} \<union> ?C [h]) ?\<sigma>1 \<sigma>2"
    and w2: "sy_world \<sigma>2 = run_all run (handler_plan (teardown_plan fuel \<sigma>) h) (sy_world \<sigma>)"
    and ok2: "\<forall>c \<in> set (stack_children [h]). subtree_ok \<sigma>2 c"
    and s2: "sy_scopes \<sigma>2 s = Some sc2" "kept (?pop sc) sc2" "sc_stack sc2 = hs"
      "sc_effects sc2 = dict_pop (fx_effect_id (fst h)) (sc_effects sc)"
  proof -
    have "handler_plan (teardown_plan fuel ?\<sigma>1) h = handler_plan (teardown_plan fuel \<sigma>) h"
      using plan1 hc by (auto simp: handler_plan_def split: disposer.split)
    with step that p1 show ?thesis by auto
  qed
  have f12: "frame ({s} \<union> ?C [h]) \<sigma> \<sigma>2"
    using frame_mono [OF f1] f2 by (blast intro: frame_trans)
  have p2: "parent_of \<sigma>2 = parent_of \<sigma>" and n2: "sy_next \<sigma>2 = sy_next \<sigma>"
    using f12 by (simp_all add: frame_def)
  have apart: "t \<notin> {s} \<union> ?C [h]" if "c \<in> set (stack_children hs)" "descends (parent_of \<sigma>) c t" for c t
    using that below [of c t] Cons.prems(5) siblings_disjoint [OF Cons.prems(1) par par]
    by (auto simp: stack_children_Cons [of h hs])
  have sub2: "subtree_ok \<sigma>2 c" if "c \<in> set (stack_children hs)" for c
    using subtree_ok_frame [OF f12 sub apart] that by (auto simp: stack_children_Cons [of h hs])
  have plan2: "teardown_plan fuel \<sigma>2 c = teardown_plan fuel \<sigma> c" if "c \<in> set (stack_children hs)" for c
    using teardown_plan_frame [OF f12 sub apart] that by (auto simp: stack_children_Cons [of h hs])
  have k2: "kept sc sc2" using s2(2) by (simp add: kept_def)
  have d2: "distinct (stack_children hs)" using Cons.prems(5) by (simp add: stack_children_Cons [of h hs])
  have c2: "\<forall>c \<in> set (stack_children hs). parent_of \<sigma>2 c = Some s \<and> subtree_ok \<sigma>2 c"
    using par sub2 p2 by (simp add: stack_children_Cons [of h hs])
  have a2: "parents_older (parent_of \<sigma>2)" and b2: "sy_next \<sigma>2 \<le> s + Suc fuel"
    using Cons.prems(1,2) p2 n2 by simp_all
  have plans: "map (handler_plan (teardown_plan fuel \<sigma>2)) hs = map (handler_plan (teardown_plan fuel \<sigma>)) hs"
    by (rule stack_children_plan_cong) (rule plan2)
  obtain r3 \<sigma>3 sc3 where
    u3: "unwind close run s hs (case r2 of None \<Rightarrow> p | Some e \<Rightarrow> Some e) \<sigma>2 = Some (r3, \<sigma>3)"
    and f3: "frame ({s} \<union> ?C hs) \<sigma>2 \<sigma>3"
    and w3: "sy_world \<sigma>3 = run_all run (concat (map (handler_plan (teardown_plan fuel \<sigma>)) hs)) (sy_world \<sigma>2)"
    and ok3: "\<forall>c \<in> set (stack_children hs). subtree_ok \<sigma>3 c"
    and s3: "sy_scopes \<sigma>3 s = Some sc3" "kept sc2 sc3" "sc_stack sc3 = []"
      "sc_effects sc3 = fold (\<lambda>h. dict_pop (fx_effect_id (fst h))) hs (sc_effects sc2)"
    using Cons.IH [OF a2 b2 s2(1,3) d2 c2, of "case r2 of None \<Rightarrow> p | Some e \<Rightarrow> Some e"]
    unfolding p2 plans by blast
  have "subtree_ok \<sigma>3 c" if "c \<in> set (stack_children [h])" for c
  proof (rule subtree_ok_frame [OF f3])
    show "subtree_ok \<sigma>2 c" using ok2 that by blast
    show "t \<notin> {s} \<union> ?C hs" if "descends (parent_of \<sigma>2) c t" for t
      using apart [of _ t] below [of c t] that p2 \<open>c \<in> set (stack_children [h])\<close>
      by (auto simp: stack_children_Cons [of h hs])
  qed
  moreover have "frame ({s} \<union> ?C (h # hs)) \<sigma> \<sigma>3"
    by (rule frame_trans [OF frame_mono [OF f12] frame_mono [OF f3]])
       (auto simp: stack_children_Cons [of h hs])
  moreover have "kept sc sc3" using k2 s3(2) by (rule kept_trans)
  ultimately show ?case
    using h2 u3 w2 w3 ok3 s3 s2(4)
    by (auto simp: stack_children_Cons [of h hs])
qed

text \<open>The last part of \<open>_close\<close>, after the exit stack has unwound.\<close>

definition finish_close ::
  "sid \<Rightarrow> py_exn option \<Rightarrow> ('f, 'w) sys \<Rightarrow> py_exn option \<times> ('f, 'w) sys" where
  "finish_close s raised \<sigma> =
     (let \<sigma>3 = (case raised of None \<Rightarrow> \<sigma> | Some e \<Rightarrow> record_failure s ''effect unwind'' e \<sigma>);
          \<sigma>4 = update_scope s (\<lambda>sc. sc\<lparr>sc_state := SCOPE_CLOSED\<rparr>) \<sigma>3;
          error = (case sy_scopes \<sigma>4 s of None \<Rightarrow> None | Some sc' \<Rightarrow> close_error sc')
      in (error, update_scope s (\<lambda>sc. sc\<lparr>sc_close_task := Some error\<rparr>) \<sigma>4))"

lemma finish_close_frame: "s \<in> A \<Longrightarrow> frame A \<sigma> (snd (finish_close s raised \<sigma>))"
  unfolding finish_close_def Let_def
  by (cases raised)
     (auto intro!: frame_trans [OF frame_trans [OF frame_record_failure frame_update] frame_update]
        frame_trans [OF frame_update frame_update])

lemma finish_close_world: "sy_world (snd (finish_close s raised \<sigma>)) = sy_world \<sigma>"
  by (cases raised) (simp_all add: finish_close_def Let_def record_failure_def)

lemma finish_close_scope:
  assumes "sy_scopes \<sigma> s = Some sc"
  shows "\<exists>sc'. sy_scopes (snd (finish_close s raised \<sigma>)) s = Some sc' \<and> sc_state sc' = SCOPE_CLOSED
     \<and> sc_close_task sc' = Some (fst (finish_close s raised \<sigma>))
     \<and> fst (finish_close s raised \<sigma>) = close_error sc'
     \<and> (\<exists>fs. sc_failures sc' = sc_failures sc @ fs) \<and> sc_stack sc' = sc_stack sc
     \<and> sc_effects sc' = sc_effects sc"
  using assms
  by (cases raised) (simp_all add: finish_close_def Let_def record_failure_def close_error_def)

lemma scope_aclose_open:
  assumes "sy_scopes \<sigma> s = Some sc" "sc_close_task sc = None" "sc_state sc = SCOPE_OPEN"
  shows "scope_aclose (Suc fuel) tasks run s \<sigma> =
     map_option (\<lambda>(raised, \<sigma>2). finish_close s raised \<sigma>2)
       (unwind (scope_aclose fuel tasks run) run s (sc_stack sc) None
          (stop_tasks tasks s (update_scope s (\<lambda>sc. sc\<lparr>sc_state := SCOPE_CLOSING\<rparr>) \<sigma>)))"
  using assms by (simp add: finish_close_def Let_def split: option.split)

lemma subtree_split:
  assumes "descends par s t"
  shows "t = s \<or> (\<exists>c. par c = Some s \<and> descends par c t)"
  using assms
proof (induction rule: descends.induct)
  case (descends_step t u)
  then show ?case by (metis descends.descends_step descends_refl)
qed simp

lemma scope_aclose_closes:
  assumes "subtree_ok \<sigma> s" "parents_older (parent_of \<sigma>)" "sy_next \<sigma> \<le> s + fuel"
  shows "\<exists>r \<sigma>'. scope_aclose fuel tasks run s \<sigma> = Some (r, \<sigma>') \<and> closes fuel run s \<sigma> r \<sigma>'"
  using assms
proof (induction fuel arbitrary: s \<sigma>)
  case 0
  then have False by (auto simp: subtree_ok_def dest!: spec [of _ s])
  then show ?case ..
next
  case (Suc fuel)
  obtain sc where sc: "sy_scopes \<sigma> s = Some sc" "scope_ok \<sigma> s sc" "s < sy_next \<sigma>"
    using Suc.prems(1) by (auto simp: subtree_ok_def dest!: spec [of _ s])
  show ?case
  proof (cases "sc_close_task sc")
    case (Some r)
    then have "sc_state sc = SCOPE_CLOSED" using sc(2) by (cases "sc_state sc") (auto simp: scope_ok_def)
    with Some sc Suc.prems(1) show ?thesis by (simp add: closes_def)
  next
    case None
    then have op: "sc_state sc = SCOPE_OPEN" using sc(2) by (cases "sc_state sc") (auto simp: scope_ok_def)
    let ?\<sigma>0 = "update_scope s (\<lambda>sc. sc\<lparr>sc_state := SCOPE_CLOSING\<rparr>) \<sigma>"
    let ?\<sigma>1 = "stop_tasks tasks s ?\<sigma>0"
    let ?D = "{t. descends (parent_of \<sigma>) s t}"
    let ?C = "{t. \<exists>c \<in> set (stack_children (sc_stack sc)). descends (parent_of \<sigma>) c t}"
    have f0: "frame {s} \<sigma> ?\<sigma>0" by (rule frame_update) simp_all
    have f1: "frame {s} \<sigma> ?\<sigma>1" using f0 by (rule frame_trans) (rule frame_stop_tasks, simp)
    have p1: "parent_of ?\<sigma>1 = parent_of \<sigma>" "sy_next ?\<sigma>1 = sy_next \<sigma>"
      using f1 by (simp_all add: frame_def)
    obtain sc1 where sc1: "sy_scopes ?\<sigma>1 s = Some sc1" "kept (sc\<lparr>sc_state := SCOPE_CLOSING\<rparr>) sc1"
      "sc_stack sc1 = sc_stack sc" "sc_effects sc1 = sc_effects sc" and w1: "sy_world ?\<sigma>1 = sy_world \<sigma>"
      using keeps_stop_tasks [of s ?\<sigma>0 tasks] sc(1) by (auto simp: keeps_scope_def)
    have child: "parent_of \<sigma> c = Some s" "subtree_ok \<sigma> c" if "c \<in> set (stack_children (sc_stack sc))" for c
      using handler_children_ok [OF Suc.prems(1) sc(1) that] subtree_ok_child [OF Suc.prems(1)] by blast+
    have below: "t \<notin> {s}" if "c \<in> set (stack_children (sc_stack sc))" "descends (parent_of \<sigma>) c t" for c t
      using child_not_above [OF Suc.prems(2) child(1) [OF that(1)]] that(2) by blast
    have sub1: "subtree_ok ?\<sigma>1 c" if "c \<in> set (stack_children (sc_stack sc))" for c
      using subtree_ok_frame [OF f1 child(2) [OF that] below [OF that]] .
    have plans: "map (handler_plan (teardown_plan fuel ?\<sigma>1)) (sc_stack sc)
        = map (handler_plan (teardown_plan fuel \<sigma>)) (sc_stack sc)"
      using teardown_plan_frame [OF f1 child(2) below] by (intro stack_children_plan_cong)
    have "\<exists>r \<sigma>'. unwind (scope_aclose fuel tasks run) run s (sc_stack sc) None ?\<sigma>1 = Some (r, \<sigma>')
     \<and> frame ({s} \<union> {t. \<exists>c \<in> set (stack_children (sc_stack sc)). descends (parent_of ?\<sigma>1) c t}) ?\<sigma>1 \<sigma>'
     \<and> sy_world \<sigma>' = run_all run (concat (map (handler_plan (teardown_plan fuel ?\<sigma>1)) (sc_stack sc))) (sy_world ?\<sigma>1)
     \<and> (\<forall>c \<in> set (stack_children (sc_stack sc)). subtree_ok \<sigma>' c)
     \<and> (\<exists>sc'. sy_scopes \<sigma>' s = Some sc' \<and> kept sc1 sc' \<and> sc_stack sc' = []
           \<and> sc_effects sc' = fold (\<lambda>h. dict_pop (fx_effect_id (fst h))) (sc_stack sc) (sc_effects sc1))"
    proof (rule unwind_closes [OF Suc.IH])
      show "distinct (stack_children (sc_stack sc))" using sc(2) by (simp add: scope_ok_def)
    qed (use Suc.prems sc1 p1 child(1) sub1 in simp_all)
    then obtain r2 \<sigma>2 sc2 where
      u2: "unwind (scope_aclose fuel tasks run) run s (sc_stack sc) None ?\<sigma>1 = Some (r2, \<sigma>2)"
      and f2: "frame ({s} \<union> ?C) ?\<sigma>1 \<sigma>2"
      and w2: "sy_world \<sigma>2 = run_all run (concat (map (handler_plan (teardown_plan fuel \<sigma>)) (sc_stack sc))) (sy_world \<sigma>)"
      and ok2: "\<forall>c \<in> set (stack_children (sc_stack sc)). subtree_ok \<sigma>2 c"
      and sc2: "sy_scopes \<sigma>2 s = Some sc2" "kept sc1 sc2" "sc_stack sc2 = []"
        "sc_effects sc2 = fold (\<lambda>h. dict_pop (fx_effect_id (fst h))) (sc_stack sc) (sc_effects sc)"
      unfolding p1 plans w1 sc1(4) by blast
    define r3 \<sigma>3 where "r3 = fst (finish_close s r2 \<sigma>2)" and "\<sigma>3 = snd (finish_close s r2 \<sigma>2)"
    have res: "scope_aclose (Suc fuel) tasks run s \<sigma> = Some (r3, \<sigma>3)"
      using scope_aclose_open [OF sc(1) None op, of fuel tasks run] u2 by (simp add: r3_def \<sigma>3_def)
    have f23: "frame {s} \<sigma>2 \<sigma>3" unfolding \<sigma>3_def by (rule finish_close_frame) simp
    have f3: "frame ({s} \<union> ?C) \<sigma> \<sigma>3"
      by (rule frame_trans [OF frame_mono [OF f1] frame_trans [OF f2 frame_mono [OF f23]]]) simp_all
    have sub: "{s} \<union> ?C \<subseteq> ?D" using child(1) by (auto intro: descends_child)
    obtain sc3 where sc3: "sy_scopes \<sigma>3 s = Some sc3" "sc_state sc3 = SCOPE_CLOSED" "sc_stack sc3 = []"
        "sc_close_task sc3 = Some r3" "r3 = close_error sc3" "sc_effects sc3 = sc_effects sc2"
      and fs: "\<exists>fs. sc_failures sc3 = sc_failures sc2 @ fs"
      using finish_close_scope [OF sc2(1), of r2] sc2(3) by (auto simp: r3_def \<sigma>3_def)
    have "\<exists>fs. sc_failures sc3 = sc_failures sc @ fs"
      using fs sc1(2) sc2(2) by (auto simp: kept_def)
    moreover have "subtree_ok \<sigma>3 s"
      unfolding subtree_ok_def
    proof (intro allI impI)
      fix t assume "descends (parent_of \<sigma>3) s t"
      then have t: "descends (parent_of \<sigma>) s t" using f3 by (simp add: frame_def)
      have n3: "sy_next \<sigma>3 = sy_next \<sigma>" "parent_of \<sigma>3 = parent_of \<sigma>" using f3 by (simp_all add: frame_def)
      have keep: "scope_ok \<sigma>3 = scope_ok \<sigma>" using n3(2) scope_ok_cong by blast
      consider "t = s" | "t \<in> ?C" | "t \<notin> {s} \<union> ?C" by blast
      then show "\<exists>tc. sy_scopes \<sigma>3 t = Some tc \<and> t < sy_next \<sigma>3 \<and> scope_ok \<sigma>3 t tc"
      proof cases
        case 1
        then show ?thesis using sc3 sc(3) n3 by (simp add: scope_ok_def)
      next
        case 2
        then obtain c where c: "c \<in> set (stack_children (sc_stack sc))" "descends (parent_of \<sigma>) c t" by blast
        have "subtree_ok \<sigma>3 c"
          using subtree_ok_frame [OF f23, of c] ok2 c(1) below [OF c(1)] f2 p1 by (simp add: frame_def)
        then show ?thesis using c(2) n3(2) by (simp add: subtree_ok_def)
      next
        case 3
        then have "sy_scopes \<sigma>3 t = sy_scopes \<sigma> t" using f3 by (simp add: frame_def)
        then show ?thesis using Suc.prems(1) t n3 keep by (simp add: subtree_ok_def)
      qed
    qed
    moreover have "sy_world \<sigma>3 = run_all run (teardown_plan (Suc fuel) \<sigma> s) (sy_world \<sigma>)"
      using w2 sc(1) None by (simp add: \<sigma>3_def finish_close_world)
    ultimately have "closes (Suc fuel) run s \<sigma> r3 \<sigma>3"
      using sc sc2(4) sc3 None frame_mono [OF f3 sub] by (simp add: closes_def)
    with res show ?thesis by blast
  qed
qed

end
