(* ===== verification/Scope_Ops.thy ===== *)
theory Scope_Ops
  imports Scope
begin

text \<open>
  The life of a scope store: every operation of \<open>core/scope.py\<close> as one step, the invariant
  \<open>store_ok\<close> over the reachable stores, and the properties of closing a scope.
\<close>

section \<open>Steps\<close>

text \<open>A store with one open root scope.\<close>

definition root_store :: "string \<Rightarrow> 'w \<Rightarrow> ('f, 'w) sys" where
  "root_store name w = \<lparr>sy_scopes = [0 \<mapsto> new_scope name None], sy_next = 1, sy_world = w\<rparr>"

text \<open>
  One step is one uninterrupted stretch of code: an operation, the second half of an async entry,
  or a close that runs to its end. The fuel of a close is the number of identities handed out.
\<close>

inductive scope_step :: "('f \<Rightarrow> 'w callback) \<Rightarrow> ('f, 'w) sys \<Rightarrow> ('f, 'w) sys \<Rightarrow> bool" for run where
  step_register: "register_effect s kind description \<sigma> = (r, \<sigma>') \<Longrightarrow> scope_step run \<sigma> \<sigma>'"
| step_release: "scope_step run \<sigma> (release_effect s record \<sigma>)"
| step_cleanup: "scope_cleanup s description (CallCleanup f) kind \<sigma> = (r, \<sigma>') \<Longrightarrow> scope_step run \<sigma> \<sigma>'"
| step_enter: "enter_context s cm_type enter exit \<sigma> = (u, \<sigma>') \<Longrightarrow> scope_step run \<sigma> \<sigma>'"
| step_async_begin: "enter_async_begin s cm_type \<sigma> = (r, \<sigma>') \<Longrightarrow> scope_step run \<sigma> \<sigma>'"
| step_async_resume:
    "enter_async_resume run s record outcome exit \<sigma> = (u, \<sigma>') \<Longrightarrow> scope_step run \<sigma> \<sigma>'"
| step_init: "scope_init name \<sigma> = (s, \<sigma>') \<Longrightarrow> scope_step run \<sigma> \<sigma>'"
| step_child: "scope_child s name \<sigma> = (c, \<sigma>') \<Longrightarrow> scope_step run \<sigma> \<sigma>'"
| step_failure: "scope_step run \<sigma> (record_failure s description e \<sigma>)"
| step_task: "create_task s task_name \<sigma> = (t, \<sigma>') \<Longrightarrow> scope_step run \<sigma> \<sigma>'"
| step_task_done: "scope_step run \<sigma> (on_task_done s task outcome \<sigma>)"
| step_close: "scope_aclose (sy_next \<sigma>) tasks run s \<sigma> = Some (e, \<sigma>') \<Longrightarrow> scope_step run \<sigma> \<sigma>'"

inductive scope_reachable :: "('f \<Rightarrow> 'w callback) \<Rightarrow> ('f, 'w) sys \<Rightarrow> bool" for run where
  reach_root: "scope_reachable run (root_store name w)"
| reach_step: "scope_reachable run \<sigma> \<Longrightarrow> scope_step run \<sigma> \<sigma>' \<Longrightarrow> scope_reachable run \<sigma>'"

section \<open>Preservation\<close>

lemma store_ok_root: "store_ok (root_store name w)"
  by (auto simp: store_ok_def root_store_def new_scope_def parents_older_def parent_of_def
      scope_ok_def split: if_splits)

lemma parent_of_world [simp]: "parent_of (\<sigma>\<lparr>sy_world := w\<rparr>) = parent_of \<sigma>"
  by (simp add: fun_eq_iff parent_of_def)

lemma store_ok_world [simp]: "store_ok (\<sigma>\<lparr>sy_world := w\<rparr>) = store_ok \<sigma>"
  by (simp add: store_ok_def scope_ok_def)

lemma parent_of_next [simp]: "parent_of (\<sigma>\<lparr>sy_next := n\<rparr>) = parent_of \<sigma>"
  by (simp add: fun_eq_iff parent_of_def)

lemma store_ok_next:
  assumes "store_ok \<sigma>" "sy_next \<sigma> \<le> n"
  shows "store_ok (\<sigma>\<lparr>sy_next := n\<rparr>)"
  using assms by (force simp: store_ok_def scope_ok_def)

lemma parent_of_put:
  "sy_scopes \<sigma> s = Some sc \<Longrightarrow> sc_parent sc' = sc_parent sc \<Longrightarrow> parent_of (put_scope s sc' \<sigma>) = parent_of \<sigma>"
  by (simp add: fun_eq_iff parent_of_def)

text \<open>Rewriting the record of one scope keeps the store if the new record is again at rest.\<close>

lemma store_ok_put:
  assumes "store_ok \<sigma>" "sy_scopes \<sigma> s = Some sc" "sc_parent sc' = sc_parent sc"
    and "scope_ok \<sigma> s sc \<Longrightarrow> scope_ok \<sigma> s sc'"
  shows "store_ok (put_scope s sc' \<sigma>)"
proof -
  have p: "parent_of (put_scope s sc' \<sigma>) = parent_of \<sigma>"
    using assms(2,3) by (rule parent_of_put)
  have keep: "scope_ok (put_scope s sc' \<sigma>) = scope_ok \<sigma>"
    using p scope_ok_cong by blast
  show ?thesis
    using assms p by (auto simp: store_ok_def keep)
qed

lemma update_as_put: "sy_scopes \<sigma> s = Some sc \<Longrightarrow> update_scope s g \<sigma> = put_scope s (g sc) \<sigma>"
  by (rule sys.equality) (auto simp: update_scope_def put_scope_def)

lemma update_missing: "sy_scopes \<sigma> s = None \<Longrightarrow> update_scope s g \<sigma> = \<sigma>"
  by (rule sys.equality) (auto simp: update_scope_def)

lemma store_ok_update:
  assumes "store_ok \<sigma>" "\<And>sc. sc_parent (g sc) = sc_parent sc"
    and "\<And>sc. sy_scopes \<sigma> s = Some sc \<Longrightarrow> scope_ok \<sigma> s sc \<Longrightarrow> scope_ok \<sigma> s (g sc)"
  shows "store_ok (update_scope s g \<sigma>)"
proof (cases "sy_scopes \<sigma> s")
  case None
  with assms(1) show ?thesis by (simp add: update_missing)
next
  case (Some sc)
  show ?thesis
    unfolding update_as_put [OF Some]
    by (rule store_ok_put [OF assms(1) Some assms(2)]) (rule assms(3) [OF Some])
qed

text \<open>The bookkeeping fields (effects, tasks, failures) do not matter for being at rest.\<close>

definition same_life :: "'f scope \<Rightarrow> 'f scope \<Rightarrow> bool" where
  "same_life sc sc' \<longleftrightarrow> sc_parent sc' = sc_parent sc \<and> sc_state sc' = sc_state sc
     \<and> sc_stack sc' = sc_stack sc \<and> sc_close_task sc' = sc_close_task sc"

lemma scope_ok_same_life: "same_life sc sc' \<Longrightarrow> scope_ok \<sigma> s sc \<Longrightarrow> scope_ok \<sigma> s sc'"
  by (simp add: scope_ok_def same_life_def)

lemma store_ok_bookkeep:
  assumes "store_ok \<sigma>" "\<And>sc. same_life sc (g sc)"
  shows "store_ok (update_scope s g \<sigma>)"
  by (rule store_ok_update [OF assms(1)])
     (use assms(2) in \<open>auto simp: same_life_def intro: scope_ok_same_life [OF assms(2)]\<close>)

lemma store_ok_put_bookkeep:
  assumes "store_ok \<sigma>" "sy_scopes \<sigma> s = Some sc" "same_life sc sc'"
  shows "store_ok (put_scope s sc' \<sigma>)"
  by (rule store_ok_put [OF assms(1,2)])
     (use assms(3) in \<open>auto simp: same_life_def intro: scope_ok_same_life [OF assms(3)]\<close>)

lemma store_ok_release: "store_ok \<sigma> \<Longrightarrow> store_ok (release_effect s record \<sigma>)"
  unfolding release_effect_def by (erule store_ok_bookkeep) (simp add: same_life_def)

lemma store_ok_record_failure: "store_ok \<sigma> \<Longrightarrow> store_ok (record_failure s d e \<sigma>)"
  unfolding record_failure_def by (erule store_ok_bookkeep) (simp add: same_life_def)

lemma store_ok_task_done: "store_ok \<sigma> \<Longrightarrow> store_ok (on_task_done s t r \<sigma>)"
proof -
  assume "store_ok \<sigma>"
  then have "store_ok (update_scope s (\<lambda>sc. sc\<lparr>sc_tasks := dict_pop (fst t) (sc_tasks sc)\<rparr>) \<sigma>)"
    by (rule store_ok_bookkeep) (simp add: same_life_def)
  then show ?thesis
    by (cases r) (simp_all add: on_task_done_def Let_def store_ok_record_failure)
qed

lemma assert_open_Inr: "scope_assert_open sc op = Inr () \<longleftrightarrow> sc_state sc = SCOPE_OPEN"
  by (simp add: scope_assert_open_def)

lemma assert_open_Inl: "scope_assert_open sc op = Inl e \<Longrightarrow> sc_state sc \<noteq> SCOPE_OPEN"
  by (auto simp: scope_assert_open_def split: if_splits)

lemma store_ok_register:
  assumes "store_ok \<sigma>" "register_effect s kind d \<sigma> = (r, \<sigma>')"
  shows "store_ok \<sigma>'"
proof (cases "sy_scopes \<sigma> s")
  case None
  with assms show ?thesis by (simp add: register_effect_def)
next
  case (Some sc)
  have "store_ok (put_scope s (sc\<lparr>sc_effects := x\<rparr>) (\<sigma>\<lparr>sy_next := Suc (sy_next \<sigma>)\<rparr>))" for x
    by (rule store_ok_put_bookkeep [OF store_ok_next [OF assms(1)]])
       (use Some in \<open>simp_all add: same_life_def\<close>)
  with Some assms show ?thesis
    by (auto simp: register_effect_def Let_def split: sum.splits)
qed

text \<open>What a successful registration leaves behind.\<close>

lemma register_effect_Inr:
  assumes "register_effect s kind d \<sigma> = (Inr record, \<sigma>')"
  shows "\<exists>sc. sy_scopes \<sigma> s = Some sc \<and> sc_state sc = SCOPE_OPEN \<and> sy_next \<sigma>' = Suc (sy_next \<sigma>)
     \<and> fx_effect_id record = sy_next \<sigma> \<and> fx_scope_id record = s \<and> fx_description record = d
     \<and> sy_scopes \<sigma>' = (sy_scopes \<sigma>)(s \<mapsto> sc\<lparr>sc_effects := dict_set (sy_next \<sigma>) record (sc_effects sc)\<rparr>)
     \<and> sy_world \<sigma>' = sy_world \<sigma> \<and> parent_of \<sigma>' = parent_of \<sigma>"
  using assms
  by (auto simp: register_effect_def Let_def scope_assert_open_def parent_of_def fun_eq_iff
      split: option.splits sum.splits if_splits)

lemma store_ok_push:
  assumes "store_ok \<sigma>" "sy_scopes \<sigma> s = Some sc" "sc_state sc = SCOPE_OPEN"
    and "\<And>c. d = CloseChild c \<Longrightarrow> parent_of \<sigma> c = Some s \<and> c \<notin> set (stack_children (sc_stack sc))"
  shows "store_ok (push_exit s (record, d) \<sigma>)"
  unfolding push_exit_def update_as_put [OF assms(2)]
proof (rule store_ok_put [OF assms(1,2)])
  assume "scope_ok \<sigma> s sc"
  with assms(3,4) show "scope_ok \<sigma> s (sc\<lparr>sc_stack := (record, d) # sc_stack sc\<rparr>)"
    by (cases d) (simp_all add: scope_ok_def)
qed simp

lemma store_ok_cleanup:
  assumes "store_ok \<sigma>" "scope_cleanup s description d kind \<sigma> = (r, \<sigma>')"
    and "\<And>c sc. d = CloseChild c \<Longrightarrow> sy_scopes \<sigma> s = Some sc \<Longrightarrow>
       parent_of \<sigma> c = Some s \<and> c \<notin> set (stack_children (sc_stack sc))"
  shows "store_ok \<sigma>'"
proof (cases "register_effect s kind description \<sigma>")
  case (Pair q \<sigma>1)
  have ok1: "store_ok \<sigma>1" using store_ok_register [OF assms(1) Pair] .
  show ?thesis
  proof (cases q)
    case (Inl e)
    with assms(2) Pair ok1 show ?thesis by (simp add: scope_cleanup_def)
  next
    case (Inr fx)
    with Pair obtain sc where sc: "sy_scopes \<sigma> s = Some sc" "sc_state sc = SCOPE_OPEN"
      "sy_scopes \<sigma>1 = (sy_scopes \<sigma>)(s \<mapsto> sc\<lparr>sc_effects := dict_set (sy_next \<sigma>) fx (sc_effects sc)\<rparr>)"
      "parent_of \<sigma>1 = parent_of \<sigma>"
      using register_effect_Inr by blast
    have "store_ok (push_exit s (fx, d) \<sigma>1)"
      by (rule store_ok_push [OF ok1, where sc = "sc\<lparr>sc_effects := dict_set (sy_next \<sigma>) fx (sc_effects sc)\<rparr>"]) (use sc assms(3) [OF _ sc(1)] in simp_all)
    with assms(2) Pair Inr show ?thesis by (simp add: scope_cleanup_def)
  qed
qed

lemma store_ok_enter:
  assumes "store_ok \<sigma>" "enter_context s cm_type enter exit \<sigma> = (r, \<sigma>')"
  shows "store_ok \<sigma>'"
proof (cases "register_effect s ''context'' (''context '' @ cm_type) \<sigma>")
  case (Pair q \<sigma>1)
  have ok1: "store_ok \<sigma>1" using store_ok_register [OF assms(1) Pair] .
  show ?thesis
  proof (cases q)
    case (Inl e)
    with assms(2) Pair ok1 show ?thesis by (simp add: enter_context_def)
  next
    case (Inr fx)
    with Pair obtain sc where sc: "sc_state sc = SCOPE_OPEN"
      "sy_scopes \<sigma>1 = (sy_scopes \<sigma>)(s \<mapsto> sc\<lparr>sc_effects := dict_set (sy_next \<sigma>) fx (sc_effects sc)\<rparr>)"
      using register_effect_Inr by blast
    have "store_ok (push_exit s (fx, ExitContext exit) (\<sigma>1\<lparr>sy_world := w\<rparr>))" for w
      by (rule store_ok_push [where sc = "sc\<lparr>sc_effects := dict_set (sy_next \<sigma>) fx (sc_effects sc)\<rparr>"])
         (use ok1 sc in simp_all)
    with assms(2) Pair Inr ok1 show ?thesis
      by (auto simp: enter_context_def store_ok_release split: prod.splits option.splits)
  qed
qed

lemma store_ok_resume:
  assumes "store_ok \<sigma>" "enter_async_resume run s record outcome exit \<sigma> = (r, \<sigma>')"
  shows "store_ok \<sigma>'"
proof -
  have "store_ok (push_exit s (record, ExitContext exit) \<sigma>)"
    if "sy_scopes \<sigma> s = Some sc" "sc_state sc = SCOPE_OPEN" for sc
    by (rule store_ok_push [OF assms(1) that]) simp
  with assms show ?thesis
    by (auto simp: enter_async_resume_def store_ok_release
        split: prod.splits option.splits if_splits)
qed

lemma store_ok_create_task:
  assumes "store_ok \<sigma>" "create_task s name \<sigma> = (r, \<sigma>')"
  shows "store_ok \<sigma>'"
proof (cases "sy_scopes \<sigma> s")
  case None
  with assms show ?thesis by (simp add: create_task_def)
next
  case (Some sc)
  have "store_ok (put_scope s (sc\<lparr>sc_tasks := x\<rparr>) (\<sigma>\<lparr>sy_next := Suc (sy_next \<sigma>)\<rparr>))" for x
    by (rule store_ok_put_bookkeep [OF store_ok_next [OF assms(1)]])
       (use Some in \<open>simp_all add: same_life_def\<close>)
  with Some assms show ?thesis
    by (auto simp: create_task_def Let_def split: sum.splits)
qed

text \<open>A fresh scope below an open one.\<close>

lemma stack_child_known:
  assumes "store_ok \<sigma>" "sy_scopes \<sigma> s = Some sc" "c \<in> set (stack_children (sc_stack sc))"
  shows "c < sy_next \<sigma>"
proof -
  have "parent_of \<sigma> c = Some s" using assms by (auto simp: store_ok_def scope_ok_def)
  then obtain cc where "sy_scopes \<sigma> c = Some cc" using parent_of_Some by blast
  then show ?thesis using assms(1) by (auto simp: store_ok_def)
qed

lemma store_ok_fresh:
  assumes ok: "store_ok \<sigma>" and s: "sy_scopes \<sigma> s = Some sc"
  shows "store_ok (put_scope (sy_next \<sigma>) (new_scope name (Some s)) (\<sigma>\<lparr>sy_next := Suc (sy_next \<sigma>)\<rparr>))"
    (is "store_ok ?\<sigma>")
proof -
  let ?c = "sy_next \<sigma>"
  have none: "sy_scopes \<sigma> ?c = None"
    using ok by (cases "sy_scopes \<sigma> ?c") (auto simp: store_ok_def)
  have sless: "s < ?c" using ok s by (auto simp: store_ok_def)
  have par: "parent_of ?\<sigma> = (parent_of \<sigma>)(?c := Some s)"
    by (auto simp: parent_of_def fun_eq_iff new_scope_def)
  have "parents_older (parent_of ?\<sigma>)"
    using ok sless by (auto simp: par store_ok_def parents_older_def)
  moreover have "t < sy_next ?\<sigma> \<and> scope_ok ?\<sigma> t tc" if "sy_scopes ?\<sigma> t = Some tc" for t tc
  proof (cases "t = ?c")
    case True
    with that show ?thesis by (auto simp: scope_ok_def new_scope_def)
  next
    case False
    with that have t: "sy_scopes \<sigma> t = Some tc" by simp
    then have "t < ?c" "scope_ok \<sigma> t tc" using ok by (auto simp: store_ok_def)
    moreover have "d \<noteq> ?c" if "d \<in> set (stack_children (sc_stack tc))" for d
      using stack_child_known [OF ok t that] by simp
    ultimately show ?thesis by (auto simp: scope_ok_def par)
  qed
  ultimately show ?thesis by (simp add: store_ok_def)
qed

lemma store_ok_child:
  assumes ok: "store_ok \<sigma>" and step: "scope_child s name \<sigma> = (r, \<sigma>')"
  shows "store_ok \<sigma>'"
proof (cases "\<exists>sc. sy_scopes \<sigma> s = Some sc \<and> sc_state sc = SCOPE_OPEN")
  case False
  with step ok show ?thesis
    by (auto simp: scope_child_def scope_assert_open_def split: option.splits)
next
  case True
  then obtain sc where sc: "sy_scopes \<sigma> s = Some sc" "sc_state sc = SCOPE_OPEN" by blast
  let ?c = "sy_next \<sigma>"
  define \<sigma>1 where "\<sigma>1 = put_scope ?c (new_scope name (Some s)) (\<sigma>\<lparr>sy_next := Suc ?c\<rparr>)"
  define \<sigma>2 where "\<sigma>2 = put_scope s (sc\<lparr>sc_children := sc_children sc @ [?c]\<rparr>) \<sigma>1"
  have sless: "s < ?c" using ok sc by (auto simp: store_ok_def)
  have ok1: "store_ok \<sigma>1" unfolding \<sigma>1_def by (rule store_ok_fresh [OF ok sc(1)])
  have s1: "sy_scopes \<sigma>1 s = Some sc" using sless sc(1) by (simp add: \<sigma>1_def)
  have ok2: "store_ok \<sigma>2"
    unfolding \<sigma>2_def by (rule store_ok_put_bookkeep [OF ok1 s1]) (simp add: same_life_def)
  have c2: "parent_of \<sigma>2 ?c = Some s"
    using sless by (simp add: \<sigma>2_def \<sigma>1_def parent_of_def new_scope_def)
  have "?c \<notin> set (stack_children (sc_stack sc))"
    using stack_child_known [OF ok sc(1)] by blast
  moreover obtain q \<sigma>3 where
    q: "scope_cleanup s (''child scope '' @ name) (CloseChild ?c) ''child'' \<sigma>2 = (q, \<sigma>3)"
    by fastforce
  ultimately have "store_ok \<sigma>3"
    by (intro store_ok_cleanup [OF ok2 q]) (use c2 in \<open>auto simp: \<sigma>2_def\<close>)
  moreover have "\<sigma>' = \<sigma>3"
    using step q sc
    by (auto simp: scope_child_def scope_assert_open_def \<sigma>1_def \<sigma>2_def Let_def split: sum.splits)
  ultimately show ?thesis by simp
qed

lemma store_ok_closes:
  assumes ok: "store_ok \<sigma>" and c: "closes fuel run s \<sigma> r \<sigma>'"
  shows "store_ok \<sigma>'"
proof -
  have f: "sy_next \<sigma>' = sy_next \<sigma>" "parent_of \<sigma>' = parent_of \<sigma>"
    "\<And>t. \<not> descends (parent_of \<sigma>) s t \<Longrightarrow> sy_scopes \<sigma>' t = sy_scopes \<sigma> t"
    using c by (auto simp: closes_def frame_def)
  have keep: "scope_ok \<sigma>' = scope_ok \<sigma>" using f(2) scope_ok_cong by blast
  have "t < sy_next \<sigma>' \<and> scope_ok \<sigma>' t tc" if "sy_scopes \<sigma>' t = Some tc" for t tc
  proof (cases "descends (parent_of \<sigma>') s t")
    case True
    then show ?thesis using c that by (auto simp: closes_def subtree_ok_def)
  next
    case False
    then show ?thesis using ok f that by (auto simp: store_ok_def keep)
  qed
  then show ?thesis using ok f(2) by (simp add: store_ok_def)
qed

lemma aclose_closes:
  assumes "store_ok \<sigma>" "sy_scopes \<sigma> s = Some sc" "sy_next \<sigma> \<le> s + fuel"
  shows "\<exists>r \<sigma>'. scope_aclose fuel tasks run s \<sigma> = Some (r, \<sigma>') \<and> closes fuel run s \<sigma> r \<sigma>'"
  by (rule scope_aclose_closes [OF subtree_okI [OF assms(1,2)] _ assms(3)])
     (use assms(1) in \<open>simp add: store_ok_def\<close>)

lemma store_ok_aclose:
  assumes "store_ok \<sigma>" "scope_aclose (sy_next \<sigma>) tasks run s \<sigma> = Some (e, \<sigma>')"
  shows "store_ok \<sigma>'"
proof (cases "sy_scopes \<sigma> s")
  case None
  with assms(2) show ?thesis by (cases "sy_next \<sigma>") simp_all
next
  case (Some sc)
  then obtain r \<sigma>'' where "scope_aclose (sy_next \<sigma>) tasks run s \<sigma> = Some (r, \<sigma>'')"
    "closes (sy_next \<sigma>) run s \<sigma> r \<sigma>''"
    using aclose_closes [OF assms(1)] by (meson le_add2)
  with assms show ?thesis using store_ok_closes by fastforce
qed

lemma store_ok_init:
  assumes ok: "store_ok \<sigma>" and step: "scope_init name \<sigma> = (s, \<sigma>')"
  shows "store_ok \<sigma>'"
proof -
  have none: "sy_scopes \<sigma> (sy_next \<sigma>) = None"
    using ok by (cases "sy_scopes \<sigma> (sy_next \<sigma>)") (auto simp: store_ok_def)
  have \<sigma>': "sy_scopes \<sigma>' = (sy_scopes \<sigma>)(sy_next \<sigma> \<mapsto> new_scope name None)" "sy_next \<sigma>' = Suc (sy_next \<sigma>)"
    using step by (auto simp: scope_init_def)
  have p: "parent_of \<sigma>' = parent_of \<sigma>"
    using \<sigma>' none by (auto simp: fun_eq_iff parent_of_def new_scope_def)
  have keep: "scope_ok \<sigma>' = scope_ok \<sigma>" using p scope_ok_cong by blast
  have "scope_ok \<sigma> (sy_next \<sigma>) (new_scope name None)" by (simp add: scope_ok_def new_scope_def)
  then show ?thesis
    using ok \<sigma>' p keep by (auto simp: store_ok_def less_SucI split: if_splits)
qed

lemmas store_ok_intros = store_ok_init store_ok_root store_ok_register store_ok_release store_ok_cleanup
  store_ok_enter store_ok_resume store_ok_child store_ok_record_failure store_ok_create_task
  store_ok_task_done store_ok_aclose

lemma store_ok_step:
  assumes "scope_step run \<sigma> \<sigma>'" "store_ok \<sigma>"
  shows "store_ok \<sigma>'"
  using assms
proof cases
  case (step_cleanup s description f kind r)
  then show ?thesis using store_ok_cleanup [OF assms(2)] by blast
next
  case (step_async_begin s cm_type r)
  then show ?thesis using store_ok_register [OF assms(2)] by (simp add: enter_async_begin_def)
qed (use assms(2) in \<open>auto intro: store_ok_intros\<close>)

lemma store_ok_reachable: "scope_reachable run \<sigma> \<Longrightarrow> store_ok \<sigma>"
  by (induction rule: scope_reachable.induct) (auto intro: store_ok_root store_ok_step)

section \<open>A close leaves the scopes that were closed before alone\<close>

definition was_closed :: "('f, 'w) sys \<Rightarrow> sid \<Rightarrow> bool" where
  "was_closed \<sigma> t \<longleftrightarrow> (\<exists>tc. sy_scopes \<sigma> t = Some tc \<and> sc_close_task tc \<noteq> None)"

definition keeps_closed :: "sid set \<Rightarrow> ('f, 'w) sys \<Rightarrow> ('f, 'w) sys \<Rightarrow> bool" where
  "keeps_closed A \<sigma> \<sigma>' \<longleftrightarrow> (\<forall>t. t \<notin> A \<and> was_closed \<sigma> t \<longrightarrow> sy_scopes \<sigma>' t = sy_scopes \<sigma> t)"

lemma keeps_closed_refl [simp]: "keeps_closed A \<sigma> \<sigma>"
  by (simp add: keeps_closed_def)

lemma keeps_closed_trans: "keeps_closed A \<sigma> \<sigma>' \<Longrightarrow> keeps_closed A \<sigma>' \<sigma>'' \<Longrightarrow> keeps_closed A \<sigma> \<sigma>''"
  by (simp add: keeps_closed_def was_closed_def)

lemma frame_keeps_closed: "frame A \<sigma> \<sigma>' \<Longrightarrow> keeps_closed A \<sigma> \<sigma>'"
  by (simp add: keeps_closed_def frame_def)

lemma keeps_closed_mono: "keeps_closed A \<sigma> \<sigma>' \<Longrightarrow> A \<subseteq> B \<Longrightarrow> keeps_closed B \<sigma> \<sigma>'"
  by (auto simp: keeps_closed_def)

lemma keeps_closed_world [simp]: "keeps_closed A \<sigma> (\<sigma>'\<lparr>sy_world := w\<rparr>) = keeps_closed A \<sigma> \<sigma>'"
  by (simp add: keeps_closed_def)

lemma handler_exit_keeps_closed:
  assumes close: "\<And>c \<sigma> r \<sigma>'. close c \<sigma> = Some (r, \<sigma>') \<Longrightarrow> keeps_closed {} \<sigma> \<sigma>'"
    and "handler_exit close run s h \<sigma> = Some (r, \<sigma>')"
  shows "keeps_closed {s} \<sigma> \<sigma>'"
proof -
  let ?\<sigma>0 = "release_effect s (fst h) \<sigma>"
  have k0: "keeps_closed {s} \<sigma> ?\<sigma>0" by (rule frame_keeps_closed [OF frame_release_effect]) simp
  let ?call = "\<lambda>f. case run f (sy_world ?\<sigma>0) of (r, w) \<Rightarrow> Some (r, ?\<sigma>0\<lparr>sy_world := w\<rparr>)"
  let ?o = "case snd h of CallCleanup f \<Rightarrow> ?call f | ExitContext f \<Rightarrow> ?call f | CloseChild c \<Rightarrow> close c ?\<sigma>0"
  obtain o1 \<sigma>1 where o1: "?o = Some (o1, \<sigma>1)"
    using assms(2) by (cases ?o) (auto simp: handler_exit_def Let_def)
  have fin: "\<sigma>' = \<sigma>1 \<or> (\<exists>e. \<sigma>' = record_failure s (fx_description (fst h)) e \<sigma>1)"
    using assms(2) unfolding handler_exit_def Let_def o1 by (cases o1) (auto split: if_splits)
  have "keeps_closed {s} ?\<sigma>0 \<sigma>1"
    using o1 keeps_closed_mono [OF close [of _ ?\<sigma>0 o1 \<sigma>1]]
    by (auto split: disposer.splits prod.splits)
  then have k1: "keeps_closed {s} \<sigma> \<sigma>1" using k0 keeps_closed_trans by blast
  have "keeps_closed {s} \<sigma>1 (record_failure s d e \<sigma>1)" for d e
    by (rule frame_keeps_closed [OF frame_record_failure]) simp
  with k1 fin show ?thesis using keeps_closed_trans by blast
qed

lemma unwind_keeps_closed:
  assumes "\<And>c \<sigma> r \<sigma>'. close c \<sigma> = Some (r, \<sigma>') \<Longrightarrow> keeps_closed {} \<sigma> \<sigma>'"
    and "unwind close run s hs p \<sigma> = Some (r, \<sigma>')"
  shows "keeps_closed {s} \<sigma> \<sigma>'"
  using assms(2)
proof (induction hs arbitrary: p \<sigma>)
  case (Cons h hs)
  let ?\<sigma>0 = "update_scope s (\<lambda>sc. sc\<lparr>sc_stack := hs\<rparr>) \<sigma>"
  from Cons.prems obtain q \<sigma>1 where q: "handler_exit close run s h ?\<sigma>0 = Some (q, \<sigma>1)"
    and u: "unwind close run s hs (case q of None \<Rightarrow> p | Some e \<Rightarrow> Some e) \<sigma>1 = Some (r, \<sigma>')"
    by (auto split: option.splits)
  have "keeps_closed {s} \<sigma> ?\<sigma>0" by (rule frame_keeps_closed [OF frame_update]) simp_all
  moreover have "keeps_closed {s} ?\<sigma>0 \<sigma>1" by (rule handler_exit_keeps_closed [OF assms(1) q])
  moreover have "keeps_closed {s} \<sigma>1 \<sigma>'" by (rule Cons.IH [OF u])
  ultimately show ?case using keeps_closed_trans by blast
qed simp

lemma aclose_keeps_closed:
  "scope_aclose fuel tasks run s \<sigma> = Some (r, \<sigma>') \<Longrightarrow> keeps_closed {} \<sigma> \<sigma>'"
proof (induction fuel arbitrary: s \<sigma> r \<sigma>')
  case (Suc fuel)
  obtain sc where sc: "sy_scopes \<sigma> s = Some sc"
    using Suc.prems by (cases "sy_scopes \<sigma> s") simp_all
  show ?case
  proof (cases "sc_close_task sc = None \<and> sc_state sc = SCOPE_OPEN")
    case False
    with Suc.prems sc show ?thesis by (cases "sc_close_task sc"; cases "sc_state sc") simp_all
  next
    case True
    let ?\<sigma>0 = "update_scope s (\<lambda>sc. sc\<lparr>sc_state := SCOPE_CLOSING\<rparr>) \<sigma>"
    let ?\<sigma>1 = "stop_tasks tasks s ?\<sigma>0"
    have "map_option (\<lambda>(raised, \<sigma>2). finish_close s raised \<sigma>2)
        (unwind (scope_aclose fuel tasks run) run s (sc_stack sc) None ?\<sigma>1) = Some (r, \<sigma>')"
      using scope_aclose_open [OF sc, of fuel tasks run] True Suc.prems by (simp only:)
    then obtain p \<sigma>2 where
      u: "unwind (scope_aclose fuel tasks run) run s (sc_stack sc) None ?\<sigma>1 = Some (p, \<sigma>2)"
      and fin: "\<sigma>' = snd (finish_close s p \<sigma>2)"
      by force
    have f0: "frame {s} \<sigma> ?\<sigma>0" by (rule frame_update) simp_all
    have "frame {s} ?\<sigma>0 ?\<sigma>1" by (rule frame_stop_tasks) simp
    with f0 have "keeps_closed {s} \<sigma> ?\<sigma>1" using frame_trans frame_keeps_closed by blast
    moreover have "keeps_closed {s} ?\<sigma>1 \<sigma>2" by (rule unwind_keeps_closed [OF Suc.IH u])
    moreover have "keeps_closed {s} \<sigma>2 \<sigma>'"
      unfolding fin by (rule frame_keeps_closed [OF finish_close_frame]) simp
    ultimately have "keeps_closed {s} \<sigma> \<sigma>'" using keeps_closed_trans by blast
    moreover have "\<not> was_closed \<sigma> s" using True sc by (simp add: was_closed_def)
    ultimately show ?thesis by (auto simp: keeps_closed_def)
  qed
qed simp

text \<open>What a step may do to the record of a scope that is closed.\<close>

definition at_most_bookkeeping :: "'f scope \<Rightarrow> 'f scope \<Rightarrow> bool" where
  "at_most_bookkeeping sc sc' \<longleftrightarrow> same_life sc sc' \<and> set (sc_effects sc') \<subseteq> set (sc_effects sc)
     \<and> (\<exists>fs. sc_failures sc' = sc_failures sc @ fs)"

lemma at_most_bookkeeping_refl [simp]: "at_most_bookkeeping sc sc"
  by (simp add: at_most_bookkeeping_def same_life_def)

lemma at_most_bookkeeping_fields [simp]:
  "at_most_bookkeeping sc (sc\<lparr>sc_effects := dict_pop k (sc_effects sc)\<rparr>)"
  "at_most_bookkeeping sc (sc\<lparr>sc_tasks := ts\<rparr>)"
  "at_most_bookkeeping sc (sc\<lparr>sc_failures := sc_failures sc @ fs\<rparr>)"
  "at_most_bookkeeping sc (sc\<lparr>sc_tasks := ts, sc_failures := sc_failures sc @ fs\<rparr>)"
  by (simp_all add: at_most_bookkeeping_def same_life_def set_dict_pop)

definition closed_untouched :: "sid \<Rightarrow> 'f scope \<Rightarrow> ('f, 'w) sys \<Rightarrow> bool" where
  "closed_untouched t tc \<sigma>' \<longleftrightarrow> (\<exists>tc'. sy_scopes \<sigma>' t = Some tc' \<and> at_most_bookkeeping tc tc')"

lemma register_effect_closed:
  assumes "register_effect s kind d \<sigma> = (r, \<sigma>')" "sy_scopes \<sigma> t = Some tc" "sc_state tc \<noteq> SCOPE_OPEN"
  shows "sy_scopes \<sigma>' t = Some tc \<and> (s = t \<longrightarrow> \<sigma>' = \<sigma> \<and> (\<exists>e. r = Inl e))"
  using assms by (auto simp: register_effect_def scope_assert_open_def Let_def
      split: option.splits if_splits)

lemma scope_cleanup_closed:
  assumes "scope_cleanup s d f kind \<sigma> = (r, \<sigma>')" "sy_scopes \<sigma> t = Some tc" "sc_state tc \<noteq> SCOPE_OPEN"
  shows "sy_scopes \<sigma>' t = Some tc"
  using assms register_effect_closed [of s kind d \<sigma> _ _ t tc]
  by (cases "register_effect s kind d \<sigma>")
     (auto simp: scope_cleanup_def push_exit_def split: sum.splits)

lemma enter_context_closed:
  assumes "enter_context s cm enter exit \<sigma> = (r, \<sigma>')" "sy_scopes \<sigma> t = Some tc" "sc_state tc \<noteq> SCOPE_OPEN"
  shows "sy_scopes \<sigma>' t = Some tc"
  using assms register_effect_closed [of s "''context''" "''context '' @ cm" \<sigma> _ _ t tc]
  by (cases "register_effect s ''context'' (''context '' @ cm) \<sigma>")
     (auto simp: enter_context_def push_exit_def release_effect_def
        split: sum.splits prod.splits option.splits)

lemma scope_child_closed:
  assumes "scope_child s name \<sigma> = (r, \<sigma>')" "sy_scopes \<sigma> t = Some tc" "sc_state tc \<noteq> SCOPE_OPEN"
    and "t < sy_next \<sigma>"
  shows "sy_scopes \<sigma>' t = Some tc"
proof (cases "\<exists>sc. sy_scopes \<sigma> s = Some sc \<and> sc_state sc = SCOPE_OPEN")
  case False
  with assms show ?thesis
    by (auto simp: scope_child_def scope_assert_open_def split: option.splits)
next
  case True
  then obtain sc where sc: "sy_scopes \<sigma> s = Some sc" "sc_state sc = SCOPE_OPEN" by blast
  define \<sigma>2 where "\<sigma>2 = put_scope s (sc\<lparr>sc_children := sc_children sc @ [sy_next \<sigma>]\<rparr>)
      (put_scope (sy_next \<sigma>) (new_scope name (Some s)) (\<sigma>\<lparr>sy_next := Suc (sy_next \<sigma>)\<rparr>))"
  have "t \<noteq> s" using sc assms(2,3) by auto
  then have t2: "sy_scopes \<sigma>2 t = Some tc" using assms(2,4) by (simp add: \<sigma>2_def)
  obtain q \<sigma>3 where
    q: "scope_cleanup s (''child scope '' @ name) (CloseChild (sy_next \<sigma>)) ''child'' \<sigma>2 = (q, \<sigma>3)"
    by fastforce
  have "\<sigma>' = \<sigma>3"
    using assms(1) q sc
    by (auto simp: scope_child_def scope_assert_open_def \<sigma>2_def Let_def split: sum.splits)
  then show ?thesis using scope_cleanup_closed [OF q t2 assms(3)] by simp
qed

lemma step_closed_untouched:
  assumes "scope_step run \<sigma> \<sigma>'" "store_ok \<sigma>" "sy_scopes \<sigma> t = Some tc" "sc_state tc = SCOPE_CLOSED"
  shows "closed_untouched t tc \<sigma>'"
proof -
  have tless: "t < sy_next \<sigma>" and task: "sc_close_task tc \<noteq> None"
    using assms(2-4) by (auto simp: store_ok_def scope_ok_def)
  have same: "closed_untouched t tc \<sigma>'" if "sy_scopes \<sigma>' t = Some tc"
    using that by (simp add: closed_untouched_def)
  note upd = closed_untouched_def release_effect_def record_failure_def
  from assms(1) show ?thesis
  proof cases
    case (step_register s kind description r)
    then show ?thesis using register_effect_closed [OF _ assms(3)] assms(4) same by simp
  next
    case (step_cleanup s description f kind r)
    then show ?thesis using scope_cleanup_closed [OF _ assms(3)] assms(4) same by simp
  next
    case (step_enter s cm_type enter exit u)
    then show ?thesis using enter_context_closed [OF _ assms(3)] assms(4) same by simp
  next
    case (step_async_begin s cm_type r)
    then show ?thesis
      using register_effect_closed [OF _ assms(3)] assms(4) same by (simp add: enter_async_begin_def)
  next
    case (step_async_resume s fx outcome exit u)
    then show ?thesis
      using assms(3,4) same by (cases "s = t")
        (auto simp: enter_async_resume_def push_exit_def upd
          split: option.splits prod.splits if_splits)
  next
    case (step_init name s)
    then show ?thesis using assms(3) tless same by (auto simp: scope_init_def)
  next
    case (step_child s name c)
    then show ?thesis using scope_child_closed [OF _ assms(3) _ tless] assms(4) same by simp
  next
    case (step_task s task_name u)
    then show ?thesis
      using assms(3,4) by (cases "s = t")
        (auto simp: create_task_def scope_assert_open_def Let_def upd split: option.splits if_splits)
  next
    case (step_task_done s task outcome)
    then show ?thesis using assms(3) by (cases outcome) (auto simp: on_task_done_def Let_def upd)
  next
    case (step_close tasks s e)
    then have "keeps_closed {} \<sigma> \<sigma>'" by (intro aclose_keeps_closed)
    then show ?thesis using assms(3) task same by (auto simp: keeps_closed_def was_closed_def)
  qed (use assms(3) in \<open>auto simp: upd\<close>)
qed

section \<open>Properties\<close>

text \<open>A small tree: a root with one cleanup and one child scope with a cleanup of its own.\<close>

definition note_run :: "string \<Rightarrow> string list callback" where
  "note_run f log = (None, log @ [f])"

definition demo_child :: "(string, string list) sys" where
  "demo_child = snd (scope_child 0 ''plugin'' (root_store ''harness'' []))"

definition demo_tree :: "(string, string list) sys" where
  "demo_tree =
     snd (scope_cleanup 0 ''close pool'' (CallCleanup ''pool'') ''cleanup''
       (snd (scope_cleanup 1 ''withdraw tool'' (CallCleanup ''tool'') ''tool'' demo_child)))"

lemma step_child_snd: "scope_step run \<sigma> (snd (scope_child s name \<sigma>))"
  by (rule step_child [where c = "fst (scope_child s name \<sigma>)"]) simp

lemma step_cleanup_snd: "scope_step run \<sigma> (snd (scope_cleanup s d (CallCleanup f) k \<sigma>))"
  by (rule step_cleanup [where r = "fst (scope_cleanup s d (CallCleanup f) k \<sigma>)"]) simp

lemma demo_tree_reachable: "scope_reachable note_run demo_tree"
  unfolding demo_tree_def demo_child_def
  by (rule reach_step [OF reach_step [OF reach_step [OF reach_root step_child_snd]
        step_cleanup_snd] step_cleanup_snd])

lemmas demo_defs = demo_tree_def demo_child_def scope_child_def scope_cleanup_def root_store_def
  register_effect_def push_exit_def scope_assert_open_def new_scope_def Let_def

text \<open>
  C1: Closing an open scope of any reachable store returns, runs exactly the disposers of the
  scope and of the open scopes below it, in reverse registration order with a child scope's
  disposers in the child's place, whichever of them raise; it touches no scope outside the
  subtree, keeps the store well formed, releases the diagnostic record of every disposer, and
  reports exactly the failures recorded on the scope.
\<close>

theorem scope_close_unwinds:
  assumes "scope_reachable run \<sigma>" "sy_scopes \<sigma> s = Some sc" "sc_close_task sc = None"
  shows "\<exists>r \<sigma>' sc'. scope_aclose (sy_next \<sigma>) tasks run s \<sigma> = Some (r, \<sigma>')
     \<and> sy_world \<sigma>' = run_all run (teardown_plan (sy_next \<sigma>) \<sigma> s) (sy_world \<sigma>)
     \<and> (\<forall>t. \<not> descends (parent_of \<sigma>) s t \<longrightarrow> sy_scopes \<sigma>' t = sy_scopes \<sigma> t)
     \<and> store_ok \<sigma>' \<and> sy_scopes \<sigma>' s = Some sc' \<and> sc_state sc' = SCOPE_CLOSED
     \<and> sc_stack sc' = [] \<and> r = close_error sc'
     \<and> sc_effects sc' = fold (\<lambda>h. dict_pop (fx_effect_id (fst h))) (sc_stack sc) (sc_effects sc)
     \<and> (\<exists>fs. sc_failures sc' = sc_failures sc @ fs)"
proof -
  have ok: "store_ok \<sigma>" using assms(1) by (rule store_ok_reachable)
  obtain r \<sigma>' where run: "scope_aclose (sy_next \<sigma>) tasks run s \<sigma> = Some (r, \<sigma>')"
    and c: "closes (sy_next \<sigma>) run s \<sigma> r \<sigma>'"
    using aclose_closes [OF ok assms(2), of "sy_next \<sigma>" tasks run] by auto
  have ok': "store_ok \<sigma>'" by (rule store_ok_closes [OF ok c])
  from c assms(2,3) obtain sc' where sc': "sy_scopes \<sigma>' s = Some sc'" "sc_state sc' = SCOPE_CLOSED"
    "r = close_error sc'" "\<exists>fs. sc_failures sc' = sc_failures sc @ fs"
    "sc_effects sc' = fold (\<lambda>h. dict_pop (fx_effect_id (fst h))) (sc_stack sc) (sc_effects sc)"
    by (auto simp: closes_def)
  have "sc_stack sc' = []" using ok' sc'(1,2) by (auto simp: store_ok_def scope_ok_def)
  with run c ok' sc' show ?thesis by (auto simp: closes_def frame_def)
qed

theorem scope_close_unwinds_witness:
  "\<exists>r \<sigma>'. scope_aclose (sy_next demo_tree) (\<lambda>_. TaskFinished) note_run 0 demo_tree = Some (r, \<sigma>')
     \<and> sy_world \<sigma>' = [''pool'', ''tool'']"
proof -
  have "sy_scopes demo_tree 0 = Some (the (sy_scopes demo_tree 0))"
    "sc_close_task (the (sy_scopes demo_tree 0)) = None"
    by (simp_all add: demo_defs)
  note closed = scope_close_unwinds [OF demo_tree_reachable this, of "\<lambda>_. TaskFinished"]
  have "run_all note_run (teardown_plan (sy_next demo_tree) demo_tree 0) (sy_world demo_tree)
      = [''pool'', ''tool'']"
    by (simp add: demo_defs eval_nat_numeral handler_plan_def note_run_def)
  with closed show ?thesis by metis
qed

text \<open>
  In every reachable store a second close of a scope whose first close has returned returns
  the recorded outcome of the first and changes nothing, however the tasks and disposers behave.
\<close>

theorem scope_close_idempotent:
  assumes "scope_reachable run \<sigma>" "scope_aclose (sy_next \<sigma>) tasks run s \<sigma> = Some (r, \<sigma>')"
  shows "scope_aclose (Suc fuel) tasks' run' s \<sigma>' = Some (r, \<sigma>')"
proof -
  have ok: "store_ok \<sigma>" using assms(1) by (rule store_ok_reachable)
  obtain sc where sc: "sy_scopes \<sigma> s = Some sc"
    using assms(2) by (cases "sy_next \<sigma>"; cases "sy_scopes \<sigma> s") simp_all
  then obtain q \<sigma>'' where "scope_aclose (sy_next \<sigma>) tasks run s \<sigma> = Some (q, \<sigma>'')"
    "closes (sy_next \<sigma>) run s \<sigma> q \<sigma>''"
    using aclose_closes [OF ok, of s sc "sy_next \<sigma>" tasks run] by auto
  with assms(2) sc obtain sc' where "sy_scopes \<sigma>' s = Some sc'" "sc_close_task sc' = Some r"
    by (auto simp: closes_def)
  then show ?thesis by simp
qed

theorem scope_close_idempotent_witness:
  "\<exists>r \<sigma>'. scope_aclose 5 (\<lambda>_. TaskFinished) note_run 0 demo_tree = Some (r, \<sigma>')
     \<and> scope_aclose 1 (\<lambda>_. TaskStillRunning) note_run 0 \<sigma>' = Some (r, \<sigma>')"
proof -
  have n: "sy_next demo_tree = 5"
    by (simp add: demo_defs)
  moreover obtain sc where "sy_scopes demo_tree 0 = Some sc"
    by (simp add: demo_defs)
  ultimately obtain r \<sigma>' where "scope_aclose 5 (\<lambda>_. TaskFinished) note_run 0 demo_tree = Some (r, \<sigma>')"
    using aclose_closes [OF store_ok_reachable [OF demo_tree_reachable], of 0 sc 5 "\<lambda>_. TaskFinished" note_run]
    by auto
  with scope_close_idempotent [OF demo_tree_reachable, of "\<lambda>_. TaskFinished" 0 r \<sigma>' 0] n
  show ?thesis by auto
qed

text \<open>
  C16: Once a scope is closed it stays closed in every continuation of the program: no operation
  changes its state, its exit stack or the recorded outcome of its close, no operation adds an
  effect to it, and the only changes left are released records and failures of late tasks.
\<close>

theorem scope_closed_is_final:
  assumes "scope_reachable run \<sigma>" "scope_step run \<sigma> \<sigma>'"
    and "sy_scopes \<sigma> s = Some sc" "sc_state sc = SCOPE_CLOSED"
  shows "\<exists>sc'. sy_scopes \<sigma>' s = Some sc' \<and> sc_state sc' = SCOPE_CLOSED \<and> sc_stack sc' = []
     \<and> sc_close_task sc' = sc_close_task sc \<and> sc_close_task sc \<noteq> None
     \<and> set (sc_effects sc') \<subseteq> set (sc_effects sc)"
proof -
  have ok: "store_ok \<sigma>" using assms(1) by (rule store_ok_reachable)
  have "sc_stack sc = []" "sc_close_task sc \<noteq> None"
    using ok assms(3,4) by (auto simp: store_ok_def scope_ok_def)
  with step_closed_untouched [OF assms(2) ok assms(3,4)] assms(4) show ?thesis
    by (auto simp: closed_untouched_def at_most_bookkeeping_def same_life_def)
qed

theorem scope_closed_is_final_witness:
  "\<exists>\<sigma> sc'. scope_reachable note_run (\<sigma> :: (string, string list) sys)
     \<and> sy_scopes (snd (scope_cleanup 0 ''late'' (CallCleanup ''late'') ''cleanup'' \<sigma>)) 0 = Some sc'
     \<and> sc_stack sc' = []"
proof -
  obtain sc where sc: "sy_scopes demo_tree 0 = Some sc" "sc_close_task sc = None"
    by (simp add: demo_defs)
  obtain r \<sigma> where c: "scope_aclose (sy_next demo_tree) (\<lambda>_. TaskFinished) note_run 0 demo_tree = Some (r, \<sigma>)"
    and cl: "closes (sy_next demo_tree) note_run 0 demo_tree r \<sigma>"
    using aclose_closes [OF store_ok_reachable [OF demo_tree_reachable] sc(1),
        of "sy_next demo_tree" "\<lambda>_. TaskFinished" note_run] by auto
  obtain sc1 where sc1: "sy_scopes \<sigma> 0 = Some sc1" "sc_state sc1 = SCOPE_CLOSED"
    using cl sc(1) by (auto simp: closes_def)
  have reach: "scope_reachable note_run \<sigma>"
    by (rule reach_step [OF demo_tree_reachable step_close [OF c]])
  show ?thesis
    using scope_closed_is_final [OF reach step_cleanup_snd sc1] reach by blast
qed

end
