(* ===== verification/Generations.thy ===== *)
theory Generations
  imports Complex_Main Errors
begin

text \<open>
  Runtime generations (\<open>core/generation.py\<close>) and their manager (\<open>core/generations.py\<close>).

  Generation objects are shared and mutable through their accounting, so they live in a store
  indexed by sequence number; the manager's fields refer to them by that number. A call of the
  injected clock is an argument (a rational reading; rounding of float differences is not
  modelled). The capability snapshot, metadata and scope tree of a generation are one opaque
  component: the manager never looks at them.
\<close>

section \<open>Lease accounting\<close>

datatype gen_state = GEN_BUILDING | GEN_ACTIVE | GEN_DRAINING | GEN_RETIRED

record accounting =
  ac_state :: gen_state
  ac_leases :: int
  ac_zero :: bool
  ac_starts :: "(nat, rat) dict"
  ac_next_lease :: nat

definition new_accounting :: accounting where
  "new_accounting = \<lparr>ac_state = GEN_BUILDING, ac_leases = 0, ac_zero = False, ac_starts = [], ac_next_lease = 0\<rparr>"

definition acc_acquire :: "rat \<Rightarrow> accounting \<Rightarrow> nat \<times> accounting" where
  "acc_acquire now a =
     (let a1 = (if ac_leases a = 0 then a\<lparr>ac_zero := False\<rparr> else a);
          lease_id = ac_next_lease a1
      in (lease_id, a1\<lparr>ac_next_lease := lease_id + 1,
                       ac_starts := dict_set lease_id now (ac_starts a1),
                       ac_leases := ac_leases a1 + 1\<rparr>))"

definition acc_release :: "nat \<Rightarrow> accounting \<Rightarrow> bool result \<times> accounting" where
  "acc_release lease_id a =
     (if map_of (ac_starts a) lease_id = None then (Inl (UnknownLeaseError ''lease is not outstanding''), a)
      else let a1 = a\<lparr>ac_starts := dict_pop lease_id (ac_starts a), ac_leases := ac_leases a - 1\<rparr>
           in if ac_leases a1 = 0 then (Inr True, a1\<lparr>ac_zero := True\<rparr>) else (Inr False, a1))"

definition oldest_lease_started_at :: "accounting \<Rightarrow> rat option" where
  "oldest_lease_started_at a =
     (if ac_starts a = [] then None else Some (fold min (tl (dict_values (ac_starts a))) (hd (dict_values (ac_starts a)))))"

definition oldest_lease_age :: "rat \<Rightarrow> accounting \<Rightarrow> rat option" where
  "oldest_lease_age now a =
     (case oldest_lease_started_at a of None \<Rightarrow> None | Some started \<Rightarrow> Some (max 0 (now - started)))"

definition lease_ages :: "rat \<Rightarrow> accounting \<Rightarrow> rat list" where
  "lease_ages now a = sort (map (\<lambda>started. max 0 (now - started)) (dict_values (ac_starts a)))"

text \<open>Whether \<open>wait_idle\<close> returns without waiting (further), on the current accounting.\<close>

definition wait_idle_ready :: "accounting \<Rightarrow> bool" where
  "wait_idle_ready a \<longleftrightarrow> ac_leases a = 0 \<or> ac_zero a"

section \<open>Generations\<close>

record 'd instance_view =
  iv_instance_id :: string
  iv_entry_id :: string
  iv_name :: string
  iv_version :: string
  iv_identity :: "'d option"

record ('d, 'c) generation =
  gen_id :: string
  gen_sequence :: nat
  gen_contents :: 'c
  gen_instances :: "'d instance_view list"
  gen_accounting :: accounting

definition gen_status :: "('d, 'c) generation \<Rightarrow> gen_state" where
  "gen_status g = ac_state (gen_accounting g)"

definition lease_count :: "('d, 'c) generation \<Rightarrow> int" where
  "lease_count g = ac_leases (gen_accounting g)"

definition instance_ids :: "('d, 'c) generation \<Rightarrow> string list" where
  "instance_ids g = map iv_instance_id (gen_instances g)"

definition has_instance :: "('d, 'c) generation \<Rightarrow> string \<Rightarrow> bool" where
  "has_instance g i = list_ex (\<lambda>v. iv_instance_id v = i) (gen_instances g)"

definition gen_identities :: "('d, 'c) generation \<Rightarrow> (string, 'd) dict" where
  "gen_identities g = fold (\<lambda>v d. case iv_identity v of None \<Rightarrow> d | Some x \<Rightarrow> dict_set (iv_entry_id v) x d)
     (gen_instances g) []"

definition identity_for :: "('d, 'c) generation \<Rightarrow> string \<Rightarrow> 'd option" where
  "identity_for g e = map_of (gen_identities g) e"

definition gen_plugin_versions :: "('d, 'c) generation \<Rightarrow> (string, string) dict" where
  "gen_plugin_versions g = fold (\<lambda>v d. dict_set (iv_name v) (iv_version v) d) (gen_instances g) []"

record lease =
  ls_generation :: nat
  ls_lease_id :: nat
  ls_started_at :: rat

definition lease_age :: "rat \<Rightarrow> lease \<Rightarrow> rat" where
  "lease_age now l = max 0 (now - ls_started_at l)"

section \<open>The manager\<close>

record ('d, 'c) manager =
  gm_objects :: "nat \<Rightarrow> ('d, 'c) generation option"
  gm_current :: "nat option"
  gm_draining :: "(string, nat) dict"
  gm_retired :: "nat list"
  gm_history_limit :: nat
  gm_evicted :: nat
  gm_shutting_down :: bool
  gm_counter :: nat

definition new_manager :: "int \<Rightarrow> ('d, 'c) manager result" where
  "new_manager history_limit =
     (if history_limit < 0 then Inl (ConfigurationError ''generation history limit must be non-negative'')
      else Inr \<lparr>gm_objects = Map.empty, gm_current = None, gm_draining = [], gm_retired = [],
                gm_history_limit = nat history_limit, gm_evicted = 0, gm_shutting_down = False,
                gm_counter = 1\<rparr>)"

definition generation_id_of :: "nat \<Rightarrow> string" where
  "generation_id_of sequence = ''gen_'' @ pad4 (show_nat sequence)"

definition set_status :: "nat \<Rightarrow> gen_state \<Rightarrow> ('d, 'c) manager \<Rightarrow> ('d, 'c) manager" where
  "set_status g st m = m\<lparr>gm_objects := (\<lambda>k. if k = g then
       map_option (\<lambda>x. x\<lparr>gen_accounting := (gen_accounting x)\<lparr>ac_state := st\<rparr>\<rparr>) (gm_objects m g)
     else gm_objects m k)\<rparr>"

definition set_accounting :: "nat \<Rightarrow> accounting \<Rightarrow> ('d, 'c) manager \<Rightarrow> ('d, 'c) manager" where
  "set_accounting g a m = m\<lparr>gm_objects := (\<lambda>k. if k = g then
       map_option (\<lambda>x. x\<lparr>gen_accounting := a\<rparr>) (gm_objects m g)
     else gm_objects m k)\<rparr>"

definition gm_live :: "('d, 'c) manager \<Rightarrow> nat list" where
  "gm_live m = (case gm_current m of None \<Rightarrow> [] | Some g \<Rightarrow> [g]) @ dict_values (gm_draining m)"

definition gm_history :: "('d, 'c) manager \<Rightarrow> nat list" where
  "gm_history m = rev (gm_retired m)"

definition gm_all_generations :: "('d, 'c) manager \<Rightarrow> nat list" where
  "gm_all_generations m = sort_key (\<lambda>g. - int g) (gm_live m @ gm_retired m)"

definition gm_instances_of :: "('d, 'c) manager \<Rightarrow> nat \<Rightarrow> string list" where
  "gm_instances_of m g = (case gm_objects m g of None \<Rightarrow> [] | Some x \<Rightarrow> instance_ids x)"

definition reachable_instance_ids :: "('d, 'c) manager \<Rightarrow> string set" where
  "reachable_instance_ids m = set (concat (map (gm_instances_of m) (gm_live m)))"

definition gm_build ::
  "(string \<Rightarrow> 'c) \<Rightarrow> 'd instance_view list \<Rightarrow> ('d, 'c) manager \<Rightarrow> nat \<times> ('d, 'c) manager" where
  "gm_build contents_factory instances m =
     (let sequence = gm_counter m;
          gid = generation_id_of sequence;
          g = \<lparr>gen_id = gid, gen_sequence = sequence, gen_contents = contents_factory gid,
               gen_instances = instances, gen_accounting = new_accounting\<rparr>
      in (sequence, m\<lparr>gm_counter := sequence + 1, gm_objects := (gm_objects m)(sequence \<mapsto> g)\<rparr>))"

text \<open>
  The operations take a generation that exists, so an unknown number is not an input of the source;
  they leave the manager alone there.
\<close>

definition gm_publish :: "nat \<Rightarrow> ('d, 'c) manager \<Rightarrow> nat option result \<times> ('d, 'c) manager" where
  "gm_publish g m =
     (case gm_objects m g of
        None \<Rightarrow> (Inl (GenerationConflictError ''unknown generation''), m)
      | Some x \<Rightarrow>
          if gen_status x \<noteq> GEN_BUILDING then
            (Inl (GenerationConflictError ''only a building generation can be published''), m)
          else
            let previous = gm_current m;
                m1 = (case previous of
                        None \<Rightarrow> m
                      | Some p \<Rightarrow>
                          if p \<noteq> g then
                            (set_status p GEN_DRAINING m)\<lparr>gm_draining :=
                               dict_set (case gm_objects m p of None \<Rightarrow> [] | Some y \<Rightarrow> gen_id y) p (gm_draining m)\<rparr>
                          else m)
            in (Inr previous, (set_status g GEN_ACTIVE m1)\<lparr>gm_current := Some g\<rparr>))"

definition gm_retire :: "nat \<Rightarrow> ('d, 'c) manager \<Rightarrow> bool result \<times> ('d, 'c) manager" where
  "gm_retire g m =
     (case gm_objects m g of
        None \<Rightarrow> (Inl (GenerationConflictError ''unknown generation''), m)
      | Some x \<Rightarrow>
          if gen_status x = GEN_RETIRED then (Inr False, m)
          else if gen_status x = GEN_ACTIVE then
            (Inl (GenerationConflictError ''cannot retire the current generation while it is active''), m)
          else if lease_count x > 0 \<and> \<not> gm_shutting_down m then
            (Inl (GenerationConflictError ''cannot retire a generation with outstanding leases''), m)
          else
            let m1 = set_status g GEN_RETIRED m;
                m2 = m1\<lparr>gm_draining := dict_pop (gen_id x) (gm_draining m1),
                         gm_retired := gm_retired m1 @ [g]\<rparr>;
                overflow = int (length (gm_retired m2)) - int (gm_history_limit m2);
                m3 = (if overflow > 0 then
                        m2\<lparr>gm_retired := drop (nat overflow) (gm_retired m2),
                            gm_evicted := gm_evicted m2 + nat overflow\<rparr>
                      else m2);
                m4 = (if gm_current m3 = Some g then m3\<lparr>gm_current := None\<rparr> else m3)
            in (Inr True, m4))"

definition gm_discard :: "nat \<Rightarrow> ('d, 'c) manager \<Rightarrow> bool result \<times> ('d, 'c) manager" where
  "gm_discard g m =
     (case gm_objects m g of
        None \<Rightarrow> (Inl (GenerationConflictError ''unknown generation''), m)
      | Some x \<Rightarrow>
          if gen_status x = GEN_ACTIVE then
            (Inl (GenerationConflictError ''cannot discard the active generation''), m)
          else (Inr True, set_status g GEN_RETIRED m))"

definition gm_begin_shutdown :: "('d, 'c) manager \<Rightarrow> nat list \<times> ('d, 'c) manager" where
  "gm_begin_shutdown m =
     (let m1 = m\<lparr>gm_shutting_down := True\<rparr>;
          m2 = (case gm_current m1 of
                  None \<Rightarrow> m1
                | Some c \<Rightarrow>
                    (set_status c GEN_DRAINING m1)\<lparr>gm_draining :=
                       dict_set (case gm_objects m c of None \<Rightarrow> [] | Some y \<Rightarrow> gen_id y) c (gm_draining m1),
                       gm_current := None\<rparr>)
      in (dict_values (gm_draining m2), m2))"

definition gm_acquire_lease :: "rat \<Rightarrow> rat \<Rightarrow> ('d, 'c) manager \<Rightarrow> lease result \<times> ('d, 'c) manager" where
  "gm_acquire_lease now now' m =
     (case gm_current m of
        None \<Rightarrow> (Inl (HarnessStateError ''no runtime generation is available''), m)
      | Some g \<Rightarrow>
          (case gm_objects m g of
             None \<Rightarrow> (Inl (HarnessStateError ''no runtime generation is available''), m)
           | Some x \<Rightarrow>
               if gen_status x \<noteq> GEN_ACTIVE then
                 (Inl (HarnessStateError ''no runtime generation is available''), m)
               else
                 (case acc_acquire now (gen_accounting x) of
                    (lease_id, a) \<Rightarrow>
                      (Inr \<lparr>ls_generation = g, ls_lease_id = lease_id, ls_started_at = now'\<rparr>,
                       set_accounting g a m))))"

definition gm_release_lease :: "lease \<Rightarrow> ('d, 'c) manager \<Rightarrow> bool result \<times> ('d, 'c) manager" where
  "gm_release_lease l m =
     (case gm_objects m (ls_generation l) of
        None \<Rightarrow> (Inl (UnknownLeaseError ''lease is not outstanding''), m)
      | Some x \<Rightarrow>
          (case acc_release (ls_lease_id l) (gen_accounting x) of
             (Inl e, a) \<Rightarrow> (Inl e, m)
           | (Inr became_idle, a) \<Rightarrow>
               (Inr (became_idle \<and> gen_status x = GEN_DRAINING), set_accounting (ls_generation l) a m)))"

text \<open>
  The answer of \<open>drain\<close> on the manager as it is when the wait ends, by completion or by the
  deadline: the busy generations are the ones whose leases outlived the wait.
\<close>

definition gm_drain_result :: "nat list \<Rightarrow> ('d, 'c) manager \<Rightarrow> nat list \<times> nat list" where
  "gm_drain_result gs m =
     (let leases = (\<lambda>g. case gm_objects m g of None \<Rightarrow> 0 | Some x \<Rightarrow> lease_count x)
      in (filter (\<lambda>g. leases g = 0) gs, filter (\<lambda>g. leases g > 0) gs))"

definition gm_drain_ready :: "nat list \<Rightarrow> ('d, 'c) manager \<Rightarrow> bool" where
  "gm_drain_ready gs m =
     list_all (\<lambda>g. case gm_objects m g of None \<Rightarrow> True | Some x \<Rightarrow> wait_idle_ready (gen_accounting x)) gs"

definition refresh_references :: "string list \<Rightarrow> ('d, 'c) manager \<Rightarrow> (string \<times> nat) list" where
  "refresh_references instances m =
     map (\<lambda>i. (i, length (filter (\<lambda>g. case gm_objects m g of None \<Rightarrow> False | Some x \<Rightarrow> has_instance x i)
        (gm_live m)))) instances"

section \<open>Runs of the manager\<close>

text \<open>
  The interleavings of the program: each operation is one uninterrupted step, called on any
  generation in any state, whether it succeeds or raises.
\<close>

inductive gm_step :: "('d, 'c) manager \<Rightarrow> ('d, 'c) manager \<Rightarrow> bool" where
  step_build: "gm_build f instances m = (g, m') \<Longrightarrow> gm_step m m'"
| step_publish: "gm_publish g m = (r, m') \<Longrightarrow> gm_step m m'"
| step_retire: "gm_retire g m = (r, m') \<Longrightarrow> gm_step m m'"
| step_discard: "gm_discard g m = (r, m') \<Longrightarrow> gm_step m m'"
| step_shutdown: "gm_begin_shutdown m = (gs, m') \<Longrightarrow> gm_step m m'"
| step_acquire: "gm_acquire_lease now now' m = (q, m') \<Longrightarrow> gm_step m m'"
| step_release: "gm_release_lease l m = (r, m') \<Longrightarrow> gm_step m m'"

inductive gm_reachable :: "('d, 'c) manager \<Rightarrow> bool" where
  reach_new: "new_manager limit = Inr m \<Longrightarrow> gm_reachable m"
| reach_gm_step: "gm_reachable m \<Longrightarrow> gm_step m m' \<Longrightarrow> gm_reachable m'"

end
