(* ===== verification/Generation_Props.thy ===== *)
theory Generation_Props
  imports Generations
begin

text \<open>
  The invariant of the generation manager over every interleaving of its operations, and the
  properties that rest on it: exact lease accounting, liveness of leased generations, bounded
  history, exact drain signals.
\<close>

section \<open>Lease accounting\<close>

definition acc_ok :: "accounting \<Rightarrow> bool" where
  "acc_ok a \<longleftrightarrow> wf_dict (ac_starts a) \<and> ac_leases a = int (length (ac_starts a))
     \<and> (\<forall>k \<in> set (dict_keys (ac_starts a)). k < ac_next_lease a)
     \<and> (ac_zero a \<longrightarrow> ac_starts a = [])
     \<and> (ac_starts a = [] \<and> ac_next_lease a > 0 \<longrightarrow> ac_zero a)"

lemma acc_ok_new [simp]: "acc_ok new_accounting"
  by (simp add: acc_ok_def new_accounting_def)

lemma acc_ok_status [simp]: "acc_ok (a\<lparr>ac_state := st\<rparr>) = acc_ok a"
  by (simp add: acc_ok_def)

lemma acc_fresh: "acc_ok a \<Longrightarrow> map_of (ac_starts a) (ac_next_lease a) = None"
  by (force simp: acc_ok_def map_of_eq_None_iff)

lemma acc_acquire_fields:
  assumes "acc_ok a" "acc_acquire now a = (i, a')"
  shows "i = ac_next_lease a" "ac_starts a' = ac_starts a @ [(i, now)]" "ac_leases a' = ac_leases a + 1"
    "ac_next_lease a' = Suc i" "ac_state a' = ac_state a" "acc_ok a'" "\<not> ac_zero a'"
proof -
  have "map_of (ac_starts a) (ac_next_lease a) = None" by (rule acc_fresh [OF assms(1)])
  then have fresh: "dict_set (ac_next_lease a) v (ac_starts a) = ac_starts a @ [(ac_next_lease a, v)]" for v
    by (rule dict_set_fresh)
  show i: "i = ac_next_lease a" and st: "ac_starts a' = ac_starts a @ [(i, now)]"
    and le: "ac_leases a' = ac_leases a + 1" and nx: "ac_next_lease a' = Suc i"
    and "ac_state a' = ac_state a"
    using assms fresh by (auto simp: acc_acquire_def Let_def)
  have new: "ac_next_lease a \<notin> set (dict_keys (ac_starts a))"
    using assms(1) by (auto simp: acc_ok_def)
  have "ac_leases a = 0 \<longleftrightarrow> ac_starts a = []" using assms(1) by (simp add: acc_ok_def)
  then show z: "\<not> ac_zero a'"
    using assms by (auto simp: acc_acquire_def acc_ok_def Let_def split: if_splits)
  have "\<forall>k \<in> set (dict_keys (ac_starts a')). k < ac_next_lease a'"
    using assms(1) by (auto simp: st nx i acc_ok_def less_Suc_eq)
  then show "acc_ok a'"
    using assms(1) new z by (simp add: acc_ok_def st le nx i wf_dict_def)
qed

lemma acc_release_fields:
  assumes "acc_ok a" "acc_release i a = (Inr b, a')"
  shows "map_of (ac_starts a) i \<noteq> None" "ac_starts a' = dict_pop i (ac_starts a)"
    "ac_leases a' = ac_leases a - 1" "ac_state a' = ac_state a" "b \<longleftrightarrow> ac_leases a' = 0" "acc_ok a'"
    "ac_next_lease a' = ac_next_lease a"
proof -
  show some: "map_of (ac_starts a) i \<noteq> None" and s: "ac_starts a' = dict_pop i (ac_starts a)"
    and l: "ac_leases a' = ac_leases a - 1"
    and "ac_state a' = ac_state a" "b \<longleftrightarrow> ac_leases a' = 0" and n: "ac_next_lease a' = ac_next_lease a"
    using assms(2) by (auto simp: acc_release_def Let_def split: if_splits)
  have len: "Suc (length (ac_starts a')) = length (ac_starts a)"
    using some assms(1) length_dict_pop [of "ac_starts a" i] by (auto simp: s acc_ok_def)
  have zero: "ac_zero a' \<longleftrightarrow> ac_leases a' = 0"
    using assms by (auto simp: acc_release_def acc_ok_def Let_def split: if_splits)
  have "ac_leases a' = int (length (ac_starts a'))"
    using assms(1) l len by (simp add: acc_ok_def)
  moreover have "\<forall>k \<in> set (dict_keys (ac_starts a')). k < ac_next_lease a'"
    using assms(1) by (auto simp: s n acc_ok_def set_dict_pop)
  ultimately show "acc_ok a'"
    using assms(1) zero by (simp add: acc_ok_def s)
qed

lemma acc_release_error:
  "acc_release i a = (Inl e, a') \<Longrightarrow> a' = a \<and> map_of (ac_starts a) i = None"
  by (auto simp: acc_release_def Let_def split: if_splits)

section \<open>The invariant\<close>

definition gen_ok :: "('d, 'c) manager \<Rightarrow> nat \<Rightarrow> ('d, 'c) generation \<Rightarrow> bool" where
  "gen_ok m g x \<longleftrightarrow> gen_sequence x = g \<and> gen_id x = generation_id_of g \<and> g < gm_counter m
     \<and> acc_ok (gen_accounting x)
     \<and> (gen_status x = GEN_BUILDING \<longrightarrow> lease_count x = 0)
     \<and> (gen_status x = GEN_ACTIVE \<longleftrightarrow> gm_current m = Some g)
     \<and> (gen_status x = GEN_RETIRED \<longrightarrow>
          lease_count x = 0 \<or> gm_shutting_down m \<or> g \<in> set (dict_values (gm_draining m)))
     \<and> (gen_status x = GEN_DRAINING \<longrightarrow> g \<in> set (dict_values (gm_draining m)))
     \<and> (g \<in> set (dict_values (gm_draining m)) \<longrightarrow>
          gen_status x = GEN_DRAINING \<or> gen_status x = GEN_RETIRED \<and> g \<notin> set (gm_retired m))
     \<and> (g \<in> set (gm_retired m) \<longrightarrow> gen_status x = GEN_RETIRED)"

definition gm_ok :: "('d, 'c) manager \<Rightarrow> bool" where
  "gm_ok m \<longleftrightarrow>
     (\<forall>g x. gm_objects m g = Some x \<longrightarrow> gen_ok m g x)
     \<and> (\<forall>g. gm_current m = Some g \<longrightarrow> gm_objects m g \<noteq> None)
     \<and> wf_dict (gm_draining m)
     \<and> (\<forall>(k, g) \<in> set (gm_draining m). k = generation_id_of g \<and> gm_objects m g \<noteq> None)
     \<and> distinct (gm_retired m) \<and> (\<forall>g \<in> set (gm_retired m). gm_objects m g \<noteq> None)
     \<and> length (gm_retired m) \<le> gm_history_limit m"

lemma generation_id_of_inj [simp]: "generation_id_of g = generation_id_of h \<longleftrightarrow> g = h"
  by (simp add: generation_id_of_def pad4_show_nat_inj)

lemma gm_okD:
  assumes "gm_ok m" "gm_objects m g = Some x"
  shows "gen_ok m g x"
  using assms by (simp add: gm_ok_def)

lemma set_status_fields [simp]:
  "gm_current (set_status g st m) = gm_current m"
  "gm_draining (set_status g st m) = gm_draining m"
  "gm_retired (set_status g st m) = gm_retired m"
  "gm_history_limit (set_status g st m) = gm_history_limit m"
  "gm_evicted (set_status g st m) = gm_evicted m"
  "gm_shutting_down (set_status g st m) = gm_shutting_down m"
  "gm_counter (set_status g st m) = gm_counter m"
  "gm_objects (set_status g st m) h = (if h = g then
       map_option (\<lambda>x. x\<lparr>gen_accounting := (gen_accounting x)\<lparr>ac_state := st\<rparr>\<rparr>) (gm_objects m g)
     else gm_objects m h)"
  by (simp_all add: set_status_def)

lemma set_accounting_fields [simp]:
  "gm_current (set_accounting g a m) = gm_current m"
  "gm_draining (set_accounting g a m) = gm_draining m"
  "gm_retired (set_accounting g a m) = gm_retired m"
  "gm_history_limit (set_accounting g a m) = gm_history_limit m"
  "gm_evicted (set_accounting g a m) = gm_evicted m"
  "gm_shutting_down (set_accounting g a m) = gm_shutting_down m"
  "gm_counter (set_accounting g a m) = gm_counter m"
  "gm_objects (set_accounting g a m) h = (if h = g then
       map_option (\<lambda>x. x\<lparr>gen_accounting := a\<rparr>) (gm_objects m g)
     else gm_objects m h)"
  by (simp_all add: set_accounting_def)

lemma gen_ok_counter: "gen_ok m g x \<Longrightarrow> g < gm_counter m"
  by (simp add: gen_ok_def)

lemma gm_ok_fresh: "gm_ok m \<Longrightarrow> gm_objects m (gm_counter m) = None"
  by (cases "gm_objects m (gm_counter m)") (auto dest: gm_okD gen_ok_counter)

lemma draining_values:
  assumes "gm_ok m"
  shows "g \<in> set (dict_values (gm_draining m)) \<longleftrightarrow> (generation_id_of g, g) \<in> set (gm_draining m)"
proof -
  have "\<forall>q \<in> set (gm_draining m). fst q = generation_id_of (snd q)"
    using assms by (auto simp: gm_ok_def)
  then show ?thesis by (metis (no_types) image_iff list.set_map prod.collapse snd_conv)
qed

lemma draining_add:
  assumes "gm_ok m"
  shows "set (dict_set (generation_id_of p) p (gm_draining m)) = insert (generation_id_of p, p) (set (gm_draining m))"
  using assms by (subst set_dict_set) (auto simp: gm_ok_def)

lemma draining_remove:
  assumes "gm_ok m"
  shows "set (dict_pop (generation_id_of p) (gm_draining m)) = {q \<in> set (gm_draining m). snd q \<noteq> p}"
  using assms by (subst set_dict_pop) (auto simp: gm_ok_def)

lemma gm_ok_new: "new_manager limit = Inr m \<Longrightarrow> gm_ok m"
  by (auto simp: new_manager_def gm_ok_def split: if_splits)

lemma gm_ok_build:
  assumes ok: "gm_ok m" and b: "gm_build f instances m = (g, m')"
  shows "gm_ok m'"
proof -
  let ?c = "gm_counter m"
  have none: "gm_objects m ?c = None" by (rule gm_ok_fresh [OF ok])
  have m': "gm_objects m' = (gm_objects m)(?c \<mapsto> \<lparr>gen_id = generation_id_of ?c, gen_sequence = ?c,
      gen_contents = f (generation_id_of ?c), gen_instances = instances, gen_accounting = new_accounting\<rparr>)"
    "gm_counter m' = Suc ?c" "gm_current m' = gm_current m" "gm_draining m' = gm_draining m"
    "gm_retired m' = gm_retired m" "gm_shutting_down m' = gm_shutting_down m"
    "gm_history_limit m' = gm_history_limit m"
    using b by (auto simp: gm_build_def Let_def)
  have "?c \<notin> set (gm_retired m)" "gm_current m \<noteq> Some ?c" "?c \<notin> set (dict_values (gm_draining m))"
    using ok none by (auto simp: gm_ok_def)
  then have "gen_ok m' h x" if "gm_objects m' h = Some x" for h x
    using that gm_okD [OF ok, of h x]
    by (auto simp: m' gen_ok_def gen_status_def lease_count_def new_accounting_def acc_ok_def split: if_splits)
  moreover have "gm_objects m' h \<noteq> None" if "gm_objects m h \<noteq> None" for h
    using that by (simp add: m')
  ultimately show ?thesis using ok by (auto simp: gm_ok_def m')
qed

text \<open>An operation on one generation's accounting that keeps its state and respects leases.\<close>

lemma gm_ok_accounting:
  assumes ok: "gm_ok m" and x: "gm_objects m g = Some x" and a: "acc_ok a"
    and st: "ac_state a = gen_status x"
    and busy: "ac_leases a \<le> lease_count x \<or> gen_status x = GEN_ACTIVE" and pos: "0 \<le> ac_leases a"
  shows "gm_ok (set_accounting g a m)"
proof -
  have gx: "gen_ok m g x" by (rule gm_okD [OF ok x])
  have "gen_ok (set_accounting g a m) h y" if "gm_objects (set_accounting g a m) h = Some y" for h y
  proof (cases "h = g")
    case True
    with that x have "y = x\<lparr>gen_accounting := a\<rparr>" by simp
    with True gx a st busy pos show ?thesis
      by (auto simp: gen_ok_def gen_status_def lease_count_def)
  next
    case False
    with that gm_okD [OF ok, of h y] show ?thesis by (simp add: gen_ok_def)
  qed
  then show ?thesis using ok by (auto simp: gm_ok_def)
qed

lemma gm_acquire_Inr:
  assumes "gm_acquire_lease now now' m = (Inr l, m')"
  obtains g x a where "gm_current m = Some g" "gm_objects m g = Some x" "gen_status x = GEN_ACTIVE"
    "acc_acquire now (gen_accounting x) = (ls_lease_id l, a)" "ls_generation l = g"
    "ls_started_at l = now'" "m' = set_accounting g a m"
  using assms by (auto simp: gm_acquire_lease_def split: option.splits if_splits prod.splits)

lemma gm_acquire_Inl: "gm_acquire_lease now now' m = (Inl e, m') \<Longrightarrow> m' = m"
  by (auto simp: gm_acquire_lease_def split: option.splits if_splits prod.splits)

lemma acc_ok_leases_nonneg: "acc_ok a \<Longrightarrow> 0 \<le> ac_leases a"
  by (simp add: acc_ok_def)

lemma gm_ok_acquire:
  assumes ok: "gm_ok m" and step: "gm_acquire_lease now now' m = (q, m')"
  shows "gm_ok m'"
proof (cases q)
  case (Inl e)
  with ok step show ?thesis using gm_acquire_Inl by blast
next
  case (Inr l)
  with step obtain g x a where x: "gm_objects m g = Some x" "gen_status x = GEN_ACTIVE"
    and a: "acc_acquire now (gen_accounting x) = (ls_lease_id l, a)" and m': "m' = set_accounting g a m"
    by (blast elim: gm_acquire_Inr)
  have "acc_ok (gen_accounting x)" using gm_okD [OF ok x(1)] by (simp add: gen_ok_def)
  note f = acc_acquire_fields [OF this a]
  show ?thesis
    unfolding m' using f(5,6) x(2) acc_ok_leases_nonneg [OF f(6)]
    by (intro gm_ok_accounting [OF ok x(1)]) (simp_all add: gen_status_def)
qed

lemma gm_release_Inr:
  assumes "gm_release_lease l m = (Inr b, m')"
  obtains x idle a where "gm_objects m (ls_generation l) = Some x"
    "acc_release (ls_lease_id l) (gen_accounting x) = (Inr idle, a)"
    "b \<longleftrightarrow> idle \<and> gen_status x = GEN_DRAINING" "m' = set_accounting (ls_generation l) a m"
  using assms by (auto simp: gm_release_lease_def split: option.splits prod.splits sum.splits)

lemma gm_release_Inl: "gm_release_lease l m = (Inl e, m') \<Longrightarrow> m' = m"
  by (auto simp: gm_release_lease_def split: option.splits prod.splits sum.splits)

lemma gm_ok_release:
  assumes ok: "gm_ok m" and step: "gm_release_lease l m = (q, m')"
  shows "gm_ok m'"
proof (cases q)
  case (Inl e)
  with ok step show ?thesis using gm_release_Inl by blast
next
  case (Inr b)
  with step obtain x idle a where x: "gm_objects m (ls_generation l) = Some x"
    and a: "acc_release (ls_lease_id l) (gen_accounting x) = (Inr idle, a)"
    and m': "m' = set_accounting (ls_generation l) a m"
    by (blast elim: gm_release_Inr)
  have "acc_ok (gen_accounting x)" using gm_okD [OF ok x] by (simp add: gen_ok_def)
  note f = acc_release_fields [OF this a]
  show ?thesis
    unfolding m' using f(3,4,6) acc_ok_leases_nonneg [OF f(6)]
    by (intro gm_ok_accounting [OF ok x]) (simp_all add: gen_status_def lease_count_def)
qed

text \<open>
  A generation leaves the ACTIVE or BUILDING state: the store after its status, the current
  pointer and the dictionaries changed together.
\<close>

lemma status_set [simp]: "gen_status (x\<lparr>gen_accounting := (gen_accounting x)\<lparr>ac_state := st\<rparr>\<rparr>) = st"
  by (simp add: gen_status_def)

lemma lease_count_set [simp]: "lease_count (x\<lparr>gen_accounting := (gen_accounting x)\<lparr>ac_state := st\<rparr>\<rparr>) = lease_count x"
  by (simp add: lease_count_def)

text \<open>The current generation becomes draining; \<open>sd\<close> is the new value of the shutdown flag.\<close>

definition park_current :: "nat \<Rightarrow> bool \<Rightarrow> ('d, 'c) manager \<Rightarrow> ('d, 'c) manager" where
  "park_current p sd m = (set_status p GEN_DRAINING m)\<lparr>
     gm_draining := dict_set (generation_id_of p) p (gm_draining m),
     gm_current := None, gm_shutting_down := sd\<rparr>"

lemma gm_ok_park:
  assumes ok: "gm_ok m" and p: "gm_current m = Some p" and sd: "gm_shutting_down m \<longrightarrow> sd"
  shows "gm_ok (park_current p sd m)"
proof -
  obtain y where y: "gm_objects m p = Some y" "gen_ok m p y" "gen_status y = GEN_ACTIVE"
  proof -
    obtain y where "gm_objects m p = Some y" using ok p by (auto simp: gm_ok_def)
    moreover from this have "gen_ok m p y" by (rule gm_okD [OF ok])
    moreover from this have "gen_status y = GEN_ACTIVE" using p by (simp add: gen_ok_def)
    ultimately show ?thesis by (rule that)
  qed
  have retired: "p \<notin> set (gm_retired m)" using y(2,3) by (auto simp: gen_ok_def)
  have vals: "h \<in> set (dict_values (dict_set (generation_id_of p) p (gm_draining m)))
      \<longleftrightarrow> h = p \<or> h \<in> set (dict_values (gm_draining m))" for h
    by (auto simp: draining_add [OF ok])
  have "gen_ok (park_current p sd m) h x" if "gm_objects (park_current p sd m) h = Some x" for h x
  proof (cases "h = p")
    case True
    with that y retired vals show ?thesis
      by (auto simp: park_current_def gen_ok_def)
  next
    case False
    with that gm_okD [OF ok, of h x] sd p vals show ?thesis
      by (auto simp: park_current_def gen_ok_def)
  qed
  then show ?thesis
    using ok y(1) unfolding gm_ok_def
    by (auto simp: park_current_def draining_add [OF ok])
qed

lemma park_current_eq:
  assumes "gm_ok m" "gm_current m = Some p"
  shows "(case gm_objects m p of None \<Rightarrow> [] | Some y \<Rightarrow> gen_id y) = generation_id_of p"
proof -
  obtain y where y: "gm_objects m p = Some y" using assms by (auto simp: gm_ok_def)
  then show ?thesis using gm_okD [OF assms(1) y] by (simp add: gen_ok_def)
qed

text \<open>A generation that is not current leaves the live set for good.\<close>

lemma gm_ok_status_retired:
  assumes ok: "gm_ok m" and x: "gm_objects m g = Some x" and st: "gen_status x \<noteq> GEN_ACTIVE"
    and le: "lease_count x = 0 \<or> gm_shutting_down m \<or> g \<in> set (dict_values dr)"
    and dr: "\<And>h. h \<noteq> g \<Longrightarrow> h \<in> set (dict_values dr) \<longleftrightarrow> h \<in> set (dict_values (gm_draining m))"
      "g \<in> set (dict_values dr) \<Longrightarrow> g \<notin> set re" "wf_dict dr" "set dr \<subseteq> set (gm_draining m)"
    and re: "distinct re" "set re \<subseteq> insert g (set (gm_retired m))" "length re \<le> gm_history_limit m"
  shows "gm_ok (set_status g GEN_RETIRED m\<lparr>gm_draining := dr, gm_retired := re, gm_evicted := ev\<rparr>)"
    (is "gm_ok ?m")
proof -
  have gx: "gen_ok m g x" by (rule gm_okD [OF ok x])
  have cur: "gm_current m \<noteq> Some g" using gx st by (simp add: gen_ok_def)
  have "gen_ok ?m h y" if "gm_objects ?m h = Some y" for h y
  proof (cases "h = g")
    case True
    with that x have "y = x\<lparr>gen_accounting := (gen_accounting x)\<lparr>ac_state := GEN_RETIRED\<rparr>\<rparr>" by simp
    with True gx le cur dr(2) show ?thesis by (auto simp: gen_ok_def)
  next
    case False
    with that have "gen_ok m h y" using gm_okD [OF ok, of h y] by simp
    moreover have "h \<in> set re \<longrightarrow> h \<in> set (gm_retired m)" using re(2) False by blast
    ultimately show ?thesis using False dr(1) [OF False] by (auto simp: gen_ok_def)
  qed
  moreover have "gm_objects ?m h \<noteq> None" if "gm_objects m h \<noteq> None" for h
    using that by auto
  ultimately show ?thesis
    unfolding gm_ok_def using ok dr(3,4) re x by (auto simp: gm_ok_def)
qed

definition keep_last :: "nat \<Rightarrow> 'a list \<Rightarrow> 'a list" where
  "keep_last n xs = drop (length xs - n) xs"

lemma keep_last_facts:
  "length (keep_last n xs) \<le> n" "set (keep_last n xs) \<subseteq> set xs" "distinct xs \<Longrightarrow> distinct (keep_last n xs)"
  by (auto simp: keep_last_def dest: in_set_dropD)

lemma gm_retire_True:
  assumes "gm_retire g m = (Inr True, m')" "gm_ok m"
  obtains x where "gm_objects m g = Some x" "gen_status x \<noteq> GEN_ACTIVE" "gen_status x \<noteq> GEN_RETIRED"
    "lease_count x = 0 \<or> gm_shutting_down m" "gm_current m \<noteq> Some g"
    "m' = set_status g GEN_RETIRED m\<lparr>gm_draining := dict_pop (generation_id_of g) (gm_draining m),
            gm_retired := keep_last (gm_history_limit m) (gm_retired m @ [g]),
            gm_evicted := gm_evicted m + (length (gm_retired m @ [g]) - gm_history_limit m)\<rparr>"
proof -
  obtain x where x: "gm_objects m g = Some x" "gen_status x \<noteq> GEN_ACTIVE" "gen_status x \<noteq> GEN_RETIRED"
    "\<not> (lease_count x > 0 \<and> \<not> gm_shutting_down m)"
    using assms(1) by (auto simp: gm_retire_def split: option.splits if_splits)
  have gx: "gen_ok m g x" by (rule gm_okD [OF assms(2) x(1)])
  have cur: "gm_current m \<noteq> Some g" using gx x(2) by (simp add: gen_ok_def)
  have id: "gen_id x = generation_id_of g" using gx by (simp add: gen_ok_def)
  have "0 \<le> lease_count x" using gx by (simp add: gen_ok_def lease_count_def acc_ok_leases_nonneg)
  with x(4) have le: "lease_count x = 0 \<or> gm_shutting_down m" by auto
  have nat_over: "nat (int (Suc (length (gm_retired m))) - int (gm_history_limit m)) = Suc (length (gm_retired m)) - gm_history_limit m"
    by (simp add: nat_diff_distrib')
  have "m' = set_status g GEN_RETIRED m\<lparr>gm_draining := dict_pop (generation_id_of g) (gm_draining m),
            gm_retired := keep_last (gm_history_limit m) (gm_retired m @ [g]),
            gm_evicted := gm_evicted m + (length (gm_retired m @ [g]) - gm_history_limit m)\<rparr>"
  proof (cases "gm_history_limit m < length (gm_retired m @ [g])")
    case True
    then show ?thesis using assms(1) x cur id nat_over
      by (auto simp: gm_retire_def Let_def keep_last_def simp del: of_nat_Suc)
  next
    case False
    then show ?thesis using assms(1) x cur id
      by (auto simp: gm_retire_def Let_def keep_last_def)
  qed
  with x le cur that show ?thesis by blast
qed

lemma gm_retire_other: "gm_retire g m = (r, m') \<Longrightarrow> r \<noteq> Inr True \<Longrightarrow> m' = m"
  by (auto simp: gm_retire_def Let_def split: option.splits if_splits)

lemma gm_ok_retire:
  assumes ok: "gm_ok m" and step: "gm_retire g m = (r, m')"
  shows "gm_ok m'"
proof (cases "r = Inr True")
  case False
  with ok step show ?thesis using gm_retire_other by blast
next
  case True
  with step have "gm_retire g m = (Inr True, m')" by simp
  then obtain x where x: "gm_objects m g = Some x" "gen_status x \<noteq> GEN_ACTIVE" "gen_status x \<noteq> GEN_RETIRED"
    "lease_count x = 0 \<or> gm_shutting_down m" "gm_current m \<noteq> Some g"
    and m': "m' = set_status g GEN_RETIRED m\<lparr>gm_draining := dict_pop (generation_id_of g) (gm_draining m),
            gm_retired := keep_last (gm_history_limit m) (gm_retired m @ [g]),
            gm_evicted := gm_evicted m + (length (gm_retired m @ [g]) - gm_history_limit m)\<rparr>"
    using ok by (rule gm_retire_True)
  have gx: "gen_ok m g x" by (rule gm_okD [OF ok x(1)])
  have new: "g \<notin> set (gm_retired m)" using gx x(3) by (auto simp: gen_ok_def)
  show ?thesis
    unfolding m'
  proof (rule gm_ok_status_retired [OF ok x(1,2)])
    let ?d = "dict_pop (generation_id_of g) (gm_draining m)"
    have vals: "set (dict_values ?d) = set (dict_values (gm_draining m)) - {g}"
      by (auto simp: draining_remove [OF ok])
    show "lease_count x = 0 \<or> gm_shutting_down m \<or> g \<in> set (dict_values ?d)" using x(4) by blast
    show "h \<in> set (dict_values ?d) \<longleftrightarrow> h \<in> set (dict_values (gm_draining m))" if "h \<noteq> g" for h
      unfolding vals using that by simp
    show "g \<notin> set (keep_last (gm_history_limit m) (gm_retired m @ [g]))" if "g \<in> set (dict_values ?d)"
      using that unfolding vals by simp
    show "wf_dict (dict_pop (generation_id_of g) (gm_draining m))" using ok by (simp add: gm_ok_def)
    show "set (dict_pop (generation_id_of g) (gm_draining m)) \<subseteq> set (gm_draining m)"
      by (auto simp: draining_remove [OF ok])
    show "distinct (keep_last (gm_history_limit m) (gm_retired m @ [g]))"
      using ok new by (intro keep_last_facts) (simp add: gm_ok_def)
    show "set (keep_last (gm_history_limit m) (gm_retired m @ [g])) \<subseteq> insert g (set (gm_retired m))"
      using keep_last_facts(2) [of "gm_history_limit m" "gm_retired m @ [g]"] by auto
  qed (rule keep_last_facts)
qed

lemma gm_discard_cases:
  assumes "gm_discard g m = (r, m')"
  obtains "m' = m" "r \<noteq> Inr True"
  | x where "gm_objects m g = Some x" "gen_status x \<noteq> GEN_ACTIVE" "r = Inr True"
      "m' = set_status g GEN_RETIRED m"
  using assms by (auto simp: gm_discard_def split: option.splits if_splits)

lemma gm_ok_discard:
  assumes ok: "gm_ok m" and step: "gm_discard g m = (r, m')"
  shows "gm_ok m'"
  using step
proof (cases rule: gm_discard_cases)
  case 1
  with ok show ?thesis by simp
next
  case (2 x)
  have gx: "gen_ok m g x" by (rule gm_okD [OF ok 2(1)])
  have m': "m' = set_status g GEN_RETIRED m\<lparr>gm_draining := gm_draining m, gm_retired := gm_retired m,
      gm_evicted := gm_evicted m\<rparr>"
    by (simp add: 2(4) set_status_def)
  show ?thesis
    unfolding m'
  proof (rule gm_ok_status_retired [OF ok 2(1,2)])
    show "lease_count x = 0 \<or> gm_shutting_down m \<or> g \<in> set (dict_values (gm_draining m))"
      using gx 2(2) by (cases "gen_status x") (auto simp: gen_ok_def)
    show "g \<notin> set (gm_retired m)" if "g \<in> set (dict_values (gm_draining m))"
      using gx that by (auto simp: gen_ok_def)
  qed (use ok in \<open>auto simp: gm_ok_def\<close>)
qed

text \<open>A building generation becomes current when nothing is.\<close>

lemma gm_ok_activate:
  assumes ok: "gm_ok m" and none: "gm_current m = None" and x: "gm_objects m g = Some x" "gen_status x = GEN_BUILDING"
  shows "gm_ok ((set_status g GEN_ACTIVE m)\<lparr>gm_current := Some g\<rparr>)" (is "gm_ok ?m")
proof -
  have gx: "gen_ok m g x" by (rule gm_okD [OF ok x(1)])
  have "gen_ok ?m h y" if "gm_objects ?m h = Some y" for h y
  proof (cases "h = g")
    case True
    with that x have "y = x\<lparr>gen_accounting := (gen_accounting x)\<lparr>ac_state := GEN_ACTIVE\<rparr>\<rparr>" by simp
    with True gx x show ?thesis by (simp add: gen_ok_def)
  next
    case False
    with that gm_okD [OF ok, of h y] none show ?thesis by (simp add: gen_ok_def)
  qed
  moreover have "gm_objects ?m h \<noteq> None" if "gm_objects m h \<noteq> None" for h
    using that by auto
  ultimately show ?thesis using ok x(1) unfolding gm_ok_def by auto
qed

lemma park_current_stay:
  "(set_status g st (park_current p (gm_shutting_down m) m))\<lparr>gm_current := Some g\<rparr> =
   (set_status g st (set_status p GEN_DRAINING m\<lparr>gm_draining :=
      dict_set (generation_id_of p) p (gm_draining m)\<rparr>))\<lparr>gm_current := Some g\<rparr>"
  unfolding park_current_def by (rule manager.equality) (auto simp: fun_eq_iff)

lemma gm_publish_Inr:
  assumes ok: "gm_ok m" and step: "gm_publish g m = (Inr previous, m')"
  obtains x where "gm_objects m g = Some x" "gen_status x = GEN_BUILDING" "previous = gm_current m"
    "m' = (set_status g GEN_ACTIVE (case previous of None \<Rightarrow> m
             | Some p \<Rightarrow> park_current p (gm_shutting_down m) m))\<lparr>gm_current := Some g\<rparr>"
proof -
  obtain x where x: "gm_objects m g = Some x" "gen_status x = GEN_BUILDING" "previous = gm_current m"
    using step by (auto simp: gm_publish_def Let_def split: option.splits if_splits)
  have "gm_current m \<noteq> Some g" using gm_okD [OF ok x(1)] x(2) by (auto simp: gen_ok_def)
  then have "m' = (set_status g GEN_ACTIVE (case previous of None \<Rightarrow> m
             | Some p \<Rightarrow> park_current p (gm_shutting_down m) m))\<lparr>gm_current := Some g\<rparr>"
    using step x(1,2) park_current_eq [OF ok] unfolding x(3)
    by (cases "gm_current m") (auto simp: gm_publish_def Let_def park_current_stay)
  with x that show ?thesis by blast
qed

lemma gm_publish_Inl: "gm_publish g m = (Inl e, m') \<Longrightarrow> m' = m"
  by (auto simp: gm_publish_def Let_def split: option.splits if_splits)

lemma gm_ok_publish:
  assumes ok: "gm_ok m" and step: "gm_publish g m = (r, m')"
  shows "gm_ok m'"
proof (cases r)
  case (Inl e)
  with ok step show ?thesis using gm_publish_Inl by blast
next
  case (Inr previous)
  with step have "gm_publish g m = (Inr previous, m')" by simp
  with ok obtain x where x: "gm_objects m g = Some x" "gen_status x = GEN_BUILDING" "previous = gm_current m"
    and m': "m' = (set_status g GEN_ACTIVE (case previous of None \<Rightarrow> m
             | Some p \<Rightarrow> park_current p (gm_shutting_down m) m))\<lparr>gm_current := Some g\<rparr>"
    by (rule gm_publish_Inr)
  show ?thesis
  proof (cases previous)
    case None
    with x gm_ok_activate [OF ok _ x(1,2)] show ?thesis by (simp add: m')
  next
    case (Some p)
    then have p: "gm_current m = Some p" using x(3) by simp
    have "p \<noteq> g" using p gm_okD [OF ok x(1)] x(2) by (auto simp: gen_ok_def)
    then have "gm_objects (park_current p (gm_shutting_down m) m) g = Some x"
      "gm_current (park_current p (gm_shutting_down m) m) = None"
      using x(1) by (simp_all add: park_current_def)
    then show ?thesis
      using gm_ok_activate [OF gm_ok_park [OF ok p, of "gm_shutting_down m"], of g x] x(2)
      by (simp add: m' Some)
  qed
qed

lemma gm_begin_shutdown_eq:
  assumes "gm_ok m"
  shows "snd (gm_begin_shutdown m) =
     (case gm_current m of None \<Rightarrow> m\<lparr>gm_shutting_down := True\<rparr> | Some c \<Rightarrow> park_current c True m)"
proof (cases "gm_current m")
  case (Some c)
  with park_current_eq [OF assms Some] show ?thesis
    unfolding gm_begin_shutdown_def Let_def park_current_def
    by simp (rule manager.equality; simp add: fun_eq_iff)
qed (simp add: gm_begin_shutdown_def)

lemma gm_ok_shutdown:
  assumes ok: "gm_ok m" and step: "gm_begin_shutdown m = (gs, m')"
  shows "gm_ok m'"
proof (cases "gm_current m")
  case None
  moreover have "gm_ok (m\<lparr>gm_shutting_down := True\<rparr>)" using ok by (auto simp: gm_ok_def gen_ok_def)
  ultimately show ?thesis using gm_begin_shutdown_eq [OF ok] step by simp
next
  case (Some c)
  with gm_ok_park [OF ok Some, of True] gm_begin_shutdown_eq [OF ok] step show ?thesis by simp
qed

lemma gm_ok_step:
  assumes "gm_step m m'" "gm_ok m"
  shows "gm_ok m'"
  using assms
  by (induction rule: gm_step.induct)
     (blast intro: gm_ok_build gm_ok_publish gm_ok_retire gm_ok_discard gm_ok_shutdown
        gm_ok_acquire gm_ok_release)+

lemma gm_ok_reachable: "gm_reachable m \<Longrightarrow> gm_ok m"
  by (induction rule: gm_reachable.induct) (auto intro: gm_ok_new gm_ok_step)

section \<open>Properties\<close>

text \<open>A manager that published two generations while a lease on the first is held.\<close>

definition demo_manager0 :: "(unit, unit) manager" where
  "demo_manager0 = \<lparr>gm_objects = Map.empty, gm_current = None, gm_draining = [], gm_retired = [],
     gm_history_limit = 1, gm_evicted = 0, gm_shutting_down = False, gm_counter = 1\<rparr>"

definition demo_manager1 :: "(unit, unit) manager" where
  "demo_manager1 = snd (gm_acquire_lease 5 5 (snd (gm_publish 1 (snd (gm_build (\<lambda>_. ()) [] demo_manager0)))))"

definition demo_manager :: "(unit, unit) manager" where
  "demo_manager = snd (gm_publish 2 (snd (gm_build (\<lambda>_. ()) [] demo_manager1)))"

lemma demo_manager_reachable: "gm_reachable demo_manager" "gm_reachable demo_manager1"
proof -
  have 0: "gm_reachable demo_manager0"
    by (rule reach_new [where limit = 1]) (simp add: new_manager_def demo_manager0_def)
  have b: "gm_reachable (snd (gm_build f is m))" if "gm_reachable m" for f "is" and m :: "(unit, unit) manager"
    using that by (rule reach_gm_step) (rule step_build, rule prod.collapse [symmetric])
  have p: "gm_reachable (snd (gm_publish g m))" if "gm_reachable m" for g and m :: "(unit, unit) manager"
    using that by (rule reach_gm_step) (rule step_publish, rule prod.collapse [symmetric])
  have a: "gm_reachable (snd (gm_acquire_lease n n' m))" if "gm_reachable m" for n n' and m :: "(unit, unit) manager"
    using that by (rule reach_gm_step) (rule step_acquire, rule prod.collapse [symmetric])
  show 1: "gm_reachable demo_manager1" unfolding demo_manager1_def by (intro a p b 0)
  show "gm_reachable demo_manager" unfolding demo_manager_def by (intro p b 1)
qed

lemmas demo_manager_defs = demo_manager_def demo_manager1_def demo_manager0_def gm_acquire_lease_def
  gm_publish_def gm_build_def acc_acquire_def new_accounting_def gen_status_def Let_def
  generation_id_of_def set_accounting_def set_status_def

lemma demo_manager_objects:
  "gm_objects demo_manager 1 = Some \<lparr>gen_id = generation_id_of 1, gen_sequence = 1, gen_contents = (),
     gen_instances = [], gen_accounting = \<lparr>ac_state = GEN_DRAINING, ac_leases = 1, ac_zero = False,
     ac_starts = [(0, 5)], ac_next_lease = 1\<rparr>\<rparr>"
  "gm_draining demo_manager = [(generation_id_of 1, 1)]" "gm_current demo_manager = Some 2"
  "gm_shutting_down demo_manager = False"
  by (simp_all add: demo_manager_defs)

text \<open>
  C9: After any sequence of builds, publications, retirements, discards, a shutdown, lease
  acquisitions and releases, in any order, on generations in any state and whether they succeed or
  raise, the manager is consistent. The current generation is exactly the one ACTIVE generation.
  Every DRAINING generation is in the draining dictionary under its own id; whatever else is there
  is a RETIRED generation that is missing from the retired history, which only \<open>discard\<close> of a
  draining generation produces. The lease counter of every generation is the number of its
  outstanding leases. A RETIRED generation holds leases only after a shutdown began or when it was
  discarded while draining. The retired history holds distinct RETIRED generations within its limit.
\<close>

theorem gm_consistent:
  assumes "gm_reachable m"
  shows "(\<forall>g. gm_current m = Some g \<longleftrightarrow> (\<exists>x. gm_objects m g = Some x \<and> gen_status x = GEN_ACTIVE))
     \<and> (\<forall>g x. gm_objects m g = Some x \<and> gen_status x = GEN_DRAINING \<longrightarrow>
        (generation_id_of g, g) \<in> set (gm_draining m))
     \<and> (\<forall>k g. (k, g) \<in> set (gm_draining m) \<longrightarrow>
        k = generation_id_of g \<and> (\<exists>x. gm_objects m g = Some x \<and>
          (gen_status x = GEN_DRAINING \<or> gen_status x = GEN_RETIRED \<and> g \<notin> set (gm_retired m))))
     \<and> (\<forall>g x. gm_objects m g = Some x \<longrightarrow> gen_id x = generation_id_of g
        \<and> lease_count x = int (length (ac_starts (gen_accounting x)))
        \<and> (gen_status x = GEN_RETIRED \<and> lease_count x > 0 \<longrightarrow>
             gm_shutting_down m \<or> (generation_id_of g, g) \<in> set (gm_draining m)))
     \<and> distinct (gm_retired m) \<and> length (gm_retired m) \<le> gm_history_limit m
        \<and> (\<forall>g \<in> set (gm_retired m). \<exists>x. gm_objects m g = Some x \<and> gen_status x = GEN_RETIRED)"
proof -
  have ok: "gm_ok m" using assms by (rule gm_ok_reachable)
  note each = gm_okD [OF ok, unfolded gen_ok_def]
  have c0: "(\<forall>g. gm_current m = Some g \<longleftrightarrow> (\<exists>x. gm_objects m g = Some x \<and> gen_status x = GEN_ACTIVE))"
    using ok each by (auto simp: gm_ok_def)
  have c1: "(generation_id_of g, g) \<in> set (gm_draining m)"
    if "gm_objects m g = Some x" "gen_status x = GEN_DRAINING" for g x
    using that each [of g x] draining_values [OF ok, of g] by blast
  have c2: "k = generation_id_of g \<and> (\<exists>x. gm_objects m g = Some x \<and>
          (gen_status x = GEN_DRAINING \<or> gen_status x = GEN_RETIRED \<and> g \<notin> set (gm_retired m)))"
    if kg: "(k, g) \<in> set (gm_draining m)" for k g
  proof -
    have k: "k = generation_id_of g" using ok kg by (auto simp: gm_ok_def)
    obtain x where x: "gm_objects m g = Some x" using ok kg by (auto simp: gm_ok_def)
    have "g \<in> set (dict_values (gm_draining m))" using kg by force
    with k x each [OF x] show ?thesis by blast
  qed
  have c3: "gen_id x = generation_id_of g \<and> lease_count x = int (length (ac_starts (gen_accounting x)))
      \<and> (gen_status x = GEN_RETIRED \<and> lease_count x > 0 \<longrightarrow>
             gm_shutting_down m \<or> (generation_id_of g, g) \<in> set (gm_draining m))"
    if "gm_objects m g = Some x" for g x
    using each [OF that] draining_values [OF ok, of g] by (auto simp: lease_count_def acc_ok_def)
  have c4: "distinct (gm_retired m) \<and> length (gm_retired m) \<le> gm_history_limit m
        \<and> (\<forall>g \<in> set (gm_retired m). \<exists>x. gm_objects m g = Some x \<and> gen_status x = GEN_RETIRED)"
    using ok each by (fastforce simp: gm_ok_def)
  from c0 c1 c2 c3 c4 show ?thesis by blast
qed

text \<open>The same manager after its draining generation was discarded.\<close>

definition demo_discarded :: "(unit, unit) manager" where
  "demo_discarded = snd (gm_discard 1 demo_manager)"

lemma demo_discarded_reachable: "gm_reachable demo_discarded"
  unfolding demo_discarded_def
  by (rule reach_gm_step [OF demo_manager_reachable(1) step_discard]) (rule prod.collapse [symmetric])

lemma demo_discarded_objects:
  "gm_objects demo_discarded 1 = Some \<lparr>gen_id = generation_id_of 1, gen_sequence = 1, gen_contents = (),
     gen_instances = [], gen_accounting = \<lparr>ac_state = GEN_RETIRED, ac_leases = 1, ac_zero = False,
     ac_starts = [(0, 5)], ac_next_lease = 1\<rparr>\<rparr>"
  "gm_draining demo_discarded = [(generation_id_of 1, 1)]" "gm_shutting_down demo_discarded = False"
  by (simp_all add: demo_discarded_def gm_discard_def demo_manager_objects gen_status_def del: One_nat_def)

theorem gm_consistent_witness:
  "(\<exists>x. gm_objects demo_manager 2 = Some x \<and> gen_status x = GEN_ACTIVE)
   \<and> (\<exists>x. gm_objects demo_discarded 1 = Some x \<and> gen_status x = GEN_RETIRED \<and> lease_count x = 1
        \<and> 1 \<notin> set (gm_retired demo_discarded))"
proof
  show "\<exists>x. gm_objects demo_manager 2 = Some x \<and> gen_status x = GEN_ACTIVE"
    using gm_consistent [OF demo_manager_reachable(1)] demo_manager_objects(3) by blast
  have "(generation_id_of 1, 1) \<in> set (gm_draining demo_discarded)" by (simp add: demo_discarded_objects)
  with gm_consistent [OF demo_discarded_reachable] obtain x where
    "gm_objects demo_discarded 1 = Some x"
    "gen_status x = GEN_DRAINING \<or> gen_status x = GEN_RETIRED \<and> 1 \<notin> set (gm_retired demo_discarded)"
    by blast
  then show "\<exists>x. gm_objects demo_discarded 1 = Some x \<and> gen_status x = GEN_RETIRED \<and> lease_count x = 1
      \<and> 1 \<notin> set (gm_retired demo_discarded)"
    by (auto simp: demo_discarded_objects gen_status_def lease_count_def simp del: One_nat_def)
qed

text \<open>
  C5: Until a shutdown begins a run never loses its generation: a generation with an outstanding
  lease is live (current or in the draining dictionary), so every plugin instance it reaches is
  reported reachable, and retiring it does not succeed and changes nothing, however many newer
  generations were published meanwhile and even when it was discarded.
\<close>

theorem leased_generation_live:
  assumes "gm_reachable m" "\<not> gm_shutting_down m" "gm_objects m g = Some x"
    and "map_of (ac_starts (gen_accounting x)) i = Some t"
  shows "g \<in> set (gm_live m) \<and> set (instance_ids x) \<subseteq> reachable_instance_ids m
     \<and> (\<exists>r. gm_retire g m = (r, m) \<and> r \<noteq> Inr True)
     \<and> (gen_status x \<noteq> GEN_RETIRED \<longrightarrow> (\<exists>e. gm_retire g m = (Inl e, m)))"
proof -
  have ok: "gm_ok m" using assms(1) by (rule gm_ok_reachable)
  have gx: "gen_ok m g x" using ok assms(3) by (rule gm_okD)
  have busy: "lease_count x > 0" using gx assms(4) by (auto simp: gen_ok_def lease_count_def acc_ok_def)
  then have "gm_current m = Some g \<or> g \<in> set (dict_values (gm_draining m))"
    using gx assms(2) by (cases "gen_status x") (auto simp: gen_ok_def)
  then have live: "g \<in> set (gm_live m)" by (auto simp: gm_live_def)
  moreover have "set (instance_ids x) \<subseteq> reachable_instance_ids m"
    using live assms(3) by (auto simp: reachable_instance_ids_def gm_instances_of_def)
  ultimately show ?thesis using assms(2,3) busy by (auto simp: gm_retire_def)
qed

theorem leased_generation_live_witness:
  "(1::nat) \<in> set (gm_live demo_manager) \<and> (1::nat) \<in> set (gm_live demo_discarded)
   \<and> (\<exists>e. gm_retire 1 demo_manager = (Inl e, demo_manager))"
proof -
  obtain x where x: "gm_objects demo_manager 1 = Some x" "map_of (ac_starts (gen_accounting x)) 0 = Some 5"
    "gen_status x \<noteq> GEN_RETIRED"
    using demo_manager_objects(1) by (simp add: gen_status_def)
  obtain y where y: "gm_objects demo_discarded 1 = Some y" "map_of (ac_starts (gen_accounting y)) 0 = Some 5"
    using demo_discarded_objects(1) by simp
  from leased_generation_live [OF demo_manager_reachable(1) _ x(1,2)]
    leased_generation_live [OF demo_discarded_reachable _ y] x(3) show ?thesis
    using demo_manager_objects(4) demo_discarded_objects(3) by blast
qed

text \<open>
  Leases are exact. Acquiring takes a lease on the current generation that was not outstanding
  before and is afterwards; once a release of it has succeeded, in whatever reachable state, a second
  one raises and changes nothing; and the release answers True exactly when the generation is draining and holds
  no lease any more, which is the signal that it may be retired.
\<close>

theorem lease_exact:
  assumes "gm_reachable m" "gm_acquire_lease now now' m = (Inr l, m1)"
  shows "(\<exists>x x1. gm_current m = Some (ls_generation l) \<and> gm_objects m (ls_generation l) = Some x
     \<and> gm_objects m1 (ls_generation l) = Some x1
     \<and> map_of (ac_starts (gen_accounting x)) (ls_lease_id l) = None
     \<and> map_of (ac_starts (gen_accounting x1)) (ls_lease_id l) = Some now
     \<and> lease_count x1 = lease_count x + 1)
     \<and> (\<forall>m2 m3 b. gm_reachable m2 \<and> gm_release_lease l m2 = (Inr b, m3) \<longrightarrow>
        (\<exists>e. gm_release_lease l m3 = (Inl e, m3))
        \<and> (\<exists>y. gm_objects m3 (ls_generation l) = Some y
              \<and> (b \<longleftrightarrow> gen_status y = GEN_DRAINING \<and> lease_count y = 0)))"
proof -
  have ok: "gm_ok m" using assms(1) by (rule gm_ok_reachable)
  obtain g x a where x: "gm_current m = Some g" "gm_objects m g = Some x" "ls_generation l = g"
    and a: "acc_acquire now (gen_accounting x) = (ls_lease_id l, a)" and m1: "m1 = set_accounting g a m"
    using assms(2) by (rule gm_acquire_Inr)
  have acc: "acc_ok (gen_accounting x)" using gm_okD [OF ok x(2)] by (simp add: gen_ok_def)
  note f = acc_acquire_fields [OF acc a]
  have "map_of (ac_starts (gen_accounting x)) (ls_lease_id l) = None"
    unfolding f(1) by (rule acc_fresh [OF acc])
  then have c0: "\<exists>x x1. gm_current m = Some (ls_generation l) \<and> gm_objects m (ls_generation l) = Some x
     \<and> gm_objects m1 (ls_generation l) = Some x1
     \<and> map_of (ac_starts (gen_accounting x)) (ls_lease_id l) = None
     \<and> map_of (ac_starts (gen_accounting x1)) (ls_lease_id l) = Some now
     \<and> lease_count x1 = lease_count x + 1"
    using x f(2,3) by (simp add: m1 lease_count_def map_add_def)
  have c1: "\<forall>m2 m3 b. gm_reachable m2 \<and> gm_release_lease l m2 = (Inr b, m3) \<longrightarrow>
        (\<exists>e. gm_release_lease l m3 = (Inl e, m3))
        \<and> (\<exists>y. gm_objects m3 (ls_generation l) = Some y
              \<and> (b \<longleftrightarrow> gen_status y = GEN_DRAINING \<and> lease_count y = 0))"
  proof (intro allI impI, elim conjE)
    fix m2 m3 b
    assume r: "gm_reachable m2" and step: "gm_release_lease l m2 = (Inr b, m3)"
    obtain y idle c where y: "gm_objects m2 (ls_generation l) = Some y"
      and c: "acc_release (ls_lease_id l) (gen_accounting y) = (Inr idle, c)"
      and b: "b \<longleftrightarrow> idle \<and> gen_status y = GEN_DRAINING" and m3: "m3 = set_accounting (ls_generation l) c m2"
      using step by (rule gm_release_Inr)
    have "acc_ok (gen_accounting y)" using gm_okD [OF gm_ok_reachable [OF r] y] by (simp add: gen_ok_def)
    note f = acc_release_fields [OF this c]
    have "acc_release (ls_lease_id l) c = (Inl (UnknownLeaseError ''lease is not outstanding''), c)"
      using f(2) by (simp add: acc_release_def dict_simps)
    then show "(\<exists>e. gm_release_lease l m3 = (Inl e, m3))
        \<and> (\<exists>y. gm_objects m3 (ls_generation l) = Some y
              \<and> (b \<longleftrightarrow> gen_status y = GEN_DRAINING \<and> lease_count y = 0))"
      using y b f(4,5) by (auto simp: m3 gm_release_lease_def gen_status_def lease_count_def)
  qed
  from c0 c1 show ?thesis by blast
qed

theorem lease_exact_witness:
  "\<exists>l m1. gm_acquire_lease 7 8 demo_manager = (Inr l, m1) \<and> gm_current demo_manager = Some (ls_generation l)"
proof -
  obtain l m1 where l: "gm_acquire_lease 7 8 demo_manager = (Inr l, m1)"
    by (simp add: demo_manager_defs)
  with lease_exact [OF demo_manager_reachable(1) l] show ?thesis by blast
qed

text \<open>
  The reference counts recomputed for the plugin instances are exactly the number of live
  generations that contain the instance, and a count is zero exactly when the instance is not
  reachable from any live generation, which is what disposal is gated on.
\<close>

theorem refresh_references_exact:
  assumes "gm_reachable m" "(i, n) \<in> set (refresh_references instances m)"
  shows "n = card {g \<in> set (gm_live m). i \<in> set (gm_instances_of m g)}
     \<and> (n = 0 \<longleftrightarrow> i \<notin> reachable_instance_ids m)"
proof -
  have ok: "gm_ok m" using assms(1) by (rule gm_ok_reachable)
  have has: "(case gm_objects m g of None \<Rightarrow> False | Some x \<Rightarrow> has_instance x i) \<longleftrightarrow> i \<in> set (gm_instances_of m g)" for g
    by (auto simp: gm_instances_of_def has_instance_def instance_ids_def list_ex_iff split: option.split)
  have keys: "\<forall>q \<in> set (gm_draining m). fst q = generation_id_of (snd q)" "distinct (gm_draining m)"
    using ok by (auto simp: gm_ok_def wf_dict_def distinct_map)
  then have "distinct (dict_values (gm_draining m))"
    by (auto simp: distinct_map inj_on_def prod_eq_iff)
  moreover have "g \<notin> set (dict_values (gm_draining m))" if cur: "gm_current m = Some g" for g
  proof -
    obtain x where x: "gm_objects m g = Some x" using ok cur by (auto simp: gm_ok_def)
    show ?thesis using gm_okD [OF ok x] cur by (auto simp: gen_ok_def)
  qed
  ultimately have d: "distinct (gm_live m)"
    by (auto simp: gm_live_def split: option.split)
  have n: "n = length (filter (\<lambda>g. i \<in> set (gm_instances_of m g)) (gm_live m))"
    using assms(2) by (auto simp: refresh_references_def has)
  then have c0: "n = card {g \<in> set (gm_live m). i \<in> set (gm_instances_of m g)}"
    using distinct_card [OF distinct_filter [OF d]] by (metis (no_types) set_filter)
  have c1: "n = 0 \<longleftrightarrow> i \<notin> reachable_instance_ids m"
    by (auto simp: n reachable_instance_ids_def filter_empty_conv)
  from c0 c1 show ?thesis by blast
qed

theorem refresh_references_exact_witness:
  "(0::nat) = card {g \<in> set (gm_live demo_manager). ''inst_1'' \<in> set (gm_instances_of demo_manager g)}"
  by (rule refresh_references_exact [THEN conjunct1, OF demo_manager_reachable(1), of _ _ "[''inst_1'']"])
     (simp add: refresh_references_def gm_live_def demo_manager_objects has_instance_def demo_manager_defs)

text \<open>
  C25: Discarding a generation that is draining, which \<open>discard\<close> does not refuse, strands it: it
  is reported live with every instance it reaches, and retiring it answers False and changes nothing.
\<close>

theorem discard_draining_strands:
  assumes "gm_reachable m" "gm_objects m g = Some x" "gen_status x = GEN_DRAINING"
  shows "\<exists>m'. gm_discard g m = (Inr True, m') \<and> g \<in> set (gm_live m')
     \<and> set (instance_ids x) \<subseteq> reachable_instance_ids m' \<and> gm_retire g m' = (Inr False, m')"
proof -
  have ok: "gm_ok m" using assms(1) by (rule gm_ok_reachable)
  let ?m = "set_status g GEN_RETIRED m"
  have d: "gm_discard g m = (Inr True, ?m)" using assms(2,3) by (simp add: gm_discard_def)
  have live: "g \<in> set (gm_live ?m)"
    using gm_okD [OF ok assms(2)] assms(3) by (simp add: gen_ok_def gm_live_def)
  have "gm_instances_of ?m g = instance_ids x"
    using assms(2) by (simp add: gm_instances_of_def instance_ids_def)
  then have "set (instance_ids x) \<subseteq> reachable_instance_ids ?m"
    using live by (auto simp: reachable_instance_ids_def)
  moreover have "gm_retire g ?m = (Inr False, ?m)" using assms(2) by (simp add: gm_retire_def)
  ultimately show ?thesis using d live by blast
qed

theorem discard_draining_strands_witness:
  "\<exists>m'. gm_discard 1 demo_manager = (Inr True, m') \<and> gm_retire 1 m' = (Inr False, m')"
proof -
  obtain x where "gm_objects demo_manager 1 = Some x" "gen_status x = GEN_DRAINING"
    using demo_manager_objects(1) by (simp add: gen_status_def)
  with discard_draining_strands [OF demo_manager_reachable(1)] show ?thesis by blast
qed

end
