(* ===== verification/Capabilities.thy ===== *)
theory Capabilities
  imports Errors
begin

text \<open>
  Capability contracts (\<open>capabilities/keys.py\<close>), the provider registry
  (\<open>capabilities/registry.py\<close>) and the immutable snapshot (\<open>capabilities/snapshot.py\<close>).

  The version algebra is the third-party package \<open>packaging\<close>: a record of the operations the
  code calls, passed to the definitions that use it. Registration identifiers (\<open>uuid4\<close>) are
  drawn by the caller. The scoped registration itself is in theory \<open>World\<close>, with the scope it
  binds to.
\<close>

section \<open>Versions and specifiers\<close>

record ('v, 'x) packaging =
  pkg_version :: "string \<Rightarrow> 'v option"
  pkg_specifier :: "string \<Rightarrow> 'x option"
  pkg_contains :: "'x \<Rightarrow> 'v \<Rightarrow> bool"
  pkg_clauses :: "'x \<Rightarrow> (string \<times> string) list"
  pkg_less :: "'v \<Rightarrow> 'v \<Rightarrow> bool"
  pkg_major :: "'v \<Rightarrow> nat"
  pkg_minor :: "'v \<Rightarrow> nat"
  pkg_micro :: "'v \<Rightarrow> nat"
  pkg_show :: "'v \<Rightarrow> string"
  pkg_show_specifier :: "'x \<Rightarrow> string"

text \<open>\<open>min\<close> and \<open>max\<close> of a non-empty list keep the first of equal elements.\<close>

definition pkg_min :: "('v, 'x) packaging \<Rightarrow> 'v list \<Rightarrow> 'v" where
  "pkg_min pk vs = fold (\<lambda>v best. if pkg_less pk v best then v else best) (tl vs) (hd vs)"

definition pkg_max :: "('v, 'x) packaging \<Rightarrow> 'v list \<Rightarrow> 'v" where
  "pkg_max pk vs = fold (\<lambda>v best. if pkg_less pk best v then v else best) (tl vs) (hd vs)"

definition pkg_min_item :: "('v, 'x) packaging \<Rightarrow> (string \<times> 'v) list \<Rightarrow> string \<times> 'v" where
  "pkg_min_item pk items =
     fold (\<lambda>v best. if pkg_less pk (snd v) (snd best) then v else best) (tl items) (hd items)"

section \<open>Keys and requirements\<close>

record capability_key =
  ck_name :: string
  ck_api_version :: string

definition make_key :: "string \<Rightarrow> string \<Rightarrow> capability_key result" where
  "make_key name api_version =
     (if name = [] \<or> name \<noteq> strip name then
        Inl (ConfigurationError ''capability name must be a non-empty, trimmed string'')
      else if api_version \<noteq> [] \<and> \<not> isdigit api_version then
        Inl (ConfigurationError ''capability api_version must be a numeric contract generation'')
      else Inr \<lparr>ck_name = name, ck_api_version = api_version\<rparr>)"

definition parse_version :: "('v, 'x) packaging \<Rightarrow> string + 'v \<Rightarrow> 'v result" where
  "parse_version pk value =
     (case value of
        Inr v \<Rightarrow> Inr v
      | Inl text \<Rightarrow>
          (case pkg_version pk text of
             None \<Rightarrow> Inl (ConfigurationError ''capability version is not PEP 440 compliant'')
           | Some v \<Rightarrow> Inr v))"

definition key_from_version :: "('v, 'x) packaging \<Rightarrow> string \<Rightarrow> string + 'v \<Rightarrow> capability_key result" where
  "key_from_version pk name version =
     bind_result (parse_version pk version) (\<lambda>parsed. make_key name (show_nat (pkg_major pk parsed)))"

definition show_key :: "capability_key \<Rightarrow> string" where
  "show_key k = (if ck_api_version k \<noteq> [] then ck_name k @ ''@'' @ ck_api_version k else ck_name k)"

record 'x requirement =
  rq_key :: capability_key
  rq_specifier :: 'x
  rq_optional :: bool

definition rq_name :: "'x requirement \<Rightarrow> string" where
  "rq_name r = ck_name (rq_key r)"

definition is_generation_agnostic :: "'x requirement \<Rightarrow> bool" where
  "is_generation_agnostic r \<longleftrightarrow> ck_api_version (rq_key r) = []"

definition rq_accepts :: "('v, 'x) packaging \<Rightarrow> 'x requirement \<Rightarrow> capability_key \<Rightarrow> 'v \<Rightarrow> bool" where
  "rq_accepts pk r key version =
     (if ck_name key \<noteq> ck_name (rq_key r) then False
      else if ck_api_version (rq_key r) \<noteq> [] \<and> ck_api_version key \<noteq> ck_api_version (rq_key r) then False
      else pkg_contains pk (rq_specifier r) version)"

definition show_requirement :: "('v, 'x) packaging \<Rightarrow> 'x requirement \<Rightarrow> string" where
  "show_requirement pk r =
     (let shown = pkg_show_specifier pk (rq_specifier r);
          rendered = (if shown = [] then ''*'' else shown)
      in if \<not> rq_optional r then rq_name r @ '' '' @ rendered
         else rq_name r @ '' '' @ rendered @ '' (optional)'')"

definition parse_specifier :: "('v, 'x) packaging \<Rightarrow> string + 'x \<Rightarrow> 'x result" where
  "parse_specifier pk value =
     (case value of
        Inr x \<Rightarrow> Inr x
      | Inl text \<Rightarrow>
          let t = strip text;
              t' = (if t \<noteq> [] \<and> hd t \<notin> set ''<>=!~'' then ''=='' @ t else t)
          in (case pkg_specifier pk t' of
                None \<Rightarrow> Inl (ConfigurationError ''capability requirement is not a valid PEP 440 specifier set'')
              | Some x \<Rightarrow> Inr x))"

text \<open>The three lists \<open>specifier_major\<close> collects: pinned, lower and upper bounds.\<close>

definition is_wildcard :: "string \<Rightarrow> bool" where
  "is_wildcard v \<longleftrightarrow> length v \<ge> 2 \<and> drop (length v - 2) v = ''.*''"

definition clause_version :: "('v, 'x) packaging \<Rightarrow> string \<Rightarrow> 'v option" where
  "clause_version pk v = pkg_version pk (if is_wildcard v then take (length v - 2) v else v)"

type_synonym 'v bounds = "'v list \<times> 'v list \<times> (string \<times> 'v) list"

definition bound_step :: "('v, 'x) packaging \<Rightarrow> 'v bounds \<Rightarrow> string \<times> string \<Rightarrow> 'v bounds" where
  "bound_step pk acc spec =
     (case acc of (pinned, lower, upper) \<Rightarrow> case spec of (operator, version) \<Rightarrow>
        if operator = ''!='' then acc
        else (case clause_version pk version of
                None \<Rightarrow> acc
              | Some v \<Rightarrow>
                  if operator \<in> {''=='', ''===''} then (pinned @ [v], lower, upper)
                  else if operator = ''~='' then (pinned @ [v], lower, upper)
                  else if operator \<in> {''>='', ''~='', ''==='', ''=='', ''>''} then (pinned, lower @ [v], upper)
                  else if operator \<in> {''<'', ''<=''} then (pinned, lower, upper @ [(operator, v)])
                  else acc))"

definition collect_bounds :: "('v, 'x) packaging \<Rightarrow> (string \<times> string) list \<Rightarrow> 'v bounds" where
  "collect_bounds pk specs = foldl (bound_step pk) ([], [], []) specs"

definition specifier_major :: "('v, 'x) packaging \<Rightarrow> 'x \<Rightarrow> string option" where
  "specifier_major pk specifier =
     (case collect_bounds pk (pkg_clauses pk specifier) of
        (pinned, lower, upper) \<Rightarrow>
          if pinned \<noteq> [] then Some (show_nat (pkg_major pk (pkg_min pk pinned)))
          else if lower = [] \<or> upper = [] then None
          else
            let floor = pkg_max pk lower;
                (operator, ceiling) = pkg_min_item pk upper;
                ceiling_major =
                  (if operator = ''<'' \<and> (pkg_minor pk ceiling, pkg_micro pk ceiling) = (0, 0)
                   then int (pkg_major pk ceiling) - 1 else int (pkg_major pk ceiling))
            in if int (pkg_major pk floor) = ceiling_major then Some (show_nat (pkg_major pk floor)) else None)"

definition parse_requirement ::
  "('v, 'x) packaging \<Rightarrow> string \<Rightarrow> string + 'x \<Rightarrow> bool \<Rightarrow> string option \<Rightarrow> 'x requirement result" where
  "parse_requirement pk name requirement optional api_version =
     bind_result (parse_specifier pk requirement) (\<lambda>specifier.
       let api = (case api_version of
                    Some a \<Rightarrow> a
                  | None \<Rightarrow> (case specifier_major pk specifier of None \<Rightarrow> [] | Some m \<Rightarrow> m))
       in bind_result (make_key name api) (\<lambda>key.
            Inr \<lparr>rq_key = key, rq_specifier = specifier, rq_optional = optional\<rparr>))"

section \<open>Registrations\<close>

record ('v, 'o) registration =
  cr_id :: string
  cr_key :: capability_key
  cr_version :: 'v
  cr_value :: 'o
  cr_provider_id :: string
  cr_provider_name :: string
  cr_scope_id :: nat

type_synonym ('v, 'o) cap_registry = "(string, ('v, 'o) registration) dict"

datatype resolution_status = Resolved | No_provider | Version_mismatch | Ambiguous

record ('v, 'x, 'o) resolution =
  rs_requirement :: "'x requirement"
  rs_status :: resolution_status
  rs_selected :: "('v, 'o) registration option"
  rs_candidates :: "('v, 'o) registration list"
  rs_same_name :: "('v, 'o) registration list"

definition rs_satisfied :: "('v, 'x, 'o) resolution \<Rightarrow> bool" where
  "rs_satisfied r \<longleftrightarrow> rs_status r = Resolved"

definition rs_explain :: "('v, 'x) packaging \<Rightarrow> ('v, 'x, 'o) resolution \<Rightarrow> string" where
  "rs_explain pk r =
     (let req = show_requirement pk (rs_requirement r)
      in case rs_status r of
           Resolved \<Rightarrow>
             (case rs_selected r of
                None \<Rightarrow> []
              | Some g \<Rightarrow> req @ '' resolved by '' @ cr_provider_name g @ '' ('' @ pkg_show pk (cr_version g) @ '')'')
         | No_provider \<Rightarrow> req @ '': no provider registered for '' @ rq_name (rs_requirement r)
         | Version_mismatch \<Rightarrow>
             let offered = join_with '', '' (map (\<lambda>g. cr_provider_name g @ ''@'' @ pkg_show pk (cr_version g)) (rs_same_name r))
             in req @ '': no compatible provider; registered: '' @ (if offered = [] then ''none'' else offered)
         | Ambiguous \<Rightarrow>
             req @ '': ambiguous provider selection among '' @ join_with '', '' (map cr_provider_id (rs_candidates r)))"

definition registration_version ::
  "('v, 'x) packaging \<Rightarrow> capability_key \<Rightarrow> (string + 'v) option \<Rightarrow> 'v result" where
  "registration_version pk key version =
     bind_result (parse_version pk (case version of None \<Rightarrow> Inl (ck_api_version key) | Some v \<Rightarrow> v)) (\<lambda>parsed.
       if show_nat (pkg_major pk parsed) \<noteq> ck_api_version key then
         Inl (ConfigurationError ''provided version does not match the capability contract generation'')
       else Inr parsed)"

text \<open>\<open>provide\<close> up to the point where the registration enters the registry.\<close>

definition make_registration ::
  "('v, 'x) packaging \<Rightarrow> string \<Rightarrow> nat \<Rightarrow> capability_key \<Rightarrow> 'o \<Rightarrow> (string + 'v) option \<Rightarrow> string \<Rightarrow> string
     \<Rightarrow> ('v, 'o) registration result" where
  "make_registration pk hex scope_id key value version provider_id provider_name =
     (if ck_api_version key = [] then
        Inl (ConfigurationError ''cannot provide a generation-agnostic capability key'')
      else bind_result (registration_version pk key version) (\<lambda>parsed.
        Inr \<lparr>cr_id = ''cap_'' @ hex, cr_key = key, cr_version = parsed, cr_value = value,
             cr_provider_id = provider_id,
             cr_provider_name = (if provider_name = [] then provider_id else provider_name),
             cr_scope_id = scope_id\<rparr>))"

definition cap_insert :: "('v, 'o) registration \<Rightarrow> ('v, 'o) cap_registry \<Rightarrow> ('v, 'o) cap_registry" where
  "cap_insert g reg = dict_set (cr_id g) g reg"

definition cap_withdraw :: "string \<Rightarrow> ('v, 'o) cap_registry \<Rightarrow> bool \<times> ('v, 'o) cap_registry" where
  "cap_withdraw i reg = (map_of reg i \<noteq> None, dict_pop i reg)"

definition cap_withdraw_provider ::
  "string \<Rightarrow> ('v, 'o) cap_registry \<Rightarrow> ('v, 'o) registration list \<times> ('v, 'o) cap_registry" where
  "cap_withdraw_provider p reg =
     (let removed = filter (\<lambda>g. cr_provider_id g = p) (dict_values reg)
      in (removed, fold (\<lambda>g r. snd (cap_withdraw (cr_id g) r)) removed reg))"

definition ordering_key :: "('v, 'o) registration \<Rightarrow> string \<times> string" where
  "ordering_key g = (cr_provider_name g, cr_provider_id g)"

definition cap_registrations :: "('v, 'o) cap_registry \<Rightarrow> ('v, 'o) registration list" where
  "cap_registrations reg = sort_key ordering_key (dict_values reg)"

definition cap_by_name :: "string \<Rightarrow> ('v, 'o) cap_registry \<Rightarrow> ('v, 'o) registration list" where
  "cap_by_name name reg = filter (\<lambda>g. ck_name (cr_key g) = name) (cap_registrations reg)"

fun apply_preference :: "('v, 'o) registration list \<Rightarrow> string list \<Rightarrow> ('v, 'o) registration option" where
  "apply_preference candidates [] = None"
| "apply_preference candidates (identifier # prefer) =
     (case find (\<lambda>g. identifier \<in> {cr_id g, cr_provider_id g}) candidates of
        Some g \<Rightarrow> Some g
      | None \<Rightarrow> apply_preference candidates prefer)"

definition cap_resolve ::
  "('v, 'x) packaging \<Rightarrow> 'x requirement \<Rightarrow> string list option \<Rightarrow> ('v, 'o) cap_registry
     \<Rightarrow> ('v, 'x, 'o) resolution" where
  "cap_resolve pk req prefer reg =
     (let same_name = cap_by_name (rq_name req) reg;
          candidates = filter (\<lambda>g. rq_accepts pk req (cr_key g) (cr_version g)) same_name;
          result = (\<lambda>status selected. \<lparr>rs_requirement = req, rs_status = status, rs_selected = selected,
                      rs_candidates = candidates, rs_same_name = same_name\<rparr>)
      in if candidates = [] then result (if same_name = [] then No_provider else Version_mismatch) None
         else if length candidates = 1 then result Resolved (Some (candidates ! 0))
         else (case (case prefer of None \<Rightarrow> None | Some ps \<Rightarrow> apply_preference candidates ps) of
                 Some g \<Rightarrow> result Resolved (Some g)
               | None \<Rightarrow> result Ambiguous None))"

section \<open>Snapshots\<close>

record ('v, 'o) snapshot =
  sn_generation_id :: string
  sn_registrations :: "('v, 'o) registration list"

datatype capability_ref = ByKey capability_key | ByName string

definition ref_name :: "capability_ref \<Rightarrow> string" where
  "ref_name c = (case c of ByKey k \<Rightarrow> ck_name k | ByName n \<Rightarrow> n)"

definition show_ref :: "capability_ref \<Rightarrow> string" where
  "show_ref c = (case c of ByKey k \<Rightarrow> show_key k | ByName n \<Rightarrow> n)"

definition from_registrations :: "string \<Rightarrow> ('v, 'o) registration list \<Rightarrow> ('v, 'o) snapshot" where
  "from_registrations gid gs = \<lparr>sn_generation_id = gid, sn_registrations = sort_key ordering_key gs\<rparr>"

definition sn_providers :: "('v, 'o) snapshot \<Rightarrow> capability_ref \<Rightarrow> ('v, 'o) registration list" where
  "sn_providers sn c =
     (let matches = filter (\<lambda>g. ck_name (cr_key g) = ref_name c) (sn_registrations sn)
      in case c of
           ByName _ \<Rightarrow> matches
         | ByKey k \<Rightarrow> if ck_api_version k \<noteq> [] then filter (\<lambda>g. ck_api_version (cr_key g) = ck_api_version k) matches
                     else matches)"

definition sn_get :: "('v, 'o) snapshot \<Rightarrow> capability_ref \<Rightarrow> ('v, 'o) registration option result" where
  "sn_get sn c =
     (let matches = sn_providers sn c
      in if length matches > 1 then
           Inl (CapabilityAmbiguous (''capability '' @ show_ref c @ '' has multiple providers in this snapshot''))
         else if length matches = 1 then Inr (Some (matches ! 0)) else Inr None)"

definition sn_require :: "('v, 'o) snapshot \<Rightarrow> capability_ref \<Rightarrow> 'o result" where
  "sn_require sn c =
     bind_result (sn_get sn c) (\<lambda>registration.
       case registration of
         Some g \<Rightarrow> Inr (cr_value g)
       | None \<Rightarrow>
           if filter (\<lambda>g. ck_name (cr_key g) = ref_name c) (sn_registrations sn) \<noteq> [] then
             Inl (CapabilityVersionMismatch (''capability '' @ py_repr (ref_name c) @ '' is registered on a different contract generation''))
           else Inl (CapabilityNotFound (''capability '' @ py_repr (ref_name c) @ '' is not registered in this snapshot'')))"

text \<open>The two nested loops of \<open>resolve\<close> over the preferences and the candidates.\<close>

fun first_preferred :: "('v, 'o) registration list \<Rightarrow> string list \<Rightarrow> ('v, 'o) registration option" where
  "first_preferred candidates [] = None"
| "first_preferred candidates (identifier # prefer) =
     (case filter (\<lambda>g. identifier = cr_id g \<or> identifier = cr_provider_id g) candidates of
        g # _ \<Rightarrow> Some g
      | [] \<Rightarrow> first_preferred candidates prefer)"

definition sn_resolve ::
  "('v, 'x) packaging \<Rightarrow> ('v, 'o) snapshot \<Rightarrow> 'x requirement \<Rightarrow> string list option \<Rightarrow> ('v, 'x, 'o) resolution" where
  "sn_resolve pk sn req prefer =
     (let same_name = sn_providers sn (ByName (rq_name req));
          candidates = filter (\<lambda>g. rq_accepts pk req (cr_key g) (cr_version g)) same_name;
          result = (\<lambda>status selected. \<lparr>rs_requirement = req, rs_status = status, rs_selected = selected,
                      rs_candidates = candidates, rs_same_name = same_name\<rparr>)
      in if candidates = [] then result (if same_name = [] then No_provider else Version_mismatch) None
         else if length candidates = 1 then result Resolved (Some (candidates ! 0))
         else (case first_preferred candidates (case prefer of None \<Rightarrow> [] | Some ps \<Rightarrow> ps) of
                 Some g \<Rightarrow> result Resolved (Some g)
               | None \<Rightarrow> result Ambiguous None))"

definition sn_contains :: "('v, 'o) snapshot \<Rightarrow> capability_ref \<Rightarrow> bool" where
  "sn_contains sn c \<longleftrightarrow> sn_providers sn c \<noteq> []"

text \<open>
  \<open>versions()\<close>: the rendered versions per capability name, names sorted, versions sorted with the
  order of \<open>packaging\<close> on the re-parsed text (insertion sort stands for the stable \<open>sorted\<close>).
\<close>

definition pkg_text_less :: "('v, 'x) packaging \<Rightarrow> string \<Rightarrow> string \<Rightarrow> bool" where
  "pkg_text_less pk a b = (case (pkg_version pk a, pkg_version pk b) of
      (Some v, Some w) \<Rightarrow> pkg_less pk v w | _ \<Rightarrow> False)"

fun insert_by :: "('a \<Rightarrow> 'a \<Rightarrow> bool) \<Rightarrow> 'a \<Rightarrow> 'a list \<Rightarrow> 'a list" where
  "insert_by lt x [] = [x]"
| "insert_by lt x (y # ys) = (if lt y x then y # insert_by lt x ys else x # y # ys)"

definition sort_by :: "('a \<Rightarrow> 'a \<Rightarrow> bool) \<Rightarrow> 'a list \<Rightarrow> 'a list" where
  "sort_by lt xs = foldr (insert_by lt) xs []"

definition sn_versions :: "('v, 'x) packaging \<Rightarrow> ('v, 'o) snapshot \<Rightarrow> (string, string list) dict" where
  "sn_versions pk sn =
     (let collected = fold (\<lambda>g d. dict_append (ck_name (cr_key g)) (pkg_show pk (cr_version g)) d) (sn_registrations sn) []
      in map (\<lambda>(name, versions). (name, sort_by (pkg_text_less pk) versions)) (sort_key fst collected))"

end
