(* ===== verification/Capability_Props.thy ===== *)
theory Capability_Props
  imports Capabilities
begin

text \<open>
  Properties of capability resolution: what each outcome means, independence of the registration
  order, agreement of the registry with the snapshot published from it, the contract generation
  derived from a specifier, and the exact outcomes of \<open>require\<close>.
\<close>

section \<open>Resolution\<close>

definition named :: "string \<Rightarrow> ('v, 'o) registration \<Rightarrow> bool" where
  "named n g \<longleftrightarrow> ck_name (cr_key g) = n"

definition satisfies :: "('v, 'x) packaging \<Rightarrow> 'x requirement \<Rightarrow> ('v, 'o) registration \<Rightarrow> bool" where
  "satisfies pk req g \<longleftrightarrow> rq_accepts pk req (cr_key g) (cr_version g)"

definition answers_to :: "string \<Rightarrow> ('v, 'o) registration \<Rightarrow> bool" where
  "answers_to identifier g \<longleftrightarrow> identifier = cr_id g \<or> identifier = cr_provider_id g"

lemma satisfies_eq: "(\<lambda>g. rq_accepts pk req (cr_key g) (cr_version g)) = satisfies pk req"
  by (simp add: fun_eq_iff satisfies_def)

lemma satisfies_named: "satisfies pk req g \<Longrightarrow> named (rq_name req) g"
  by (auto simp: satisfies_def named_def rq_accepts_def rq_name_def split: if_splits)

lemma find_SomeD: "find P xs = Some x \<Longrightarrow> x \<in> set xs \<and> P x"
  by (induction xs) (auto split: if_splits)

lemma apply_preference_Some:
  "apply_preference cs ps = Some g \<Longrightarrow> g \<in> set cs \<and> (\<exists>p \<in> set ps. answers_to p g)"
  by (induction ps) (auto simp: answers_to_def split: option.splits dest!: find_SomeD)

lemma apply_preference_None:
  "apply_preference cs ps = None \<longleftrightarrow> (\<forall>p \<in> set ps. \<forall>g \<in> set cs. \<not> answers_to p g)"
  by (induction ps) (auto simp: answers_to_def find_None_iff split: option.splits dest: find_SomeD)

lemma two_or_more: "2 \<le> length xs \<longleftrightarrow> xs \<noteq> [] \<and> length xs \<noteq> 1"
  by (cases xs) (auto simp: Suc_le_eq)

text \<open>One resolution procedure on the providers of the name, in order.\<close>

definition resolve_from ::
  "('v, 'x) packaging \<Rightarrow> 'x requirement \<Rightarrow> string list \<Rightarrow> ('v, 'o) registration list \<Rightarrow> ('v, 'x, 'o) resolution" where
  "resolve_from pk req prefs same_name =
     (let candidates = filter (satisfies pk req) same_name;
          selected = (if length candidates = 1 then Some (candidates ! 0) else apply_preference candidates prefs)
      in \<lparr>rs_requirement = req,
          rs_status = (if same_name = [] then No_provider else if candidates = [] then Version_mismatch
                       else if selected = None then Ambiguous else Resolved),
          rs_selected = (if candidates = [] then None else selected),
          rs_candidates = candidates, rs_same_name = same_name\<rparr>)"

lemma first_preferred_eq: "first_preferred cs ps = apply_preference cs ps"
proof (induction ps)
  case (Cons p ps)
  have "find P cs = (case filter P cs of [] \<Rightarrow> None | g # _ \<Rightarrow> Some g)" for P
    by (induction cs) auto
  then show ?case using Cons by (simp split: list.split)
qed simp

definition prefs_of :: "string list option \<Rightarrow> string list" where
  "prefs_of prefer = (case prefer of None \<Rightarrow> [] | Some ps \<Rightarrow> ps)"

lemma cap_resolve_from:
  "cap_resolve pk req prefer reg = resolve_from pk req (prefs_of prefer) (cap_by_name (rq_name req) reg)"
  by (cases "prefer")
     (auto simp: cap_resolve_def resolve_from_def prefs_of_def Let_def satisfies_eq
        split: option.split)

lemma sn_resolve_from:
  "sn_resolve pk sn req prefer = resolve_from pk req (prefs_of prefer) (sn_providers sn (ByName (rq_name req)))"
  by (cases "prefer")
     (auto simp: sn_resolve_def resolve_from_def prefs_of_def Let_def satisfies_eq
        first_preferred_eq split: option.split)

lemma cap_by_name_set: "set (cap_by_name n reg) = {g \<in> set (dict_values reg). named n g}"
  by (auto simp: cap_by_name_def cap_registrations_def named_def)

lemma resolve_from_set:
  assumes "set gs = {g \<in> A. named (rq_name req) g}"
  shows "set (rs_candidates (resolve_from pk req ps gs)) = {g \<in> A. satisfies pk req g}"
  using assms satisfies_named by (fastforce simp: resolve_from_def Let_def)

lemma resolve_from_selected:
  assumes "rs_selected (resolve_from pk req ps gs) = Some g"
  shows "g \<in> set (rs_candidates (resolve_from pk req ps gs))
     \<and> (rs_candidates (resolve_from pk req ps gs) = [g] \<or> (\<exists>p \<in> set ps. answers_to p g))"
proof -
  let ?c = "filter (satisfies pk req) gs"
  have "(length ?c = 1 \<and> g = ?c ! 0) \<or> apply_preference ?c ps = Some g"
    using assms by (auto simp: resolve_from_def Let_def split: if_splits)
  then show ?thesis
  proof
    assume "length ?c = 1 \<and> g = ?c ! 0"
    then have "?c = [g]" by (cases ?c) auto
    then show ?thesis by (simp add: resolve_from_def Let_def)
  next
    assume "apply_preference ?c ps = Some g"
    from apply_preference_Some [OF this] show ?thesis by (simp add: resolve_from_def Let_def)
  qed
qed

text \<open>
  C7: Resolution against the registry is sound, complete and never arbitrary. The candidates are
  exactly the registrations that satisfy the requirement; a provider is selected only if it is the
  sole candidate or a caller's preference names it; the result is ambiguous exactly when two or
  more registrations satisfy the requirement and no preference names one of them; and the two
  negative outcomes tell an unknown capability from one no provider of which is compatible.
\<close>

theorem cap_resolve_correct:
  "let r = cap_resolve pk req prefer reg; cs = rs_candidates r in
     set cs = {g \<in> set (dict_values reg). satisfies pk req g}
   \<and> (case rs_selected r of
        None \<Rightarrow> rs_status r \<noteq> Resolved
      | Some g \<Rightarrow> rs_status r = Resolved \<and> g \<in> set cs
          \<and> (cs = [g] \<or> list_ex (\<lambda>p. answers_to p g) (prefs_of prefer)))
   \<and> (rs_status r = Ambiguous \<longleftrightarrow>
        length cs \<ge> 2 \<and> \<not> list_ex (\<lambda>p. list_ex (answers_to p) cs) (prefs_of prefer))
   \<and> (rs_status r = No_provider \<longleftrightarrow> \<not> list_ex (named (rq_name req)) (dict_values reg))
   \<and> (rs_status r = Version_mismatch \<longleftrightarrow> list_ex (named (rq_name req)) (dict_values reg) \<and> cs = [])"
proof -
  let ?gs = "cap_by_name (rq_name req) reg" and ?ps = "prefs_of prefer"
  let ?r = "resolve_from pk req ?ps ?gs"
  have cs: "set (rs_candidates ?r) = {g \<in> set (dict_values reg). satisfies pk req g}"
    by (rule resolve_from_set) (rule cap_by_name_set)
  have none: "?gs = [] \<longleftrightarrow> \<not> list_ex (named (rq_name req)) (dict_values reg)"
    using cap_by_name_set [of "rq_name req" reg] by (auto simp: list_ex_iff simp flip: set_empty)
  have sel: "case rs_selected ?r of
        None \<Rightarrow> rs_status ?r \<noteq> Resolved
      | Some g \<Rightarrow> rs_status ?r = Resolved \<and> g \<in> set (rs_candidates ?r)
          \<and> (rs_candidates ?r = [g] \<or> list_ex (\<lambda>p. answers_to p g) ?ps)"
  proof (cases "rs_selected ?r")
    case None
    then show ?thesis by (auto simp: resolve_from_def Let_def split: if_splits)
  next
    case (Some g)
    moreover from this have "rs_status ?r = Resolved"
      by (auto simp: resolve_from_def Let_def split: if_splits)
    ultimately show ?thesis using resolve_from_selected [OF Some] by (simp add: list_ex_iff)
  qed
  have amb: "rs_status ?r = Ambiguous \<longleftrightarrow>
      length (rs_candidates ?r) \<ge> 2 \<and> \<not> list_ex (\<lambda>p. list_ex (answers_to p) (rs_candidates ?r)) ?ps"
    unfolding two_or_more using apply_preference_None [of "filter (satisfies pk req) ?gs" ?ps]
    by (auto simp: resolve_from_def Let_def list_ex_iff)
  have "rs_status ?r = No_provider \<longleftrightarrow> ?gs = []"
    "rs_status ?r = Version_mismatch \<longleftrightarrow> ?gs \<noteq> [] \<and> rs_candidates ?r = []"
    by (auto simp: resolve_from_def Let_def)
  with cs sel amb none show ?thesis
    unfolding Let_def cap_resolve_from by simp
qed

text \<open>A packaging whose versions are numbers.\<close>

definition demo_packaging :: "(nat, unit) packaging" where
  "demo_packaging = \<lparr>pkg_version = (\<lambda>s. Some (read_nat s)), pkg_specifier = (\<lambda>s. Some ()),
     pkg_contains = (\<lambda>x v. True), pkg_clauses = (\<lambda>x. []), pkg_less = (<), pkg_major = (\<lambda>v. v),
     pkg_minor = (\<lambda>v. 0), pkg_micro = (\<lambda>v. 0), pkg_show = show_nat, pkg_show_specifier = (\<lambda>x. [])\<rparr>"

text \<open>
  C26: A requirement resolves against the snapshot published from the registry exactly as it does
  against the registry, with the same candidates in the same order.
\<close>

theorem snapshot_resolves_as_registry:
  "sn_resolve pk (from_registrations gid (cap_registrations reg)) req prefer = cap_resolve pk req prefer reg"
proof -
  have "sort_key ordering_key (cap_registrations reg) = cap_registrations reg"
    unfolding cap_registrations_def by (rule sort_key_id_if_sorted) simp
  then show ?thesis
    by (simp add: sn_resolve_from cap_resolve_from from_registrations_def sn_providers_def
        ref_name_def cap_by_name_def Let_def)
qed

section \<open>The contract generation of a specifier\<close>

definition from_clause :: "('v, 'x) packaging \<Rightarrow> (string \<times> string) list \<Rightarrow> string set \<Rightarrow> 'v \<Rightarrow> bool" where
  "from_clause pk specs ops v \<longleftrightarrow>
     (\<exists>op ver. (op, ver) \<in> set specs \<and> clause_version pk ver = Some v \<and> op \<in> ops)"

definition bounds_from :: "('v, 'x) packaging \<Rightarrow> (string \<times> string) list \<Rightarrow> 'v bounds \<Rightarrow> bool" where
  "bounds_from pk specs acc \<longleftrightarrow> (case acc of (pinned, lower, upper) \<Rightarrow>
     (\<forall>v \<in> set pinned. from_clause pk specs {''=='', ''==='', ''~=''} v)
   \<and> (\<forall>v \<in> set lower. from_clause pk specs {''>='', ''>''} v)
   \<and> (\<forall>p \<in> set upper. from_clause pk specs {fst p} (snd p) \<and> fst p \<in> {''<'', ''<=''}))"

lemma bounds_from_step:
  assumes "bounds_from pk specs acc" "spec \<in> set specs"
  shows "bounds_from pk specs (bound_step pk acc spec)"
proof -
  obtain op ver where spec: "spec = (op, ver)" by (cases spec)
  obtain pinned lower upper where acc: "acc = (pinned, lower, upper)" by (cases acc)
  show ?thesis
  proof (cases "clause_version pk ver")
    case None
    then show ?thesis using assms by (simp add: bound_step_def spec acc)
  next
    case (Some v)
    have src: "from_clause pk specs ops v" if "op \<in> ops" for ops
      using that Some assms(2) spec unfolding from_clause_def by blast
    consider "op \<in> {''=='', ''==='', ''~=''}" | "op \<in> {''>='', ''>''}" | "op \<in> {''<'', ''<=''}"
      | "op \<notin> {''=='', ''==='', ''~=''}" "op \<notin> {''>='', ''>''}" "op \<notin> {''<'', ''<=''}"
      by argo
    then show ?thesis
    proof cases
      case 1
      then have "bound_step pk acc spec = (pinned @ [v], lower, upper)"
        using Some by (auto simp: bound_step_def spec acc)
      with assms(1) src [OF 1] show ?thesis by (simp add: bounds_from_def acc)
    next
      case 2
      then have "bound_step pk acc spec = (pinned, lower @ [v], upper)"
        using Some by (auto simp: bound_step_def spec acc)
      with assms(1) src [OF 2] show ?thesis by (simp add: bounds_from_def acc)
    next
      case 3
      then have "bound_step pk acc spec = (pinned, lower, upper @ [(op, v)])"
        using Some by (auto simp: bound_step_def spec acc)
      with assms(1) src [of "{op}"] 3 show ?thesis by (simp add: bounds_from_def acc)
    next
      case 4
      then have "bound_step pk acc spec = acc"
        using Some by (simp add: bound_step_def spec acc)
      with assms(1) show ?thesis by simp
    qed
  qed
qed

lemma bounds_from_collect: "bounds_from pk specs (collect_bounds pk specs)"
proof -
  have "bounds_from pk specs (foldl (bound_step pk) acc xs)"
    if "set xs \<subseteq> set specs" "bounds_from pk specs acc" for xs acc
    using that
  proof (induction xs arbitrary: acc)
    case (Cons spec xs)
    have "bounds_from pk specs (bound_step pk acc spec)"
      using Cons.prems by (intro bounds_from_step) simp_all
    with Cons show ?case by simp
  qed simp
  then show ?thesis by (simp add: collect_bounds_def bounds_from_def)
qed

lemma fold_pick_mem: "fold (\<lambda>v best. if P v best then v else best) xs b \<in> insert b (set xs)"
  by (induction xs arbitrary: b) auto

lemma pkg_min_mem: "vs \<noteq> [] \<Longrightarrow> pkg_min pk vs \<in> set vs"
  using fold_pick_mem [of "pkg_less pk" "tl vs" "hd vs"] by (cases vs) (auto simp: pkg_min_def)

lemma pkg_max_mem: "vs \<noteq> [] \<Longrightarrow> pkg_max pk vs \<in> set vs"
  using fold_pick_mem [of "\<lambda>v best. pkg_less pk best v" "tl vs" "hd vs"]
  by (cases vs) (auto simp: pkg_max_def)

lemma pkg_min_item_mem: "vs \<noteq> [] \<Longrightarrow> pkg_min_item pk vs \<in> set vs"
  using fold_pick_mem [of "\<lambda>v best. pkg_less pk (snd v) (snd best)" "tl vs" "hd vs"]
  by (cases vs) (auto simp: pkg_min_item_def)

text \<open>
  The documented behaviour of \<open>packaging\<close> on plain release numbers (no epoch, post-release or
  fourth component, for which the second law of the order fails).
\<close>

definition clause_holds :: "('v, 'x) packaging \<Rightarrow> string \<Rightarrow> 'v \<Rightarrow> 'v \<Rightarrow> bool" where
  "clause_holds pk op bound v \<longleftrightarrow>
     (op \<in> {''=='', ''==='', ''~=''} \<longrightarrow> pkg_major pk v = pkg_major pk bound)
   \<and> (op \<in> {''>='', ''>''} \<longrightarrow> \<not> pkg_less pk v bound)
   \<and> (op = ''<='' \<longrightarrow> \<not> pkg_less pk bound v)
   \<and> (op = ''<'' \<longrightarrow> pkg_less pk v bound)"

definition contains_meets_clauses :: "('v, 'x) packaging \<Rightarrow> bool" where
  "contains_meets_clauses pk \<longleftrightarrow> (\<forall>x v op ver bound. pkg_contains pk x v \<and> (op, ver) \<in> set (pkg_clauses pk x)
     \<and> clause_version pk ver = Some bound \<longrightarrow> clause_holds pk op bound v)"

definition plain_release_order :: "('v, 'x) packaging \<Rightarrow> bool" where
  "plain_release_order pk \<longleftrightarrow> (\<forall>v w.
     (\<not> pkg_less pk v w \<longrightarrow> pkg_major pk w \<le> pkg_major pk v)
   \<and> (pkg_less pk v w \<and> pkg_minor pk w = 0 \<and> pkg_micro pk w = 0 \<longrightarrow> pkg_major pk v < pkg_major pk w)
   \<and> (pkg_less pk v w \<longrightarrow> pkg_major pk v \<le> pkg_major pk w))"

text \<open>
  The contract generation derived from a specifier is never wrong: if \<open>specifier_major\<close>
  proves a generation, every version the specifier accepts has that major, so pinning a
  requirement to it rejects no compatible provider. (Multi-major and open ranges give None.)
\<close>

theorem specifier_major_sound:
  assumes "contains_meets_clauses pk" "plain_release_order pk"
    and "specifier_major pk x = Some m" "pkg_contains pk x v"
  shows "m = show_nat (pkg_major pk v)"
proof -
  obtain pinned lower upper where b: "collect_bounds pk (pkg_clauses pk x) = (pinned, lower, upper)"
    by (cases "collect_bounds pk (pkg_clauses pk x)")
  note src = bounds_from_collect [of pk "pkg_clauses pk x", unfolded b bounds_from_def prod.case]
  have holds: "clause_holds pk op bound v"
    if "(op, ver) \<in> set (pkg_clauses pk x)" "clause_version pk ver = Some bound" for op ver bound
    using assms(1,4) that unfolding contains_meets_clauses_def by blast
  show ?thesis
  proof (cases "pinned = []")
    case False
    then have "pkg_min pk pinned \<in> set pinned" by (rule pkg_min_mem)
    from bspec [OF src [THEN conjunct1] this, unfolded from_clause_def] obtain op ver where
      p: "(op, ver) \<in> set (pkg_clauses pk x)" "clause_version pk ver = Some (pkg_min pk pinned)"
      "op \<in> {''=='', ''==='', ''~=''}"
      by (elim exE conjE)
    have "pkg_major pk v = pkg_major pk (pkg_min pk pinned)"
      using holds [OF p(1,2)] p(3) by (simp only: clause_holds_def simp_thms)
    with assms(3) False show ?thesis by (simp add: specifier_major_def b)
  next
    case True
    then have ne: "lower \<noteq> []" "upper \<noteq> []"
      using assms(3) by (auto simp: specifier_major_def b)
    obtain op c where c: "pkg_min_item pk upper = (op, c)" by (cases "pkg_min_item pk upper")
    let ?f = "pkg_max pk lower"
    have "?f \<in> set lower" using ne(1) by (rule pkg_max_mem)
    from bspec [OF src [THEN conjunct2, THEN conjunct1] this, unfolded from_clause_def] obtain lop lver where
      l: "(lop, lver) \<in> set (pkg_clauses pk x)" "clause_version pk lver = Some ?f" "lop \<in> {''>='', ''>''}"
      by (elim exE conjE)
    have "\<not> pkg_less pk v ?f"
      using holds [OF l(1,2)] l(3) by (simp only: clause_holds_def simp_thms)
    then have low: "pkg_major pk ?f \<le> pkg_major pk v"
      using assms(2) unfolding plain_release_order_def by blast
    have um: "(op, c) \<in> set upper" using pkg_min_item_mem [OF ne(2), of pk] c by simp
    from bspec [OF src [THEN conjunct2, THEN conjunct2] um, unfolded from_clause_def fst_conv snd_conv]
    obtain uver where
      u: "(op, uver) \<in> set (pkg_clauses pk x)" "clause_version pk uver = Some c" "op \<in> {''<'', ''<=''}"
      by (elim exE conjE) (simp only: singleton_iff)
    have up: "int (pkg_major pk v) \<le> (if op = ''<'' \<and> (pkg_minor pk c, pkg_micro pk c) = (0, 0)
        then int (pkg_major pk c) - 1 else int (pkg_major pk c))"
    proof (cases "op = ''<''")
      case True
      then have "pkg_less pk v c" using holds [OF u(1,2)] by (simp only: clause_holds_def simp_thms)
      with assms(2) have "pkg_major pk v \<le> pkg_major pk c"
        "pkg_minor pk c = 0 \<and> pkg_micro pk c = 0 \<longrightarrow> pkg_major pk v < pkg_major pk c"
        unfolding plain_release_order_def by blast+
      then show ?thesis by auto
    next
      case False
      then have "op = ''<=''" using u(3) by simp
      then have "\<not> pkg_less pk c v" using holds [OF u(1,2)] by (simp add: clause_holds_def)
      then have "pkg_major pk v \<le> pkg_major pk c" using assms(2) unfolding plain_release_order_def by blast
      with False show ?thesis by simp
    qed
    show ?thesis
      using assms(3) True ne low up by (auto simp: specifier_major_def b c Let_def show_nat_inj split: if_splits)
  qed
qed

text \<open>A stand-in for \<open>packaging\<close> with release triples and two known texts.\<close>

definition triple_packaging :: "(nat \<times> nat \<times> nat, unit) packaging" where
  "triple_packaging = \<lparr>
     pkg_version = (\<lambda>s. if s = ''1.4'' then Some (1, 4, 0) else if s = ''2'' then Some (2, 0, 0) else None),
     pkg_specifier = (\<lambda>s. Some ()),
     pkg_contains = (\<lambda>x v. \<not> v < (1, 4, 0) \<and> v < (2, 0, 0)),
     pkg_clauses = (\<lambda>x. [(''>='', ''1.4''), (''<'', ''2'')]),
     pkg_less = (\<lambda>v w. v < w), pkg_major = fst, pkg_minor = (\<lambda>v. fst (snd v)),
     pkg_micro = (\<lambda>v. snd (snd v)), pkg_show = (\<lambda>v. show_nat (fst v)), pkg_show_specifier = (\<lambda>x. '''')\<rparr>"

theorem specifier_major_sound_witness:
  "specifier_major triple_packaging () = Some (show_nat 1) \<and> show_nat 1 = show_nat (pkg_major triple_packaging (1, 9, 3))"
proof -
  have "contains_meets_clauses triple_packaging"
    by (auto simp: contains_meets_clauses_def clause_holds_def clause_version_def is_wildcard_def triple_packaging_def)
  moreover have "plain_release_order triple_packaging"
    by (auto simp: plain_release_order_def triple_packaging_def)
  moreover have m: "specifier_major triple_packaging () = Some (show_nat 1)"
    by (simp add: specifier_major_def collect_bounds_def bound_step_def clause_version_def is_wildcard_def
        pkg_max_def pkg_min_item_def triple_packaging_def)
  moreover have "pkg_contains triple_packaging () (1, 9, 3)"
    by (simp add: triple_packaging_def)
  ultimately show ?thesis using specifier_major_sound [of triple_packaging "()" "show_nat 1" "(1, 9, 3)"] by blast
qed

section \<open>Reading a snapshot\<close>

text \<open>
  \<open>require\<close> returns the value of the provider exactly when the snapshot holds exactly one
  matching registration; several matches are ambiguous, and the two remaining errors tell a
  capability of another contract generation from one that is not registered at all.
\<close>

theorem sn_require_outcomes:
  "case sn_providers sn c of
     [g] \<Rightarrow> sn_require sn c = Inr (cr_value g)
   | [] \<Rightarrow> (if list_ex (named (ref_name c)) (sn_registrations sn)
           then \<exists>msg. sn_require sn c = Inl (CapabilityVersionMismatch msg)
           else \<exists>msg. sn_require sn c = Inl (CapabilityNotFound msg))
   | _ # _ # _ \<Rightarrow> (\<exists>msg. sn_require sn c = Inl (CapabilityAmbiguous msg))"
  by (auto simp: sn_require_def sn_get_def Let_def list_ex_iff named_def filter_empty_conv split: list.split)

end
