(* ===== verification/Manifest.thy ===== *)
theory Manifest
  imports Capabilities
begin

text \<open>
  Plugin manifests (\<open>plugins/manifest.py\<close>): the declared data, its validation, and the parsed
  contracts and requirements the rest of the program reads from a manifest.
\<close>

datatype provided = OneVersion string | Versions "string list"

definition provided_versions :: "provided \<Rightarrow> string list" where
  "provided_versions p = (case p of OneVersion v \<Rightarrow> [v] | Versions vs \<Rightarrow> vs)"

record 'm manifest =
  mf_name :: string
  mf_version :: string
  mf_provides :: "(string, provided) dict"
  mf_requires :: "(string, string) dict"
  mf_optional :: "(string, string) dict"
  mf_permissions :: "string list"
  mf_config_version :: int
  mf_implementation_revision :: "string option"
  mf_metadata :: 'm

text \<open>The validators raise \<open>ValueError\<close>, which pydantic reports; the fields are checked in order.\<close>

definition value_error :: "string \<Rightarrow> py_exn" where
  "value_error msg = PyException ''ValueError'' msg"

definition check_implementation_revision :: "string option \<Rightarrow> unit result" where
  "check_implementation_revision value =
     (case value of
        None \<Rightarrow> Inr ()
      | Some t \<Rightarrow> if strip t = [] \<or> t \<noteq> strip t
                  then Inl (value_error ''implementation_revision must be a non-empty, trimmed string'')
                  else Inr ())"

definition as_value_error :: "'a result \<Rightarrow> unit result" where
  "as_value_error r = (case r of Inl _ \<Rightarrow> Inl (value_error ''invalid capability declaration'') | Inr _ \<Rightarrow> Inr ())"

definition check_provided :: "('v, 'x) packaging \<Rightarrow> string \<times> provided \<Rightarrow> capability_key list result" where
  "check_provided pk np =
     (if provided_versions (snd np) = [] then
        Inl (ConfigurationError ''provides must list at least one version'')
      else map_result (\<lambda>v. key_from_version pk (fst np) (Inl v)) (provided_versions (snd np)))"

text \<open>\<open>{**requires, **optional}\<close>: an optional requirement of the same name replaces the hard one.\<close>

definition merged_requirements :: "'m manifest \<Rightarrow> (string, string) dict" where
  "merged_requirements mf = fold (\<lambda>(k, v) d. dict_set k v d) (mf_optional mf) (mf_requires mf)"

definition check_capabilities :: "('v, 'x) packaging \<Rightarrow> 'm manifest \<Rightarrow> unit result" where
  "check_capabilities pk mf =
     bind_result (map_result (check_provided pk) (mf_provides mf)) (\<lambda>_.
     bind_result (map_result (\<lambda>(name, r). parse_requirement pk name (Inl r) False None) (merged_requirements mf)) (\<lambda>_.
     Inr ()))"

definition make_manifest :: "('v, 'x) packaging \<Rightarrow> 'm manifest \<Rightarrow> 'm manifest result" where
  "make_manifest pk mf =
     (if mf_name mf = [] then Inl (value_error ''name must not be empty'')
      else bind_result (as_value_error (parse_version pk (Inl (mf_version mf)))) (\<lambda>_.
        if mf_config_version mf < 0 then Inl (value_error ''config_version must be non-negative'')
        else bind_result (check_implementation_revision (mf_implementation_revision mf)) (\<lambda>_.
          bind_result (as_value_error (check_capabilities pk mf)) (\<lambda>_. Inr mf))))"

definition mf_identity :: "'m manifest \<Rightarrow> string" where
  "mf_identity mf = mf_name mf @ ''@'' @ mf_version mf"

definition parsed_version :: "('v, 'x) packaging \<Rightarrow> 'm manifest \<Rightarrow> 'v result" where
  "parsed_version pk mf = parse_version pk (Inl (mf_version mf))"

definition provided_contracts :: "'m manifest \<Rightarrow> (string \<times> string) list" where
  "provided_contracts mf =
     concat (map (\<lambda>(name, p). map (\<lambda>v. (name, v)) (provided_versions p)) (sort_key fst (mf_provides mf)))"

definition provided_keys :: "('v, 'x) packaging \<Rightarrow> 'm manifest \<Rightarrow> capability_key list result" where
  "provided_keys pk mf = map_result (\<lambda>(name, v). key_from_version pk name (Inl v)) (provided_contracts mf)"

definition required_capabilities :: "('v, 'x) packaging \<Rightarrow> 'm manifest \<Rightarrow> 'x requirement list result" where
  "required_capabilities pk mf =
     map_result (\<lambda>(name, r). parse_requirement pk name (Inl r) False None) (sort_key fst (mf_requires mf))"

definition optional_capabilities :: "('v, 'x) packaging \<Rightarrow> 'm manifest \<Rightarrow> 'x requirement list result" where
  "optional_capabilities pk mf =
     map_result (\<lambda>(name, r). parse_requirement pk name (Inl r) True None) (sort_key fst (mf_optional mf))"

text \<open>What the resolver reads of a manifest, parsed once.\<close>

record ('v, 'x) contracts =
  ct_name :: string
  ct_identity :: string
  ct_provided :: "(capability_key \<times> 'v) list"
  ct_required :: "'x requirement list"
  ct_optional :: "'x requirement list"

definition contract_of :: "('v, 'x) packaging \<Rightarrow> string \<times> string \<Rightarrow> (capability_key \<times> 'v) result" where
  "contract_of pk nv =
     bind_result (key_from_version pk (fst nv) (Inl (snd nv))) (\<lambda>key.
       bind_result (parse_version pk (Inl (snd nv))) (\<lambda>v. Inr (key, v)))"

definition read_contracts :: "('v, 'x) packaging \<Rightarrow> 'm manifest \<Rightarrow> ('v, 'x) contracts result" where
  "read_contracts pk mf =
     bind_result (map_result (contract_of pk) (provided_contracts mf)) (\<lambda>provided.
     bind_result (required_capabilities pk mf) (\<lambda>required.
     bind_result (optional_capabilities pk mf) (\<lambda>optional.
     Inr \<lparr>ct_name = mf_name mf, ct_identity = mf_identity mf, ct_provided = provided,
          ct_required = required, ct_optional = optional\<rparr>)))"

end
