(* ===== verification/Resolver.thy ===== *)
theory Resolver
  imports Manifest
begin

text \<open>
  The dependency resolver (\<open>plugins/resolver.py\<close>), first part: its data, the validated scope
  index, the provider options and views, and the resolution of one requirement with its provenance.
  Sets of names (frozensets) are lists used through membership.
\<close>

section \<open>Data\<close>

datatype requirement_status =
    ReqResolved | ReqNoProvider | ReqVersionMismatch | ReqAmbiguous | ReqSelfReference
  | ReqNotVisible | ReqProviderPending

datatype provider_origin = LocalOrigin | InheritedOrigin | UnrelatedOrigin

datatype consumer_kind = PluginConsumer | ScopeConsumer

definition root_scope :: string where
  "root_scope = ''/''"

record ('x, 'm) scope_spec =
  ss_path :: string
  ss_name :: string
  ss_parent :: "string option"
  ss_capabilities :: "string list option"
  ss_tools :: "string list option"
  ss_requirements :: "'x requirement list"
  ss_metadata :: 'm

record ('v, 'x, 'o) candidate =
  pc_entry_id :: string
  pc_manifest :: "('v, 'x) contracts"
  pc_instance_id :: "string option"
  pc_active :: bool
  pc_registrations :: "('v, 'o) registration list"
  pc_scope :: string

record 'v provider_option =
  po_entry_id :: string
  po_instance_id :: "string option"
  po_provider_name :: string
  po_key :: capability_key
  po_version :: 'v
  po_active :: bool
  po_scope :: string

record assessment =
  as_entry_id :: string
  as_instance_id :: "string option"
  as_provider_name :: string
  as_version :: string
  as_scope :: string
  as_origin :: provider_origin
  as_visible :: bool
  as_eligible :: bool
  as_selected :: bool
  as_rejection :: "string option"

record 'x req_resolution =
  rr_requirement :: "'x requirement"
  rr_status :: requirement_status
  rr_provider_entry_id :: "string option"
  rr_provider_instance_id :: "string option"
  rr_provider_name :: "string option"
  rr_provider_version :: "string option"
  rr_provider_key :: "string option"
  rr_explain :: string
  rr_consumer :: string
  rr_consumer_kind :: consumer_kind
  rr_provider_scope :: "string option"
  rr_provider_origin :: "provider_origin option"
  rr_selection_reason :: "string option"
  rr_assessments :: "assessment list"

definition rr_satisfied :: "'x req_resolution \<Rightarrow> bool" where
  "rr_satisfied r \<longleftrightarrow> rr_status r = ReqResolved"

section \<open>The scope index\<close>

type_synonym ('x, 'm) specs = "(string, ('x, 'm) scope_spec) dict"

definition root_spec :: "'m \<Rightarrow> ('x, 'm) scope_spec" where
  "root_spec no_metadata = \<lparr>ss_path = root_scope, ss_name = ''root'', ss_parent = None, ss_capabilities = None,
     ss_tools = None, ss_requirements = [], ss_metadata = no_metadata\<rparr>"

fun index_specs :: "('x, 'm) scope_spec list \<Rightarrow> ('x, 'm) specs \<Rightarrow> ('x, 'm) specs result" where
  "index_specs [] d = Inr d"
| "index_specs (s # ss) d =
     (if map_of d (ss_path s) \<noteq> None then Inl (ConfigurationError ''duplicate composition scope path'')
      else index_specs ss (dict_set (ss_path s) s d))"

text \<open>
  \<open>_lineage\<close> climbs to the root; \<open>seen\<close> (newest first) is both the set and the reversed chain.
\<close>

function lineage_up :: "('x, 'm) specs \<Rightarrow> string list \<Rightarrow> string \<Rightarrow> string list result" where
  "lineage_up d seen path =
     (if path \<in> set seen then Inl (ConfigurationError ''composition scope cycle detected'')
      else (case map_of d path of
              None \<Rightarrow> Inl (PyException ''KeyError'' path)
            | Some s \<Rightarrow>
                (case ss_parent s of
                   None \<Rightarrow> Inr (path # seen)
                 | Some p \<Rightarrow> lineage_up d (path # seen) p)))"
  by pat_completeness auto

termination
proof (relation "measure (\<lambda>(d, seen, path). length (filter (\<lambda>k. k \<notin> set seen) (dict_keys d)))")
  fix d :: "('x, 'm) specs" and seen path s p
  assume a: "path \<notin> set seen" "map_of d path = Some s" "ss_parent s = Some p"
  have "path \<in> set (dict_keys d)" using a(2) by (metis domI dom_map_of_conv_image_fst list.set_map)
  then have "length (filter (\<lambda>k. k \<notin> set (path # seen)) ks) < length (filter (\<lambda>k. k \<notin> set seen) ks)"
    if "ks = dict_keys d" for ks
    unfolding filter_filter [symmetric, of "\<lambda>k. k \<notin> set seen"] using that a(1)
  proof -
    have "filter (\<lambda>k. k \<notin> set (path # seen)) ks = filter (\<lambda>k. k \<noteq> path) (filter (\<lambda>k. k \<notin> set seen) ks)"
      by (induction ks) auto
    moreover have "path \<in> set (filter (\<lambda>k. k \<notin> set seen) ks)"
      using that a(1) \<open>path \<in> set (dict_keys d)\<close> by simp
    ultimately show ?thesis by (metis (mono_tags, lifting) length_filter_less)
  qed
  then show "((d, path # seen, p), (d, seen, path)) \<in> measure (\<lambda>(d, seen, path). length (filter (\<lambda>k. k \<notin> set seen) (dict_keys d)))"
    by simp
qed simp

declare lineage_up.simps [simp del]

text \<open>Intersection of the views along a lineage; None is the unrestricted view.\<close>

definition allowed_for :: "('x, 'm) specs \<Rightarrow> string list \<Rightarrow> string list option" where
  "allowed_for d lineage = fold (\<lambda>ancestor allowed.
      (case map_of d ancestor of
         None \<Rightarrow> allowed
       | Some s \<Rightarrow>
           (case ss_capabilities s of
              None \<Rightarrow> allowed
            | Some view \<Rightarrow> (case allowed of None \<Rightarrow> Some view | Some a \<Rightarrow> Some (filter (\<lambda>c. c \<in> set view) a)))))
     lineage None"

record ('x, 'm) scope_index =
  si_specs :: "('x, 'm) specs"
  si_lineages :: "(string, string list) dict"
  si_allowed :: "(string, string list option) dict"

definition build_index :: "'m \<Rightarrow> ('x, 'm) scope_spec list option \<Rightarrow> ('x, 'm) scope_index result" where
  "build_index no_metadata specs =
     (let entries = (case specs of None \<Rightarrow> [root_spec no_metadata] | Some ss \<Rightarrow> ss)
      in bind_result (index_specs entries []) (\<lambda>d.
           if map_of d root_scope = None then
             Inl (ConfigurationError ''composition scopes must include the root scope'')
           else if list_ex (\<lambda>s. case ss_parent s of None \<Rightarrow> False | Some p \<Rightarrow> map_of d p = None) (dict_values d) then
             Inl (ConfigurationError ''composition scope parent is not declared'')
           else bind_result (map_result (\<lambda>path. lineage_up d [] path) (dict_keys d)) (\<lambda>chains.
             let lineages = zip (dict_keys d) chains
             in Inr \<lparr>si_specs = d, si_lineages = lineages,
                     si_allowed = map (\<lambda>(path, lineage). (path, allowed_for d lineage)) lineages\<rparr>)))"

definition si_require :: "('x, 'm) scope_index \<Rightarrow> string \<Rightarrow> unit result" where
  "si_require ix path =
     (if map_of (si_specs ix) path = None then
        Inl (ConfigurationError ''plugin entry refers to an undeclared composition scope'')
      else Inr ())"

definition si_paths :: "('x, 'm) scope_index \<Rightarrow> string list" where
  "si_paths ix = dict_keys (si_specs ix)"

definition si_lineage :: "('x, 'm) scope_index \<Rightarrow> string \<Rightarrow> string list" where
  "si_lineage ix path = dict_get_or (si_lineages ix) path []"

definition si_allow :: "('x, 'm) scope_index \<Rightarrow> string \<Rightarrow> string list option" where
  "si_allow ix path = dict_get_or (si_allowed ix) path None"

definition si_children :: "('x, 'm) scope_index \<Rightarrow> string \<Rightarrow> string list" where
  "si_children ix path =
     sort (map ss_path (filter (\<lambda>s. ss_parent s = Some path) (dict_values (si_specs ix))))"

text \<open>The pre-order walk; a lineage without cycles is no longer than the number of scopes.\<close>

fun si_walk :: "nat \<Rightarrow> ('x, 'm) scope_index \<Rightarrow> string \<Rightarrow> ('x, 'm) scope_spec list" where
  "si_walk 0 ix path = []"
| "si_walk (Suc fuel) ix path =
     (case map_of (si_specs ix) path of
        None \<Rightarrow> []
      | Some s \<Rightarrow> s # concat (map (si_walk fuel ix) (si_children ix path)))"

definition si_ordered :: "('x, 'm) scope_index \<Rightarrow> ('x, 'm) scope_spec list" where
  "si_ordered ix = si_walk (length (si_specs ix)) ix root_scope"

definition si_can_see :: "('x, 'm) scope_index \<Rightarrow> string \<Rightarrow> string \<Rightarrow> string \<Rightarrow> bool" where
  "si_can_see ix consumer provider capability =
     (if provider \<notin> set (si_lineage ix consumer) then False
      else (case si_allow ix consumer of None \<Rightarrow> True | Some allowed \<Rightarrow> capability \<in> set allowed))"

section \<open>Provider options\<close>

fun distinct_entries :: "string list \<Rightarrow> ('v, 'x, 'o) candidate list \<Rightarrow> unit result" where
  "distinct_entries seen [] = Inr ()"
| "distinct_entries seen (c # cs) =
     (if pc_entry_id c \<in> set seen then Inl (ConfigurationError ''duplicate desired plugin entry id'')
      else distinct_entries (pc_entry_id c # seen) cs)"

definition ordered_candidates :: "('v, 'x, 'o) candidate list \<Rightarrow> ('v, 'x, 'o) candidate list result" where
  "ordered_candidates cs =
     (let ordered = sort_key pc_entry_id cs
      in bind_result (distinct_entries [] ordered) (\<lambda>_. Inr ordered))"

definition declared_options_of :: "('v, 'x, 'o) candidate \<Rightarrow> 'v provider_option list" where
  "declared_options_of c = map (\<lambda>(key, version).
     \<lparr>po_entry_id = pc_entry_id c, po_instance_id = pc_instance_id c, po_provider_name = ct_name (pc_manifest c),
      po_key = key, po_version = version, po_active = pc_active c, po_scope = pc_scope c\<rparr>)
     (ct_provided (pc_manifest c))"

definition declared_by_name :: "('v, 'x, 'o) candidate list \<Rightarrow> (string, 'v provider_option list) dict" where
  "declared_by_name cs = group_by (\<lambda>o1. ck_name (po_key o1)) (concat (map declared_options_of cs))"

definition registration_options :: "('v, 'x, 'o) candidate \<Rightarrow> 'v provider_option list" where
  "registration_options c = map (\<lambda>g.
     \<lparr>po_entry_id = pc_entry_id c, po_instance_id = pc_instance_id c, po_provider_name = cr_provider_name g,
      po_key = cr_key g, po_version = cr_version g, po_active = True, po_scope = pc_scope c\<rparr>)
     (pc_registrations c)"

definition candidate_options :: "('v, 'x, 'o) candidate \<Rightarrow> 'v provider_option list" where
  "candidate_options c = (if pc_active c then registration_options c else declared_options_of c)"

definition options_by_entry :: "('v, 'x, 'o) candidate list \<Rightarrow> (string, 'v provider_option list) dict" where
  "options_by_entry cs = map (\<lambda>c. (pc_entry_id c, candidate_options c)) cs"

definition option_order :: "('v, 'x) packaging \<Rightarrow> 'v provider_option \<Rightarrow> string \<times> string \<times> string \<times> string \<times> string" where
  "option_order pk o1 = (po_provider_name o1, po_entry_id o1,
     (case po_instance_id o1 of None \<Rightarrow> [] | Some i \<Rightarrow> i), pkg_show pk (po_version o1), po_scope o1)"

definition index_by_name ::
  "('v, 'x) packaging \<Rightarrow> (string, 'v provider_option list) dict \<Rightarrow> (string, 'v provider_option list) dict" where
  "index_by_name pk by_entry =
     (let options = concat (map (\<lambda>e. dict_get_or by_entry e []) (sort (dict_keys by_entry)))
      in map (\<lambda>(name, os). (name, sort_key (option_order pk) os)) (group_by (\<lambda>o1. ck_name (po_key o1)) options))"

section \<open>Views\<close>

record 'v scope_view =
  sv_path :: string
  sv_lineage :: "string list"
  sv_allowed :: "string list option"
  sv_eligible :: "string list"
  sv_visible :: "(string, 'v provider_option list) dict"
  sv_pool :: "(string, 'v provider_option list) dict"

definition lineage_options ::
  "('x, 'm) scope_index \<Rightarrow> ('v, 'x, 'o) candidate list \<Rightarrow> (string, 'v provider_option list) dict \<Rightarrow> string
     \<Rightarrow> 'v provider_option list" where
  "lineage_options ix cs by_entry path =
     (let by_scope = group_by pc_scope cs;
          allowed = si_allow ix path
      in concat (map (\<lambda>ancestor.
           concat (map (\<lambda>c.
             filter (\<lambda>o1. case allowed of None \<Rightarrow> True | Some a \<Rightarrow> ck_name (po_key o1) \<in> set a)
               (dict_get_or by_entry (pc_entry_id c) []))
             (dict_get_or by_scope ancestor [])))
           (si_lineage ix path)))"

definition build_view ::
  "('v, 'x) packaging \<Rightarrow> ('x, 'm) scope_index \<Rightarrow> ('v, 'x, 'o) candidate list \<Rightarrow> (string, 'v provider_option list) dict
     \<Rightarrow> string list \<Rightarrow> string \<Rightarrow> 'v scope_view" where
  "build_view pk ix cs by_entry eligible path =
     (let visible = group_by (\<lambda>o1. ck_name (po_key o1)) (lineage_options ix cs by_entry path);
          pool = map (\<lambda>(name, os). (name, filter (\<lambda>o1. po_entry_id o1 \<in> set eligible) os)) visible
      in \<lparr>sv_path = path, sv_lineage = si_lineage ix path, sv_allowed = si_allow ix path, sv_eligible = eligible,
          sv_visible = map (\<lambda>(name, os). (name, sort_key (option_order pk) os)) visible,
          sv_pool = map (\<lambda>(name, os). (name, sort_key (option_order pk) os)) pool\<rparr>)"

definition build_views ::
  "('v, 'x) packaging \<Rightarrow> ('x, 'm) scope_index \<Rightarrow> ('v, 'x, 'o) candidate list \<Rightarrow> (string, 'v provider_option list) dict
     \<Rightarrow> string list \<Rightarrow> (string, 'v scope_view) dict" where
  "build_views pk ix cs by_entry eligible =
     map (\<lambda>path. (path, build_view pk ix cs by_entry eligible path)) (si_paths ix)"

definition origin_of :: "'v scope_view \<Rightarrow> string \<Rightarrow> provider_origin" where
  "origin_of view provider_scope =
     (if provider_scope = sv_path view then LocalOrigin
      else if provider_scope \<in> set (sv_lineage view) then InheritedOrigin
      else UnrelatedOrigin)"

section \<open>One requirement\<close>

definition rejection_of ::
  "('v, 'x) packaging \<Rightarrow> 'v scope_view \<Rightarrow> 'x requirement \<Rightarrow> string option \<Rightarrow> 'v provider_option option
     \<Rightarrow> requirement_status \<Rightarrow> 'v provider_option \<Rightarrow> string option" where
  "rejection_of pk view req exclude selected status o1 =
     (let is_visible = o1 \<in> set (dict_get_or (sv_visible view) (rq_name req) [])
      in if Some (po_entry_id o1) = exclude then Some ''self_reference''
         else if \<not> is_visible then
           Some (if origin_of view (po_scope o1) = UnrelatedOrigin then ''not_visible'' else ''capability_not_exposed'')
         else if po_entry_id o1 \<notin> set (sv_eligible view) then Some ''provider_pending''
         else if \<not> rq_accepts pk req (po_key o1) (po_version o1) then
           Some (if ck_api_version (rq_key req) \<noteq> [] \<and> ck_api_version (po_key o1) \<noteq> ck_api_version (rq_key req)
                 then ''contract_mismatch'' else ''version_mismatch'')
         else if selected = Some o1 then None
         else if status = ReqAmbiguous then Some ''ambiguous''
         else Some ''not_selected'')"

definition assessments ::
  "('v, 'x) packaging \<Rightarrow> 'v provider_option list \<Rightarrow> 'v scope_view \<Rightarrow> 'x requirement \<Rightarrow> string option
     \<Rightarrow> 'v provider_option option \<Rightarrow> requirement_status \<Rightarrow> assessment list" where
  "assessments pk options view req exclude selected status =
     map (\<lambda>o1. let is_visible = o1 \<in> set (dict_get_or (sv_visible view) (rq_name req) [])
       in \<lparr>as_entry_id = po_entry_id o1, as_instance_id = po_instance_id o1,
           as_provider_name = po_provider_name o1, as_version = pkg_show pk (po_version o1),
           as_scope = po_scope o1, as_origin = origin_of view (po_scope o1), as_visible = is_visible,
           as_eligible = (is_visible \<and> po_entry_id o1 \<in> set (sv_eligible view)
              \<and> Some (po_entry_id o1) \<noteq> exclude \<and> rq_accepts pk req (po_key o1) (po_version o1)),
           as_selected = (selected = Some o1),
           as_rejection = rejection_of pk view req exclude selected status o1\<rparr>)
     (sort_key (option_order pk) options)"

definition resolved_explain :: "('v, 'x) packaging \<Rightarrow> 'v provider_option \<Rightarrow> string \<Rightarrow> string" where
  "resolved_explain pk o1 consumer_scope =
     (let base = ''provided by '' @ po_entry_id o1 @ '' ('' @ po_provider_name o1 @ '' '' @ pkg_show pk (po_version o1) @ '')''
      in if po_scope o1 = consumer_scope then base else base @ '' inherited from '' @ po_scope o1)"

definition offered_message :: "('v, 'x) packaging \<Rightarrow> 'v provider_option list \<Rightarrow> string" where
  "offered_message pk os = ''no provider satisfies the requirement; registered: '' @
     join_with '', '' (map (\<lambda>o1. po_entry_id o1 @ ''@'' @ pkg_show pk (po_version o1)) os)"

definition preference :: "(string, string) dict \<Rightarrow> string \<Rightarrow> string \<Rightarrow> string \<Rightarrow> string option" where
  "preference selection consumer capability scope =
     (case map_of selection (consumer @ '':'' @ capability) of
        Some p \<Rightarrow> Some p
      | None \<Rightarrow>
          (case map_of selection (''scope:'' @ scope @ '':'' @ capability) of
             Some p \<Rightarrow> Some p
           | None \<Rightarrow> map_of selection capability))"

definition unresolved_status ::
  "('v, 'x) packaging \<Rightarrow> 'v scope_view \<Rightarrow> 'x requirement \<Rightarrow> string option \<Rightarrow> capability_key list
     \<Rightarrow> (string, 'v provider_option list) dict \<Rightarrow> 'v provider_option list \<Rightarrow> 'v provider_option list
     \<Rightarrow> requirement_status \<times> string" where
  "unresolved_status pk view req exclude keys all_options visible_excl pool_opts =
     (if pool_opts \<noteq> [] then (ReqVersionMismatch, offered_message pk pool_opts)
      else if list_ex (\<lambda>o1. rq_accepts pk req (po_key o1) (po_version o1)) visible_excl then
        (ReqProviderPending,
         ''provider(s) '' @ join_with '', '' (sorted_set (map po_entry_id visible_excl)) @ '' for ''
           @ py_repr (rq_name req) @ '' are visible but not active in this composition'')
      else if visible_excl \<noteq> [] then (ReqVersionMismatch, offered_message pk visible_excl)
      else if list_ex (\<lambda>o1. Some (po_entry_id o1) \<noteq> exclude) (dict_get_or all_options (rq_name req) []) then
        (ReqNotVisible, ''no provider for '' @ py_repr (rq_name req) @ '' is visible in scope '' @ sv_path view)
      else if list_ex (\<lambda>k. ck_name k = rq_name req) keys then
        (ReqSelfReference, ''the only declared provider is the consumer itself'')
      else (ReqNoProvider, ''no provider for '' @ py_repr (rq_name req)))"

definition select_provider ::
  "('v, 'x) packaging \<Rightarrow> string \<Rightarrow> 'x requirement \<Rightarrow> 'v scope_view \<Rightarrow> (string, string) dict
     \<Rightarrow> 'v provider_option list \<Rightarrow> requirement_status \<times> 'v provider_option option \<times> string option \<times> string" where
  "select_provider pk consumer req view selection matching =
     (if length matching = 1 then
        (ReqResolved, Some (matching ! 0), Some ''only_eligible'', resolved_explain pk (matching ! 0) (sv_path view))
      else
        (case (case preference selection consumer (rq_name req) (sv_path view) of
                 None \<Rightarrow> None
               | Some preferred \<Rightarrow> find (\<lambda>o1. po_entry_id o1 = preferred) matching) of
           Some o1 \<Rightarrow>
             (ReqResolved, Some o1, Some ''explicit_preference'',
              resolved_explain pk o1 (sv_path view) @ '' (explicit provider preference)'')
         | None \<Rightarrow>
             (ReqAmbiguous, None, None,
              ''ambiguous provider selection among '' @ join_with '', '' (map po_entry_id matching)
                @ ''; select one explicitly with provider preference'')))"

definition resolve_one ::
  "('v, 'x) packaging \<Rightarrow> string \<Rightarrow> consumer_kind \<Rightarrow> 'x requirement \<Rightarrow> 'v scope_view \<Rightarrow> (string, string) dict
     \<Rightarrow> (string, 'v provider_option list) dict \<Rightarrow> string option \<Rightarrow> capability_key list \<Rightarrow> 'x req_resolution" where
  "resolve_one pk consumer kind req view selection all_options exclude keys =
     (let visible_excl = filter (\<lambda>o1. Some (po_entry_id o1) \<noteq> exclude) (dict_get_or (sv_visible view) (rq_name req) []);
          pool_opts = filter (\<lambda>o1. Some (po_entry_id o1) \<noteq> exclude) (dict_get_or (sv_pool view) (rq_name req) []);
          matching = sort_key (option_order pk) (filter (\<lambda>o1. rq_accepts pk req (po_key o1) (po_version o1)) pool_opts);
          (status, selected, reason, explain) =
            (if matching \<noteq> [] then select_provider pk consumer req view selection matching
             else (case unresolved_status pk view req exclude keys all_options visible_excl pool_opts of
                     (st, ex) \<Rightarrow> (st, None, None, ex)))
      in \<lparr>rr_requirement = req, rr_status = status,
          rr_provider_entry_id = map_option po_entry_id selected,
          rr_provider_instance_id = (case selected of None \<Rightarrow> None | Some o1 \<Rightarrow> po_instance_id o1),
          rr_provider_name = map_option po_provider_name selected,
          rr_provider_version = map_option (\<lambda>o1. pkg_show pk (po_version o1)) selected,
          rr_provider_key = map_option (\<lambda>o1. show_key (po_key o1)) selected,
          rr_explain = explain, rr_consumer = consumer, rr_consumer_kind = kind,
          rr_provider_scope = map_option po_scope selected,
          rr_provider_origin = map_option (\<lambda>o1. origin_of view (po_scope o1)) selected,
          rr_selection_reason = reason,
          rr_assessments = assessments pk (dict_get_or all_options (rq_name req) []) view req exclude selected status\<rparr>)"

definition resolve_requirements ::
  "('v, 'x) packaging \<Rightarrow> ('v, 'x, 'o) candidate \<Rightarrow> 'v scope_view \<Rightarrow> (string, string) dict
     \<Rightarrow> (string, 'v provider_option list) dict \<Rightarrow> 'x req_resolution list" where
  "resolve_requirements pk c view selection all_options =
     map (\<lambda>req. resolve_one pk (pc_entry_id c) PluginConsumer req view selection all_options
            (Some (pc_entry_id c)) (map fst (ct_provided (pc_manifest c))))
       (ct_required (pc_manifest c) @ ct_optional (pc_manifest c))"

end
