(* ===== verification/Resolver_Plan.thy ===== *)
theory Resolver_Plan
  imports Resolver
begin

text \<open>
  The dependency resolver (\<open>plugins/resolver.py\<close>), second part: the eligibility fixpoint, the
  dependency edges, the activation order, the cycle detection and the assembled plan.
\<close>

section \<open>Eligibility\<close>

definition unmet :: "'x req_resolution list \<Rightarrow> bool" where
  "unmet rs \<longleftrightarrow> list_ex (\<lambda>r. \<not> rr_satisfied r \<and> \<not> rq_optional (rr_requirement r)) rs"

type_synonym 'x resolutions = "(string, 'x req_resolution list) dict"

text \<open>
  One pass over the candidates in entry order: the views are those of the start of the pass, the
  set of eligible entries shrinks during the pass.
\<close>

definition resolve_round ::
  "(('v, 'x, 'o) candidate \<Rightarrow> 'x req_resolution list) \<Rightarrow> ('v, 'x, 'o) candidate list
     \<Rightarrow> string list \<times> 'x resolutions \<times> bool \<Rightarrow> string list \<times> 'x resolutions \<times> bool" where
  "resolve_round res cs start =
     fold (\<lambda>c (eligible, resolutions, changed).
       if pc_entry_id c \<notin> set eligible then (eligible, resolutions, changed)
       else
         let rs = res c;
             resolutions' = dict_set (pc_entry_id c) rs resolutions
         in if unmet rs then (filter (\<lambda>e. e \<noteq> pc_entry_id c) eligible, resolutions', True)
            else (eligible, resolutions', changed))
       cs start"

lemma resolve_round_shrinks:
  assumes "resolve_round res cs (e, r, b) = (e', r', b')"
  shows "length e' \<le> length e \<and> (b' \<and> \<not> b \<longrightarrow> length e' < length e)"
  using assms
proof (induction cs arbitrary: e r b)
  case (Cons c cs)
  have less: "pc_entry_id c \<in> set e \<Longrightarrow> length (filter (\<lambda>x. x \<noteq> pc_entry_id c) e) < length e"
    by (rule length_filter_less) simp_all
  show ?case
  proof (cases "pc_entry_id c \<in> set e \<and> unmet (res c)")
    case True
    with Cons.prems have "resolve_round res cs (filter (\<lambda>x. x \<noteq> pc_entry_id c) e,
        dict_set (pc_entry_id c) (res c) r, True) = (e', r', b')"
      by (simp add: resolve_round_def Let_def)
    from Cons.IH [OF this] less True show ?thesis by auto
  next
    case False
    with Cons.prems obtain r'' where "resolve_round res cs (e, r'', b) = (e', r', b')"
      by (cases "pc_entry_id c \<in> set e") (auto simp: resolve_round_def Let_def)
    from Cons.IH [OF this] show ?thesis .
  qed
qed (simp add: resolve_round_def)

text \<open>The \<open>while True\<close> loop: it ends because a pass that changes something shrinks the set.\<close>

function resolve_loop ::
  "(string list \<Rightarrow> ('v, 'x, 'o) candidate \<Rightarrow> 'x req_resolution list) \<Rightarrow> ('v, 'x, 'o) candidate list
     \<Rightarrow> string list \<Rightarrow> 'x resolutions \<Rightarrow> string list \<times> 'x resolutions" where
  "resolve_loop res cs eligible resolutions =
     (case resolve_round (res eligible) cs (eligible, resolutions, False) of
        (eligible', resolutions', changed) \<Rightarrow>
          if changed then resolve_loop res cs eligible' resolutions' else (eligible', resolutions'))"
  by pat_completeness auto

termination
  by (relation "measure (\<lambda>(res, cs, eligible, resolutions). length eligible)")
     (auto dest!: resolve_round_shrinks [OF sym])

declare resolve_loop.simps [simp del]

section \<open>Edges and activation order\<close>

definition dependency_edges :: "'x resolutions \<Rightarrow> (string \<times> string) list" where
  "dependency_edges eligible = sorted_set (concat (map (\<lambda>(entry, rs).
     concat (map (\<lambda>r. case rr_provider_entry_id r of
        None \<Rightarrow> []
      | Some p \<Rightarrow> if p = entry then [] else [(p, entry)]) rs)) eligible))"

type_synonym adjacency = "(string, string list) dict"

definition set_add :: "string \<Rightarrow> string list \<Rightarrow> string list" where
  "set_add x xs = (if x \<in> set xs then xs else xs @ [x])"

definition adj_add :: "string \<Rightarrow> string \<Rightarrow> adjacency \<Rightarrow> adjacency" where
  "adj_add k x d = dict_set k (set_add x (dict_get_or d k [])) d"

record kahn =
  kn_incoming :: adjacency
  kn_ready :: "string list"
  kn_order :: "string list"

definition kahn_release :: "string \<Rightarrow> string \<Rightarrow> kahn \<Rightarrow> kahn" where
  "kahn_release current consumer k =
     (let incoming = dict_set consumer (filter (\<lambda>p. p \<noteq> current) (dict_get_or (kn_incoming k) consumer [])) (kn_incoming k);
          k1 = k\<lparr>kn_incoming := incoming\<rparr>
      in if dict_get_or incoming consumer [] = [] \<and> consumer \<notin> set (kn_order k1) \<and> consumer \<notin> set (kn_ready k1)
         then k1\<lparr>kn_ready := kn_ready k1 @ [consumer]\<rparr> else k1)"

definition kahn_step :: "adjacency \<Rightarrow> kahn \<Rightarrow> kahn" where
  "kahn_step outgoing k =
     (case kn_ready k of
        [] \<Rightarrow> k
      | current # ready \<Rightarrow>
          let k1 = k\<lparr>kn_ready := ready, kn_order := kn_order k @ [current]\<rparr>;
              k2 = fold (kahn_release current) (sort (dict_get_or outgoing current [])) k1
          in k2\<lparr>kn_ready := sort (kn_ready k2)\<rparr>)"

text \<open>Every node enters \<open>ready\<close> at most once, so one step per node empties it.\<close>

definition kahn_run :: "adjacency \<Rightarrow> nat \<Rightarrow> kahn \<Rightarrow> kahn" where
  "kahn_run outgoing n k = (kahn_step outgoing ^^ n) k"

definition activation_order :: "string list \<Rightarrow> (string \<times> string) list \<Rightarrow> string list \<Rightarrow> string list" where
  "activation_order eligible edges excluded =
     (let nodes = sort (filter (\<lambda>e. e \<notin> set excluded) eligible);
          none = map (\<lambda>e. (e, [])) nodes;
          inner = filter (\<lambda>(p, c). p \<in> set nodes \<and> c \<in> set nodes) edges;
          incoming = fold (\<lambda>(p, c) d. adj_add c p d) inner none;
          outgoing = fold (\<lambda>(p, c) d. adj_add p c d) inner none;
          ready = sort (filter (\<lambda>e. dict_get_or incoming e [] = []) nodes);
          order = kn_order (kahn_run outgoing (length nodes) \<lparr>kn_incoming = incoming, kn_ready = ready, kn_order = []\<rparr>)
      in if length order \<noteq> length nodes then order @ filter (\<lambda>e. e \<notin> set order) nodes else order)"

section \<open>Cycles\<close>

record tarjan =
  tj_counter :: nat
  tj_indices :: "(string, nat) dict"
  tj_lowlink :: "(string, nat) dict"
  tj_stack :: "string list"
  tj_components :: "string list list"
  tj_work :: "(string \<times> string list) list"

definition neighbours_of :: "adjacency \<Rightarrow> string \<Rightarrow> string list" where
  "neighbours_of adj v = sort (dict_get_or adj v [])"

text \<open>
  The inner \<open>while neighbours\<close> loop: the remaining neighbours, the low links, and the neighbour to
  visit next if one is new. The stack holds its newest element first.
\<close>

fun scan_neighbours ::
  "tarjan \<Rightarrow> string \<Rightarrow> string list \<Rightarrow> (string, nat) dict \<Rightarrow> string list \<times> (string, nat) dict \<times> string option" where
  "scan_neighbours t node [] low = ([], low, None)"
| "scan_neighbours t node (n # ns) low =
     (if map_of (tj_indices t) n = None then (ns, low, Some n)
      else if n \<in> set (tj_stack t) then
        scan_neighbours t node ns
          (dict_set node (min (dict_get_or low node 0) (dict_get_or (tj_indices t) n 0)) low)
      else scan_neighbours t node ns low)"

definition pop_component :: "string \<Rightarrow> string list \<Rightarrow> string list \<times> string list" where
  "pop_component node stack = (takeWhile (\<lambda>v. v \<noteq> node) stack @ [node], tl (dropWhile (\<lambda>v. v \<noteq> node) stack))"

definition tarjan_step :: "adjacency \<Rightarrow> tarjan \<Rightarrow> tarjan" where
  "tarjan_step adj t =
     (case tj_work t of
        [] \<Rightarrow> t
      | (node, neighbours) # work \<Rightarrow>
          let t1 = (if map_of (tj_indices t) node = None then
                      t\<lparr>tj_indices := dict_set node (tj_counter t) (tj_indices t),
                        tj_lowlink := dict_set node (tj_counter t) (tj_lowlink t),
                        tj_counter := tj_counter t + 1, tj_stack := node # tj_stack t\<rparr>
                    else t)
          in (case scan_neighbours t1 node neighbours (tj_lowlink t1) of
                (rest, low, Some n) \<Rightarrow>
                  t1\<lparr>tj_lowlink := low, tj_work := (n, neighbours_of adj n) # (node, rest) # work\<rparr>
              | (rest, low, None) \<Rightarrow>
                  let low' = (case work of
                                [] \<Rightarrow> low
                              | (parent, _) # _ \<Rightarrow>
                                  dict_set parent (min (dict_get_or low parent 0) (dict_get_or low node 0)) low);
                      t2 = t1\<lparr>tj_lowlink := low', tj_work := work\<rparr>
                  in if dict_get_or low' node 0 = dict_get_or (tj_indices t2) node 0 then
                       (case pop_component node (tj_stack t2) of
                          (component, stack) \<Rightarrow>
                            t2\<lparr>tj_stack := stack, tj_components := tj_components t2 @ [sort component]\<rparr>)
                     else t2))"

text \<open>
  Each turn of the outer loop visits a new node or finishes one, so \<open>2 * n + 1\<close> turns per root are
  enough for \<open>n\<close> nodes.
\<close>

definition tarjan_root :: "adjacency \<Rightarrow> nat \<Rightarrow> string \<Rightarrow> tarjan \<Rightarrow> tarjan" where
  "tarjan_root adj n root t =
     (if map_of (tj_indices t) root \<noteq> None then t
      else (tarjan_step adj ^^ (2 * n + 1)) (t\<lparr>tj_work := [(root, neighbours_of adj root)]\<rparr>))"

definition strongly_connected_components :: "string list \<Rightarrow> adjacency \<Rightarrow> string list list" where
  "strongly_connected_components nodes adj =
     tj_components (fold (tarjan_root adj (length nodes)) (sort nodes)
       \<lparr>tj_counter = 0, tj_indices = [], tj_lowlink = [], tj_stack = [], tj_components = [], tj_work = []\<rparr>)"

definition declared_edges ::
  "('v, 'x) packaging \<Rightarrow> ('v, 'x, 'o) candidate list \<Rightarrow> (string, 'v provider_option list) dict
     \<Rightarrow> ('x, 'm) scope_index \<Rightarrow> (string \<times> string) list" where
  "declared_edges pk cs declared ix = concat (map (\<lambda>c. concat (map (\<lambda>req. concat (map (\<lambda>o1.
       if po_entry_id o1 = pc_entry_id c then []
       else if \<not> si_can_see ix (pc_scope c) (po_scope o1) (rq_name req) then []
       else if rq_accepts pk req (po_key o1) (po_version o1) then [(po_entry_id o1, pc_entry_id c)]
       else []) (dict_get_or declared (rq_name req) []))) (ct_required (pc_manifest c)))) cs)"

definition detect_cycles ::
  "('v, 'x) packaging \<Rightarrow> ('v, 'x, 'o) candidate list \<Rightarrow> (string, 'v provider_option list) dict
     \<Rightarrow> ('x, 'm) scope_index \<Rightarrow> string list list" where
  "detect_cycles pk cs declared ix =
     (let nodes = map pc_entry_id cs;
          adj = fold (\<lambda>(p, c) d. adj_add p c d) (declared_edges pk cs declared ix) (map (\<lambda>e. (e, [])) nodes)
      in sort (map sort (filter (\<lambda>c. length c > 1) (strongly_connected_components nodes adj))))"

section \<open>Plans\<close>

datatype plan_status = EligiblePlan | PendingPlan

record ('v, 'x) plugin_plan =
  pp_entry_id :: string
  pp_manifest :: "('v, 'x) contracts"
  pp_status :: plan_status
  pp_instance_id :: "string option"
  pp_active :: bool
  pp_order :: "nat option"
  pp_requirements :: "'x req_resolution list"
  pp_reasons :: "string list"
  pp_scope :: string

record ('x, 'm) scope_plan =
  sp_path :: string
  sp_name :: string
  sp_parent :: "string option"
  sp_children :: "string list"
  sp_capabilities :: "string list option"
  sp_entries :: "string list"
  sp_order :: "string list"
  sp_pending :: "string list"
  sp_providers :: "(string, string list) dict"
  sp_inherited :: "(string, string list) dict"
  sp_visible :: "(string, string list) dict"
  sp_requirements :: "'x req_resolution list"
  sp_provenance :: "'x req_resolution list"
  sp_metadata :: 'm
  sp_tools :: "string list option"

record ('v, 'x, 'm) resolution_plan =
  rp_plugins :: "('v, 'x) plugin_plan list"
  rp_activation_order :: "string list"
  rp_pending :: "string list"
  rp_edges :: "(string \<times> string) list"
  rp_cycles :: "string list list"
  rp_scopes :: "('x, 'm) scope_plan list"

definition plan_for :: "('v, 'x, 'm) resolution_plan \<Rightarrow> string \<Rightarrow> ('v, 'x) plugin_plan option" where
  "plan_for plan entry = find (\<lambda>p. pp_entry_id p = entry) (rp_plugins plan)"

definition scope_for :: "('v, 'x, 'm) resolution_plan \<Rightarrow> string \<Rightarrow> ('x, 'm) scope_plan option" where
  "scope_for plan path = find (\<lambda>s. sp_path s = path) (rp_scopes plan)"

definition plan_provenance ::
  "('v, 'x, 'm) resolution_plan \<Rightarrow> string option \<Rightarrow> string option \<Rightarrow> 'x req_resolution list" where
  "plan_provenance plan scope consumer =
     (let selected = (case scope of None \<Rightarrow> rp_scopes plan | Some p \<Rightarrow> filter (\<lambda>s. sp_path s = p) (rp_scopes plan));
          records = concat (map sp_provenance selected)
      in case consumer of None \<Rightarrow> records | Some c \<Rightarrow> filter (\<lambda>r. rr_consumer r = c) records)"

definition raise_for_cycles :: "('v, 'x, 'm) resolution_plan \<Rightarrow> unit result" where
  "raise_for_cycles plan =
     (if rp_cycles plan \<noteq> [] then
        let rendered = map (\<lambda>c. join_with '' -> '' (c @ [hd c])) (rp_cycles plan)
        in Inl (PluginCycleError (''dependency cycle detected: '' @ join_with ''; '' rendered))
      else Inr ())"

definition make_plan ::
  "('v, 'x, 'o) candidate \<Rightarrow> plan_status \<Rightarrow> nat option \<Rightarrow> 'x req_resolution list \<Rightarrow> string list \<Rightarrow> ('v, 'x) plugin_plan" where
  "make_plan c status position rs reasons =
     \<lparr>pp_entry_id = pc_entry_id c, pp_manifest = pc_manifest c, pp_status = status,
      pp_instance_id = pc_instance_id c, pp_active = pc_active c, pp_order = position,
      pp_requirements = rs, pp_reasons = reasons, pp_scope = pc_scope c\<rparr>"

text \<open>One plan per entry named by the elements of a list.\<close>

definition plans_at ::
  "('v, 'x, 'o) candidate list \<Rightarrow> ('a \<Rightarrow> string) \<Rightarrow> ('a \<Rightarrow> ('v, 'x, 'o) candidate \<Rightarrow> ('v, 'x) plugin_plan) \<Rightarrow> 'a list
     \<Rightarrow> ('v, 'x) plugin_plan list" where
  "plans_at cs g f xs = concat (map (\<lambda>x. case find (\<lambda>c. pc_entry_id c = g x) cs of None \<Rightarrow> [] | Some c \<Rightarrow> [f x c]) xs)"

definition build_scope_plan ::
  "('v, 'x) packaging \<Rightarrow> ('x, 'm) scope_index \<Rightarrow> ('v, 'x, 'o) candidate list \<Rightarrow> ('v, 'x) plugin_plan list
     \<Rightarrow> 'v scope_view \<Rightarrow> string list \<Rightarrow> string list \<Rightarrow> (string, string) dict
     \<Rightarrow> (string, 'v provider_option list) dict \<Rightarrow> ('x, 'm) scope_spec \<Rightarrow> ('x, 'm) scope_plan" where
  "build_scope_plan pk ix cs plans view order pending selection all_options spec =
     (let by_scope = group_by pc_scope cs;
          entries = sort (map pc_entry_id (dict_get_or by_scope (ss_path spec) []));
          split = (\<lambda>keep. filter (\<lambda>(name, ids). ids \<noteq> []) (map (\<lambda>(name, os).
                     (name, sorted_set (map po_entry_id (filter keep os)))) (sort_key fst (sv_visible view))));
          providers = split (\<lambda>o1. po_scope o1 = ss_path spec);
          inherited = split (\<lambda>o1. po_scope o1 \<noteq> ss_path spec);
          requirements = map (\<lambda>req. resolve_one pk (ss_path spec) ScopeConsumer req view selection all_options None [])
                           (ss_requirements spec)
      in \<lparr>sp_path = ss_path spec, sp_name = ss_name spec, sp_parent = ss_parent spec,
          sp_children = si_children ix (ss_path spec),
          sp_capabilities = map_option sorted_set (sv_allowed view),
          sp_entries = entries,
          sp_order = filter (\<lambda>e. e \<in> set entries) order,
          sp_pending = filter (\<lambda>e. e \<in> set pending) entries,
          sp_providers = providers, sp_inherited = inherited,
          sp_visible = map (\<lambda>name. (name, sorted_set (dict_get_or providers name [] @ dict_get_or inherited name [])))
                         (sorted_set (dict_keys providers @ dict_keys inherited)),
          sp_requirements = requirements,
          sp_provenance = sort_key (\<lambda>r. (rr_consumer r, rq_name (rr_requirement r)))
             (requirements @ concat (map (\<lambda>e. case find (\<lambda>p. pp_entry_id p = e) plans of
                                            None \<Rightarrow> [] | Some p \<Rightarrow> pp_requirements p) entries)),
          sp_metadata = ss_metadata spec,
          sp_tools = map_option sorted_set (ss_tools spec)\<rparr>)"

definition resolve_plan ::
  "('v, 'x) packaging \<Rightarrow> (string, string) dict \<Rightarrow> ('v, 'x, 'o) candidate list \<Rightarrow> ('x, 'm) scope_index
     \<Rightarrow> ('v, 'x, 'm) resolution_plan" where
  "resolve_plan pk selection ordered ix =
     (let by_entry = options_by_entry ordered;
          all_options = index_by_name pk by_entry;
          cycles = detect_cycles pk ordered (declared_by_name ordered) ix;
          cycle_members = sorted_set (concat cycles);
          res = (\<lambda>eligible c. resolve_requirements pk c (build_view pk ix ordered by_entry eligible (pc_scope c))
                   selection all_options);
          (eligible, resolutions) = resolve_loop res ordered (map pc_entry_id ordered) [];
          eligible_resolutions = map (\<lambda>e. (e, dict_get_or resolutions e [])) eligible;
          edges = dependency_edges eligible_resolutions;
          order = activation_order eligible edges cycle_members;
          active_plans = plans_at ordered snd (\<lambda>(i, e) c.
             make_plan c EligiblePlan (Some i) (dict_get_or eligible_resolutions e []) []) (enumerate 0 order);
          pending_ids = filter (\<lambda>e. e \<notin> set eligible \<and> e \<notin> set cycle_members) (map pc_entry_id ordered);
          pending_plans = plans_at ordered (\<lambda>e. e) (\<lambda>e c. make_plan c PendingPlan None (res eligible c)
             (map rr_explain (filter (\<lambda>r. \<not> rr_satisfied r \<and> \<not> rq_optional (rr_requirement r)) (res eligible c))))
             pending_ids;
          cycle_plans = plans_at ordered (\<lambda>e. e) (\<lambda>e c.
             make_plan c PendingPlan None (res eligible c) [''dependency cycle'']) cycle_members;
          plans = active_plans @ pending_plans @ cycle_plans;
          scope_plans = map (\<lambda>spec. build_scope_plan pk ix ordered plans
             (build_view pk ix ordered by_entry eligible (ss_path spec)) order (pending_ids @ cycle_members)
             selection all_options spec) (si_ordered ix)
      in \<lparr>rp_plugins = plans, rp_activation_order = order, rp_pending = sort (pending_ids @ cycle_members),
          rp_edges = edges, rp_cycles = cycles, rp_scopes = scope_plans\<rparr>)"

definition resolve ::
  "('v, 'x) packaging \<Rightarrow> 'm \<Rightarrow> ('v, 'x, 'o) candidate list \<Rightarrow> (string, string) dict
     \<Rightarrow> ('x, 'm) scope_spec list option \<Rightarrow> ('v, 'x, 'm) resolution_plan result" where
  "resolve pk no_metadata candidates selection scopes =
     bind_result (ordered_candidates candidates) (\<lambda>ordered.
     bind_result (build_index no_metadata scopes) (\<lambda>ix.
     bind_result (map_result (\<lambda>c. si_require ix (pc_scope c)) ordered) (\<lambda>_.
     Inr (resolve_plan pk selection ordered ix))))"

end
