(* ===== verification/Resolver_Order.thy ===== *)
theory Resolver_Order
  imports Resolver_Plan
begin

text \<open>
  Correctness of the activation order: Kahn's loop ends within one step per node, its result is a
  permutation of the nodes, and it puts providers before consumers when the edges are acyclic.
\<close>

section \<open>Adjacency\<close>

abbreviation adj_of :: "adjacency \<Rightarrow> string \<Rightarrow> string list" where
  "adj_of d n \<equiv> dict_get_or d n []"

lemma set_add_facts [simp]: "set (set_add x xs) = insert x (set xs)" "distinct xs \<Longrightarrow> distinct (set_add x xs)"
  by (auto simp: set_add_def)

lemma adj_of_add: "adj_of (adj_add k x d) n = (if n = k then set_add x (adj_of d k) else adj_of d n)"
  by (simp add: adj_add_def dict_get_or_def dict_simps)

lemma adj_of_none [simp]: "adj_of (map (\<lambda>e. (e, [])) ns) n = []"
  by (induction ns) (auto simp: dict_get_or_def)

lemma adj_fold:
  "set (adj_of (fold (\<lambda>e d. adj_add (f e) (g e) d) es d) n) = set (adj_of d n) \<union> {g e | e. e \<in> set es \<and> f e = n}"
  by (induction es arbitrary: d) (auto simp: adj_of_add)

lemma adj_fold_distinct:
  "(\<And>n. distinct (adj_of d n)) \<Longrightarrow> distinct (adj_of (fold (\<lambda>e d. adj_add (f e) (g e) d) es d) n)"
proof (induction es arbitrary: d)
  case (Cons e es)
  have "distinct (adj_of (adj_add (f e) (g e) d) m)" for m
    using Cons.prems by (simp add: adj_of_add)
  from Cons.IH [OF this] show ?case by simp
qed simp

section \<open>One step\<close>

definition kn_in :: "kahn \<Rightarrow> string \<Rightarrow> string set" where
  "kn_in k n = set (adj_of (kn_incoming k) n)"

lemma kahn_release_simps:
  "kn_in (kahn_release v c k) n = (if n = c then kn_in k c - {v} else kn_in k n)"
  "kn_order (kahn_release v c k) = kn_order k"
  "set (kn_ready (kahn_release v c k)) = set (kn_ready k) \<union>
     (if kn_in k c - {v} = {} \<and> c \<notin> set (kn_order k) then {c} else {})"
  "distinct (kn_ready k) \<Longrightarrow> distinct (kn_ready (kahn_release v c k))"
proof -
  have "dict_get_or (dict_set c x d) c [] = x" for x and d :: adjacency
    by (simp add: dict_get_or_def dict_simps)
  moreover have "dict_get_or (dict_set c x d) n [] = (if n = c then x else dict_get_or d n [])"
    for x n and d :: adjacency
    by (simp add: dict_get_or_def dict_simps)
  ultimately show "kn_in (kahn_release v c k) n = (if n = c then kn_in k c - {v} else kn_in k n)"
    "kn_order (kahn_release v c k) = kn_order k"
    "set (kn_ready (kahn_release v c k)) = set (kn_ready k) \<union>
       (if kn_in k c - {v} = {} \<and> c \<notin> set (kn_order k) then {c} else {})"
    "distinct (kn_ready k) \<Longrightarrow> distinct (kn_ready (kahn_release v c k))"
    by (auto simp: kahn_release_def kn_in_def Let_def filter_empty_conv)
qed

lemma kahn_release_fold:
  "kn_in (fold (kahn_release v) cs k) n = (if n \<in> set cs then kn_in k n - {v} else kn_in k n)
   \<and> kn_order (fold (kahn_release v) cs k) = kn_order k
   \<and> set (kn_ready (fold (kahn_release v) cs k)) = set (kn_ready k) \<union>
       {c \<in> set cs. kn_in k c - {v} = {} \<and> c \<notin> set (kn_order k)}
   \<and> (distinct (kn_ready k) \<longrightarrow> distinct (kn_ready (fold (kahn_release v) cs k)))"
proof (induction cs arbitrary: k)
  case (Cons c cs)
  have "kn_in (kahn_release v c k) d - {v} = kn_in k d - {v}" for d
    by (auto simp: kahn_release_simps)
  then show ?case
    unfolding fold_Cons comp_def Cons.IH [of "kahn_release v c k"]
    using Cons.IH [of "kahn_release v c k"] by (auto simp: kahn_release_simps)
qed simp

definition topological :: "(string \<times> string) set \<Rightarrow> string list \<Rightarrow> bool" where
  "topological E xs \<longleftrightarrow> (\<forall>ys c zs. xs = ys @ c # zs \<longrightarrow> (\<forall>p. (p, c) \<in> E \<longrightarrow> p \<in> set ys))"

lemma topological_snoc:
  "topological E xs \<Longrightarrow> (\<And>p. (p, v) \<in> E \<Longrightarrow> p \<in> set xs) \<Longrightarrow> topological E (xs @ [v])"
  unfolding topological_def
proof (intro allI impI)
  fix ys c zs p
  assume a: "\<forall>ys c zs. xs = ys @ c # zs \<longrightarrow> (\<forall>p. (p, c) \<in> E \<longrightarrow> p \<in> set ys)"
    "\<And>p. (p, v) \<in> E \<Longrightarrow> p \<in> set xs" "xs @ [v] = ys @ c # zs" "(p, c) \<in> E"
  show "p \<in> set ys"
  proof (cases zs rule: rev_cases)
    case Nil
    with a show ?thesis by simp
  next
    case (snoc zs' z)
    with a(3) have "xs = ys @ c # zs'" by simp
    with a(1,4) show ?thesis by blast
  qed
qed

definition kahn_ok :: "string set \<Rightarrow> (string \<times> string) set \<Rightarrow> kahn \<Rightarrow> bool" where
  "kahn_ok N E k \<longleftrightarrow> distinct (kn_order k) \<and> distinct (kn_ready k)
     \<and> set (kn_order k) \<inter> set (kn_ready k) = {} \<and> set (kn_order k) \<union> set (kn_ready k) \<subseteq> N
     \<and> (\<forall>n \<in> N. kn_in k n = {p. (p, n) \<in> E \<and> p \<notin> set (kn_order k)})
     \<and> (\<forall>n \<in> N. n \<in> set (kn_order k) \<union> set (kn_ready k) \<longleftrightarrow> kn_in k n = {})
     \<and> topological E (kn_order k)"

lemma kahn_step_ok:
  assumes ok: "kahn_ok N E k" and E: "E \<subseteq> N \<times> N"
    and out: "\<And>n. n \<in> N \<Longrightarrow> set (adj_of outgoing n) = {c. (n, c) \<in> E}"
    and ready: "kn_ready k = v # rest"
  shows "kahn_ok N E (kahn_step outgoing k)" and "kn_order (kahn_step outgoing k) = kn_order k @ [v]"
proof -
  let ?k1 = "k\<lparr>kn_ready := rest, kn_order := kn_order k @ [v]\<rparr>"
  let ?cs = "sort (adj_of outgoing v)"
  let ?k2 = "fold (kahn_release v) ?cs ?k1"
  have step: "kahn_step outgoing k = ?k2\<lparr>kn_ready := sort (kn_ready ?k2)\<rparr>"
    by (simp add: kahn_step_def ready Let_def)
  have v: "v \<in> N" "v \<notin> set (kn_order k)" "v \<notin> set rest" "kn_in k v = {}"
    using ok ready by (auto simp: kahn_ok_def)
  have preds: "p \<in> set (kn_order k)" if "(p, v) \<in> E" for p
    using ok v(1,4) that unfolding kahn_ok_def by blast
  note f = kahn_release_fold [of v ?cs ?k1]
  have in1: "kn_in ?k1 n = kn_in k n" for n by (simp add: kn_in_def)
  have cs: "set ?cs = {c. (v, c) \<in> E}" using out [OF v(1)] by simp
  have ord: "kn_order ?k2 = kn_order k @ [v]" using f by simp
  then show "kn_order (kahn_step outgoing k) = kn_order k @ [v]" by (simp add: step)
  have in2: "kn_in ?k2 n = {p. (p, n) \<in> E \<and> p \<notin> set (kn_order k @ [v])}" if "n \<in> N" for n
  proof -
    have "kn_in k n = {p. (p, n) \<in> E \<and> p \<notin> set (kn_order k)}" using ok that by (simp add: kahn_ok_def)
    then show ?thesis using f in1 cs by auto
  qed
  have rdy: "set (kn_ready ?k2) = set rest \<union> {c. (v, c) \<in> E \<and> kn_in k c - {v} = {} \<and> c \<notin> set (kn_order k @ [v])}"
    using f in1 cs by auto
  have iff: "n \<in> set (kn_order ?k2) \<union> set (kn_ready ?k2) \<longleftrightarrow> kn_in ?k2 n = {}" if n: "n \<in> N" for n
  proof -
    have old: "n \<in> set (kn_order k) \<union> set (v # rest) \<longleftrightarrow> kn_in k n = {}"
      using ok n ready by (simp add: kahn_ok_def)
    have inn: "kn_in k n = {p. (p, n) \<in> E \<and> p \<notin> set (kn_order k)}" using ok n by (simp add: kahn_ok_def)
    show ?thesis
    proof (cases "(v, n) \<in> E")
      case True
      then have "v \<in> kn_in k n" using inn v(2) by simp
      then have "n \<notin> set (kn_order k) \<union> set (v # rest)" using old by blast
      moreover have "kn_in ?k2 n = kn_in k n - {v}" using f in1 cs True by auto
      ultimately show ?thesis using True ord rdy by auto
    next
      case False
      then have "kn_in ?k2 n = kn_in k n" using f in1 cs by auto
      then show ?thesis using False ord rdy old by auto
    qed
  qed
  have "distinct rest" using ok ready by (simp add: kahn_ok_def)
  then have "distinct (kn_ready ?k2)" using f by simp
  moreover have "distinct (kn_order ?k2)" using ok v(2) ord by (simp add: kahn_ok_def)
  moreover have "set (kn_order ?k2) \<inter> set (kn_ready ?k2) = {}"
    using ok ready v ord rdy by (auto simp: kahn_ok_def)
  moreover have "set (kn_order ?k2) \<union> set (kn_ready ?k2) \<subseteq> N"
    using ok ready v ord rdy E by (auto simp: kahn_ok_def)
  moreover have "topological E (kn_order ?k2)"
    unfolding ord using ok preds by (intro topological_snoc) (simp_all add: kahn_ok_def)
  moreover have "kn_in (kahn_step outgoing k) n = kn_in ?k2 n" for n by (simp add: step kn_in_def)
  ultimately show "kahn_ok N E (kahn_step outgoing k)"
    using in2 iff ord unfolding kahn_ok_def by (simp add: step kn_in_def)
qed

section \<open>The loop\<close>

lemma kahn_run_ok:
  assumes "kahn_ok N E k" "E \<subseteq> N \<times> N"
    and "\<And>n. n \<in> N \<Longrightarrow> set (adj_of outgoing n) = {c. (n, c) \<in> E}"
  shows "kahn_ok N E (kahn_run outgoing n k)
     \<and> (kn_ready (kahn_run outgoing n k) = [] \<or> length (kn_order (kahn_run outgoing n k)) = length (kn_order k) + n)"
proof (induction n)
  case (Suc n)
  let ?k = "kahn_run outgoing n k"
  have s: "kahn_run outgoing (Suc n) k = kahn_step outgoing ?k" by (simp add: kahn_run_def)
  show ?case
  proof (cases "kn_ready ?k")
    case Nil
    then show ?thesis using Suc s by (simp add: kahn_step_def)
  next
    case (Cons v rest)
    with kahn_step_ok [OF _ assms(2,3) Cons] Suc show ?thesis by (simp add: s)
  qed
qed (use assms(1) in \<open>simp add: kahn_run_def\<close>)

lemma kahn_ends:
  assumes ok: "kahn_ok N E k" and E: "E \<subseteq> N \<times> N" and fin: "finite N" and start: "kn_order k = []"
    and out: "\<And>n. n \<in> N \<Longrightarrow> set (adj_of outgoing n) = {c. (n, c) \<in> E}"
  shows "kn_ready (kahn_run outgoing (card N) k) = []" and "kahn_ok N E (kahn_run outgoing (card N) k)"
proof -
  let ?k = "kahn_run outgoing (card N) k"
  have r: "kahn_ok N E ?k" "kn_ready ?k = [] \<or> length (kn_order ?k) = card N"
    using kahn_run_ok [OF ok E out, of "card N"] start by auto
  then have sub: "set (kn_order ?k) \<subseteq> N" "set (kn_ready ?k) \<subseteq> N" "distinct (kn_order ?k)"
    "set (kn_order ?k) \<inter> set (kn_ready ?k) = {}"
    by (auto simp: kahn_ok_def)
  show "kn_ready ?k = []"
  proof (rule ccontr)
    assume ne: "kn_ready ?k \<noteq> []"
    with r(2) sub(3) have "card (set (kn_order ?k)) = card N" by (simp add: distinct_card)
    with sub(1) fin have "set (kn_order ?k) = N" by (simp add: card_subset_eq)
    with sub(2,4) ne show False by (cases "kn_ready ?k") auto
  qed
  show "kahn_ok N E ?k" by (rule r(1))
qed

text \<open>With acyclic edges the loop leaves no node out.\<close>

lemma kahn_complete:
  assumes ok: "kahn_ok N E k" and E: "E \<subseteq> N \<times> N" and fin: "finite N" and ended: "kn_ready k = []"
    and ac: "acyclic E"
  shows "set (kn_order k) = N"
proof (rule ccontr)
  assume "set (kn_order k) \<noteq> N"
  moreover have "set (kn_order k) \<subseteq> N" using ok by (auto simp: kahn_ok_def)
  ultimately obtain z where z: "z \<in> N - set (kn_order k)" by blast
  have "finite E" using E fin by (meson finite_SigmaI finite_subset)
  then have "wf E" using ac by (rule finite_acyclic_wf)
  then obtain m where m: "m \<in> N - set (kn_order k)" "\<And>y. (y, m) \<in> E \<Longrightarrow> y \<notin> N - set (kn_order k)"
    using wfE_min [OF _ z] by metis
  then have "kn_in k m = {}" using ok E unfolding kahn_ok_def by blast
  with ok m(1) ended show False by (auto simp: kahn_ok_def)
qed

section \<open>The activation order\<close>

definition inner_edges :: "string list \<Rightarrow> (string \<times> string) list \<Rightarrow> string list \<Rightarrow> (string \<times> string) set" where
  "inner_edges eligible edges excluded =
     {(p, c) \<in> set edges. p \<in> set eligible - set excluded \<and> c \<in> set eligible - set excluded}"

lemma activation_order_facts:
  assumes "distinct eligible"
  shows "mset (activation_order eligible edges excluded) = mset (filter (\<lambda>e. e \<notin> set excluded) eligible)"
    and "acyclic (inner_edges eligible edges excluded) \<Longrightarrow>
      topological (inner_edges eligible edges excluded) (activation_order eligible edges excluded)"
proof -
  define nodes where "nodes = sort (filter (\<lambda>e. e \<notin> set excluded) eligible)"
  define none where "none = map (\<lambda>e. (e, [] :: string list)) nodes"
  define inner where "inner = filter (\<lambda>(p, c). p \<in> set nodes \<and> c \<in> set nodes) edges"
  define incoming where "incoming = fold (\<lambda>(p, c) d. adj_add c p d) inner none"
  define outgoing where "outgoing = fold (\<lambda>(p, c) d. adj_add p c d) inner none"
  define ready where "ready = sort (filter (\<lambda>e. dict_get_or incoming e [] = []) nodes)"
  define k where "k = \<lparr>kn_incoming = incoming, kn_ready = ready, kn_order = []\<rparr>"
  define order where "order = kn_order (kahn_run outgoing (length nodes) k)"
  let ?N = "set nodes" and ?E = "inner_edges eligible edges excluded"
  have result: "activation_order eligible edges excluded =
      (if length order \<noteq> length nodes then order @ filter (\<lambda>e. e \<notin> set order) nodes else order)"
    unfolding activation_order_def Let_def order_def k_def ready_def outgoing_def incoming_def
      inner_def none_def nodes_def ..
  have dn: "distinct nodes" using assms by (simp add: nodes_def)
  have N: "?N = set eligible - set excluded" by (auto simp: nodes_def)
  have E: "?E = set inner" "?E \<subseteq> ?N \<times> ?N" by (auto simp: inner_edges_def inner_def N)
  have inc: "set (adj_of incoming n) = {p. (p, n) \<in> ?E}" for n
    using adj_fold [of snd fst inner none n]
    by (auto simp: incoming_def none_def E(1) case_prod_beta')
  have out: "set (adj_of outgoing n) = {c. (n, c) \<in> ?E}" for n
    using adj_fold [of fst snd inner none n]
    by (auto simp: outgoing_def none_def E(1) case_prod_beta')
  have "kahn_ok ?N ?E k"
    using dn inc by (auto simp: kahn_ok_def k_def ready_def kn_in_def topological_def simp flip: set_empty)
  note final = kahn_ends [OF this E(2) finite_set _ out]
  have card: "card ?N = length nodes" using dn by (rule distinct_card)
  have ok: "kahn_ok ?N ?E (kahn_run outgoing (length nodes) k)"
    and ended: "kn_ready (kahn_run outgoing (length nodes) k) = []"
    using final card by (auto simp: k_def)
  have o: "distinct order" "set order \<subseteq> ?N" "topological ?E order"
    using ok by (auto simp: kahn_ok_def order_def)
  have full: "length order = length nodes \<longleftrightarrow> set order = ?N"
  proof
    assume l: "length order = length nodes"
    have "card (set order) = length order" using o(1) by (rule distinct_card)
    with l card o(2) show "set order = ?N" by (simp add: card_subset_eq)
  next
    assume "set order = ?N"
    with card distinct_card [OF o(1)] show "length order = length nodes" by simp
  qed
  have "mset (order @ filter (\<lambda>e. e \<notin> set order) nodes) = mset nodes"
    using dn o by (intro set_eq_iff_mset_eq_distinct [THEN iffD1]) auto
  moreover have "mset order = mset nodes" if "length order = length nodes"
    using dn o full that by (intro set_eq_iff_mset_eq_distinct [THEN iffD1]) auto
  ultimately have "mset (activation_order eligible edges excluded) = mset nodes"
    by (auto simp: result)
  then show "mset (activation_order eligible edges excluded) = mset (filter (\<lambda>e. e \<notin> set excluded) eligible)"
    by (simp add: nodes_def)
  show "topological ?E (activation_order eligible edges excluded)" if "acyclic ?E"
  proof -
    have "set order = ?N"
      unfolding order_def by (rule kahn_complete [OF ok E(2) finite_set ended that])
    with full have "length order = length nodes" by simp
    with o(3) show ?thesis by (simp add: result)
  qed
qed

end
