(* ===== verification/Resolver_Props.thy ===== *)
theory Resolver_Props
  imports Resolver_Order
begin

text \<open>
  Properties of the dependency resolver: the eligibility loop ends in a self-supporting set, every
  selected provider is visible, different and acceptable, the plan covers every candidate exactly
  once, the plan does not depend on the order of its input, and the activation order respects the
  dependency edges.
\<close>

section \<open>The eligibility loop\<close>

lemma resolve_round_stable:
  assumes "resolve_round res cs (e, r, False) = (e', r', False)" "distinct (map pc_entry_id cs)"
  shows "e' = e \<and> (\<forall>c \<in> set cs. pc_entry_id c \<in> set e \<longrightarrow> \<not> unmet (res c) \<and> map_of r' (pc_entry_id c) = Some (res c))
    \<and> (\<forall>x. x \<notin> set (map pc_entry_id cs) \<longrightarrow> map_of r' x = map_of r x)"
  using assms
proof (induction cs arbitrary: r)
  case (Cons c cs)
  have sticky: "resolve_round res cs (x, y, True) = (e', r', b) \<Longrightarrow> b" for x y b
    by (induction cs arbitrary: x y) (auto simp: resolve_round_def Let_def split: if_splits)
  show ?case
  proof (cases "pc_entry_id c \<in> set e")
    case False
    with Cons.prems have "resolve_round res cs (e, r, False) = (e', r', False)"
      by (simp add: resolve_round_def)
    from Cons.IH [OF this] Cons.prems(2) False show ?thesis by auto
  next
    case True
    have "\<not> unmet (res c)"
      using Cons.prems(1) sticky True by (auto simp: resolve_round_def Let_def split: if_splits)
    with Cons.prems True have "resolve_round res cs (e, dict_set (pc_entry_id c) (res c) r, False) = (e', r', False)"
      by (simp add: resolve_round_def Let_def)
    from Cons.IH [OF this] Cons.prems(2) \<open>\<not> unmet (res c)\<close> show ?thesis by (auto simp: dict_simps)
  qed
qed (simp add: resolve_round_def)

lemma resolve_round_subset: "resolve_round res cs (e, r, b) = (e', r', b') \<Longrightarrow> set e' \<subseteq> set e \<and> (distinct e \<longrightarrow> distinct e')"
proof (induction cs arbitrary: e r b)
  case (Cons c cs)
  from Cons.prems obtain e1 r1 b1 where "resolve_round res cs (e1, r1, b1) = (e', r', b')"
    "set e1 \<subseteq> set e" "distinct e \<longrightarrow> distinct e1"
    by (cases "pc_entry_id c \<in> set e"; cases "unmet (res c)")
       (auto simp: resolve_round_def Let_def intro: that)
  with Cons.IH [of e1 r1 b1] show ?case by auto
qed (simp add: resolve_round_def)

text \<open>What the loop returns: a subset in which every member's hard requirements are met.\<close>

lemma resolve_loop_result:
  assumes "resolve_loop res cs e0 r0 = (e, r)" "distinct (map pc_entry_id cs)"
  shows "set e \<subseteq> set e0 \<and> (distinct e0 \<longrightarrow> distinct e)
    \<and> (\<forall>c \<in> set cs. pc_entry_id c \<in> set e \<longrightarrow> \<not> unmet (res e c) \<and> map_of r (pc_entry_id c) = Some (res e c))"
  using assms
proof (induction res cs e0 r0 rule: resolve_loop.induct)
  case (1 res cs e0 r0)
  obtain e1 r1 b where round: "resolve_round (res e0) cs (e0, r0, False) = (e1, r1, b)"
    by (cases "resolve_round (res e0) cs (e0, r0, False)")
  show ?case
  proof (cases b)
    case True
    with "1.prems"(1) round have "resolve_loop res cs e1 r1 = (e, r)"
      by (simp add: resolve_loop.simps [of res cs e0 r0])
    from "1.IH" [OF round [symmetric] refl True this "1.prems"(2)] resolve_round_subset [OF round]
    show ?thesis by blast
  next
    case False
    with "1.prems"(1) round have "e = e1" "r = r1"
      by (simp_all add: resolve_loop.simps [of res cs e0 r0])
    with resolve_round_stable [of "res e0" cs e0 r0 e1 r1] round False "1.prems"(2) show ?thesis by auto
  qed
qed

section \<open>Views\<close>

lemma by_entry_get:
  "distinct (map pc_entry_id cs) \<Longrightarrow> c \<in> set cs \<Longrightarrow> dict_get_or (options_by_entry cs) (pc_entry_id c) [] = candidate_options c"
proof -
  assume "distinct (map pc_entry_id cs)" "c \<in> set cs"
  then have "map_of (options_by_entry cs) (pc_entry_id c) = Some (candidate_options c)"
    by (intro map_of_is_SomeI) (force simp: options_by_entry_def comp_def)+
  then show ?thesis by (simp add: dict_get_or_def)
qed

lemma lineage_options_mem:
  assumes "o1 \<in> set (lineage_options ix cs (options_by_entry cs) path)" "distinct (map pc_entry_id cs)"
  shows "\<exists>c \<in> set cs. o1 \<in> set (candidate_options c) \<and> si_can_see ix path (pc_scope c) (ck_name (po_key o1))"
proof -
  obtain c where "c \<in> set cs" "pc_scope c \<in> set (si_lineage ix path)"
    "o1 \<in> set (dict_get_or (options_by_entry cs) (pc_entry_id c) [])"
    "case si_allow ix path of None \<Rightarrow> True | Some a \<Rightarrow> ck_name (po_key o1) \<in> set a"
    using assms(1) by (auto simp: lineage_options_def Let_def dict_simps)
  with by_entry_get [OF assms(2)] show ?thesis
    by (auto simp: si_can_see_def split: option.splits)
qed

lemma pool_mem:
  assumes "o1 \<in> set (dict_get_or (sv_pool (build_view pk ix cs (options_by_entry cs) eligible path)) name [])"
  shows "o1 \<in> set (lineage_options ix cs (options_by_entry cs) path) \<and> ck_name (po_key o1) = name
    \<and> po_entry_id o1 \<in> set eligible"
  using assms by (auto simp: build_view_def Let_def dict_get_or_map dict_simps simp del: map_map)

lemma candidate_option_entry: "o1 \<in> set (candidate_options c) \<Longrightarrow> po_entry_id o1 = pc_entry_id c \<and> po_scope o1 = pc_scope c"
  by (auto simp: candidate_options_def declared_options_of_def registration_options_def split: if_splits)

section \<open>One requirement\<close>

lemma unresolved_status_not_resolved: "fst (unresolved_status pk view req ex keys all v p) \<noteq> ReqResolved"
  by (simp add: unresolved_status_def)

lemma select_provider_resolved:
  assumes "select_provider pk consumer req view selection matching = (st, sel, reason, explain)" "matching \<noteq> []"
  shows "(st = ReqResolved \<longleftrightarrow> sel \<noteq> None) \<and> (\<forall>o1. sel = Some o1 \<longrightarrow> o1 \<in> set matching)"
proof (cases "length matching = 1")
  case True
  with assms show ?thesis by (auto simp: select_provider_def)
next
  case False
  have "find P xs = Some x \<Longrightarrow> x \<in> set xs" for P xs and x :: "'a provider_option"
    by (induction xs) (auto split: if_splits)
  with False assms show ?thesis by (auto simp: select_provider_def split: option.splits)
qed

lemma resolve_one_resolved:
  assumes "r = resolve_one pk consumer kind req view selection all_options exclude keys"
  shows "rr_requirement r = req" and "rr_consumer r = consumer"
    and "rr_satisfied r \<longleftrightarrow> rr_provider_entry_id r \<noteq> None"
    and "rr_satisfied r \<Longrightarrow> \<exists>o1 \<in> set (dict_get_or (sv_pool view) (rq_name req) []).
      rr_provider_entry_id r = Some (po_entry_id o1) \<and> Some (po_entry_id o1) \<noteq> exclude
      \<and> rq_accepts pk req (po_key o1) (po_version o1)"
proof -
  define pool_opts where "pool_opts = filter (\<lambda>o1. Some (po_entry_id o1) \<noteq> exclude) (dict_get_or (sv_pool view) (rq_name req) [])"
  define vis where "vis = filter (\<lambda>o1. Some (po_entry_id o1) \<noteq> exclude) (dict_get_or (sv_visible view) (rq_name req) [])"
  define matching where "matching = sort_key (option_order pk) (filter (\<lambda>o1. rq_accepts pk req (po_key o1) (po_version o1)) pool_opts)"
  obtain st sel reason explain where c: "(if matching \<noteq> [] then select_provider pk consumer req view selection matching
             else (case unresolved_status pk view req exclude keys all_options vis pool_opts of
                     (st, ex) \<Rightarrow> (st, None, None, ex))) = (st, sel, reason, explain)"
    by (metis prod_cases4)
  have r: "rr_requirement r = req" "rr_consumer r = consumer" "rr_status r = st"
    "rr_provider_entry_id r = map_option po_entry_id sel"
    using c unfolding assms resolve_one_def Let_def pool_opts_def [symmetric] vis_def [symmetric] matching_def [symmetric]
    by simp_all
  then show "rr_requirement r = req" "rr_consumer r = consumer" by simp_all
  have s: "(st = ReqResolved \<longleftrightarrow> sel \<noteq> None) \<and> (\<forall>o1. sel = Some o1 \<longrightarrow> o1 \<in> set matching)"
  proof (cases "matching = []")
    case True
    with c unresolved_status_not_resolved [of pk view req exclude keys all_options vis pool_opts] show ?thesis
      by (auto split: prod.splits)
  next
    case False
    with c select_provider_resolved [of pk consumer req view selection matching] show ?thesis by simp
  qed
  then show "rr_satisfied r \<longleftrightarrow> rr_provider_entry_id r \<noteq> None" by (simp add: rr_satisfied_def r)
  show "\<exists>o1 \<in> set (dict_get_or (sv_pool view) (rq_name req) []).
      rr_provider_entry_id r = Some (po_entry_id o1) \<and> Some (po_entry_id o1) \<noteq> exclude
      \<and> rq_accepts pk req (po_key o1) (po_version o1)" if sat: "rr_satisfied r"
  proof -
    obtain o1 where "sel = Some o1" "o1 \<in> set matching" using s sat by (auto simp: rr_satisfied_def r)
    then show ?thesis by (auto simp: r matching_def pool_opts_def)
  qed
qed

text \<open>A satisfied requirement of a candidate, in terms of the candidates.\<close>

definition supports ::
  "('v, 'x) packaging \<Rightarrow> ('x, 'm) scope_index \<Rightarrow> ('v, 'x, 'o) candidate list \<Rightarrow> string list \<Rightarrow> string \<Rightarrow> string
     \<Rightarrow> 'x req_resolution \<Rightarrow> bool" where
  "supports pk ix cs eligible entry scope r \<longleftrightarrow> (\<exists>p \<in> set cs. \<exists>o1 \<in> set (candidate_options p).
     rr_provider_entry_id r = Some (pc_entry_id p) \<and> pc_entry_id p \<noteq> entry \<and> pc_entry_id p \<in> set eligible
     \<and> rq_accepts pk (rr_requirement r) (po_key o1) (po_version o1)
     \<and> si_can_see ix scope (pc_scope p) (rq_name (rr_requirement r)))"

lemma resolve_requirements_supported:
  assumes "distinct (map pc_entry_id cs)"
    and "r \<in> set (resolve_requirements pk c (build_view pk ix cs (options_by_entry cs) eligible (pc_scope c)) selection all_options)"
    and "rr_satisfied r"
  shows "supports pk ix cs eligible (pc_entry_id c) (pc_scope c) r"
proof -
  let ?view = "build_view pk ix cs (options_by_entry cs) eligible (pc_scope c)"
  obtain req where r: "r = resolve_one pk (pc_entry_id c) PluginConsumer req ?view selection all_options
      (Some (pc_entry_id c)) (map fst (ct_provided (pc_manifest c)))"
    using assms(2) by (auto simp: resolve_requirements_def)
  note one = resolve_one_resolved [OF r]
  obtain o1 where o1: "o1 \<in> set (dict_get_or (sv_pool ?view) (rq_name req) [])"
    "rr_provider_entry_id r = Some (po_entry_id o1)" "po_entry_id o1 \<noteq> pc_entry_id c"
    "rq_accepts pk req (po_key o1) (po_version o1)"
    using one(4) [OF assms(3)] by auto
  note pm = pool_mem [OF o1(1)]
  obtain p where p: "p \<in> set cs" "o1 \<in> set (candidate_options p)"
    "si_can_see ix (pc_scope c) (pc_scope p) (ck_name (po_key o1))"
    using lineage_options_mem [OF _ assms(1)] pm by blast
  with o1 pm candidate_option_entry [OF p(2)] one(1) show ?thesis
    by (auto simp: supports_def)
qed

lemma resolve_requirements_cover:
  "map rr_requirement (resolve_requirements pk c view selection all_options) =
     ct_required (pc_manifest c) @ ct_optional (pc_manifest c)"
  by (simp add: resolve_requirements_def comp_def resolve_one_resolved(1) [OF refl])

section \<open>Cycle members are entries\<close>

definition tarjan_in :: "string set \<Rightarrow> tarjan \<Rightarrow> bool" where
  "tarjan_in N t \<longleftrightarrow> set (tj_stack t) \<subseteq> N \<and> (\<forall>c \<in> set (tj_components t). set c \<subseteq> N)
     \<and> (\<forall>w \<in> set (tj_work t). fst w \<in> N \<and> set (snd w) \<subseteq> N)"

lemma scan_neighbours_in:
  "scan_neighbours t node ns low = (rest, low', nx) \<Longrightarrow> set rest \<subseteq> set ns \<and> (\<forall>n. nx = Some n \<longrightarrow> n \<in> set ns)"
  by (induction t node ns low rule: scan_neighbours.induct) (auto split: if_splits)

lemma pop_component_in:
  "set (snd (pop_component v xs)) \<subseteq> set xs \<and> set (fst (pop_component v xs)) \<subseteq> insert v (set xs)"
  by (induction xs) (auto simp: pop_component_def)

lemma tarjan_step_in:
  assumes "tarjan_in N t" "\<And>v. set (adj_of adj v) \<subseteq> N"
  shows "tarjan_in N (tarjan_step adj t)"
proof (cases "tj_work t")
  case Nil
  with assms(1) show ?thesis by (simp add: tarjan_step_def)
next
  case (Cons w work)
  obtain node ns where w: "w = (node, ns)" by (cases w)
  have in0: "node \<in> N" "set ns \<subseteq> N" "\<forall>w \<in> set work. fst w \<in> N \<and> set (snd w) \<subseteq> N"
    using assms(1) Cons w by (auto simp: tarjan_in_def)
  define t1 where "t1 = (if map_of (tj_indices t) node = None then
                      t\<lparr>tj_indices := dict_set node (tj_counter t) (tj_indices t),
                        tj_lowlink := dict_set node (tj_counter t) (tj_lowlink t),
                        tj_counter := tj_counter t + 1, tj_stack := node # tj_stack t\<rparr>
                    else t)"
  have in1: "tarjan_in N t1" using assms(1) in0(1) by (simp add: t1_def tarjan_in_def)
  obtain rest low nx where scan: "scan_neighbours t1 node ns (tj_lowlink t1) = (rest, low, nx)"
    by (metis prod_cases3)
  note sc = scan_neighbours_in [OF scan]
  show ?thesis
  proof (cases nx)
    case (Some n)
    then have "tarjan_step adj t = t1\<lparr>tj_lowlink := low, tj_work := (n, neighbours_of adj n) # (node, rest) # work\<rparr>"
      using Cons w scan unfolding tarjan_step_def by (simp add: t1_def [symmetric])
    with in1 in0 sc Some assms(2) [of n] show ?thesis
      by (auto simp: tarjan_in_def neighbours_of_def)
  next
    case None
    define low' where "low' = (case work of [] \<Rightarrow> low
        | (parent, _) # _ \<Rightarrow> dict_set parent (min (dict_get_or low parent 0) (dict_get_or low node 0)) low)"
    let ?t2 = "t1\<lparr>tj_lowlink := low', tj_work := work\<rparr>"
    have "tarjan_step adj t = (if dict_get_or low' node 0 = dict_get_or (tj_indices ?t2) node 0 then
                       (case pop_component node (tj_stack ?t2) of
                          (component, stack) \<Rightarrow>
                            ?t2\<lparr>tj_stack := stack, tj_components := tj_components ?t2 @ [sort component]\<rparr>)
                     else ?t2)"
      using Cons w scan None unfolding tarjan_step_def Let_def by (simp add: t1_def [symmetric] low'_def)
    moreover have "tarjan_in N ?t2" using in1 in0(3) by (simp add: tarjan_in_def)
    moreover from this have "tarjan_in N (?t2\<lparr>tj_stack := snd (pop_component node (tj_stack ?t2)),
        tj_components := tj_components ?t2 @ [sort (fst (pop_component node (tj_stack ?t2)))]\<rparr>)"
      using in0(1) pop_component_in [of node "tj_stack ?t2"] by (auto simp: tarjan_in_def)
    ultimately show ?thesis by (simp add: case_prod_beta')
  qed
qed

lemma tarjan_root_in:
  assumes "tarjan_in N t" "\<And>v. set (adj_of adj v) \<subseteq> N" "root \<in> N"
  shows "tarjan_in N (tarjan_root adj n root t)"
proof -
  have "tarjan_in N ((tarjan_step adj ^^ k) u)" if "tarjan_in N u" for k u
    using that by (induction k) (simp_all add: tarjan_step_in assms(2))
  moreover have "tarjan_in N (t\<lparr>tj_work := [(root, neighbours_of adj root)]\<rparr>)"
    using assms by (simp add: tarjan_in_def neighbours_of_def)
  ultimately have "tarjan_in N ((tarjan_step adj ^^ (2 * n + 1)) (t\<lparr>tj_work := [(root, neighbours_of adj root)]\<rparr>))"
    by blast
  with assms(1) show ?thesis by (auto simp only: tarjan_root_def split: if_split)
qed

lemma scc_in:
  assumes "\<And>v. set (adj_of adj v) \<subseteq> set nodes" "c \<in> set (strongly_connected_components nodes adj)"
  shows "set c \<subseteq> set nodes"
proof -
  have "tarjan_in (set nodes) (fold (tarjan_root adj k) rs t)"
    if "tarjan_in (set nodes) t" "set rs \<subseteq> set nodes" for k rs t
    using that
  proof (induction rs arbitrary: t)
    case (Cons r rs)
    have "tarjan_in (set nodes) (tarjan_root adj k r t)"
      using Cons.prems by (intro tarjan_root_in assms(1)) simp_all
    with Cons show ?case by simp
  qed simp
  moreover have "tarjan_in (set nodes)
      \<lparr>tj_counter = 0, tj_indices = [], tj_lowlink = [], tj_stack = [], tj_components = [], tj_work = []\<rparr>"
    by (simp add: tarjan_in_def)
  ultimately have "tarjan_in (set nodes) (fold (tarjan_root adj (length nodes)) (sort nodes)
      \<lparr>tj_counter = 0, tj_indices = [], tj_lowlink = [], tj_stack = [], tj_components = [], tj_work = []\<rparr>)"
    by simp
  with assms(2) show ?thesis by (simp add: strongly_connected_components_def tarjan_in_def)
qed

lemma detect_cycles_in:
  assumes "c \<in> set (detect_cycles pk cs declared ix)"
  shows "set c \<subseteq> set (map pc_entry_id cs)"
proof -
  let ?es = "declared_edges pk cs declared ix"
  let ?adj = "fold (\<lambda>(p, c) d. adj_add p c d) ?es (map (\<lambda>e. (e, [])) (map pc_entry_id cs))"
  have "snd e \<in> set (map pc_entry_id cs)" if "e \<in> set ?es" for e
    using that by (auto simp: declared_edges_def split: if_splits)
  then have "set (adj_of ?adj v) \<subseteq> set (map pc_entry_id cs)" for v
    using adj_fold [of fst snd ?es "map (\<lambda>e. (e, [])) (map pc_entry_id cs)" v]
    by (auto simp: case_prod_beta' simp del: map_map)
  note in_nodes = scc_in [OF this]
  obtain c' where "c = sort c'" "c' \<in> set (strongly_connected_components (map pc_entry_id cs) ?adj)"
    using assms by (auto simp: detect_cycles_def Let_def)
  with in_nodes [of c'] show ?thesis by simp
qed

section \<open>The assembled plan\<close>

lemma find_entry:
  "distinct (map pc_entry_id cs) \<Longrightarrow> c \<in> set cs \<Longrightarrow> find (\<lambda>d. pc_entry_id d = pc_entry_id c) cs = Some c"
  by (induction cs) (auto simp: rev_image_eqI)

lemma find_entry_Some: "find (\<lambda>d. pc_entry_id d = e) cs = Some c \<Longrightarrow> c \<in> set cs \<and> pc_entry_id c = e"
  by (induction cs) (auto split: if_splits)

lemma find_entry_ex: "e \<in> set (map pc_entry_id cs) \<Longrightarrow> \<exists>c. find (\<lambda>d. pc_entry_id d = e) cs = Some c"
  by (induction cs) auto

lemma plans_at_entries:
  assumes "g ` set xs \<subseteq> set (map pc_entry_id cs)" "\<And>x c. pp_entry_id (f x c) = pc_entry_id c"
  shows "map pp_entry_id (plans_at cs g f xs) = map g xs"
  using assms(1)
proof (induction xs)
  case (Cons x xs)
  then obtain c where c: "find (\<lambda>d. pc_entry_id d = g x) cs = Some c"
    using find_entry_ex [of "g x" cs] by auto
  with Cons find_entry_Some [OF c] show ?case by (simp add: plans_at_def assms(2))
qed (simp add: plans_at_def)

lemma plans_at_mem:
  "p \<in> set (plans_at cs g f xs) \<Longrightarrow> \<exists>x \<in> set xs. \<exists>c \<in> set cs. pc_entry_id c = g x \<and> p = f x c"
proof -
  assume "p \<in> set (plans_at cs g f xs)"
  then obtain x where x: "x \<in> set xs" "p \<in> set (case find (\<lambda>c. pc_entry_id c = g x) cs of None \<Rightarrow> [] | Some c \<Rightarrow> [f x c])"
    by (auto simp: plans_at_def)
  then obtain c where c: "find (\<lambda>c. pc_entry_id c = g x) cs = Some c" "p = f x c"
    by (cases "find (\<lambda>c. pc_entry_id c = g x) cs") auto
  with x(1) find_entry_Some [OF c(1)] show ?thesis by blast
qed

text \<open>The parts of a plan, by name.\<close>

lemma resolve_plan_parts:
  fixes pk :: "('v, 'x) packaging" and ordered :: "('v, 'x, 'o) candidate list" and ix :: "('x, 'm) scope_index"
    and selection
  defines "by_entry \<equiv> options_by_entry ordered"
  defines "all_options \<equiv> index_by_name pk by_entry"
  defines "res \<equiv> \<lambda>eligible c. resolve_requirements pk c (build_view pk ix ordered by_entry eligible (pc_scope c)) selection all_options"
  assumes "plan = resolve_plan pk selection ordered ix"
  obtains eligible resolutions cycle_members pending_ids er where
    "resolve_loop res ordered (map pc_entry_id ordered) [] = (eligible, resolutions)"
    "rp_cycles plan = detect_cycles pk ordered (declared_by_name ordered) ix"
    "cycle_members = sorted_set (concat (rp_cycles plan))"
    "er = map (\<lambda>e. (e, dict_get_or resolutions e [])) eligible"
    "rp_edges plan = dependency_edges er"
    "rp_activation_order plan = activation_order eligible (rp_edges plan) cycle_members"
    "pending_ids = filter (\<lambda>e. e \<notin> set eligible \<and> e \<notin> set cycle_members) (map pc_entry_id ordered)"
    "rp_pending plan = sort (pending_ids @ cycle_members)"
    "rp_plugins plan =
       plans_at ordered snd (\<lambda>(i, e) c. make_plan c EligiblePlan (Some i) (dict_get_or er e []) [])
         (enumerate 0 (rp_activation_order plan))
       @ plans_at ordered (\<lambda>e. e) (\<lambda>e c. make_plan c PendingPlan None (res eligible c)
           (map rr_explain (filter (\<lambda>r. \<not> rr_satisfied r \<and> \<not> rq_optional (rr_requirement r)) (res eligible c)))) pending_ids
       @ plans_at ordered (\<lambda>e. e) (\<lambda>e c. make_plan c PendingPlan None (res eligible c) [''dependency cycle'']) cycle_members"
proof -
  obtain eligible resolutions where l: "resolve_loop res ordered (map pc_entry_id ordered) [] = (eligible, resolutions)"
    by (cases "resolve_loop res ordered (map pc_entry_id ordered) []")
  note l' = l [unfolded res_def all_options_def by_entry_def]
  show ?thesis
    by (rule that [OF l, of "sorted_set (concat (rp_cycles plan))"])
       (simp_all add: assms(4) resolve_plan_def Let_def l' by_entry_def all_options_def res_def)
qed

lemma distinct_entries_eq:
  "distinct_entries seen cs = (if distinct (map pc_entry_id cs) \<and> set seen \<inter> set (map pc_entry_id cs) = {}
     then Inr () else Inl (ConfigurationError ''duplicate desired plugin entry id''))"
  by (induction cs arbitrary: seen) auto

lemma dependency_edges_mem:
  assumes "(e, rs) \<in> set d" "r \<in> set rs" "rr_provider_entry_id r = Some q" "q \<noteq> e"
  shows "(q, e) \<in> set (dependency_edges d)"
  using assms by (auto simp: dependency_edges_def intro!: bexI [of _ "(e, rs)"] bexI [of _ r] exI [of _ q])

lemma resolve_Inr:
  assumes "resolve pk nm cs selection scopes = Inr plan"
  obtains ordered ix where "ordered = sort_key pc_entry_id cs" "distinct (map pc_entry_id ordered)"
    "build_index nm scopes = Inr ix" "plan = resolve_plan pk selection ordered ix"
proof -
  from assms show ?thesis
    by (auto simp: resolve_def ordered_candidates_def Let_def bind_result_eq_Inr distinct_entries_eq
        split: if_splits intro: that)
qed

lemma eligible_in_plan:
  assumes "rp_activation_order plan = activation_order eligible edges (sorted_set cyc)" "distinct eligible"
    and "e \<in> set eligible"
  shows "e \<in> set (rp_activation_order plan @ cyc)"
proof -
  have "set (rp_activation_order plan) = set (filter (\<lambda>x. x \<notin> set (sorted_set cyc)) eligible)"
    unfolding assms(1) using activation_order_facts(1) [OF assms(2)] by (rule mset_eq_setD)
  with assms(3) show ?thesis by auto
qed

lemma supports_mono:
  "supports pk ix cs el entry scope r \<Longrightarrow> set el \<subseteq> set el' \<Longrightarrow> set cs = set cs' \<Longrightarrow> supports pk ix cs' el' entry scope r"
  unfolding supports_def by blast

text \<open>An activated entry's plan carries the resolutions against the final eligible set.\<close>

lemma eligible_plan:
  fixes pk :: "('v, 'x) packaging" and ordered :: "('v, 'x, 'o) candidate list" and ix :: "('x, 'm) scope_index"
  assumes "plan = resolve_plan pk selection ordered ix" "distinct (map pc_entry_id ordered)"
    and "p \<in> set (rp_plugins plan)" "pp_status p = EligiblePlan"
  obtains eligible resolutions c where
    "c \<in> set ordered" "pp_entry_id p = pc_entry_id c" "pp_scope p = pc_scope c" "pc_entry_id c \<in> set eligible"
    "pp_requirements p = resolve_requirements pk c
       (build_view pk ix ordered (options_by_entry ordered) eligible (pc_scope c)) selection
       (index_by_name pk (options_by_entry ordered))"
    "\<not> unmet (pp_requirements p)" "set eligible \<subseteq> set (rp_activation_order plan @ concat (rp_cycles plan))"
    "(pc_entry_id c, pp_requirements p) \<in> set (map (\<lambda>e. (e, dict_get_or resolutions e [])) eligible)"
    "rp_edges plan = dependency_edges (map (\<lambda>e. (e, dict_get_or resolutions e [])) eligible)"
proof -
  let ?res = "\<lambda>eligible c. resolve_requirements pk c (build_view pk ix ordered (options_by_entry ordered) eligible (pc_scope c))
     selection (index_by_name pk (options_by_entry ordered))"
  obtain eligible resolutions cm pend er where
    loop: "resolve_loop ?res ordered (map pc_entry_id ordered) [] = (eligible, resolutions)"
    and cm: "cm = sorted_set (concat (rp_cycles plan))"
    and er: "er = map (\<lambda>e. (e, dict_get_or resolutions e [])) eligible"
    and edges: "rp_edges plan = dependency_edges er"
    and order: "rp_activation_order plan = activation_order eligible (rp_edges plan) cm"
    and plans: "rp_plugins plan =
       plans_at ordered snd (\<lambda>(i, e) c. make_plan c EligiblePlan (Some i) (dict_get_or er e []) [])
         (enumerate 0 (rp_activation_order plan))
       @ plans_at ordered (\<lambda>e. e) (\<lambda>e c. make_plan c PendingPlan None (?res eligible c)
           (map rr_explain (filter (\<lambda>r. \<not> rr_satisfied r \<and> \<not> rq_optional (rr_requirement r)) (?res eligible c)))) pend
       @ plans_at ordered (\<lambda>e. e) (\<lambda>e c. make_plan c PendingPlan None (?res eligible c) [''dependency cycle'']) cm"
    by (rule resolve_plan_parts [OF assms(1)]) blast
  note lr = resolve_loop_result [OF loop assms(2)]
  have de: "distinct eligible" using lr assms(2) by blast
  have sub: "set eligible \<subseteq> set (rp_activation_order plan @ concat (rp_cycles plan))"
    using eligible_in_plan [OF order [unfolded cm] de] by blast
  have "p \<in> set (plans_at ordered snd (\<lambda>(i, e) c. make_plan c EligiblePlan (Some i) (dict_get_or er e []) [])
         (enumerate 0 (rp_activation_order plan)))"
    using assms(3,4) unfolding plans by (auto dest!: plans_at_mem simp: make_plan_def)
  then obtain i e c where ie: "(i, e) \<in> set (enumerate 0 (rp_activation_order plan))" "c \<in> set ordered"
    "pc_entry_id c = e" and p: "p = make_plan c EligiblePlan (Some i) (dict_get_or er e []) []"
    by (auto dest!: plans_at_mem)
  have "e \<in> set (rp_activation_order plan)" 
    using ie(1) unfolding enumerate_eq_zip by (rule set_zip_rightD)
  moreover have "set (rp_activation_order plan) = set (filter (\<lambda>e. e \<notin> set cm) eligible)"
    unfolding order using activation_order_facts(1) [OF de] by (rule mset_eq_setD)
  ultimately have el: "e \<in> set eligible" by simp
  have "map_of er e = Some (dict_get_or resolutions e [])"
    using el by (simp add: er map_of_keyed)
  moreover have "map_of resolutions e = Some (?res eligible c)" "\<not> unmet (?res eligible c)"
    using lr ie(2,3) el by blast+
  ultimately have reqs: "pp_requirements p = ?res eligible c" and mem: "(e, ?res eligible c) \<in> set er"
    using el by (auto simp: p make_plan_def dict_get_or_def er intro!: image_eqI)
  show ?thesis
    by (rule that [of c eligible resolutions])
       (use ie reqs mem el sub edges er p \<open>\<not> unmet (?res eligible c)\<close> in \<open>simp_all add: make_plan_def\<close>)
qed

section \<open>Properties\<close>

text \<open>Two plugins of one flat composition: a database and its consumer.\<close>

definition nat_packaging :: "(nat, unit) packaging" where
  "nat_packaging = \<lparr>
     pkg_version = (\<lambda>s. Some (read_nat s)), pkg_specifier = (\<lambda>s. Some ()),
     pkg_contains = (\<lambda>x v. True), pkg_clauses = (\<lambda>x. []),
     pkg_less = (\<lambda>v w. v < w), pkg_major = (\<lambda>v. v), pkg_minor = (\<lambda>v. 0),
     pkg_micro = (\<lambda>v. 0), pkg_show = show_nat, pkg_show_specifier = (\<lambda>x. '''')\<rparr>"

definition demo_requirement :: "bool \<Rightarrow> string \<Rightarrow> unit requirement" where
  "demo_requirement optional name =
     \<lparr>rq_key = \<lparr>ck_name = name, ck_api_version = []\<rparr>, rq_specifier = (), rq_optional = optional\<rparr>"

definition demo_candidate :: "string \<Rightarrow> string list \<Rightarrow> string list \<Rightarrow> string list \<Rightarrow> (nat, unit, unit) candidate" where
  "demo_candidate e provides requires optional = \<lparr>pc_entry_id = e,
     pc_manifest = \<lparr>ct_name = e, ct_identity = e,
       ct_provided = map (\<lambda>p. (\<lparr>ck_name = p, ck_api_version = ''1''\<rparr>, 1)) provides,
       ct_required = map (demo_requirement False) requires,
       ct_optional = map (demo_requirement True) optional\<rparr>,
     pc_instance_id = None, pc_active = False, pc_registrations = [], pc_scope = root_scope\<rparr>"

definition demo_index :: "(unit, unit) scope_index" where
  "demo_index = \<lparr>si_specs = [(root_scope, root_spec ())], si_lineages = [(root_scope, [root_scope])],
     si_allowed = [(root_scope, None)]\<rparr>"

lemma demo_build_index: "build_index () None = Inr demo_index"
  by (simp add: build_index_def root_spec_def lineage_up.simps allowed_for_def demo_index_def root_scope_def)

lemma resolve_succeeds:
  assumes "distinct (map pc_entry_id cs)" "build_index nm scopes = Inr ix" "\<forall>c \<in> set cs. map_of (si_specs ix) (pc_scope c) \<noteq> None"
  shows "resolve pk nm cs selection scopes = Inr (resolve_plan pk selection (sort_key pc_entry_id cs) ix)"
proof -
  have "distinct (map pc_entry_id (sort_key pc_entry_id cs))"
    using assms(1) by (metis distinct_map distinct_sort set_sort)
  then have "ordered_candidates cs = Inr (sort_key pc_entry_id cs)"
    by (simp add: ordered_candidates_def Let_def distinct_entries_eq)
  moreover have "map_result f xs = Inr (map (\<lambda>_. ()) xs)" if "\<forall>x \<in> set xs. f x = Inr ()"
    for f and xs :: "('a, 'b, 'c) candidate list"
    using that by (induction xs) auto
  then have "map_result (\<lambda>c. si_require ix (pc_scope c)) (sort_key pc_entry_id cs) = Inr (map (\<lambda>_. ()) (sort_key pc_entry_id cs))"
    using assms(3) by (simp add: si_require_def)
  ultimately show ?thesis using assms(2) by (simp add: resolve_def)
qed

text \<open>
  C2: The plan is self-supporting. An entry the plan activates is a candidate, its plan resolves
  exactly the requirements of the candidate's manifest, hard ones first, in order, and none of the
  hard ones is unresolved. Every resolved requirement, hard or optional, names a provider that is a
  different candidate, accepts the required contract and version, lives in the consumer's scope or
  one of its ancestors with the capability exposed by every narrowing view on the way, and is itself
  either activated by the plan or a member of a reported cycle (which the plan leaves pending).
\<close>

theorem resolve_self_supporting:
  assumes "resolve pk nm cs selection scopes = Inr plan" "build_index nm scopes = Inr ix"
    and "p \<in> set (rp_plugins plan)" "pp_status p = EligiblePlan"
  shows "\<exists>c \<in> set cs. pp_entry_id p = pc_entry_id c \<and> pp_scope p = pc_scope c
     \<and> map rr_requirement (pp_requirements p) = ct_required (pc_manifest c) @ ct_optional (pc_manifest c)
     \<and> (\<forall>r \<in> set (pp_requirements p). (rq_optional (rr_requirement r) \<or> rr_satisfied r)
          \<and> (rr_satisfied r \<longrightarrow>
               supports pk ix cs (rp_activation_order plan @ concat (rp_cycles plan)) (pc_entry_id c) (pc_scope c) r))"
proof -
  obtain ordered where o: "ordered = sort_key pc_entry_id cs" "distinct (map pc_entry_id ordered)"
    "plan = resolve_plan pk selection ordered ix"
    using resolve_Inr [OF assms(1)] assms(2) by (metis Inr_inject)
  obtain eligible resolutions c where c: "c \<in> set ordered" "pp_entry_id p = pc_entry_id c" "pp_scope p = pc_scope c"
    and reqs: "pp_requirements p = resolve_requirements pk c
       (build_view pk ix ordered (options_by_entry ordered) eligible (pc_scope c)) selection
       (index_by_name pk (options_by_entry ordered))"
    and met: "\<not> unmet (pp_requirements p)"
    and sub: "set eligible \<subseteq> set (rp_activation_order plan @ concat (rp_cycles plan))"
    by (rule eligible_plan [OF o(3,2) assms(3,4)])
  have "rq_optional (rr_requirement r) \<or> rr_satisfied r" if "r \<in> set (pp_requirements p)" for r
    using met that by (auto simp: unmet_def list_ex_iff)
  moreover have "supports pk ix cs (rp_activation_order plan @ concat (rp_cycles plan)) (pc_entry_id c) (pc_scope c) r"
    if "r \<in> set (pp_requirements p)" "rr_satisfied r" for r
    using resolve_requirements_supported [OF o(2) that(1) [unfolded reqs] that(2)] supports_mono [OF _ sub] o(1)
    by (metis set_sort)
  moreover have "map rr_requirement (pp_requirements p) = ct_required (pc_manifest c) @ ct_optional (pc_manifest c)"
    unfolding reqs by (rule resolve_requirements_cover)
  moreover have "c \<in> set cs" using c(1) by (simp add: o(1))
  ultimately show ?thesis using c(2,3) by blast
qed

text \<open>
  C27: The plan covers the desired composition exactly: entry ids are unique, every candidate has
  exactly one plugin plan, and every entry is either in the activation order or pending, once.
\<close>

theorem resolve_plan_partition:
  assumes "resolve pk nm cs selection scopes = Inr plan"
  shows "distinct (map pc_entry_id cs)
     \<and> mset (map pp_entry_id (rp_plugins plan)) = mset (map pc_entry_id cs)
     \<and> mset (rp_activation_order plan @ rp_pending plan) = mset (map pc_entry_id cs)"
proof -
  obtain ordered ix where o: "ordered = sort_key pc_entry_id cs" "distinct (map pc_entry_id ordered)"
    "plan = resolve_plan pk selection ordered ix"
    by (rule resolve_Inr [OF assms])
  let ?ids = "map pc_entry_id ordered"
  have ids: "mset ?ids = mset (map pc_entry_id cs)" by (simp add: o(1))
  let ?res = "\<lambda>eligible c. resolve_requirements pk c (build_view pk ix ordered (options_by_entry ordered) eligible (pc_scope c))
     selection (index_by_name pk (options_by_entry ordered))"
  obtain eligible resolutions cm pend er where
    loop: "resolve_loop ?res ordered ?ids [] = (eligible, resolutions)"
    and cyc: "rp_cycles plan = detect_cycles pk ordered (declared_by_name ordered) ix"
    and cm: "cm = sorted_set (concat (rp_cycles plan))"
    and order: "rp_activation_order plan = activation_order eligible (rp_edges plan) cm"
    and pend: "pend = filter (\<lambda>e. e \<notin> set eligible \<and> e \<notin> set cm) ?ids"
    and pending: "rp_pending plan = sort (pend @ cm)"
    and plans: "rp_plugins plan =
       plans_at ordered snd (\<lambda>(i, e) c. make_plan c EligiblePlan (Some i) (dict_get_or er e []) [])
         (enumerate 0 (rp_activation_order plan))
       @ plans_at ordered (\<lambda>e. e) (\<lambda>e c. make_plan c PendingPlan None (?res eligible c)
           (map rr_explain (filter (\<lambda>r. \<not> rr_satisfied r \<and> \<not> rq_optional (rr_requirement r)) (?res eligible c)))) pend
       @ plans_at ordered (\<lambda>e. e) (\<lambda>e c. make_plan c PendingPlan None (?res eligible c) [''dependency cycle'']) cm"
    by (rule resolve_plan_parts [OF o(3)]) blast
  note lr = resolve_loop_result [OF loop o(2)]
  have el: "distinct eligible" "set eligible \<subseteq> set ?ids" using lr o(2) by blast+
  have cmi: "set cm \<subseteq> set ?ids" "distinct cm"
    using detect_cycles_in [of _ pk ordered "declared_by_name ordered" ix] by (auto simp: cm cyc)
  have act: "mset (rp_activation_order plan) = mset (filter (\<lambda>e. e \<notin> set cm) eligible)"
    unfolding order by (rule activation_order_facts(1) [OF el(1)])
  have "mset (filter (\<lambda>e. e \<notin> set cm) eligible @ pend @ cm) = mset ?ids"
    using el cmi o(2) by (intro set_eq_iff_mset_eq_distinct [THEN iffD1]) (auto simp: pend)
  then have all: "mset (rp_activation_order plan @ pend @ cm) = mset ?ids" using act by simp
  have aset: "set (rp_activation_order plan) \<subseteq> set ?ids" using mset_eq_setD [OF act] el(2) by auto
  have "map pp_entry_id (rp_plugins plan) = map snd (enumerate 0 (rp_activation_order plan)) @ pend @ cm"
    unfolding plans map_append
    using aset cmi by (subst (1 2 3) plans_at_entries) (auto simp: make_plan_def pend dest: set_zip_rightD simp: enumerate_eq_zip)
  with all ids pending show ?thesis
    using o(2) by (simp add: o(1)) (metis (mono_tags) distinct_map distinct_sort set_sort)
qed

text \<open>
  C28: The plan is a function of the composition, not of the order in which it is listed: two
  listings of the same candidates give the same plan or the same error.
\<close>

theorem resolve_order_independent:
  assumes "mset cs = mset cs'"
  shows "resolve pk nm cs selection scopes = resolve pk nm cs' selection scopes"
proof -
  have same: "distinct (map pc_entry_id (sort_key pc_entry_id xs)) = distinct (map pc_entry_id xs)"
    for xs :: "('a, 'b, 'c) candidate list"
    by (simp add: distinct_map)
  have d: "distinct (map pc_entry_id cs) = distinct (map pc_entry_id cs')"
    using assms by (metis mset_eq_imp_distinct_iff mset_map)
  have "ordered_candidates cs = ordered_candidates cs'"
  proof (cases "distinct (map pc_entry_id cs)")
    case True
    then have "sort_key pc_entry_id cs = sort_key pc_entry_id cs'"
      by (intro sort_key_canonical [OF assms]) (simp add: distinct_map)
    then show ?thesis by (simp add: ordered_candidates_def)
  next
    case False
    with d show ?thesis by (simp add: ordered_candidates_def Let_def distinct_entries_eq same del: map_map)
  qed
  then show ?thesis by (simp add: resolve_def)
qed


end
