(* ===== verification/Resolver_Examples.thy ===== *)
theory Resolver_Examples
  imports Resolver_Props
begin

text \<open>
  Three concrete compositions evaluated through the whole resolver: a provider and its consumer
  (the witnesses of the resolver's properties), two plugins that need each other, one of them only
  optionally, and an ambiguity that disappears after it has been acted on.
\<close>

section \<open>Evaluating a plan\<close>

lemma resolve_round_quiet:
  assumes "\<forall>c \<in> set cs. pc_entry_id c \<in> set E \<and> \<not> unmet (res c) \<and> map_of r (pc_entry_id c) = None"
    and "distinct (map pc_entry_id cs)"
  shows "resolve_round res cs (E, r, False) = (E, r @ map (\<lambda>c. (pc_entry_id c, res c)) cs, False)"
  using assms
proof (induction cs arbitrary: r)
  case (Cons c cs)
  have ne: "\<forall>d \<in> set cs. pc_entry_id d \<noteq> pc_entry_id c"
    using Cons.prems(2) by (metis distinct.simps(2) image_eqI list.set_map list.simps(9))
  from Cons have "resolve_round res (c # cs) (E, r, False) =
      resolve_round res cs (E, r @ [(pc_entry_id c, res c)], False)"
    by (simp add: resolve_round_def Let_def dict_set_fresh)
  also have "\<dots> = (E, (r @ [(pc_entry_id c, res c)]) @ map (\<lambda>c. (pc_entry_id c, res c)) cs, False)"
    using Cons.prems ne by (intro Cons.IH) (simp_all add: map_add_def)
  finally show ?case by simp
qed (simp add: resolve_round_def)

lemma resolve_loop_quiet:
  assumes "\<forall>c \<in> set cs. \<not> unmet (res (map pc_entry_id cs) c)" "distinct (map pc_entry_id cs)"
  shows "resolve_loop res cs (map pc_entry_id cs) [] =
     (map pc_entry_id cs, map (\<lambda>c. (pc_entry_id c, res (map pc_entry_id cs) c)) cs)"
  using assms by (subst resolve_loop.simps) (simp add: resolve_round_quiet)

definition summary :: "'x req_resolution list \<Rightarrow> (string option \<times> bool \<times> bool) list" where
  "summary rs = map (\<lambda>r. (rr_provider_entry_id r, rr_satisfied r, rq_optional (rr_requirement r))) rs"

lemma unmet_summary: "unmet rs \<longleftrightarrow> list_ex (\<lambda>(_, sat, opt). \<not> sat \<and> \<not> opt) (summary rs)"
  by (induction rs) (auto simp: unmet_def summary_def)

lemma edges_summary:
  "dependency_edges d = sorted_set (concat (map (\<lambda>(entry, rs). concat (map (\<lambda>(p, _, _). case p of
        None \<Rightarrow> [] | Some q \<Rightarrow> if q = entry then [] else [(q, entry)]) (summary rs))) d))"
  by (simp add: dependency_edges_def summary_def comp_def)

lemma summary_single: "summary rs = [(p, s, b)] \<longleftrightarrow> (\<exists>r. rs = [r] \<and> rr_provider_entry_id r = p \<and> rr_satisfied r = s \<and> rq_optional (rr_requirement r) = b)"
  by (cases rs) (auto simp: summary_def)

definition demo_resolve :: "(nat, unit, unit) candidate list \<Rightarrow> string list \<Rightarrow> (nat, unit, unit) candidate \<Rightarrow> unit req_resolution list" where
  "demo_resolve cs eligible c = resolve_requirements nat_packaging c
     (build_view nat_packaging demo_index cs (options_by_entry cs) eligible (pc_scope c)) []
     (index_by_name nat_packaging (options_by_entry cs))"

definition demo_plan :: "(nat, unit, unit) candidate list \<Rightarrow> (nat, unit, unit) resolution_plan" where
  "demo_plan cs = resolve_plan nat_packaging [] (sort_key pc_entry_id cs) demo_index"

lemma demo_plan_resolve:
  assumes "distinct (map pc_entry_id cs)" "\<forall>c \<in> set cs. pc_scope c = root_scope"
  shows "resolve nat_packaging () cs [] None = Inr (demo_plan cs)"
  unfolding demo_plan_def
  by (rule resolve_succeeds [OF assms(1) demo_build_index]) (use assms(2) in \<open>simp add: demo_index_def\<close>)

lemma demo_ids [simp]: "pc_entry_id (demo_candidate e p r q) = e" "pc_scope (demo_candidate e p r q) = root_scope"
  by (simp_all add: demo_candidate_def)

text \<open>A composition in which everything is satisfied at once.\<close>

lemma quiet_plan:
  assumes sorted: "sort_key pc_entry_id cs = cs" and distinct: "distinct (map pc_entry_id cs)"
    and met: "\<forall>c \<in> set cs. \<not> unmet (demo_resolve cs (map pc_entry_id cs) c)"
    and cyc: "detect_cycles nat_packaging cs (declared_by_name cs) demo_index = cycles"
  shows "rp_cycles (demo_plan cs) = cycles"
    and "rp_edges (demo_plan cs) = dependency_edges (map (\<lambda>c. (pc_entry_id c, demo_resolve cs (map pc_entry_id cs) c)) cs)"
    and "rp_activation_order (demo_plan cs) = activation_order (map pc_entry_id cs) (rp_edges (demo_plan cs))
      (sorted_set (concat cycles))"
    and "\<lbrakk>c \<in> set cs; i < length (rp_activation_order (demo_plan cs)); rp_activation_order (demo_plan cs) ! i = pc_entry_id c\<rbrakk> \<Longrightarrow>
      make_plan c EligiblePlan (Some i) (demo_resolve cs (map pc_entry_id cs) c) [] \<in> set (rp_plugins (demo_plan cs))"
    and "rp_pending (demo_plan cs) = sorted_set (concat cycles)"
proof -
  let ?ids = "map pc_entry_id cs"
  let ?er = "map (\<lambda>c. (pc_entry_id c, demo_resolve cs ?ids c)) cs"
  have plan: "demo_plan cs = resolve_plan nat_packaging [] cs demo_index" by (simp add: demo_plan_def sorted)
  obtain eligible resolutions cm pend er where
    loop: "resolve_loop (demo_resolve cs) cs ?ids [] = (eligible, resolutions)"
    and c0: "rp_cycles (demo_plan cs) = detect_cycles nat_packaging cs (declared_by_name cs) demo_index"
    and cm: "cm = sorted_set (concat (rp_cycles (demo_plan cs)))"
    and er: "er = map (\<lambda>e. (e, dict_get_or resolutions e [])) eligible"
    and edges: "rp_edges (demo_plan cs) = dependency_edges er"
    and order: "rp_activation_order (demo_plan cs) = activation_order eligible (rp_edges (demo_plan cs)) cm"
    and pend: "pend = filter (\<lambda>e. e \<notin> set eligible \<and> e \<notin> set cm) ?ids" "rp_pending (demo_plan cs) = sort (pend @ cm)"
    and plans: "set (plans_at cs snd (\<lambda>(i, e) c. make_plan c EligiblePlan (Some i) (dict_get_or er e []) [])
         (enumerate 0 (rp_activation_order (demo_plan cs)))) \<subseteq> set (rp_plugins (demo_plan cs))"
    by (rule resolve_plan_parts [OF plan]) (simp add: demo_resolve_def [abs_def])
  have get: "map_of ?er (pc_entry_id c) = Some (demo_resolve cs ?ids c)" if "c \<in> set cs" for c
    using distinct that by (intro map_of_is_SomeI) (auto simp: comp_def)
  have "(eligible, resolutions) = (?ids, ?er)"
    by (rule trans [OF loop [symmetric] resolve_loop_quiet [of cs "demo_resolve cs", OF met distinct]])
  then have el: "eligible = ?ids" and re: "resolutions = ?er" by simp_all
  have er': "er = ?er" using get by (auto simp: er el re dict_get_or_def)
  show "rp_cycles (demo_plan cs) = cycles" "rp_edges (demo_plan cs) = dependency_edges ?er"
    by (simp_all add: c0 cyc edges er')
  show "rp_activation_order (demo_plan cs) = activation_order ?ids (rp_edges (demo_plan cs)) (sorted_set (concat cycles))"
    using order by (simp add: cm c0 cyc el)
  show "rp_pending (demo_plan cs) = sorted_set (concat cycles)"
    by (simp add: pend cm c0 cyc el sorted_set_def sorted_sort_id [OF sorted_sort])
  show "make_plan c EligiblePlan (Some i) (demo_resolve cs ?ids c) [] \<in> set (rp_plugins (demo_plan cs))"
    if c: "c \<in> set cs" "i < length (rp_activation_order (demo_plan cs))" "rp_activation_order (demo_plan cs) ! i = pc_entry_id c"
  proof -
    have m: "(i, pc_entry_id c) \<in> set (enumerate 0 (rp_activation_order (demo_plan cs)))"
      using c(2,3) by (force simp: in_set_enumerate_eq)
    have "make_plan c EligiblePlan (Some i) (demo_resolve cs ?ids c) [] \<in> set (plans_at cs snd
        (\<lambda>(i, e) c. make_plan c EligiblePlan (Some i) (dict_get_or er e []) []) (enumerate 0 (rp_activation_order (demo_plan cs))))"
      unfolding plans_at_def using find_entry [OF distinct c(1)] get [OF c(1)] m
      by (force simp: er' dict_get_or_def)
    with plans show ?thesis by blast
  qed
qed

section \<open>A provider and its consumer\<close>

definition chain_consumer :: "(nat, unit, unit) candidate" where
  "chain_consumer = demo_candidate ''a'' [] [''y''] []"

definition chain_provider :: "(nat, unit, unit) candidate" where
  "chain_provider = demo_candidate ''b'' [''y''] [] []"

definition chain :: "(nat, unit, unit) candidate list" where
  "chain = [chain_consumer, chain_provider]"

lemma chain_summary:
  "summary (demo_resolve chain [''a'', ''b''] chain_consumer) = [(Some ''b'', True, False)]"
  "summary (demo_resolve chain [''a'', ''b''] chain_provider) = []"
  by code_simp+

lemma chain_cycles: "detect_cycles nat_packaging chain (declared_by_name chain) demo_index = []"
  by code_simp

lemma chain_ids:
  "map pc_entry_id chain = [''a'', ''b'']" "sort_key pc_entry_id chain = chain"
  "distinct (map pc_entry_id chain)" "set chain = {chain_consumer, chain_provider}"
  "map (\<lambda>c. (pc_entry_id c, f c)) chain = [(''a'', f chain_consumer), (''b'', f chain_provider)]"
  by (simp_all add: chain_def chain_consumer_def chain_provider_def)

lemma chain_met: "\<forall>c \<in> set chain. \<not> unmet (demo_resolve chain (map pc_entry_id chain) c)"
  unfolding chain_ids(1,4) using chain_summary by (simp add: unmet_summary)

lemma chain_plan:
  "rp_edges (demo_plan chain) = [(''b'', ''a'')]" "rp_activation_order (demo_plan chain) = [''b'', ''a'']"
  "rp_cycles (demo_plan chain) = []"
  "make_plan chain_consumer EligiblePlan (Some 1) (demo_resolve chain [''a'', ''b''] chain_consumer) []
     \<in> set (rp_plugins (demo_plan chain))"
proof -
  note q = quiet_plan [OF chain_ids(2,3) chain_met chain_cycles]
  show e: "rp_edges (demo_plan chain) = [(''b'', ''a'')]"
    unfolding q(2) chain_ids(1,5) by (simp add: edges_summary chain_summary sorted_set_def)
  have "activation_order [''a'', ''b''] [(''b'', ''a'')] [] = [''b'', ''a'']" by code_simp
  then show o: "rp_activation_order (demo_plan chain) = [''b'', ''a'']"
    using q(3) e by (simp add: chain_ids(1) sorted_set_def)
  show "rp_cycles (demo_plan chain) = []" by (rule q(1))
  show "make_plan chain_consumer EligiblePlan (Some 1) (demo_resolve chain [''a'', ''b''] chain_consumer) []
     \<in> set (rp_plugins (demo_plan chain))"
    using q(4) [of chain_consumer 1] o unfolding chain_ids(1)
    by (simp add: chain_def chain_consumer_def)
qed

lemma chain_resolves: "resolve nat_packaging () chain [] None = Inr (demo_plan chain)"
  by (rule demo_plan_resolve) (simp_all add: chain_def chain_consumer_def chain_provider_def)

section \<open>Two plugins that need each other, once optionally\<close>

definition knot_a :: "(nat, unit, unit) candidate" where
  "knot_a = demo_candidate ''a'' [''x''] [''y''] []"

definition knot_b :: "(nat, unit, unit) candidate" where
  "knot_b = demo_candidate ''b'' [''y''] [] [''x'']"

definition knot :: "(nat, unit, unit) candidate list" where
  "knot = [knot_a, knot_b]"

lemma knot_summary:
  "summary (demo_resolve knot [''a'', ''b''] knot_a) = [(Some ''b'', True, False)]"
  "summary (demo_resolve knot [''a'', ''b''] knot_b) = [(Some ''a'', True, True)]"
  by code_simp+

lemma knot_cycles: "detect_cycles nat_packaging knot (declared_by_name knot) demo_index = []"
  by code_simp

lemma knot_ids:
  "map pc_entry_id knot = [''a'', ''b'']" "sort_key pc_entry_id knot = knot"
  "distinct (map pc_entry_id knot)" "set knot = {knot_a, knot_b}"
  "map (\<lambda>c. (pc_entry_id c, f c)) knot = [(''a'', f knot_a), (''b'', f knot_b)]"
  by (simp_all add: knot_def knot_a_def knot_b_def)

lemma knot_met: "\<forall>c \<in> set knot. \<not> unmet (demo_resolve knot (map pc_entry_id knot) c)"
  unfolding knot_ids(1,4) using knot_summary by (simp add: unmet_summary)

text \<open>
  An optional requirement can invert the activation order. When a plugin's provider optionally
  uses the plugin itself, no cycle is reported (optional requirements are not part of the declared
  graph), but the dependency edges are cyclic, and the fallback of \<open>_activation_order\<close> appends the
  members by entry id: the consumer is activated before the provider of its hard requirement.
\<close>

theorem optional_back_reference_inverts_order:
  "\<exists>plan p r. resolve nat_packaging () knot [] None = Inr plan \<and> rp_cycles plan = []
     \<and> rp_activation_order plan = [''a'', ''b''] \<and> p \<in> set (rp_plugins plan) \<and> pp_entry_id p = ''a''
     \<and> pp_status p = EligiblePlan \<and> r \<in> set (pp_requirements p)
     \<and> \<not> rq_optional (rr_requirement r) \<and> rr_provider_entry_id r = Some ''b''"
proof -
  note q = quiet_plan [OF knot_ids(2,3) knot_met knot_cycles]
  have e: "rp_edges (demo_plan knot) = [(''a'', ''b''), (''b'', ''a'')]"
    unfolding q(2) knot_ids(1,5) by (simp add: edges_summary knot_summary sorted_set_def)
  have "activation_order [''a'', ''b''] [(''a'', ''b''), (''b'', ''a'')] [] = [''a'', ''b'']" by code_simp
  then have o: "rp_activation_order (demo_plan knot) = [''a'', ''b'']"
    using q(3) e by (simp add: knot_ids(1) sorted_set_def)
  obtain r where r: "demo_resolve knot [''a'', ''b''] knot_a = [r]" "rr_provider_entry_id r = Some ''b''"
    "\<not> rq_optional (rr_requirement r)"
    using knot_summary(1) unfolding summary_single by blast
  have "make_plan knot_a EligiblePlan (Some 0) [r] [] \<in> set (rp_plugins (demo_plan knot))"
    using q(4) [of knot_a 0] o unfolding knot_ids(1) r(1) by (simp add: knot_def knot_a_def)
  moreover have "resolve nat_packaging () knot [] None = Inr (demo_plan knot)"
    by (rule demo_plan_resolve) (simp_all add: knot_def knot_a_def knot_b_def)
  moreover have "pc_entry_id knot_a = ''a''" by (simp add: knot_a_def)
  ultimately show ?thesis using q(1) o r(2,3)
    by (intro exI [of _ "demo_plan knot"] exI [of _ "make_plan knot_a EligiblePlan (Some 0) [r] []"] exI [of _ r])
       (simp add: make_plan_def)
qed

section \<open>A consumer of a cycle\<close>

lemma tarjan_idle: "tj_work t = [] \<Longrightarrow> (tarjan_step adj ^^ n) t = t"
  by (induction n) (simp_all add: tarjan_step_def)

lemma tarjan_root_once:
  assumes "map_of (tj_indices t) root = None"
    and "tarjan_step adj (t\<lparr>tj_work := [(root, neighbours_of adj root)]\<rparr>) = t'" "tj_work t' = []"
  shows "tarjan_root adj n root t = t'"
  using assms by (simp add: tarjan_root_def funpow_Suc_right tarjan_idle del: funpow.simps)

lemmas tarjan_eval = tarjan_step_def neighbours_of_def pop_component_def dict_get_or_def Let_def

lemma tarjan_root_run:
  assumes "map_of (tj_indices t) root = None" "k \<le> 2 * n + 1"
    and "(tarjan_step adj ^^ k) (t\<lparr>tj_work := [(root, neighbours_of adj root)]\<rparr>) = t'" "tj_work t' = []"
  shows "tarjan_root adj n root t = t'"
proof -
  have "(tarjan_step adj ^^ (2 * n + 1)) u = (tarjan_step adj ^^ (2 * n + 1 - k)) ((tarjan_step adj ^^ k) u)" for u
    using assms(2) by (metis comp_apply funpow_add le_add_diff_inverse2)
  then show ?thesis
    using assms(1) by (simp only: tarjan_root_def assms(3)) (simp add: tarjan_idle assms(4))
qed


definition ring_a :: "(nat, unit, unit) candidate" where
  "ring_a = demo_candidate ''a'' [''x''] [''y''] []"

definition ring_b :: "(nat, unit, unit) candidate" where
  "ring_b = demo_candidate ''b'' [''y''] [''x''] []"

definition ring_c :: "(nat, unit, unit) candidate" where
  "ring_c = demo_candidate ''c'' [] [''x''] []"

definition ring :: "(nat, unit, unit) candidate list" where
  "ring = [ring_a, ring_b, ring_c]"

lemma ring_ids:
  "map pc_entry_id ring = [''a'', ''b'', ''c'']" "sort_key pc_entry_id ring = ring"
  "distinct (map pc_entry_id ring)" "set ring = {ring_a, ring_b, ring_c}"
  "map (\<lambda>c. (pc_entry_id c, f c)) ring = [(''a'', f ring_a), (''b'', f ring_b), (''c'', f ring_c)]"
  by (simp_all add: ring_def ring_a_def ring_b_def ring_c_def)

lemma ring_summary:
  "summary (demo_resolve ring [''a'', ''b'', ''c''] ring_a) = [(Some ''b'', True, False)]"
  "summary (demo_resolve ring [''a'', ''b'', ''c''] ring_b) = [(Some ''a'', True, False)]"
  "summary (demo_resolve ring [''a'', ''b'', ''c''] ring_c) = [(Some ''a'', True, False)]"
  by code_simp+

lemma ring_edges:
  "declared_edges nat_packaging ring (declared_by_name ring) demo_index = [(''b'', ''a''), (''a'', ''b''), (''a'', ''c'')]"
  by code_simp

definition ring_adj :: adjacency where
  "ring_adj = [(''a'', [''b'', ''c'']), (''b'', [''a'']), (''c'', [])]"

lemma ring_adjacency:
  "fold (\<lambda>(p, c) d. adj_add p c d) [(''b'', ''a''), (''a'', ''b''), (''a'', ''c'')] (map (\<lambda>e. (e, [])) [''a'', ''b'', ''c''])
    = ring_adj"
  by code_simp

lemma ring_components:
  "strongly_connected_components [''a'', ''b'', ''c''] ring_adj = [[''c''], [''a'', ''b'']]"
proof -
  let ?t0 = "\<lparr>tj_counter = 0, tj_indices = [], tj_lowlink = [], tj_stack = [], tj_components = [], tj_work = []\<rparr>"
  let ?u1 = "\<lparr>tj_counter = 1, tj_indices = [(''a'', 0)], tj_lowlink = [(''a'', 0)], tj_stack = [''a''],
      tj_components = [], tj_work = [(''b'', [''a'']), (''a'', [''c''])]\<rparr>"
  let ?u2 = "\<lparr>tj_counter = 2, tj_indices = [(''a'', 0), (''b'', 1)], tj_lowlink = [(''a'', 0), (''b'', 0)],
      tj_stack = [''b'', ''a''], tj_components = [], tj_work = [(''a'', [''c''])]\<rparr>"
  let ?u3 = "\<lparr>tj_counter = 2, tj_indices = [(''a'', 0), (''b'', 1)], tj_lowlink = [(''a'', 0), (''b'', 0)],
      tj_stack = [''b'', ''a''], tj_components = [], tj_work = [(''c'', []), (''a'', [])]\<rparr>"
  let ?u4 = "\<lparr>tj_counter = 3, tj_indices = [(''a'', 0), (''b'', 1), (''c'', 2)],
      tj_lowlink = [(''a'', 0), (''b'', 0), (''c'', 2)], tj_stack = [''b'', ''a''], tj_components = [[''c'']],
      tj_work = [(''a'', [])]\<rparr>"
  let ?t1 = "\<lparr>tj_counter = 3, tj_indices = [(''a'', 0), (''b'', 1), (''c'', 2)],
      tj_lowlink = [(''a'', 0), (''b'', 0), (''c'', 2)], tj_stack = [],
      tj_components = [[''c''], [''a'', ''b'']], tj_work = []\<rparr>"
  have steps: "tarjan_step ring_adj (?t0\<lparr>tj_work := [(''a'', neighbours_of ring_adj ''a'')]\<rparr>) = ?u1"
    "tarjan_step ring_adj ?u1 = ?u2" "tarjan_step ring_adj ?u2 = ?u3" "tarjan_step ring_adj ?u3 = ?u4"
    "tarjan_step ring_adj ?u4 = ?t1"
    by (simp_all add: tarjan_eval ring_adj_def)
  have "(tarjan_step ring_adj ^^ Suc (Suc (Suc (Suc (Suc 0))))) (?t0\<lparr>tj_work := [(''a'', neighbours_of ring_adj ''a'')]\<rparr>) = ?t1"
    by (simp only: funpow_Suc_right funpow.simps(1) comp_apply id_apply steps)
  then have "tarjan_root ring_adj 3 ''a'' ?t0 = ?t1" by (rule tarjan_root_run [rotated 2]) simp_all
  moreover have "tarjan_root ring_adj 3 ''b'' ?t1 = ?t1" "tarjan_root ring_adj 3 ''c'' ?t1 = ?t1"
    by (simp_all add: tarjan_root_def)
  ultimately show ?thesis by (simp add: strongly_connected_components_def numeral_3_eq_3)
qed

lemma ring_cycles: "detect_cycles nat_packaging ring (declared_by_name ring) demo_index = [[''a'', ''b'']]"
  unfolding detect_cycles_def Let_def ring_ids(1) ring_edges ring_adjacency ring_components by simp

lemma ring_met: "\<forall>c \<in> set ring. \<not> unmet (demo_resolve ring (map pc_entry_id ring) c)"
  unfolding ring_ids(1,4) using ring_summary by (simp add: unmet_summary)


section \<open>An ambiguity that resolves itself too late\<close>

definition strand_c :: "(nat, unit, unit) candidate" where
  "strand_c = demo_candidate ''c'' [] [''db''] []"

definition strand_p :: "(nat, unit, unit) candidate" where
  "strand_p = demo_candidate ''p'' [''db''] [] []"

definition strand_q :: "(nat, unit, unit) candidate" where
  "strand_q = demo_candidate ''q'' [''db''] [''x''] []"

definition strand :: "(nat, unit, unit) candidate list" where
  "strand = [strand_c, strand_p, strand_q]"

lemma strand_summary:
  "summary (demo_resolve strand [''c'', ''p'', ''q''] strand_c) = [(None, False, False)]"
  "summary (demo_resolve strand [''c'', ''p'', ''q''] strand_q) = [(None, False, False)]"
  "summary (demo_resolve strand [''p''] strand_c) = [(Some ''p'', True, False)]"
  by code_simp+

lemma strand_summary_p: "summary (demo_resolve strand e strand_p) = []"
  by (simp add: demo_resolve_def resolve_requirements_def strand_p_def demo_candidate_def summary_def)

lemma strand_edges:
  "declared_edges nat_packaging strand (declared_by_name strand) demo_index = [(''p'', ''c''), (''q'', ''c'')]"
  by code_simp

definition strand_adj :: adjacency where
  "strand_adj = [(''c'', []), (''p'', [''c'']), (''q'', [''c''])]"

lemma strand_components:
  "strongly_connected_components [''c'', ''p'', ''q''] strand_adj = [[''c''], [''p''], [''q'']]"
proof -
  let ?t0 = "\<lparr>tj_counter = 0, tj_indices = [], tj_lowlink = [], tj_stack = [], tj_components = [], tj_work = []\<rparr>"
  let ?t1 = "\<lparr>tj_counter = 1, tj_indices = [(''c'', 0)], tj_lowlink = [(''c'', 0)], tj_stack = [],
      tj_components = [[''c'']], tj_work = []\<rparr>"
  let ?t2 = "\<lparr>tj_counter = 2, tj_indices = [(''c'', 0), (''p'', 1)], tj_lowlink = [(''c'', 0), (''p'', 1)],
      tj_stack = [], tj_components = [[''c''], [''p'']], tj_work = []\<rparr>"
  let ?t3 = "\<lparr>tj_counter = 3, tj_indices = [(''c'', 0), (''p'', 1), (''q'', 2)],
      tj_lowlink = [(''c'', 0), (''p'', 1), (''q'', 2)], tj_stack = [],
      tj_components = [[''c''], [''p''], [''q'']], tj_work = []\<rparr>"
  have "tarjan_root strand_adj 3 ''c'' ?t0 = ?t1"
    by (rule tarjan_root_once) (simp_all add: tarjan_eval strand_adj_def)
  moreover have "tarjan_root strand_adj 3 ''p'' ?t1 = ?t2"
    by (rule tarjan_root_once) (simp_all add: tarjan_eval strand_adj_def)
  moreover have "tarjan_root strand_adj 3 ''q'' ?t2 = ?t3"
    by (rule tarjan_root_once) (simp_all add: tarjan_eval strand_adj_def)
  ultimately show ?thesis by (simp add: strongly_connected_components_def numeral_3_eq_3)
qed

lemma strand_ids: "map pc_entry_id strand = [''c'', ''p'', ''q'']" "sort_key pc_entry_id strand = strand"
  by (simp_all add: strand_def strand_c_def strand_p_def strand_q_def)

lemma strand_adjacency:
  "fold (\<lambda>(p, c) d. adj_add p c d) [(''p'', ''c''), (''q'', ''c'')] (map (\<lambda>e. (e, [])) [''c'', ''p'', ''q''])
    = strand_adj"
  by code_simp

lemma strand_cycles: "detect_cycles nat_packaging strand (declared_by_name strand) demo_index = []"
  unfolding detect_cycles_def Let_def strand_ids(1) strand_edges strand_adjacency strand_components by simp

lemma strand_loop:
  "\<exists>rs. resolve_loop (demo_resolve strand) strand [''c'', ''p'', ''q''] [] = ([''p''], rs)"
proof -
  have ids: "pc_entry_id strand_c = ''c''" "pc_entry_id strand_p = ''p''" "pc_entry_id strand_q = ''q''"
    by (simp_all add: strand_c_def strand_p_def strand_q_def)
  obtain rs where 1: "resolve_round (demo_resolve strand [''c'', ''p'', ''q'']) strand ([''c'', ''p'', ''q''], [], False) = ([''p''], rs, True)"
    by (simp add: resolve_round_def strand_def ids unmet_summary strand_summary [unfolded strand_def]
        strand_summary_p [unfolded strand_def] Let_def)
  obtain rs' where 2: "resolve_round (demo_resolve strand [''p'']) strand ([''p''], rs, False) = ([''p''], rs', False)"
    by (simp add: resolve_round_def strand_def ids unmet_summary strand_summary_p [unfolded strand_def] Let_def)
  show ?thesis
    using 1 2 by (simp add: resolve_loop.simps [of _ _ "[''c'', ''p'', ''q'']"] resolve_loop.simps [of _ _ "[''p'']"])
qed

text \<open>
  C31: The eligibility loop does not end in the greatest self-supporting set. A consumer that two
  providers could serve is removed as ambiguous in the same pass in which one of the two is removed
  for an unmet requirement of its own, and nothing ever reconsiders it: the plan reports it pending
  with every requirement resolved and no reason, although activating it with the remaining provider
  would satisfy everything.
\<close>

theorem late_ambiguity_strands_consumer:
  "\<exists>plan p. resolve nat_packaging () strand [] None = Inr plan \<and> p \<in> set (rp_plugins plan)
     \<and> pp_entry_id p = ''c'' \<and> pp_status p = PendingPlan \<and> pp_reasons p = []
     \<and> list_all rr_satisfied (pp_requirements p) \<and> map rr_provider_entry_id (pp_requirements p) = [Some ''p'']
     \<and> rp_activation_order plan = [''p''] \<and> rp_cycles plan = []"
proof -
  have plan: "demo_plan strand = resolve_plan nat_packaging [] strand demo_index"
    by (simp add: demo_plan_def strand_ids)
  obtain rs where loop: "resolve_loop (demo_resolve strand) strand [''c'', ''p'', ''q''] [] = ([''p''], rs)"
    using strand_loop by blast
  obtain r where r: "demo_resolve strand [''p''] strand_c = [r]" "rr_provider_entry_id r = Some ''p''" "rr_satisfied r"
    using strand_summary(3) unfolding summary_single by blast
  obtain eligible resolutions cm pend er where
    loop': "resolve_loop (demo_resolve strand) strand (map pc_entry_id strand) [] = (eligible, resolutions)"
    and c0: "rp_cycles (demo_plan strand) = detect_cycles nat_packaging strand (declared_by_name strand) demo_index"
    and cm: "cm = sorted_set (concat (rp_cycles (demo_plan strand)))"
    and order: "rp_activation_order (demo_plan strand) = activation_order eligible (rp_edges (demo_plan strand)) cm"
    and pend: "pend = filter (\<lambda>e. e \<notin> set eligible \<and> e \<notin> set cm) (map pc_entry_id strand)"
    and plans: "rp_plugins (demo_plan strand) =
       plans_at strand snd (\<lambda>(i, e) c. make_plan c EligiblePlan (Some i) (dict_get_or er e []) [])
         (enumerate 0 (rp_activation_order (demo_plan strand)))
       @ plans_at strand (\<lambda>e. e) (\<lambda>e c. make_plan c PendingPlan None (demo_resolve strand eligible c)
           (map rr_explain (filter (\<lambda>r. \<not> rr_satisfied r \<and> \<not> rq_optional (rr_requirement r)) (demo_resolve strand eligible c)))) pend
       @ plans_at strand (\<lambda>e. e) (\<lambda>e c. make_plan c PendingPlan None (demo_resolve strand eligible c) [''dependency cycle'']) cm"
    unfolding demo_resolve_def [abs_def] by (rule resolve_plan_parts [OF plan]) blast
  have el: "eligible = [''p'']" using loop loop' by (simp add: strand_ids)
  have cyc: "rp_cycles (demo_plan strand) = []" by (simp add: c0 strand_cycles)
  have "mset (rp_activation_order (demo_plan strand)) = {#''p''#}"
    unfolding order by (subst activation_order_facts(1)) (simp_all add: el cm cyc)
  then have o: "rp_activation_order (demo_plan strand) = [''p'']" by simp
  have pend': "pend = [''c'', ''q'']" by (simp add: pend el cm cyc strand_ids(1))
  have found: "find (\<lambda>d. pc_entry_id d = ''c'') strand = Some strand_c"
    by (simp add: strand_def strand_c_def)
  have "make_plan strand_c PendingPlan None [r] [] \<in> set (rp_plugins (demo_plan strand))"
    unfolding plans set_append
    by (rule UnI2, rule UnI1) (simp add: pend' plans_at_def found el r)
  moreover have "resolve nat_packaging () strand [] None = Inr (demo_plan strand)"
    by (rule demo_plan_resolve) (simp_all add: strand_def strand_c_def strand_p_def strand_q_def)
  ultimately show ?thesis using o cyc r(2,3)
    by (intro exI [of _ "demo_plan strand"] exI [of _ "make_plan strand_c PendingPlan None [r] []"])
       (simp add: make_plan_def strand_c_def)
qed

section \<open>Witnesses\<close>

lemma chain_requirement:
  obtains r where "demo_resolve chain [''a'', ''b''] chain_consumer = [r]" "rr_provider_entry_id r = Some ''b''" "rr_satisfied r"
  using chain_summary(1) unfolding summary_single by blast

theorem resolve_self_supporting_witness:
  "\<exists>plan p r. resolve nat_packaging () chain [] None = Inr plan \<and> p \<in> set (rp_plugins plan) \<and> r \<in> set (pp_requirements p)
     \<and> map rr_requirement (pp_requirements p) = [demo_requirement False ''y'']
     \<and> supports nat_packaging demo_index chain (rp_activation_order plan @ concat (rp_cycles plan)) (pp_entry_id p) (pp_scope p) r"
proof -
  obtain r where r: "demo_resolve chain [''a'', ''b''] chain_consumer = [r]" "rr_satisfied r"
    by (rule chain_requirement)
  let ?p = "make_plan chain_consumer EligiblePlan (Some 1) [r] []"
  have "?p \<in> set (rp_plugins (demo_plan chain))" using chain_plan(4) unfolding r(1) .
  moreover from resolve_self_supporting [OF chain_resolves demo_build_index this] obtain c where c: "c \<in> set chain"
    "pp_entry_id ?p = pc_entry_id c" "pp_scope ?p = pc_scope c"
    "map rr_requirement (pp_requirements ?p) = ct_required (pc_manifest c) @ ct_optional (pc_manifest c)"
    "supports nat_packaging demo_index chain (rp_activation_order (demo_plan chain) @ concat (rp_cycles (demo_plan chain)))
       (pc_entry_id c) (pc_scope c) r"
    using r(2) by (auto simp: make_plan_def)
  moreover have "c = chain_consumer"
    using c(1,2) by (auto simp: chain_ids(4) make_plan_def chain_consumer_def chain_provider_def)
  ultimately show ?thesis using chain_resolves
    by (intro exI [of _ "demo_plan chain"] exI [of _ ?p] exI [of _ r])
       (auto simp: make_plan_def chain_consumer_def demo_candidate_def)
qed

theorem resolve_plan_partition_witness:
  "\<exists>plan. resolve nat_packaging () chain [] None = Inr plan \<and> mset (map pp_entry_id (rp_plugins plan)) = {#''a'', ''b''#}"
  using resolve_plan_partition [OF chain_resolves] chain_resolves chain_ids(1) by auto

theorem resolve_order_independent_witness:
  "resolve nat_packaging () [chain_consumer, chain_provider] [] None = resolve nat_packaging () [chain_provider, chain_consumer] [] None"
  by (rule resolve_order_independent) simp


end
