(* ===== verification/Scope_Tree.thy ===== *)
theory Scope_Tree
  imports Scope_Ops
begin

text \<open>
  The shape of the scope tree over the life of a store. Every open scope hangs on the exit stack of
  its open parent (\<open>linked\<close>), so a close reaches every open scope below it: afterwards the whole
  subtree is closed, and every disposer any open scope of the subtree held has run.
\<close>

section \<open>Operations that only add\<close>

text \<open>Scopes keep their state and their parent, and exit stacks only gain entries.\<close>

definition grows :: "('f, 'w) sys \<Rightarrow> ('f, 'w) sys \<Rightarrow> bool" where
  "grows \<sigma> \<sigma>' \<longleftrightarrow> (\<forall>t tc. sy_scopes \<sigma> t = Some tc \<longrightarrow>
     (\<exists>tc'. sy_scopes \<sigma>' t = Some tc' \<and> sc_state tc' = sc_state tc \<and> sc_parent tc' = sc_parent tc
        \<and> set (sc_stack tc) \<subseteq> set (sc_stack tc')))"

definition same_scopes :: "('f, 'w) sys \<Rightarrow> ('f, 'w) sys \<Rightarrow> bool" where
  "same_scopes \<sigma> \<sigma>' \<longleftrightarrow> (\<forall>t. (sy_scopes \<sigma>' t = None) = (sy_scopes \<sigma> t = None))"

named_theorems grows_intros "operations under which the scope tree only grows"

lemma grows_refl [simp, grows_intros]: "grows \<sigma> \<sigma>"
  by (simp add: grows_def)

lemma grows_trans: "grows \<sigma> \<sigma>' \<Longrightarrow> grows \<sigma>' \<sigma>'' \<Longrightarrow> grows \<sigma> \<sigma>''"
  unfolding grows_def by fastforce

lemma grows_world [simp]: "grows (\<sigma>\<lparr>sy_world := w\<rparr>) \<sigma>' = grows \<sigma> \<sigma>'" "grows \<sigma> (\<sigma>'\<lparr>sy_world := w\<rparr>) = grows \<sigma> \<sigma>'"
  "grows (\<sigma>\<lparr>sy_next := n\<rparr>) \<sigma>' = grows \<sigma> \<sigma>'" "grows \<sigma> (\<sigma>'\<lparr>sy_next := n\<rparr>) = grows \<sigma> \<sigma>'"
  by (simp_all add: grows_def)

lemma same_scopes_refl [simp, grows_intros]: "same_scopes \<sigma> \<sigma>"
  by (simp add: same_scopes_def)

lemma same_scopes_trans: "same_scopes \<sigma> \<sigma>' \<Longrightarrow> same_scopes \<sigma>' \<sigma>'' \<Longrightarrow> same_scopes \<sigma> \<sigma>''"
  by (simp add: same_scopes_def)

lemma same_scopes_world [simp]: "same_scopes \<sigma> (\<sigma>'\<lparr>sy_world := w\<rparr>) = same_scopes \<sigma> \<sigma>'"
  "same_scopes \<sigma> (\<sigma>'\<lparr>sy_next := n\<rparr>) = same_scopes \<sigma> \<sigma>'"
  by (simp_all add: same_scopes_def)

lemma grows_update:
  assumes "\<And>sc. sc_state (g sc) = sc_state sc \<and> sc_parent (g sc) = sc_parent sc \<and> set (sc_stack sc) \<subseteq> set (sc_stack (g sc))"
  shows "grows \<sigma> (update_scope s g \<sigma>)" "same_scopes \<sigma> (update_scope s g \<sigma>)"
  using assms by (auto simp: grows_def same_scopes_def)

lemma grows_put:
  assumes "sy_scopes \<sigma> s = Some sc" "sc_state sc' = sc_state sc" "sc_parent sc' = sc_parent sc"
    "set (sc_stack sc) \<subseteq> set (sc_stack sc')"
  shows "grows \<sigma> (put_scope s sc' \<sigma>)" "same_scopes \<sigma> (put_scope s sc' \<sigma>)"
  using assms by (auto simp: grows_def same_scopes_def)

lemma grows_release [grows_intros]: "grows \<sigma> (release_effect s r \<sigma>)" "same_scopes \<sigma> (release_effect s r \<sigma>)"
  unfolding release_effect_def by (rule grows_update, simp)+

lemma grows_failure [grows_intros]: "grows \<sigma> (record_failure s d e \<sigma>)" "same_scopes \<sigma> (record_failure s d e \<sigma>)"
  unfolding record_failure_def by (rule grows_update, simp)+

lemma grows_push [grows_intros]: "grows \<sigma> (push_exit s h \<sigma>)" "same_scopes \<sigma> (push_exit s h \<sigma>)"
  unfolding push_exit_def by (rule grows_update, auto)+

lemma grows_task_done [grows_intros]: "grows \<sigma> (on_task_done s t r \<sigma>)" "same_scopes \<sigma> (on_task_done s t r \<sigma>)"
proof -
  let ?g = "\<lambda>sc :: 'a scope. sc\<lparr>sc_tasks := dict_pop (fst t) (sc_tasks sc)\<rparr>"
  have "grows \<sigma> (update_scope s ?g \<sigma>)" "same_scopes \<sigma> (update_scope s ?g \<sigma>)" by (rule grows_update, simp)+
  then show "grows \<sigma> (on_task_done s t r \<sigma>)" "same_scopes \<sigma> (on_task_done s t r \<sigma>)"
    using grows_trans same_scopes_trans grows_failure
    by (cases r; simp add: on_task_done_def Let_def; blast)+
qed

lemma grows_register:
  assumes "register_effect s kind d \<sigma> = (r, \<sigma>')"
  shows "grows \<sigma> \<sigma>'" "same_scopes \<sigma> \<sigma>'"
  using assms
  by (auto simp: register_effect_def Let_def grows_def same_scopes_def split: option.splits sum.splits if_splits)

lemma grows_cleanup:
  assumes "scope_cleanup s d f kind \<sigma> = (r, \<sigma>')"
  shows "grows \<sigma> \<sigma>'" "same_scopes \<sigma> \<sigma>'"
proof -
  obtain q \<sigma>1 where q: "register_effect s kind d \<sigma> = (q, \<sigma>1)" by fastforce
  have "\<sigma>' = \<sigma>1 \<or> (\<exists>fx d. \<sigma>' = push_exit s (fx, d) \<sigma>1)"
    using assms q by (cases q) (auto simp: scope_cleanup_def)
  then show "grows \<sigma> \<sigma>'" "same_scopes \<sigma> \<sigma>'"
    using grows_register [OF q] grows_push grows_trans same_scopes_trans by blast+
qed

lemma grows_enter:
  assumes "enter_context s cm enter exit \<sigma> = (r, \<sigma>')"
  shows "grows \<sigma> \<sigma>'" "same_scopes \<sigma> \<sigma>'"
proof -
  obtain q \<sigma>1 where q: "register_effect s ''context'' (''context '' @ cm) \<sigma> = (q, \<sigma>1)" by fastforce
  have "\<sigma>' = \<sigma>1 \<or> (\<exists>w fx. \<sigma>' = release_effect s fx (\<sigma>1\<lparr>sy_world := w\<rparr>)) \<or> (\<exists>w fx d. \<sigma>' = push_exit s (fx, d) (\<sigma>1\<lparr>sy_world := w\<rparr>))"
    using assms q by (cases q; cases "enter (sy_world \<sigma>1)"; cases "fst (enter (sy_world \<sigma>1))") (force simp: enter_context_def)+
  moreover have "grows \<sigma> (\<sigma>1\<lparr>sy_world := w\<rparr>)" "same_scopes \<sigma> (\<sigma>1\<lparr>sy_world := w\<rparr>)" for w
    using grows_register [OF q] by simp_all
  ultimately show "grows \<sigma> \<sigma>'" "same_scopes \<sigma> \<sigma>'"
    using grows_register [OF q] grows_push grows_release grows_trans same_scopes_trans by metis+
qed

lemma grows_resume:
  assumes "enter_async_resume run s record outcome exit \<sigma> = (r, \<sigma>')"
  shows "grows \<sigma> \<sigma>'" "same_scopes \<sigma> \<sigma>'"
proof -
  have "\<sigma>' = \<sigma> \<or> \<sigma>' = release_effect s record \<sigma> \<or> (\<exists>w. \<sigma>' = (release_effect s record \<sigma>)\<lparr>sy_world := w\<rparr>)
     \<or> (\<exists>fx d. \<sigma>' = push_exit s (fx, d) \<sigma>)"
    using assms by (auto simp: enter_async_resume_def split: option.splits prod.splits if_splits)
  then show "grows \<sigma> \<sigma>'" "same_scopes \<sigma> \<sigma>'"
    using grows_push grows_release by auto
qed

lemma grows_create_task:
  assumes "create_task s name \<sigma> = (r, \<sigma>')"
  shows "grows \<sigma> \<sigma>'" "same_scopes \<sigma> \<sigma>'"
  using assms by (auto simp: create_task_def Let_def grows_def same_scopes_def split: option.splits sum.splits if_splits)

section \<open>Open scopes hang on their parents\<close>

definition hangs :: "('f, 'w) sys \<Rightarrow> sid \<Rightarrow> sid \<Rightarrow> bool" where
  "hangs \<sigma> p t \<longleftrightarrow> (\<exists>pc. sy_scopes \<sigma> p = Some pc \<and> sc_state pc = SCOPE_OPEN \<and> t \<in> set (stack_children (sc_stack pc)))"

definition linked :: "('f, 'w) sys \<Rightarrow> bool" where
  "linked \<sigma> \<longleftrightarrow> (\<forall>t tc p. sy_scopes \<sigma> t = Some tc \<and> sc_state tc = SCOPE_OPEN \<and> sc_parent tc = Some p \<longrightarrow> hangs \<sigma> p t)"

lemma stack_children_iff: "c \<in> set (stack_children hs) \<longleftrightarrow> (\<exists>r. (r, CloseChild c) \<in> set hs)"
  by (induction hs) (auto simp: stack_children_def split: disposer.splits)

lemma hangs_grows: "hangs \<sigma> p t \<Longrightarrow> grows \<sigma> \<sigma>' \<Longrightarrow> hangs \<sigma>' p t"
  unfolding hangs_def grows_def stack_children_iff by (metis subsetD)

lemma linked_grows:
  assumes "linked \<sigma>" "grows \<sigma> \<sigma>'" "same_scopes \<sigma> \<sigma>'"
  shows "linked \<sigma>'"
  unfolding linked_def
proof (intro allI impI)
  fix t tc p assume t: "sy_scopes \<sigma>' t = Some tc \<and> sc_state tc = SCOPE_OPEN \<and> sc_parent tc = Some p"
  then obtain tc0 where "sy_scopes \<sigma> t = Some tc0" using assms(3) [unfolded same_scopes_def, rule_format, of t] by auto
  with t assms(2) have "sc_state tc0 = SCOPE_OPEN" "sc_parent tc0 = Some p" "sy_scopes \<sigma> t = Some tc0"
    by (fastforce simp: grows_def)+
  then have "hangs \<sigma> p t" using assms(1) unfolding linked_def by blast
  then show "hangs \<sigma>' p t" using assms(2) by (rule hangs_grows)
qed

lemma linked_root: "linked (root_store name w)"
  by (simp add: linked_def root_store_def new_scope_def)

lemma scope_child_open:
  assumes "sy_scopes \<sigma> s = Some sc" "sc_state sc = SCOPE_OPEN" "scope_child s name \<sigma> = (r, \<sigma>')" "s < sy_next \<sigma>"
  shows "\<exists>sc' h. sy_scopes \<sigma>' = (sy_scopes \<sigma>)(sy_next \<sigma> \<mapsto> new_scope name (Some s), s \<mapsto> sc')
     \<and> sc_state sc' = SCOPE_OPEN \<and> sc_parent sc' = sc_parent sc \<and> sc_stack sc' = (h, CloseChild (sy_next \<sigma>)) # sc_stack sc
     \<and> r = Inr (sy_next \<sigma>) \<and> sy_world \<sigma>' = sy_world \<sigma>"
  using assms
  by (auto simp: scope_child_def scope_assert_open_def Let_def scope_cleanup_def register_effect_def push_exit_def fun_eq_iff)

lemma scope_child_refused:
  assumes "\<nexists>sc. sy_scopes \<sigma> s = Some sc \<and> sc_state sc = SCOPE_OPEN" "scope_child s name \<sigma> = (r, \<sigma>')"
  shows "\<sigma>' = \<sigma>"
  using assms by (auto simp: scope_child_def scope_assert_open_def split: option.splits)

lemma child_grows_linked:
  assumes ok: "store_ok \<sigma>" and l: "linked \<sigma>" and step: "scope_child s name \<sigma> = (r, \<sigma>')"
  shows "grows \<sigma> \<sigma>' \<and> linked \<sigma>'"
proof (cases "\<exists>sc. sy_scopes \<sigma> s = Some sc \<and> sc_state sc = SCOPE_OPEN")
  case False
  then show ?thesis using scope_child_refused [OF _ step] l by simp
next
  case True
  then obtain sc where sc: "sy_scopes \<sigma> s = Some sc" "sc_state sc = SCOPE_OPEN" by blast
  have less: "s < sy_next \<sigma>" and none: "sy_scopes \<sigma> (sy_next \<sigma>) = None"
    using ok sc by (cases "sy_scopes \<sigma> (sy_next \<sigma>)"; auto simp: store_ok_def)+
  obtain sc' h where s': "sy_scopes \<sigma>' = (sy_scopes \<sigma>)(sy_next \<sigma> \<mapsto> new_scope name (Some s), s \<mapsto> sc')"
    "sc_state sc' = SCOPE_OPEN" "sc_parent sc' = sc_parent sc" "sc_stack sc' = (h, CloseChild (sy_next \<sigma>)) # sc_stack sc"
    using scope_child_open [OF sc step less] by blast
  have g: "grows \<sigma> \<sigma>'" using s' sc none less by (auto simp: grows_def)
  have "hangs \<sigma>' p t" if t: "sy_scopes \<sigma>' t = Some tc" "sc_state tc = SCOPE_OPEN" "sc_parent tc = Some p" for t tc p
  proof (cases "t = sy_next \<sigma>")
    case True
    then have "p = s" using t s'(1) less by (auto simp: new_scope_def)
    with True show ?thesis using s' by (simp add: hangs_def)
  next
    case False
    then obtain tc0 where "sy_scopes \<sigma> t = Some tc0" "sc_state tc0 = SCOPE_OPEN" "sc_parent tc0 = Some p"
      using t s' sc by (auto split: if_splits)
    then have "hangs \<sigma> p t" using l by (auto simp: linked_def)
    then show ?thesis using g by (rule hangs_grows)
  qed
  with g show ?thesis by (auto simp: linked_def)
qed

lemma init_grows_linked:
  assumes ok: "store_ok \<sigma>" and l: "linked \<sigma>" and step: "scope_init name \<sigma> = (s, \<sigma>')"
  shows "grows \<sigma> \<sigma>' \<and> linked \<sigma>'"
proof -
  have none: "sy_scopes \<sigma> (sy_next \<sigma>) = None"
    using ok by (cases "sy_scopes \<sigma> (sy_next \<sigma>)") (auto simp: store_ok_def)
  have \<sigma>': "sy_scopes \<sigma>' = (sy_scopes \<sigma>)(sy_next \<sigma> \<mapsto> new_scope name None)"
    using step by (auto simp: scope_init_def)
  have g: "grows \<sigma> \<sigma>'" using none by (auto simp: grows_def \<sigma>')
  moreover have "hangs \<sigma>' p t" if t: "sy_scopes \<sigma>' t = Some tc" "sc_state tc = SCOPE_OPEN" "sc_parent tc = Some p" for t tc p
  proof -
    have "hangs \<sigma> p t" using t l by (auto simp: \<sigma>' new_scope_def linked_def split: if_splits)
    then show ?thesis using g by (rule hangs_grows)
  qed
  ultimately show ?thesis by (auto simp: linked_def)
qed

section \<open>A close reaches the whole subtree\<close>

definition closed_at :: "('f, 'w) sys \<Rightarrow> sid \<Rightarrow> bool" where
  "closed_at \<sigma> t \<longleftrightarrow> (\<exists>tc. sy_scopes \<sigma> t = Some tc \<and> sc_state tc = SCOPE_CLOSED)"

definition linked_below :: "('f, 'w) sys \<Rightarrow> sid \<Rightarrow> bool" where
  "linked_below \<sigma> s \<longleftrightarrow> (\<forall>p t tc. descends (parent_of \<sigma>) s p \<and> sy_scopes \<sigma> t = Some tc
      \<and> sc_state tc = SCOPE_OPEN \<and> sc_parent tc = Some p \<longrightarrow> hangs \<sigma> p t)"

lemma linked_linked_below: "linked \<sigma> \<Longrightarrow> linked_below \<sigma> s"
  by (auto simp: linked_def linked_below_def)

lemma parent_ofI: "sy_scopes \<sigma> t = Some tc \<Longrightarrow> sc_parent tc = Some p \<Longrightarrow> parent_of \<sigma> t = Some p"
  by (simp add: parent_of_def)

lemma linked_below_child:
  "linked_below \<sigma> s \<Longrightarrow> parent_of \<sigma> c = Some s \<Longrightarrow> linked_below \<sigma> c"
  unfolding linked_below_def by (blast intro: descends_child)

lemma linked_below_frame:
  assumes "frame A \<sigma> \<sigma>'" "linked_below \<sigma> c" "\<And>t. descends (parent_of \<sigma>) c t \<Longrightarrow> t \<notin> A"
  shows "linked_below \<sigma>' c"
  unfolding linked_below_def
proof (intro allI impI)
  fix p t tc
  assume a: "descends (parent_of \<sigma>') c p \<and> sy_scopes \<sigma>' t = Some tc \<and> sc_state tc = SCOPE_OPEN \<and> sc_parent tc = Some p"
  have par: "parent_of \<sigma>' = parent_of \<sigma>" using assms(1) by (simp add: frame_def)
  have p: "descends (parent_of \<sigma>) c p" using a par by simp
  have t: "parent_of \<sigma> t = Some p" using a par parent_ofI by metis
  have "descends (parent_of \<sigma>) c t" using t p by (rule descends_step)
  then have "sy_scopes \<sigma>' t = sy_scopes \<sigma> t" "sy_scopes \<sigma>' p = sy_scopes \<sigma> p"
    using assms(1,3) p by (simp_all add: frame_def)
  moreover from this have "hangs \<sigma> p t" using assms(2) a p unfolding linked_below_def by metis
  ultimately show "hangs \<sigma>' p t" by (simp add: hangs_def)
qed

lemma closed_down:
  assumes "descends (parent_of \<sigma>) s t" "subtree_ok \<sigma> s" "linked_below \<sigma> s" "closed_at \<sigma> s"
  shows "closed_at \<sigma> t"
  using assms(1)
proof (induction rule: descends.induct)
  case descends_refl
  show ?case by (rule assms(4))
next
  case (descends_step t u)
  have "descends (parent_of \<sigma>) s t" using descends_step.hyps by (rule descends.descends_step)
  then obtain tc where tc: "sy_scopes \<sigma> t = Some tc" "scope_ok \<sigma> t tc"
    using assms(2) unfolding subtree_ok_def by blast
  have par: "sc_parent tc = Some u" using descends_step.hyps(1) tc(1) by (simp add: parent_of_def)
  have "sc_state tc \<noteq> SCOPE_OPEN"
  proof
    assume "sc_state tc = SCOPE_OPEN"
    then have "hangs \<sigma> u t" using assms(3) descends_step.hyps(2) tc(1) par unfolding linked_below_def by blast
    then show False using descends_step.IH by (auto simp: hangs_def closed_at_def)
  qed
  then have "sc_state tc = SCOPE_CLOSED" using tc(2) by (cases "sc_state tc") (auto simp: scope_ok_def)
  then show ?case using tc(1) by (simp add: closed_at_def)
qed

lemma closed_at_kept:
  assumes "closed_at \<sigma> t" "keeps_closed A \<sigma> \<sigma>'" "t \<notin> A" "scope_ok \<sigma> t (the (sy_scopes \<sigma> t))"
  shows "closed_at \<sigma>' t"
  using assms by (fastforce simp: closed_at_def keeps_closed_def was_closed_def scope_ok_def)

lemma closed_at_failure: "closed_at \<sigma> t \<Longrightarrow> closed_at (record_failure s d e \<sigma>) t"
  by (auto simp: closed_at_def record_failure_def)

lemma handler_exit_child:
  assumes "handler_exit close run s h \<sigma> = Some (r, \<sigma>')" "snd h = CloseChild c"
  shows "\<exists>q \<sigma>1. close c (release_effect s (fst h) \<sigma>) = Some (q, \<sigma>1)
     \<and> (\<sigma>' = \<sigma>1 \<or> (\<exists>e. \<sigma>' = record_failure s (fx_description (fst h)) e \<sigma>1))"
  using assms
  by (auto simp: handler_exit_def Let_def split: option.splits prod.splits if_splits)

definition closes_below :: "nat \<Rightarrow> (nat \<Rightarrow> task_result) \<Rightarrow> ('f \<Rightarrow> 'w callback) \<Rightarrow> bool" where
  "closes_below fuel tasks run \<longleftrightarrow> (\<forall>c \<sigma> r \<sigma>'. subtree_ok \<sigma> c \<and> parents_older (parent_of \<sigma>) \<and> sy_next \<sigma> \<le> c + fuel
      \<and> linked_below \<sigma> c \<and> scope_aclose fuel tasks run c \<sigma> = Some (r, \<sigma>')
      \<longrightarrow> (\<forall>t. descends (parent_of \<sigma>) c t \<longrightarrow> closed_at \<sigma>' t))"

text \<open>The state after one entry of the exit stack has run.\<close>

lemma unwind_step:
  assumes par: "parents_older (parent_of \<sigma>)" and n: "sy_next \<sigma> \<le> s + Suc fuel" and s: "sy_scopes \<sigma> s = Some sc"
    and d: "distinct (stack_children (h # hs))"
    and ch: "\<forall>c \<in> set (stack_children (h # hs)). parent_of \<sigma> c = Some s \<and> subtree_ok \<sigma> c \<and> linked_below \<sigma> c"
    and step: "handler_exit (scope_aclose fuel tasks run) run s h (update_scope s (\<lambda>sc. sc\<lparr>sc_stack := hs\<rparr>) \<sigma>) = Some (q, \<sigma>')"
    and below: "closes_below fuel tasks run"
  shows "frame ({s} \<union> {t. \<exists>c \<in> set (stack_children [h]). descends (parent_of \<sigma>) c t}) \<sigma> \<sigma>'"
    and "(\<exists>sc'. sy_scopes \<sigma>' s = Some sc')"
    and "\<forall>c \<in> set (stack_children [h]). subtree_ok \<sigma>' c \<and> (\<forall>t. descends (parent_of \<sigma>) c t \<longrightarrow> closed_at \<sigma>' t)"
proof -
  let ?\<sigma>1 = "update_scope s (\<lambda>sc. sc\<lparr>sc_stack := hs\<rparr>) \<sigma>"
  let ?\<sigma>0 = "release_effect s (fst h) ?\<sigma>1"
  have f1: "frame {s} \<sigma> ?\<sigma>1" by (rule frame_update) simp_all
  have f0: "frame {s} \<sigma> ?\<sigma>0" using f1 by (rule frame_trans) (rule frame_release_effect, simp)
  have p: "parent_of ?\<sigma>1 = parent_of \<sigma>" "parent_of ?\<sigma>0 = parent_of \<sigma>" "sy_next ?\<sigma>0 = sy_next \<sigma>"
    using f1 f0 by (simp_all add: frame_def)
  have child: "parent_of \<sigma> c = Some s" "subtree_ok \<sigma> c" "linked_below \<sigma> c" "\<And>t. descends (parent_of \<sigma>) c t \<Longrightarrow> t \<notin> {s}" "s < c"
    if "snd h = CloseChild c" for c
  proof -
    have "c \<in> set (stack_children (h # hs))" using that by (cases h) simp
    then show a: "parent_of \<sigma> c = Some s" and "subtree_ok \<sigma> c" "linked_below \<sigma> c" using ch by blast+
    show "t \<notin> {s}" if "descends (parent_of \<sigma>) c t" for t using child_not_above [OF par a] that by blast
    show "s < c" using par a by (simp add: parents_older_def)
  qed
  have ready: "subtree_ok ?\<sigma>0 c" "linked_below ?\<sigma>0 c" "subtree_ok ?\<sigma>1 c" if "snd h = CloseChild c" for c
    using subtree_ok_frame [OF f0 child(2) [OF that] child(4) [OF that]]
      linked_below_frame [OF f0 child(3) [OF that] child(4) [OF that]]
      subtree_ok_frame [OF f1 child(2) [OF that] child(4) [OF that]] by blast+
  have "\<exists>r \<sigma>'. handler_exit (scope_aclose fuel tasks run) run s h ?\<sigma>1 = Some (r, \<sigma>')
     \<and> frame ({s} \<union> {t. \<exists>c \<in> set (stack_children [h]). descends (parent_of ?\<sigma>1) c t}) ?\<sigma>1 \<sigma>'
     \<and> sy_world \<sigma>' = run_all run (handler_plan (teardown_plan fuel ?\<sigma>1) h) (sy_world ?\<sigma>1)
     \<and> (\<forall>c \<in> set (stack_children [h]). subtree_ok \<sigma>' c)
     \<and> (\<exists>sc'. sy_scopes \<sigma>' s = Some sc' \<and> kept (sc\<lparr>sc_stack := hs\<rparr>) sc' \<and> sc_stack sc' = sc_stack (sc\<lparr>sc_stack := hs\<rparr>)
           \<and> sc_effects sc' = dict_pop (fx_effect_id (fst h)) (sc_effects (sc\<lparr>sc_stack := hs\<rparr>)))"
  proof (rule handler_exit_closes)
    fix c assume h: "snd h = CloseChild c"
    show "\<exists>r \<sigma>'. scope_aclose fuel tasks run c ?\<sigma>0 = Some (r, \<sigma>') \<and> closes fuel run c ?\<sigma>0 r \<sigma>'"
      using ready(1) [OF h] par n child(5) [OF h] p by (intro scope_aclose_closes) simp_all
    show "parent_of ?\<sigma>1 c = Some s \<and> subtree_ok ?\<sigma>1 c" using child(1) [OF h] ready(3) [OF h] p by simp
  qed (use par s p in simp_all)
  then have g: "frame ({s} \<union> {t. \<exists>c \<in> set (stack_children [h]). descends (parent_of \<sigma>) c t}) ?\<sigma>1 \<sigma>'"
    and ok: "\<forall>c \<in> set (stack_children [h]). subtree_ok \<sigma>' c" and s': "\<exists>sc'. sy_scopes \<sigma>' s = Some sc'"
    using step p by auto
  show "frame ({s} \<union> {t. \<exists>c \<in> set (stack_children [h]). descends (parent_of \<sigma>) c t}) \<sigma> \<sigma>'"
    using frame_mono [OF f1] g by (blast intro: frame_trans)
  show "\<exists>sc'. sy_scopes \<sigma>' s = Some sc'" by (rule s')
  have "closed_at \<sigma>' t" if c: "c \<in> set (stack_children [h])" and t: "descends (parent_of \<sigma>) c t" for c t
  proof -
    have h: "snd h = CloseChild c" using c by (cases h; cases "snd h") auto
    obtain r \<sigma>2 where r: "scope_aclose fuel tasks run c ?\<sigma>0 = Some (r, \<sigma>2)"
      "\<sigma>' = \<sigma>2 \<or> (\<exists>e. \<sigma>' = record_failure s (fx_description (fst h)) e \<sigma>2)"
      using handler_exit_child [OF step h] by blast
    have "sy_next ?\<sigma>0 \<le> c + fuel" using n child(5) [OF h] p by simp
    then have "closed_at \<sigma>2 t"
      using below r(1) ready(1,2) [OF h] par p t unfolding closes_below_def by metis
    then show ?thesis using r(2) closed_at_failure by blast
  qed
  with ok show "\<forall>c \<in> set (stack_children [h]). subtree_ok \<sigma>' c \<and> (\<forall>t. descends (parent_of \<sigma>) c t \<longrightarrow> closed_at \<sigma>' t)"
    by blast
qed

lemma unwind_closes_children:
  assumes below: "closes_below fuel tasks run"
    and "parents_older (parent_of \<sigma>)" "sy_next \<sigma> \<le> s + Suc fuel" "\<exists>sc. sy_scopes \<sigma> s = Some sc"
    and "distinct (stack_children hs)"
    and "\<forall>c \<in> set (stack_children hs). parent_of \<sigma> c = Some s \<and> subtree_ok \<sigma> c \<and> linked_below \<sigma> c"
    and "unwind (scope_aclose fuel tasks run) run s hs p \<sigma> = Some (r, \<sigma>')"
  shows "\<forall>c \<in> set (stack_children hs). \<forall>t. descends (parent_of \<sigma>) c t \<longrightarrow> closed_at \<sigma>' t"
  using assms(2-)
proof (induction hs arbitrary: \<sigma> p)
  case (Cons h hs)
  let ?\<sigma>1 = "update_scope s (\<lambda>sc. sc\<lparr>sc_stack := hs\<rparr>) \<sigma>"
  obtain sc where sc: "sy_scopes \<sigma> s = Some sc" using Cons.prems(3) by blast
  obtain q \<sigma>2 where q: "handler_exit (scope_aclose fuel tasks run) run s h ?\<sigma>1 = Some (q, \<sigma>2)"
    and u: "unwind (scope_aclose fuel tasks run) run s hs (case q of None \<Rightarrow> p | Some e \<Rightarrow> Some e) \<sigma>2 = Some (r, \<sigma>')"
    using Cons.prems(6) by (auto split: option.splits)
  note step = unwind_step [OF Cons.prems(1,2) sc Cons.prems(4,5) q below]
  let ?A = "{s} \<union> {t. \<exists>c \<in> set (stack_children [h]). descends (parent_of \<sigma>) c t}"
  have p2: "parent_of \<sigma>2 = parent_of \<sigma>" "sy_next \<sigma>2 = sy_next \<sigma>" using step(1) by (simp_all add: frame_def)
  have par: "parent_of \<sigma> c = Some s" if "c \<in> set (stack_children (h # hs))" for c
    using Cons.prems(5) that by blast
  have not_s: "t \<noteq> s" if "c \<in> set (stack_children (h # hs))" "descends (parent_of \<sigma>) c t" for c t
    using child_not_above [OF Cons.prems(1) par [OF that(1)]] that(2) by blast
  have apart: "t \<notin> ?A" if c: "c \<in> set (stack_children hs)" and t: "descends (parent_of \<sigma>) c t" for c t
  proof -
    have c': "c \<in> set (stack_children (h # hs))" using c by (simp add: stack_children_Cons [of h hs])
    have "\<not> descends (parent_of \<sigma>) d t" if d: "d \<in> set (stack_children [h])" for d
    proof -
      have "d \<in> set (stack_children (h # hs))" "d \<noteq> c"
        using d c Cons.prems(4) by (auto simp: stack_children_Cons [of h hs])
      then show ?thesis using siblings_disjoint [OF Cons.prems(1) par [OF c'] par _ t] by blast
    qed
    with not_s [OF c' t] show ?thesis by blast
  qed
  have rest: "\<forall>c \<in> set (stack_children hs). parent_of \<sigma>2 c = Some s \<and> subtree_ok \<sigma>2 c \<and> linked_below \<sigma>2 c"
  proof
    fix c assume c: "c \<in> set (stack_children hs)"
    then have c': "c \<in> set (stack_children (h # hs))" by (simp add: stack_children_Cons [of h hs])
    have "subtree_ok \<sigma> c" "linked_below \<sigma> c" using Cons.prems(5) c' by blast+
    then show "parent_of \<sigma>2 c = Some s \<and> subtree_ok \<sigma>2 c \<and> linked_below \<sigma>2 c"
      using subtree_ok_frame [OF step(1) _ apart [OF c]] linked_below_frame [OF step(1) _ apart [OF c]] par [OF c'] p2 by simp
  qed
  have "\<forall>c \<in> set (stack_children hs). \<forall>t. descends (parent_of \<sigma>2) c t \<longrightarrow> closed_at \<sigma>' t"
    by (rule Cons.IH [OF _ _ step(2) _ rest u])
       (use Cons.prems(1,2,4) p2 in \<open>simp_all add: stack_children_Cons [of h hs]\<close>)
  moreover have "closed_at \<sigma>' t" if c: "c \<in> set (stack_children [h])" and t: "descends (parent_of \<sigma>) c t" for c t
  proof -
    have c': "c \<in> set (stack_children (h # hs))" using c by (simp add: stack_children_Cons [of h hs])
    obtain tc where tc: "sy_scopes \<sigma>2 t = Some tc" "scope_ok \<sigma>2 t tc"
      using step(3) c t p2 unfolding subtree_ok_def by fastforce
    have kc: "keeps_closed {s} \<sigma>2 \<sigma>'" by (rule unwind_keeps_closed [OF aclose_keeps_closed u])
    show ?thesis by (rule closed_at_kept [OF _ kc]) (use step(3) c t tc not_s [OF c' t] in auto)
  qed
  ultimately show ?case using p2 by (simp add: stack_children_Cons [of h hs]) blast
qed simp

lemma aclose_closes_below: "closes_below fuel tasks run"
proof (induction fuel)
  case 0
  show ?case by (simp add: closes_below_def)
next
  case (Suc fuel)
  have "closed_at \<sigma>' t"
    if ok: "subtree_ok \<sigma> s" and older: "parents_older (parent_of \<sigma>)" and n: "sy_next \<sigma> \<le> s + Suc fuel"
      and l: "linked_below \<sigma> s" and run: "scope_aclose (Suc fuel) tasks run s \<sigma> = Some (r, \<sigma>')"
      and t: "descends (parent_of \<sigma>) s t" for s r t and \<sigma> \<sigma>' :: "('a, 'b) sys"
  proof -
    obtain sc where sc: "sy_scopes \<sigma> s = Some sc" "scope_ok \<sigma> s sc"
      using ok by (auto simp: subtree_ok_def dest!: spec [of _ s])
    show ?thesis
    proof (cases "sc_close_task sc")
      case (Some q)
      then have "sc_state sc = SCOPE_CLOSED" using sc(2) by (cases "sc_state sc") (auto simp: scope_ok_def)
      then have "closed_at \<sigma> s" using sc(1) by (simp add: closed_at_def)
      moreover have "\<sigma>' = \<sigma>" using run sc Some by simp
      ultimately show ?thesis using closed_down [OF t ok l] by simp
    next
      case None
      then have op: "sc_state sc = SCOPE_OPEN" using sc(2) by (cases "sc_state sc") (auto simp: scope_ok_def)
      let ?\<sigma>1 = "stop_tasks tasks s (update_scope s (\<lambda>sc. sc\<lparr>sc_state := SCOPE_CLOSING\<rparr>) \<sigma>)"
      have f1: "frame {s} \<sigma> ?\<sigma>1"
        by (rule frame_trans [OF frame_update [where g = "\<lambda>sc. sc\<lparr>sc_state := SCOPE_CLOSING\<rparr>"] frame_stop_tasks]) simp_all
      have p1: "parent_of ?\<sigma>1 = parent_of \<sigma>" "sy_next ?\<sigma>1 = sy_next \<sigma>" using f1 by (simp_all add: frame_def)
      have s1: "\<exists>sc. sy_scopes ?\<sigma>1 s = Some sc"
        using keeps_stop_tasks [of s "update_scope s (\<lambda>sc. sc\<lparr>sc_state := SCOPE_CLOSING\<rparr>) \<sigma>" tasks] sc(1)
        by (auto simp: keeps_scope_def)
      obtain r2 \<sigma>2 where u: "unwind (scope_aclose fuel tasks run) run s (sc_stack sc) None ?\<sigma>1 = Some (r2, \<sigma>2)"
        and fin: "\<sigma>' = snd (finish_close s r2 \<sigma>2)"
        using run unfolding scope_aclose_open [OF sc(1) None op, of fuel tasks run]
        by (auto simp: map_option_case split: option.splits)
      have child: "parent_of \<sigma> c = Some s" "subtree_ok \<sigma> c" "linked_below \<sigma> c"
          "\<And>t. descends (parent_of \<sigma>) c t \<Longrightarrow> t \<notin> {s}" if "parent_of \<sigma> c = Some s" for c
        using that subtree_ok_child [OF ok that] linked_below_child [OF l that] child_not_above [OF older that] by blast+
      have kids: "parent_of \<sigma> c = Some s" if "c \<in> set (stack_children (sc_stack sc))" for c
        using handler_children_ok [OF ok sc(1) that] .
      have ch1: "\<forall>c \<in> set (stack_children (sc_stack sc)). parent_of ?\<sigma>1 c = Some s \<and> subtree_ok ?\<sigma>1 c \<and> linked_below ?\<sigma>1 c"
        using subtree_ok_frame [OF f1 child(2) [OF kids] child(4) [OF kids]]
          linked_below_frame [OF f1 child(3) [OF kids] child(4) [OF kids]] kids p1 by simp
      have "distinct (stack_children (sc_stack sc))" using sc(2) by (simp add: scope_ok_def)
      then have reached: "\<forall>c \<in> set (stack_children (sc_stack sc)). \<forall>t. descends (parent_of \<sigma>) c t \<longrightarrow> closed_at \<sigma>2 t"
        using unwind_closes_children [OF Suc _ _ s1 _ ch1 u] older n p1 by simp
      have kc: "keeps_closed {} \<sigma> \<sigma>'" by (rule aclose_keeps_closed [OF run])
      consider "t = s" | c where "parent_of \<sigma> c = Some s" "descends (parent_of \<sigma>) c t"
        using subtree_split [OF t] by blast
      then show ?thesis
      proof cases
        case 1
        have "\<exists>sc'. sy_scopes \<sigma>' s = Some sc' \<and> sc_state sc' = SCOPE_CLOSED"
          using scope_aclose_closes [OF ok older n, of tasks run] run sc(1) by (auto simp: closes_def)
        with 1 show ?thesis by (simp add: closed_at_def)
      next
        case 2
        show ?thesis
        proof (cases "c \<in> set (stack_children (sc_stack sc))")
          case True
          then have "closed_at \<sigma>2 t" using reached 2 by blast
          moreover have "t \<noteq> s" using child(4) [OF 2(1,2)] by simp
          ultimately show ?thesis
            using finish_close_frame [of s "{s}" \<sigma>2 r2] fin by (auto simp: closed_at_def frame_def)
        next
          case False
          obtain cc where cc: "sy_scopes \<sigma> c = Some cc" "scope_ok \<sigma> c cc"
            using child(2) [OF 2(1)] by (auto simp: subtree_ok_def dest!: spec [of _ c])
          have "sc_parent cc = Some s" using 2(1) cc(1) by (simp add: parent_of_def)
          moreover have "\<not> hangs \<sigma> s c" using False sc(1) by (simp add: hangs_def)
          ultimately have "sc_state cc \<noteq> SCOPE_OPEN"
            using l cc(1) descends_refl unfolding linked_below_def by blast
          then have "closed_at \<sigma> c"
            using cc by (cases "sc_state cc") (auto simp: scope_ok_def closed_at_def)
          then have "closed_at \<sigma> t" by (rule closed_down [OF 2(2) child(2,3) [OF 2(1)]])
          moreover obtain tc where "sy_scopes \<sigma> t = Some tc" "scope_ok \<sigma> t tc"
            using ok t unfolding subtree_ok_def by blast
          ultimately show ?thesis using closed_at_kept [OF _ kc] by simp
        qed
      qed
    qed
  qed
  then show ?case unfolding closes_below_def by blast
qed

lemma aclose_subtree_closed:
  assumes "store_ok \<sigma>" "linked \<sigma>" "scope_aclose (sy_next \<sigma>) tasks run s \<sigma> = Some (r, \<sigma>')"
    and "descends (parent_of \<sigma>) s t"
  shows "closed_at \<sigma>' t"
proof -
  obtain sc where "sy_scopes \<sigma> s = Some sc"
    using assms(3) by (cases "sy_next \<sigma>"; cases "sy_scopes \<sigma> s") simp_all
  then have "subtree_ok \<sigma> s" using assms(1) subtree_okI by blast
  with assms aclose_closes_below [of "sy_next \<sigma>" tasks run] linked_linked_below show ?thesis
    unfolding closes_below_def store_ok_def by (metis le_add2)
qed

lemma linked_close:
  assumes ok: "store_ok \<sigma>" and l: "linked \<sigma>" and run: "scope_aclose (sy_next \<sigma>) tasks run s \<sigma> = Some (r, \<sigma>')"
  shows "linked \<sigma>'"
  unfolding linked_def
proof (intro allI impI)
  fix t tc p assume t: "sy_scopes \<sigma>' t = Some tc \<and> sc_state tc = SCOPE_OPEN \<and> sc_parent tc = Some p"
  obtain sc where sc: "sy_scopes \<sigma> s = Some sc"
    using run by (cases "sy_next \<sigma>"; cases "sy_scopes \<sigma> s") simp_all
  have f: "frame {t. descends (parent_of \<sigma>) s t} \<sigma> \<sigma>'"
    using aclose_closes [OF ok sc, of "sy_next \<sigma>" tasks run] run by (auto simp: closes_def)
  have out: "\<not> descends (parent_of \<sigma>) s t"
    using aclose_subtree_closed [OF ok l run] t by (fastforce simp: closed_at_def)
  then have t0: "sy_scopes \<sigma> t = Some tc" using f t by (simp add: frame_def)
  then have h: "hangs \<sigma> p t" using l t by (auto simp: linked_def)
  have "\<not> descends (parent_of \<sigma>) s p" using out t t0 parent_ofI descends_step by metis
  then have "sy_scopes \<sigma>' p = sy_scopes \<sigma> p" using f by (simp add: frame_def)
  with h show "hangs \<sigma>' p t" by (simp add: hangs_def)
qed

lemmas grows_ops = grows_register grows_cleanup grows_enter grows_resume grows_create_task

lemma linked_step:
  assumes "scope_step run \<sigma> \<sigma>'" "store_ok \<sigma>" "linked \<sigma>"
  shows "linked \<sigma>'"
  using assms(1)
proof cases
  case (step_child s name c)
  then show ?thesis using child_grows_linked [OF assms(2,3)] by blast
next
  case (step_init name s)
  then show ?thesis using init_grows_linked [OF assms(2,3)] by blast
next
  case (step_close tasks s e)
  then show ?thesis using linked_close [OF assms(2,3)] by blast
next
  case (step_async_begin s cm_type r)
  then have "register_effect s ''context'' (''async context '' @ cm_type) \<sigma> = (r, \<sigma>')"
    by (simp add: enter_async_begin_def)
  from linked_grows [OF assms(3) grows_register [OF this]] show ?thesis .
qed (use assms(3) in \<open>auto intro: linked_grows grows_intros dest: grows_ops\<close>)

lemma linked_reachable: "scope_reachable run \<sigma> \<Longrightarrow> linked \<sigma>"
  by (induction rule: scope_reachable.induct) (auto intro: linked_root linked_step store_ok_reachable)

section \<open>What the teardown plan contains\<close>

text \<open>Every disposer of every open scope of the subtree is in the plan of the close.\<close>

lemma teardown_plan_contains:
  assumes "descends (parent_of \<sigma>) s t" "store_ok \<sigma>" "linked \<sigma>"
    and "sy_scopes \<sigma> t = Some tc" "sc_state tc = SCOPE_OPEN" "(fx, CallCleanup f) \<in> set (sc_stack tc)" "t < s + fuel"
    and "sy_scopes \<sigma> s = Some sc"
  shows "f \<in> set (teardown_plan fuel \<sigma> s)"
proof -
  have plan_open: "set (teardown_plan (Suc n) \<sigma> u) = (\<Union>h \<in> set (sc_stack uc). set (handler_plan (teardown_plan n \<sigma>) h))"
    if "sy_scopes \<sigma> u = Some uc" "sc_state uc = SCOPE_OPEN" for n u uc
  proof -
    have "sc_close_task uc = None" using assms(2) that by (auto simp: store_ok_def scope_ok_def)
    then show ?thesis using that by simp
  qed
  have older: "parents_older (parent_of \<sigma>)" using assms(2) by (simp add: store_ok_def)
  have "\<forall>n. t < u + n \<longrightarrow> f \<in> set (teardown_plan n \<sigma> u)" if "descends (parent_of \<sigma>) s u" "descends (parent_of \<sigma>) u t"
    "\<exists>uc. sy_scopes \<sigma> u = Some uc \<and> sc_state uc = SCOPE_OPEN" for u
    using that(2) that(1,3)
  proof (induction "t - u" arbitrary: u rule: less_induct)
    case less
    obtain uc where uc: "sy_scopes \<sigma> u = Some uc" "sc_state uc = SCOPE_OPEN" using less.prems(3) by blast
    show ?case
    proof (intro allI impI)
      fix n assume n: "t < u + n"
      have le: "u \<le> t" using descends_le [OF less.prems(1) older] .
      then obtain m where m: "n = Suc m" using n by (cases n) simp_all
      show "f \<in> set (teardown_plan n \<sigma> u)"
      proof (cases "t = u")
        case True
        then have "uc = tc" using assms(4) uc by simp
        then show ?thesis unfolding m plan_open [OF uc] using assms(6) by (force simp: handler_plan_def)
      next
        case False
        then obtain c where c: "parent_of \<sigma> c = Some u" "descends (parent_of \<sigma>) c t"
          using subtree_split [OF less.prems(1)] by blast
        have cu: "u < c" using c(1) older by (simp add: parents_older_def)
        have ct: "c \<le> t" using descends_le [OF c(2) older] .
        obtain cc where cc: "sy_scopes \<sigma> c = Some cc" using c(1) parent_of_Some by blast
        have "sc_state cc \<noteq> SCOPE_CLOSED"
        proof
          assume "sc_state cc = SCOPE_CLOSED"
          then have "closed_at \<sigma> t"
            using closed_down [OF c(2) subtree_okI [OF assms(2) cc] linked_linked_below [OF assms(3)]] cc by (simp add: closed_at_def)
          then show False using assms(4,5) by (simp add: closed_at_def)
        qed
        then have open_c: "sc_state cc = SCOPE_OPEN"
          using assms(2) cc by (cases "sc_state cc") (auto simp: store_ok_def scope_ok_def)
        have "hangs \<sigma> u c" using assms(3) cc open_c c(1) by (auto simp: linked_def parent_of_def)
        then obtain q where q: "(q, CloseChild c) \<in> set (sc_stack uc)"
          using uc by (auto simp: hangs_def stack_children_iff)
        have "descends (parent_of \<sigma>) s c" using c(1) less.prems(2) by (rule descends_step)
        then have "f \<in> set (teardown_plan m \<sigma> c)"
          using less.hyps [of c] c(2) cc open_c cu ct n m by simp
        then show ?thesis unfolding m plan_open [OF uc] using q by (force simp: handler_plan_def)
      qed
    qed
  qed
  moreover have "sc_state sc \<noteq> SCOPE_CLOSED"
  proof
    assume "sc_state sc = SCOPE_CLOSED"
    then have "closed_at \<sigma> t"
      using closed_down [OF assms(1) subtree_okI [OF assms(2,8)] linked_linked_below [OF assms(3)]] assms(8)
      by (simp add: closed_at_def)
    then show False using assms(4,5) by (simp add: closed_at_def)
  qed
  then have "sc_state sc = SCOPE_OPEN"
    using assms(2,8) by (cases "sc_state sc") (auto simp: store_ok_def scope_ok_def)
  ultimately show ?thesis using assms(1,7,8) by simp
qed

end
