(* ===== verification/Ownership.thy ===== *)
theory Ownership
  imports Scope_Tree
begin

text \<open>
  The contract between scopes and the registries whose entries they own: every registry records the
  scope of an entry, and a disposer withdraws at most one entry and leaves all others alone. From
  these two laws follows, once for all registries, that no entry outlives its scope and that a close
  withdraws the entries of the subtree it closes and no other.
\<close>

section \<open>What the disposers of a subtree are\<close>

definition calls :: "'f disposer \<Rightarrow> 'f option" where
  "calls d = (case d of CallCleanup f \<Rightarrow> Some f | ExitContext f \<Rightarrow> Some f | CloseChild c \<Rightarrow> None)"

lemma teardown_plan_from:
  assumes "f \<in> set (teardown_plan n \<sigma> s)" "store_ok \<sigma>"
  shows "\<exists>t tc h. descends (parent_of \<sigma>) s t \<and> sy_scopes \<sigma> t = Some tc \<and> h \<in> set (sc_stack tc) \<and> calls (snd h) = Some f"
  using assms(1)
proof (induction n arbitrary: s)
  case (Suc n)
  then obtain sc h where sc: "sy_scopes \<sigma> s = Some sc" "h \<in> set (sc_stack sc)"
    and f: "f \<in> set (handler_plan (teardown_plan n \<sigma>) h)"
    by (cases "sy_scopes \<sigma> s") (auto split: if_splits)
  show ?case
  proof (cases "snd h")
    case (CloseChild c)
    then have "c \<in> set (stack_children (sc_stack sc))" using sc(2) by (cases h) (auto simp: stack_children_iff)
    then have "parent_of \<sigma> c = Some s" using assms(2) sc(1) by (auto simp: store_ok_def scope_ok_def)
    moreover have "f \<in> set (teardown_plan n \<sigma> c)" using f CloseChild by (simp add: handler_plan_def)
    ultimately show ?thesis using Suc.IH [of c] descends_child by meson
  next
    case (CallCleanup g)
    then have "calls (snd h) = Some f" using f by (simp add: handler_plan_def calls_def)
    then show ?thesis using sc descends_refl by metis
  next
    case (ExitContext g)
    then have "calls (snd h) = Some f" using f by (simp add: handler_plan_def calls_def)
    then show ?thesis using sc descends_refl by metis
  qed
qed simp

section \<open>Ownership\<close>

text \<open>
  Every entry belongs to an open scope that holds a cleanup withdrawing it.
\<close>

definition owned_by ::
  "('w \<Rightarrow> string \<Rightarrow> sid option) \<Rightarrow> ('f \<Rightarrow> string option) \<Rightarrow> ('f, 'w) sys \<Rightarrow> bool" where
  "owned_by owner_of withdraws \<sigma> \<longleftrightarrow> (\<forall>k s. owner_of (sy_world \<sigma>) k = Some s \<longrightarrow>
     (\<exists>sc fx f. sy_scopes \<sigma> s = Some sc \<and> sc_state sc = SCOPE_OPEN
        \<and> (fx, CallCleanup f) \<in> set (sc_stack sc) \<and> withdraws f = Some k))"

text \<open>A cleanup withdraws an entry of its own scope only.\<close>

definition private_cleanups ::
  "('w \<Rightarrow> string \<Rightarrow> sid option) \<Rightarrow> ('f \<Rightarrow> string option) \<Rightarrow> ('f, 'w) sys \<Rightarrow> bool" where
  "private_cleanups owner_of withdraws \<sigma> \<longleftrightarrow> (\<forall>s sc h f k t. sy_scopes \<sigma> s = Some sc \<and> h \<in> set (sc_stack sc)
     \<and> calls (snd h) = Some f \<and> withdraws f = Some k \<and> owner_of (sy_world \<sigma>) k = Some t \<longrightarrow> t = s)"

text \<open>No cleanup waits for the entry \<open>k\<close>: a fresh identifier.\<close>

definition unclaimed :: "('f \<Rightarrow> string option) \<Rightarrow> string \<Rightarrow> ('f, 'w) sys \<Rightarrow> bool" where
  "unclaimed withdraws k \<sigma> \<longleftrightarrow> (\<forall>s sc h f. sy_scopes \<sigma> s = Some sc \<and> h \<in> set (sc_stack sc)
     \<and> calls (snd h) = Some f \<longrightarrow> withdraws f \<noteq> Some k)"

text \<open>Every withdrawing disposer of the second store is one of the first.\<close>

definition same_withdrawals :: "('f \<Rightarrow> string option) \<Rightarrow> ('f, 'w) sys \<Rightarrow> ('f, 'w) sys \<Rightarrow> bool" where
  "same_withdrawals withdraws \<sigma> \<sigma>' \<longleftrightarrow> (\<forall>s sc' h f k. sy_scopes \<sigma>' s = Some sc' \<and> h \<in> set (sc_stack sc')
     \<and> calls (snd h) = Some f \<and> withdraws f = Some k \<longrightarrow> (\<exists>sc. sy_scopes \<sigma> s = Some sc \<and> h \<in> set (sc_stack sc)))"

definition contract ::
  "('w \<Rightarrow> string \<Rightarrow> sid option) \<Rightarrow> ('f \<Rightarrow> string option) \<Rightarrow> ('f, 'w) sys \<Rightarrow> bool" where
  "contract owner_of withdraws \<sigma> \<longleftrightarrow> owned_by owner_of withdraws \<sigma> \<and> private_cleanups owner_of withdraws \<sigma>"

lemma cleanup_shape:
  assumes "scope_cleanup s d f kind \<sigma> = (r, \<sigma>')"
  obtains (closed) e where "r = Inl e" "\<sigma>' = \<sigma>"
  | (pushed) fx sc where "r = Inr fx" "sy_scopes \<sigma> s = Some sc" "sc_state sc = SCOPE_OPEN"
      "sy_scopes \<sigma>' = (sy_scopes \<sigma>)(s \<mapsto> sc\<lparr>sc_effects := dict_set (sy_next \<sigma>) fx (sc_effects sc),
          sc_stack := (fx, f) # sc_stack sc\<rparr>)" "sy_world \<sigma>' = sy_world \<sigma>"
proof (cases "sy_scopes \<sigma> s")
  case None
  then have "r = Inl (ScopeClosedError ''unknown scope'')" "\<sigma>' = \<sigma>"
    using assms by (simp_all add: scope_cleanup_def register_effect_def)
  then show ?thesis by (rule closed)
next
  case (Some sc)
  show ?thesis
  proof (cases "sc_state sc = SCOPE_OPEN")
    case True
    then show ?thesis using assms Some pushed
      by (auto simp: scope_cleanup_def register_effect_def scope_assert_open_def Let_def push_exit_def fun_eq_iff)
  next
    case False
    then have "r = Inl (ScopeClosedError (''cannot '' @ ''register effect '' @ d))" "\<sigma>' = \<sigma>"
      using assms Some by (simp_all add: scope_cleanup_def register_effect_def scope_assert_open_def)
    then show ?thesis by (rule closed)
  qed
qed

lemma cleanup_world: "scope_cleanup s d f kind \<sigma> = (r, \<sigma>') \<Longrightarrow> sy_world \<sigma>' = sy_world \<sigma>"
  by (erule cleanup_shape) simp_all

lemma cleanup_same_withdrawals:
  assumes "scope_cleanup s d (CallCleanup f) kind \<sigma> = (r, \<sigma>')" "withdraws f = None"
  shows "same_withdrawals withdraws \<sigma> \<sigma>'"
  using assms(1)
proof (cases rule: cleanup_shape)
  case (pushed fx sc)
  then show ?thesis using assms(2) by (auto simp: same_withdrawals_def calls_def)
qed (simp add: same_withdrawals_def)

text \<open>What a registration in scope \<open>s\<close> with withdrawal \<open>f\<close> may change in a registry: nothing new, or the
  entry the withdrawal is for.\<close>

definition extends ::
  "('w \<Rightarrow> string \<Rightarrow> sid option) \<Rightarrow> ('f \<Rightarrow> string option) \<Rightarrow> ('f, 'w) sys \<Rightarrow> 'w \<Rightarrow> sid \<Rightarrow> 'f \<Rightarrow> bool" where
  "extends owner_of withdraws \<sigma> w s f \<longleftrightarrow>
     (case withdraws f of
        None \<Rightarrow> \<forall>j t. owner_of w j = Some t \<longrightarrow> owner_of (sy_world \<sigma>) j = Some t
      | Some k \<Rightarrow> owner_of w k = Some s \<and> unclaimed withdraws k \<sigma>
          \<and> (\<forall>j t. j \<noteq> k \<longrightarrow> owner_of w j = Some t \<longrightarrow> owner_of (sy_world \<sigma>) j = Some t))"

locale owned_entries =
  fixes owner_of :: "'w \<Rightarrow> string \<Rightarrow> sid option"
    and withdraws :: "'f \<Rightarrow> string option"
    and run :: "'f \<Rightarrow> 'w callback"
  assumes withdraw_removes: "withdraws f = Some k \<Longrightarrow> owner_of (snd (run f w)) k = None"
    and run_keeps_others: "withdraws f \<noteq> Some k \<Longrightarrow> owner_of (snd (run f w)) k = owner_of w k"
begin

lemma run_adds_nothing: "owner_of (snd (run f w)) k = Some s \<Longrightarrow> owner_of w k = Some s"
  by (cases "withdraws f = Some k") (simp_all add: withdraw_removes run_keeps_others)

lemma run_all_keeps_others:
  "\<forall>f \<in> set fs. withdraws f \<noteq> Some k \<Longrightarrow> owner_of (run_all run fs w) k = owner_of w k"
  by (induction fs arbitrary: w) (simp_all add: run_keeps_others)

lemma run_all_adds_nothing: "owner_of (run_all run fs w) k = Some s \<Longrightarrow> owner_of w k = Some s"
  by (induction fs arbitrary: w) (auto dest: run_adds_nothing)

lemma run_all_withdraws:
  assumes "f \<in> set fs" "withdraws f = Some k"
  shows "owner_of (run_all run fs w) k = None"
proof -
  obtain as bs where fs: "fs = as @ f # bs" using assms(1) by (auto dest: split_list)
  have "owner_of (snd (run f (run_all run as w))) k = None" by (rule withdraw_removes [OF assms(2)])
  then have "owner_of (run_all run bs (snd (run f (run_all run as w)))) k = None"
    using run_all_adds_nothing by (metis option.exhaust)
  then show ?thesis by (simp add: fs)
qed

text \<open>Operations that only add scopes or stack entries and no registry entry keep the contract.\<close>

lemma owned_grows:
  assumes "owned_by owner_of withdraws \<sigma>" "grows \<sigma> \<sigma>'"
    and "\<And>k s. owner_of (sy_world \<sigma>') k = Some s \<Longrightarrow> owner_of (sy_world \<sigma>) k = Some s"
  shows "owned_by owner_of withdraws \<sigma>'"
  unfolding owned_by_def
proof (intro allI impI)
  fix k s assume "owner_of (sy_world \<sigma>') k = Some s"
  then obtain sc fx f where "sy_scopes \<sigma> s = Some sc" "sc_state sc = SCOPE_OPEN"
    "(fx, CallCleanup f) \<in> set (sc_stack sc)" "withdraws f = Some k"
    using assms(1,3) unfolding owned_by_def by blast
  then show "\<exists>sc fx f. sy_scopes \<sigma>' s = Some sc \<and> sc_state sc = SCOPE_OPEN
      \<and> (fx, CallCleanup f) \<in> set (sc_stack sc) \<and> withdraws f = Some k"
    using assms(2) unfolding grows_def by (metis subsetD)
qed

text \<open>A registration: the entry appears and its withdrawal goes onto the scope's stack.\<close>

lemma owned_register:
  assumes "owned_by owner_of withdraws \<sigma>" "scope_cleanup s d (CallCleanup f) kind (\<sigma>\<lparr>sy_world := w\<rparr>) = (Inr fx, \<sigma>')"
    and "withdraws f = Some k" "owner_of w k = Some s"
    and "\<And>j t. j \<noteq> k \<Longrightarrow> owner_of w j = Some t \<Longrightarrow> owner_of (sy_world \<sigma>) j = Some t"
  shows "owned_by owner_of withdraws \<sigma>'"
  unfolding owned_by_def
proof (intro allI impI)
  fix j t assume j: "owner_of (sy_world \<sigma>') j = Some t"
  obtain \<sigma>1 where r: "register_effect s kind d (\<sigma>\<lparr>sy_world := w\<rparr>) = (Inr fx, \<sigma>1)" "\<sigma>' = push_exit s (fx, CallCleanup f) \<sigma>1"
    using assms(2) by (auto simp: scope_cleanup_def split: prod.splits sum.splits)
  obtain sc where sc: "sy_scopes \<sigma> s = Some sc" "sc_state sc = SCOPE_OPEN"
    and s1: "sy_scopes \<sigma>1 s = Some (sc\<lparr>sc_effects := dict_set (sy_next \<sigma>) fx (sc_effects sc)\<rparr>)"
    and w1: "sy_world \<sigma>1 = w"
    using r(1) by (auto simp: register_effect_def scope_assert_open_def Let_def split: option.splits if_splits)
  have w': "owner_of w j = Some t" using j r(2) w1 by (simp add: push_exit_def)
  show "\<exists>sc fx f. sy_scopes \<sigma>' t = Some sc \<and> sc_state sc = SCOPE_OPEN
      \<and> (fx, CallCleanup f) \<in> set (sc_stack sc) \<and> withdraws f = Some j"
  proof (cases "j = k")
    case True
    then have "t = s" using w' assms(4) by simp
    with True show ?thesis using r(2) s1 sc(2) assms(3) by (auto simp: push_exit_def)
  next
    case False
    then have "owner_of (sy_world \<sigma>) j = Some t" using assms(5) w' by blast
    then obtain tc gx g where "sy_scopes \<sigma> t = Some tc" "sc_state tc = SCOPE_OPEN"
      "(gx, CallCleanup g) \<in> set (sc_stack tc)" "withdraws g = Some j"
      using assms(1) unfolding owned_by_def by blast
    moreover have "grows \<sigma> \<sigma>'" using grows_cleanup(1) [OF assms(2)] by simp
    ultimately show ?thesis unfolding grows_def by (metis subsetD)
  qed
qed

text \<open>A close withdraws everything the scopes of the subtree own, and adds nothing.\<close>

lemma close_withdraws:
  assumes "store_ok \<sigma>" "linked \<sigma>" "owned_by owner_of withdraws \<sigma>"
    and "scope_aclose (sy_next \<sigma>) tasks run s \<sigma> = Some (r, \<sigma>')" "owner_of (sy_world \<sigma>') k = Some t"
  shows "owner_of (sy_world \<sigma>) k = Some t \<and> \<not> descends (parent_of \<sigma>) s t"
proof -
  obtain sc where sc: "sy_scopes \<sigma> s = Some sc"
    using assms(4) by (cases "sy_next \<sigma>"; cases "sy_scopes \<sigma> s") simp_all
  have w: "sy_world \<sigma>' = run_all run (teardown_plan (sy_next \<sigma>) \<sigma> s) (sy_world \<sigma>)"
    using aclose_closes [OF assms(1) sc, of "sy_next \<sigma>" tasks run] assms(4) by (auto simp: closes_def)
  have before: "owner_of (sy_world \<sigma>) k = Some t"
    using assms(5) unfolding w by (rule run_all_adds_nothing)
  moreover have "\<not> descends (parent_of \<sigma>) s t"
  proof
    assume d: "descends (parent_of \<sigma>) s t"
    obtain tc fx f where tc: "sy_scopes \<sigma> t = Some tc" "sc_state tc = SCOPE_OPEN"
      "(fx, CallCleanup f) \<in> set (sc_stack tc)" "withdraws f = Some k"
      using assms(3) before unfolding owned_by_def by blast
    have "t < sy_next \<sigma>" using assms(1) tc(1) unfolding store_ok_def by blast
    then have "t < s + sy_next \<sigma>" by simp
    then have "f \<in> set (teardown_plan (sy_next \<sigma>) \<sigma> s)"
      using teardown_plan_contains [OF d assms(1,2) tc(1-3) _ sc] by simp
    then show False using run_all_withdraws tc(4) assms(5) w by simp
  qed
  ultimately show ?thesis by blast
qed

lemma owned_close:
  assumes "store_ok \<sigma>" "linked \<sigma>" "owned_by owner_of withdraws \<sigma>"
    and run: "scope_aclose (sy_next \<sigma>) tasks run s \<sigma> = Some (r, \<sigma>')"
  shows "owned_by owner_of withdraws \<sigma>'"
  unfolding owned_by_def
proof (intro allI impI)
  fix k t assume k: "owner_of (sy_world \<sigma>') k = Some t"
  note kept = close_withdraws [OF assms k]
  then obtain tc fx f where tc: "sy_scopes \<sigma> t = Some tc" "sc_state tc = SCOPE_OPEN"
    "(fx, CallCleanup f) \<in> set (sc_stack tc)" "withdraws f = Some k"
    using assms(3) unfolding owned_by_def by blast
  obtain sc where sc: "sy_scopes \<sigma> s = Some sc"
    using run by (cases "sy_next \<sigma>"; cases "sy_scopes \<sigma> s") simp_all
  have "sy_scopes \<sigma>' t = sy_scopes \<sigma> t"
    using aclose_closes [OF assms(1) sc, of "sy_next \<sigma>" tasks run] run kept by (auto simp: closes_def frame_def)
  with tc show "\<exists>sc fx f. sy_scopes \<sigma>' t = Some sc \<and> sc_state sc = SCOPE_OPEN
      \<and> (fx, CallCleanup f) \<in> set (sc_stack sc) \<and> withdraws f = Some k" by auto
qed

text \<open>With private cleanups a close withdraws exactly the entries of the subtree.\<close>

lemma close_withdraws_exactly:
  assumes "store_ok \<sigma>" "linked \<sigma>" "owned_by owner_of withdraws \<sigma>" "private_cleanups owner_of withdraws \<sigma>"
    and run: "scope_aclose (sy_next \<sigma>) tasks run s \<sigma> = Some (r, \<sigma>')"
  shows "owner_of (sy_world \<sigma>') k = Some t \<longleftrightarrow> owner_of (sy_world \<sigma>) k = Some t \<and> \<not> descends (parent_of \<sigma>) s t"
proof
  assume "owner_of (sy_world \<sigma>) k = Some t \<and> \<not> descends (parent_of \<sigma>) s t"
  then have k: "owner_of (sy_world \<sigma>) k = Some t" "\<not> descends (parent_of \<sigma>) s t" by simp_all
  obtain sc where sc: "sy_scopes \<sigma> s = Some sc"
    using run by (cases "sy_next \<sigma>"; cases "sy_scopes \<sigma> s") simp_all
  have w: "sy_world \<sigma>' = run_all run (teardown_plan (sy_next \<sigma>) \<sigma> s) (sy_world \<sigma>)"
    using aclose_closes [OF assms(1) sc, of "sy_next \<sigma>" tasks run] run by (auto simp: closes_def)
  have "\<forall>f \<in> set (teardown_plan (sy_next \<sigma>) \<sigma> s). withdraws f \<noteq> Some k"
    using teardown_plan_from [OF _ assms(1)] assms(4) k unfolding private_cleanups_def by metis
  then show "owner_of (sy_world \<sigma>') k = Some t" using k(1) w run_all_keeps_others by simp
qed (use close_withdraws [OF assms(1-3) run] in blast)

lemma private_fewer:
  assumes "private_cleanups owner_of withdraws \<sigma>" "same_withdrawals withdraws \<sigma> \<sigma>'"
    and "\<And>k s. owner_of (sy_world \<sigma>') k = Some s \<Longrightarrow> owner_of (sy_world \<sigma>) k = Some s"
  shows "private_cleanups owner_of withdraws \<sigma>'"
  using assms unfolding private_cleanups_def same_withdrawals_def by metis

lemma close_same_withdrawals:
  assumes "store_ok \<sigma>" "linked \<sigma>" and run: "scope_aclose (sy_next \<sigma>) tasks run s \<sigma> = Some (r, \<sigma>')"
  shows "same_withdrawals withdraws \<sigma> \<sigma>'"
  unfolding same_withdrawals_def
proof (intro allI impI)
  fix t tc' h f k
  assume a: "sy_scopes \<sigma>' t = Some tc' \<and> h \<in> set (sc_stack tc') \<and> calls (snd h) = Some f \<and> withdraws f = Some k"
  obtain sc where sc: "sy_scopes \<sigma> s = Some sc"
    using run by (cases "sy_next \<sigma>"; cases "sy_scopes \<sigma> s") simp_all
  have c: "closes (sy_next \<sigma>) run s \<sigma> r \<sigma>'"
    using aclose_closes [OF assms(1) sc, of "sy_next \<sigma>" tasks run] run by auto
  have "store_ok \<sigma>'" by (rule store_ok_closes [OF assms(1) c])
  then have "\<not> closed_at \<sigma>' t" using a by (auto simp: closed_at_def store_ok_def scope_ok_def)
  then have "\<not> descends (parent_of \<sigma>) s t" using aclose_subtree_closed [OF assms] by blast
  then have "sy_scopes \<sigma>' t = sy_scopes \<sigma> t" using c by (simp add: closes_def frame_def)
  then show "\<exists>tc. sy_scopes \<sigma> t = Some tc \<and> h \<in> set (sc_stack tc)" using a by metis
qed

lemma private_close:
  assumes "store_ok \<sigma>" "linked \<sigma>" "owned_by owner_of withdraws \<sigma>" "private_cleanups owner_of withdraws \<sigma>"
    and run: "scope_aclose (sy_next \<sigma>) tasks run s \<sigma> = Some (r, \<sigma>')"
  shows "private_cleanups owner_of withdraws \<sigma>'"
  using private_fewer [OF assms(4) close_same_withdrawals [OF assms(1,2) run]] close_withdraws [OF assms(1-3) run] by blast

lemma private_register:
  assumes "private_cleanups owner_of withdraws \<sigma>" "scope_cleanup s d (CallCleanup f) kind (\<sigma>\<lparr>sy_world := w\<rparr>) = (Inr fx, \<sigma>')"
    and "withdraws f = Some k" "owner_of w k = Some s" "unclaimed withdraws k \<sigma>"
    and "\<And>j t. j \<noteq> k \<Longrightarrow> owner_of w j = Some t \<Longrightarrow> owner_of (sy_world \<sigma>) j = Some t"
  shows "private_cleanups owner_of withdraws \<sigma>'"
  unfolding private_cleanups_def
proof (intro allI impI)
  fix u uc h g j t
  assume a: "sy_scopes \<sigma>' u = Some uc \<and> h \<in> set (sc_stack uc) \<and> calls (snd h) = Some g
    \<and> withdraws g = Some j \<and> owner_of (sy_world \<sigma>') j = Some t"
  obtain \<sigma>1 where r: "register_effect s kind d (\<sigma>\<lparr>sy_world := w\<rparr>) = (Inr fx, \<sigma>1)" "\<sigma>' = push_exit s (fx, CallCleanup f) \<sigma>1"
    using assms(2) by (auto simp: scope_cleanup_def split: prod.splits sum.splits)
  obtain sc where sc: "sy_scopes \<sigma> s = Some sc"
    and s1: "sy_scopes \<sigma>1 = (sy_scopes \<sigma>)(s \<mapsto> sc\<lparr>sc_effects := dict_set (sy_next \<sigma>) fx (sc_effects sc)\<rparr>)"
    and w1: "sy_world \<sigma>1 = w"
    using r(1) by (auto simp: register_effect_def scope_assert_open_def Let_def split: option.splits if_splits)
  have w': "owner_of w j = Some t" using a r(2) w1 by (simp add: push_exit_def)
  have h: "u = s \<and> h = (fx, CallCleanup f) \<or> (\<exists>vc. sy_scopes \<sigma> u = Some vc \<and> h \<in> set (sc_stack vc))"
    using a r(2) s1 sc by (auto simp: push_exit_def split: if_splits)
  show "t = u"
  proof (cases "j = k")
    case True
    then have "u = s" using h a assms(5) unfolding unclaimed_def by blast
    then show ?thesis using True w' assms(4) by simp
  next
    case False
    then have "owner_of (sy_world \<sigma>) j = Some t" using assms(6) w' by blast
    moreover have "g = f \<and> j = k" if "h = (fx, CallCleanup f)" using a that assms(3) by (auto simp: calls_def)
    ultimately show ?thesis using h a assms(1) False unfolding private_cleanups_def by metis
  qed
qed

lemma owned_scope_step:
  assumes "scope_step run \<sigma> \<sigma>'" "store_ok \<sigma>" "linked \<sigma>" "owned_by owner_of withdraws \<sigma>"
    and "\<And>k s. owner_of (sy_world \<sigma>') k = Some s \<Longrightarrow> owner_of (sy_world \<sigma>) k = Some s"
  shows "owned_by owner_of withdraws \<sigma>'"
  using assms(1)
proof cases
  case (step_child s name c)
  then show ?thesis using child_grows_linked [OF assms(2,3)] owned_grows [OF assms(4) _ assms(5)] by blast
next
  case (step_init name s)
  then show ?thesis using init_grows_linked [OF assms(2,3)] owned_grows [OF assms(4) _ assms(5)] by blast
next
  case (step_close tasks s e)
  then show ?thesis using owned_close [OF assms(2-4)] by blast
next
  case (step_async_begin s cm_type r)
  then have "register_effect s ''context'' (''async context '' @ cm_type) \<sigma> = (r, \<sigma>')"
    by (simp add: enter_async_begin_def)
  from owned_grows [OF assms(4) grows_register(1) [OF this] assms(5)] show ?thesis .
qed (use owned_grows [OF assms(4) _ assms(5)] in \<open>auto intro: grows_intros dest: grows_ops\<close>)

section \<open>The contract\<close>

text \<open>Entries have an open owner that will withdraw them, and no scope withdraws another's entry.\<close>

lemma contract_close:
  assumes "store_ok \<sigma>" "linked \<sigma>" "contract owner_of withdraws \<sigma>"
    and "scope_aclose (sy_next \<sigma>) tasks run s \<sigma> = Some (r, \<sigma>')"
  shows "contract owner_of withdraws \<sigma>'"
  using assms owned_close private_close unfolding contract_def by blast

lemma contract_fewer:
  assumes "contract owner_of withdraws \<sigma>" "grows \<sigma> \<sigma>'" "same_withdrawals withdraws \<sigma> \<sigma>'"
    and "\<And>k s. owner_of (sy_world \<sigma>') k = Some s \<Longrightarrow> owner_of (sy_world \<sigma>) k = Some s"
  shows "contract owner_of withdraws \<sigma>'"
  using assms owned_grows private_fewer unfolding contract_def by blast

lemma contract_other:
  assumes "contract owner_of withdraws \<sigma>" "scope_cleanup s d (CallCleanup f) kind (\<sigma>\<lparr>sy_world := w\<rparr>) = (r, \<sigma>')"
    and "withdraws f = None" "\<And>k s. owner_of w k = Some s \<Longrightarrow> owner_of (sy_world \<sigma>) k = Some s"
  shows "contract owner_of withdraws \<sigma>'"
proof (rule contract_fewer [OF assms(1)])
  show "grows \<sigma> \<sigma>'" using grows_cleanup(1) [OF assms(2)] by simp
  show "same_withdrawals withdraws \<sigma> \<sigma>'"
    using cleanup_same_withdrawals [OF assms(2), of withdraws] assms(3) by (simp add: same_withdrawals_def)
  show "owner_of (sy_world \<sigma>') k = Some s \<Longrightarrow> owner_of (sy_world \<sigma>) k = Some s" for k s
    using assms(4) cleanup_world [OF assms(2)] by simp
qed

lemma contract_register:
  assumes "contract owner_of withdraws \<sigma>" "scope_cleanup s d (CallCleanup f) kind (\<sigma>\<lparr>sy_world := w\<rparr>) = (Inr fx, \<sigma>')"
    and "withdraws f = Some k" "owner_of w k = Some s" "unclaimed withdraws k \<sigma>"
    and "\<And>j t. j \<noteq> k \<Longrightarrow> owner_of w j = Some t \<Longrightarrow> owner_of (sy_world \<sigma>) j = Some t"
  shows "contract owner_of withdraws \<sigma>'"
  using assms(1) owned_register [OF _ assms(2-4,6)] private_register [OF _ assms(2-6)] unfolding contract_def by blast

lemma contract_extends:
  assumes "contract owner_of withdraws \<sigma>" "scope_cleanup s d (CallCleanup f) kind (\<sigma>\<lparr>sy_world := w\<rparr>) = (Inr fx, \<sigma>')"
    and "extends owner_of withdraws \<sigma> w s f"
  shows "contract owner_of withdraws \<sigma>'"
proof (cases "withdraws f")
  case None
  then show ?thesis using assms(3) by (intro contract_other [OF assms(1,2)]) (simp_all add: extends_def)
next
  case (Some k)
  with assms(3) have e: "owner_of w k = Some s" "unclaimed withdraws k \<sigma>"
    "\<And>j t. j \<noteq> k \<Longrightarrow> owner_of w j = Some t \<Longrightarrow> owner_of (sy_world \<sigma>) j = Some t"
    by (simp_all add: extends_def)
  show ?thesis by (rule contract_register [OF assms(1,2) Some e])
qed

end

end
