(* ===== verification/Values.thy ===== *)
theory Values
  imports Complex_Main Errors
begin

text \<open>
  Dynamic values: the Python values that configuration, hook payloads and metadata are made of, with
  truth testing, and the deep freeze of \<open>core/collections.py\<close>. Floats are rationals, the two
  infinities and NaN: rounding is not modelled. A \<open>PObject\<close> is anything else, known by identity.
  Aliasing is not modelled, so freezing is visible in the constructors: the mutable containers
  \<open>PDict\<close>, \<open>PList\<close> and \<open>PSet\<close> become \<open>PFrozenDict\<close>, \<open>PTuple\<close> and
  \<open>PFrozenSet\<close>.
\<close>

section \<open>Numbers\<close>

datatype pfloat = Fin rat | PosInf | NegInf | NotANumber

text \<open>What \<open>isinstance(x, (int, float))\<close> tells apart; Python's \<open>bool\<close> is an \<open>int\<close>.\<close>

datatype pnumber = NBool bool | NInt int | NFloat pfloat | NOther

section \<open>Values\<close>

datatype pkey = KText string | KInt int | KBool bool | KNone

datatype pvalue =
    PNone
  | PBool bool
  | PInt int
  | PFloat pfloat
  | PText string
  | PList "pvalue list"
  | PTuple "pvalue list"
  | PSet "pvalue list"
  | PFrozenSet "pvalue list"
  | PDict "(pkey \<times> pvalue) list"
  | PFrozenDict "(string \<times> pvalue) list"
  | PObject nat

type_synonym payload = "(string, pvalue) dict"

definition show_int :: "int \<Rightarrow> string" where
  "show_int i = (if i < 0 then ''-'' @ show_nat (nat (- i)) else show_nat (nat i))"

text \<open>\<open>str(key)\<close>.\<close>

definition key_text :: "pkey \<Rightarrow> string" where
  "key_text k = (case k of KText s \<Rightarrow> s | KInt i \<Rightarrow> show_int i
     | KBool b \<Rightarrow> (if b then ''True'' else ''False'') | KNone \<Rightarrow> ''None'')"

text \<open>\<open>bool(value)\<close>.\<close>

fun truthy :: "pvalue \<Rightarrow> bool" where
  "truthy PNone = False"
| "truthy (PBool b) = b"
| "truthy (PInt i) = (i \<noteq> 0)"
| "truthy (PFloat f) = (f \<noteq> Fin 0)"
| "truthy (PText s) = (s \<noteq> [])"
| "truthy (PList vs) = (vs \<noteq> [])"
| "truthy (PTuple vs) = (vs \<noteq> [])"
| "truthy (PSet vs) = (vs \<noteq> [])"
| "truthy (PFrozenSet vs) = (vs \<noteq> [])"
| "truthy (PDict kvs) = (kvs \<noteq> [])"
| "truthy (PFrozenDict kvs) = (kvs \<noteq> [])"
| "truthy (PObject n) = True"

section \<open>Freezing\<close>

fun freeze :: "pvalue \<Rightarrow> pvalue" where
  "freeze (PDict kvs) = PFrozenDict (fold (\<lambda>(k, v) d. dict_set k v d) (map (\<lambda>(k, v). (key_text k, freeze v)) kvs) [])"
| "freeze (PFrozenDict kvs) = PFrozenDict (fold (\<lambda>(k, v) d. dict_set k v d) (map (\<lambda>(k, v). (k, freeze v)) kvs) [])"
| "freeze (PList vs) = PTuple (map freeze vs)"
| "freeze (PTuple vs) = PTuple (map freeze vs)"
| "freeze (PSet vs) = PFrozenSet (map freeze vs)"
| "freeze (PFrozenSet vs) = PFrozenSet (map freeze vs)"
| "freeze v = v"

text \<open>
  \<open>frozen_mapping\<close> of a mapping with text keys, as metadata and payloads have; \<open>None\<close> and
  the empty mapping give the empty mapping.
\<close>

definition frozen_mapping :: "payload \<Rightarrow> payload" where
  "frozen_mapping d = fold (\<lambda>(k, v) d. dict_set k v d) (map (\<lambda>(k, v). (k, freeze v)) d) []"

text \<open>No mutable container at any depth, and no repeated key.\<close>

fun is_frozen :: "pvalue \<Rightarrow> bool" where
  "is_frozen (PFrozenDict kvs) = (distinct (map fst kvs) \<and> (\<forall>(k, v) \<in> set kvs. is_frozen v))"
| "is_frozen (PTuple vs) = (\<forall>v \<in> set vs. is_frozen v)"
| "is_frozen (PFrozenSet vs) = (\<forall>v \<in> set vs. is_frozen v)"
| "is_frozen (PDict kvs) = False"
| "is_frozen (PList vs) = False"
| "is_frozen (PSet vs) = False"
| "is_frozen v = True"

lemma wf_dict_fold_set: "wf_dict d \<Longrightarrow> wf_dict (fold (\<lambda>(k, v) d. dict_set k v d) kvs d)"
  by (induction kvs arbitrary: d) auto

lemma set_fold_set:
  "wf_dict d \<Longrightarrow> set (fold (\<lambda>(k, v) d. dict_set k v d) kvs d) \<subseteq> set kvs \<union> set d"
proof (induction kvs arbitrary: d)
  case (Cons p kvs)
  obtain k v where p: "p = (k, v)" by (cases p)
  have "set (fold (\<lambda>(k, v) d. dict_set k v d) kvs (dict_set k v d)) \<subseteq> set kvs \<union> set (dict_set k v d)"
    using Cons by simp
  then show ?case using set_dict_set [OF Cons.prems, of k v] p by auto
qed simp

lemma fold_set_fresh:
  assumes "distinct (dict_keys d @ dict_keys kvs)"
  shows "fold (\<lambda>(k, v) d. dict_set k v d) kvs d = d @ kvs"
  using assms
proof (induction kvs arbitrary: d)
  case (Cons p kvs)
  obtain k v where p: "p = (k, v)" by (cases p)
  have "k \<notin> fst ` set d" using Cons.prems p by auto
  then have "dict_set k v d = d @ [(k, v)]" by (intro dict_set_fresh) (simp add: map_of_eq_None_iff)
  moreover have "distinct (dict_keys (d @ [(k, v)]) @ dict_keys kvs)" using Cons.prems p by auto
  ultimately show ?case using Cons.IH [of "d @ [(k, v)]"] p by simp
qed simp

lemma is_frozen_freeze: "is_frozen (freeze v)"
proof (induction v)
  case (PDict kvs)
  have w: "wf_dict (fold (\<lambda>(k, v) d. dict_set k v d) (map (\<lambda>(k, v). (key_text k, freeze v)) kvs) [])"
    by (intro wf_dict_fold_set) simp
  have "set (fold (\<lambda>(k, v) d. dict_set k v d) (map (\<lambda>(k, v). (key_text k, freeze v)) kvs) [])
      \<subseteq> (\<lambda>(k, v). (key_text k, freeze v)) ` set kvs"
    using set_fold_set [OF wf_dict_Nil, of "map (\<lambda>(k, v). (key_text k, freeze v)) kvs"] by simp
  with w PDict show ?case by (fastforce simp: wf_dict_def)
next
  case (PFrozenDict kvs)
  have w: "wf_dict (fold (\<lambda>(k, v) d. dict_set k v d) (map (\<lambda>(k, v). (k, freeze v)) kvs) [])"
    by (intro wf_dict_fold_set) simp
  have "set (fold (\<lambda>(k, v) d. dict_set k v d) (map (\<lambda>(k, v). (k, freeze v)) kvs) [])
      \<subseteq> (\<lambda>(k, v). (k, freeze v)) ` set kvs"
    using set_fold_set [OF wf_dict_Nil, of "map (\<lambda>(k, v). (k, freeze v)) kvs"] by simp
  with w PFrozenDict show ?case by (fastforce simp: wf_dict_def)
qed simp_all

lemma freeze_frozen: "is_frozen v \<Longrightarrow> freeze v = v"
proof (induction v)
  case (PFrozenDict kvs)
  then have "map (\<lambda>(k, v). (k, freeze v)) kvs = kvs" by (intro map_idI) fastforce
  then show ?case using PFrozenDict.prems by (simp add: fold_set_fresh)
qed (auto intro: map_idI)

lemma frozen_mapping_frozen:
  assumes "wf_dict d" "\<forall>(k, v) \<in> set d. is_frozen v"
  shows "frozen_mapping d = d"
proof -
  have "map (\<lambda>(k, v). (k, freeze v)) d = d" using assms(2) by (intro map_idI) (auto simp: freeze_frozen)
  then show ?thesis using assms(1) by (simp add: frozen_mapping_def fold_set_fresh wf_dict_def)
qed

lemma frozen_mapping_values: "(k, v) \<in> set (frozen_mapping d) \<Longrightarrow> is_frozen v"
  using set_fold_set [OF wf_dict_Nil, of "map (\<lambda>(k, v). (k, freeze v)) d"] is_frozen_freeze
  by (fastforce simp: frozen_mapping_def)

lemma wf_frozen_mapping: "wf_dict (frozen_mapping d)"
  unfolding frozen_mapping_def by (intro wf_dict_fold_set) simp

section \<open>Equality\<close>

text \<open>
  \<open>==\<close> on values: numbers (and booleans) compare by value, mappings and sets without order, and a
  frozen mapping equals a mapping with the same keys. Two NaN values are taken to be one object.
\<close>

definition number_of :: "pvalue \<Rightarrow> pfloat option" where
  "number_of v = (case v of PBool b \<Rightarrow> Some (Fin (if b then 1 else 0)) | PInt i \<Rightarrow> Some (Fin (of_int i))
     | PFloat f \<Rightarrow> Some f | _ \<Rightarrow> None)"

definition key_class :: "pkey \<Rightarrow> pkey" where
  "key_class k = (case k of KBool b \<Rightarrow> KInt (if b then 1 else 0) | _ \<Rightarrow> k)"

definition mapping_items :: "pvalue \<Rightarrow> (pkey \<times> pvalue) list option" where
  "mapping_items v = (case v of PDict d \<Rightarrow> Some (map (\<lambda>(k, w). (key_class k, w)) d)
     | PFrozenDict d \<Rightarrow> Some (map (\<lambda>(k, w). (KText k, w)) d) | _ \<Rightarrow> None)"

definition set_items :: "pvalue \<Rightarrow> pvalue list option" where
  "set_items v = (case v of PSet xs \<Rightarrow> Some xs | PFrozenSet xs \<Rightarrow> Some xs | _ \<Rightarrow> None)"

lemma size_mapping_items:
  assumes "mapping_items v = Some d" "(k, w) \<in> set d"
  shows "size w < size v"
proof -
  have bound: "size w \<le> size_list (size_prod (\<lambda>_. 0) size) kvs" if "(t, w) \<in> set kvs" for t and kvs :: "('k \<times> pvalue) list"
    using that by (intro size_list_estimation' [of "(t, w)"]) simp_all
  show ?thesis
  proof (cases v)
    case (PDict kvs)
    then obtain t where "(t, w) \<in> set kvs" using assms by (auto simp: mapping_items_def)
    then show ?thesis using bound PDict by (simp add: less_Suc_eq_le)
  next
    case (PFrozenDict kvs)
    then obtain t where "(t, w) \<in> set kvs" using assms by (auto simp: mapping_items_def)
    then show ?thesis using bound PFrozenDict by (simp add: less_Suc_eq_le)
  qed (use assms in \<open>simp_all add: mapping_items_def\<close>)
qed

lemma size_set_items: "set_items v = Some xs \<Longrightarrow> x \<in> set xs \<Longrightarrow> size x < size v"
  by (cases v) (auto simp: set_items_def less_Suc_eq_le intro: size_list_estimation')

lemma size_zip: "(x, y) \<in> set (zip xs ys) \<Longrightarrow> size x < Suc (size_list size (xs :: pvalue list))"
  by (auto simp: less_Suc_eq_le dest: set_zip_leftD intro: size_list_estimation')

function py_eq :: "pvalue \<Rightarrow> pvalue \<Rightarrow> bool" where
  "py_eq v w =
     (case mapping_items v of
        Some d \<Rightarrow>
          (case mapping_items w of
             None \<Rightarrow> False
           | Some e \<Rightarrow> length d = length e
               \<and> list_all (\<lambda>(k, x). case map_of e k of None \<Rightarrow> False | Some y \<Rightarrow> py_eq x y) d)
      | None \<Rightarrow>
          (case set_items v of
             Some xs \<Rightarrow>
               (case set_items w of
                  None \<Rightarrow> False
                | Some ys \<Rightarrow> length xs = length ys \<and> list_all (\<lambda>x. list_ex (\<lambda>y. py_eq x y) ys) xs)
           | None \<Rightarrow>
               (case (v, w) of
                  (PList xs, PList ys) \<Rightarrow> length xs = length ys \<and> list_all (\<lambda>(x, y). py_eq x y) (zip xs ys)
                | (PTuple xs, PTuple ys) \<Rightarrow> length xs = length ys \<and> list_all (\<lambda>(x, y). py_eq x y) (zip xs ys)
                | (PText s, PText t) \<Rightarrow> s = t
                | (PNone, PNone) \<Rightarrow> True
                | (PObject a, PObject b) \<Rightarrow> a = b
                | _ \<Rightarrow> number_of v \<noteq> None \<and> number_of v = number_of w)))"
  by pat_completeness auto
termination
  by (relation "measure (\<lambda>(v, w). size v)")
     (auto dest: size_mapping_items size_set_items size_zip)

declare py_eq.simps [simp del]

text \<open>Equality of two mappings with text keys.\<close>

definition payload_eq :: "payload \<Rightarrow> payload \<Rightarrow> bool" where
  "payload_eq d e \<longleftrightarrow> py_eq (PFrozenDict d) (PFrozenDict e)"

end
