(* ===== verification/Hooks.thy ===== *)
theory Hooks
  imports Values
begin

text \<open>
  Hook events, registrations, the hook registry and its snapshots (\<open>hooks/types.py\<close>,
  \<open>hooks/registry.py\<close>). A handler is user code: an argument \<open>invoke\<close> maps a handler and
  the payload it receives to what it returns or raises, and to the world it leaves behind. The
  scoped half of a registration (open check and cleanup) is in theory \<open>World\<close>.
\<close>

section \<open>Events, modes and registrations\<close>

datatype hook_event =
    PLUGIN_MOUNTING | PLUGIN_MOUNTED | PLUGIN_UNMOUNTING | PLUGIN_UNMOUNTED
  | BEFORE_AGENT_RUN | AFTER_AGENT_RUN | AGENT_ERROR
  | BEFORE_TOOL_EXECUTE | AFTER_TOOL_EXECUTE | TOOL_ERROR
  | GENERATION_PUBLISHED | GENERATION_DRAINING | POLICY_DECISION

definition event_value :: "hook_event \<Rightarrow> string" where
  "event_value e = (case e of
     PLUGIN_MOUNTING \<Rightarrow> ''plugin_mounting'' | PLUGIN_MOUNTED \<Rightarrow> ''plugin_mounted''
   | PLUGIN_UNMOUNTING \<Rightarrow> ''plugin_unmounting'' | PLUGIN_UNMOUNTED \<Rightarrow> ''plugin_unmounted''
   | BEFORE_AGENT_RUN \<Rightarrow> ''before_agent_run'' | AFTER_AGENT_RUN \<Rightarrow> ''after_agent_run''
   | AGENT_ERROR \<Rightarrow> ''agent_error'' | BEFORE_TOOL_EXECUTE \<Rightarrow> ''before_tool_execute''
   | AFTER_TOOL_EXECUTE \<Rightarrow> ''after_tool_execute'' | TOOL_ERROR \<Rightarrow> ''tool_error''
   | GENERATION_PUBLISHED \<Rightarrow> ''generation_published'' | GENERATION_DRAINING \<Rightarrow> ''generation_draining''
   | POLICY_DECISION \<Rightarrow> ''policy_decision'')"

datatype hook_mode = OBSERVE | TRANSFORM | BAIL

datatype hook_error_policy = RECORD_ERROR | RAISE_ERROR

record 'h hook_registration =
  hk_id :: string
  hk_event :: hook_event
  hk_handler :: 'h
  hk_handler_name :: string
  hk_mode :: hook_mode
  hk_priority :: int
  hk_error_policy :: hook_error_policy
  hk_sequence :: nat
  hk_owner_id :: string
  hk_scope_id :: nat

definition order_key :: "'h hook_registration \<Rightarrow> int \<times> nat" where
  "order_key h = (hk_priority h, hk_sequence h)"

record hook_result =
  hres_event :: hook_event
  hres_payload :: payload
  hres_stopped :: bool
  hres_failures :: "cleanup_failure list"

definition hres_ok :: "hook_result \<Rightarrow> bool" where
  "hres_ok r \<longleftrightarrow> hres_failures r = []"

section \<open>The registry\<close>

record 'h hook_registry =
  hr_registrations :: "(string, 'h hook_registration) dict"
  hr_sequence :: nat

definition new_hook_registry :: "'h hook_registry" where
  "new_hook_registry = \<lparr>hr_registrations = [], hr_sequence = 0\<rparr>"

text \<open>What a caller of \<open>register\<close> chooses.\<close>

record 'h hook_request =
  hq_event :: hook_event
  hq_handler :: 'h
  hq_handler_name :: string
  hq_mode :: hook_mode
  hq_priority :: int
  hq_error_policy :: hook_error_policy
  hq_owner_id :: string

definition hook_insert ::
  "string \<Rightarrow> nat \<Rightarrow> 'h hook_request \<Rightarrow> 'h hook_registry \<Rightarrow> 'h hook_registration \<times> 'h hook_registry" where
  "hook_insert hex scope_id q reg =
     (let sequence = hr_sequence reg + 1;
          registration = \<lparr>hk_id = ''hook_'' @ hex, hk_event = hq_event q, hk_handler = hq_handler q,
            hk_handler_name = hq_handler_name q, hk_mode = hq_mode q, hk_priority = hq_priority q,
            hk_error_policy = hq_error_policy q, hk_sequence = sequence, hk_owner_id = hq_owner_id q,
            hk_scope_id = scope_id\<rparr>
      in (registration, \<lparr>hr_registrations = dict_set (hk_id registration) registration (hr_registrations reg),
                         hr_sequence = sequence\<rparr>))"

definition hook_unregister :: "string \<Rightarrow> 'h hook_registry \<Rightarrow> bool \<times> 'h hook_registry" where
  "hook_unregister i reg =
     (map_of (hr_registrations reg) i \<noteq> None, reg\<lparr>hr_registrations := dict_pop i (hr_registrations reg)\<rparr>)"

definition hook_registrations :: "'h hook_registry \<Rightarrow> 'h hook_registration list" where
  "hook_registrations reg =
     sort_key (\<lambda>h. (event_value (hk_event h), order_key h)) (dict_values (hr_registrations reg))"

definition hook_handlers :: "hook_event \<Rightarrow> 'h hook_registry \<Rightarrow> 'h hook_registration list" where
  "hook_handlers event reg =
     sort_key order_key (filter (\<lambda>h. hk_event h = event) (dict_values (hr_registrations reg)))"

record 'h hook_snapshot =
  hs_generation_id :: string
  hs_registrations :: "'h hook_registration list"

definition hook_snapshot :: "string \<Rightarrow> string list option \<Rightarrow> 'h hook_registry \<Rightarrow> 'h hook_snapshot" where
  "hook_snapshot gid owner_ids reg =
     (let selected = (case owner_ids of
            None \<Rightarrow> hook_registrations reg
          | Some owners \<Rightarrow> filter (\<lambda>h. hk_owner_id h \<in> set owners) (hook_registrations reg))
      in \<lparr>hs_generation_id = gid, hs_registrations = selected\<rparr>)"

definition hs_handlers :: "hook_event \<Rightarrow> 'h hook_snapshot \<Rightarrow> 'h hook_registration list" where
  "hs_handlers event sn = sort_key order_key (filter (\<lambda>h. hk_event h = event) (hs_registrations sn))"

text \<open>\<open>ScopedHooks.registrations\<close>.\<close>

definition owned_hooks :: "string \<Rightarrow> 'h hook_registry \<Rightarrow> 'h hook_registration list" where
  "owned_hooks owner reg = filter (\<lambda>h. hk_owner_id h = owner) (hook_registrations reg)"

section \<open>Dispatch\<close>

type_synonym ('h, 'w) invoke = "'h \<Rightarrow> payload \<Rightarrow> 'w \<Rightarrow> (py_exn + pvalue) \<times> 'w"

text \<open>The deep-frozen payload of a returned mapping; \<open>None\<close> for anything that is not one.\<close>

definition mapping_payload :: "pvalue \<Rightarrow> payload option" where
  "mapping_payload v = (case freeze v of PFrozenDict d \<Rightarrow> Some d | _ \<Rightarrow> None)"

definition hook_description :: "'h hook_registration \<Rightarrow> hook_event \<Rightarrow> string" where
  "hook_description h event = ''hook '' @ event_value event @ '' ('' @ hk_handler_name h @ '')''"

fun run_handlers ::
  "('h, 'w) invoke \<Rightarrow> hook_event \<Rightarrow> 'h hook_registration list \<Rightarrow> payload \<Rightarrow> cleanup_failure list \<Rightarrow> 'w
     \<Rightarrow> hook_result result \<times> 'w" where
  "run_handlers invoke event [] current failures w =
     (Inr \<lparr>hres_event = event, hres_payload = current, hres_stopped = False, hres_failures = failures\<rparr>, w)"
| "run_handlers invoke event (h # hs) current failures w =
     (case invoke (hk_handler h) current w of
        (Inl e, w') \<Rightarrow>
          if \<not> is_exception e then (Inl e, w')
          else if hk_error_policy h = RAISE_ERROR then
            (Inl (HookExecutionError (''hook '' @ hk_handler_name h @ '' failed for '' @ event_value event)), w')
          else run_handlers invoke event hs current (failures @ [CleanupFailure (hook_description h event) e]) w'
      | (Inr returned, w') \<Rightarrow>
          if hk_mode h = OBSERVE \<or> returned = PNone then run_handlers invoke event hs current failures w'
          else if hk_mode h = TRANSFORM then
            (case mapping_payload returned of
               None \<Rightarrow>
                 if hk_error_policy h = RAISE_ERROR then
                   (Inl (HookExecutionError (''transform hook '' @ hk_handler_name h @ '' did not return a mapping'')), w')
                 else run_handlers invoke event hs current
                   (failures @ [CleanupFailure (hook_description h event)
                      (PyException ''TypeError'' ''transform hook did not return a mapping'')]) w'
             | Some p \<Rightarrow> run_handlers invoke event hs p failures w')
          else if truthy returned then
            (Inr \<lparr>hres_event = event, hres_payload = current, hres_stopped = True, hres_failures = failures\<rparr>, w')
          else run_handlers invoke event hs current failures w')"

definition hook_dispatch ::
  "('h, 'w) invoke \<Rightarrow> hook_event \<Rightarrow> payload \<Rightarrow> 'h hook_snapshot option \<Rightarrow> 'h hook_registry \<Rightarrow> 'w
     \<Rightarrow> hook_result result \<times> 'w" where
  "hook_dispatch invoke event p hooks reg w =
     run_handlers invoke event (case hooks of None \<Rightarrow> hook_handlers event reg | Some sn \<Rightarrow> hs_handlers event sn)
       (frozen_mapping p) [] w"

end
