(* ===== verification/Named_Index.thy ===== *)
theory Named_Index
  imports Errors
begin

text \<open>
  Registries keyed by an immutable identifier with a secondary index from names to identifiers, as
  the tool registry and the agent registry keep them. The index lists the identifiers of a name in
  registration order (\<open>index_ok\<close>); both registries share the loop that removes the entries of one
  owner, whose effect is proved once over the laws of a single removal (locale \<open>id_release\<close>).
\<close>

section \<open>The index\<close>

definition ids_of :: "('e \<Rightarrow> string) \<Rightarrow> string \<Rightarrow> (string, 'e) dict \<Rightarrow> string list" where
  "ids_of nm n d = map fst (filter (\<lambda>p. nm (snd p) = n) d)"

definition index_ok :: "('e \<Rightarrow> string) \<Rightarrow> (string, 'e) dict \<Rightarrow> (string, string list) dict \<Rightarrow> bool" where
  "index_ok nm d names \<longleftrightarrow> wf_dict d \<and> wf_dict names
     \<and> (\<forall>n. dict_get_or names n [] = ids_of nm n d) \<and> [] \<notin> set (dict_values names)"

lemma ids_of_simps [simp]: "ids_of nm n [] = []" "ids_of nm n (d @ e) = ids_of nm n d @ ids_of nm n e"
  by (simp_all add: ids_of_def)

lemma distinct_ids_of: "wf_dict d \<Longrightarrow> distinct (ids_of nm n d)"
  by (simp add: ids_of_def wf_dict_def distinct_map_filter)

lemma ids_of_pop:
  assumes "wf_dict d"
  shows "ids_of nm n (dict_pop i d) = remove1 i (ids_of nm n d)"
proof -
  have "remove1 i (ids_of nm n d) = filter (\<lambda>j. j \<noteq> i) (ids_of nm n d)"
    using distinct_ids_of [OF assms]
    by (auto simp: distinct_remove1_removeAll removeAll_filter_not_eq intro: filter_cong)
  also have "\<dots> = ids_of nm n (dict_pop i d)"
    by (simp add: ids_of_def filter_map AList.delete_eq split_beta o_def conj_commute neq_commute)
  finally show ?thesis ..
qed

lemma ids_of_same_name:
  assumes "map_of d i = Some r" "nm r' = nm r"
  shows "ids_of nm n (dict_set i r' d) = ids_of nm n d"
  using assms by (induction d) (auto simp: ids_of_def split: if_splits)

lemma ids_of_mem: "wf_dict d \<Longrightarrow> i \<in> set (ids_of nm n d) \<longleftrightarrow> (\<exists>r. map_of d i = Some r \<and> nm r = n)"
  by (force simp: ids_of_def wf_dict_map_of [symmetric])

lemma dict_get_or_set_pop [dict_simps]:
  "dict_get_or (dict_set k v d) k' w = (if k' = k then v else dict_get_or d k' w)"
  "dict_get_or (dict_pop k d) k' w = (if k' = k then w else dict_get_or d k' w)"
  by (simp_all add: dict_get_or_def dict_simps)

lemma values_set_nonempty:
  assumes "[] \<notin> set (dict_values d)" "v \<noteq> []"
  shows "[] \<notin> set (dict_values (dict_set k v d))"
  using assms by (induction d) auto

lemma index_ok_Nil [simp]: "index_ok nm [] []"
  by (simp add: index_ok_def dict_get_or_def)

lemma index_ok_insert:
  assumes "index_ok nm d names" "map_of d i = None"
  shows "index_ok nm (dict_set i e d) (dict_append (nm e) i names)"
proof -
  have "[] \<notin> set (dict_values names)" using assms(1) by (simp add: index_ok_def)
  then have "[] \<notin> set (dict_values (dict_append (nm e) i names))"
    unfolding dict_append_def by (rule values_set_nonempty) simp
  moreover have "dict_get_or (dict_append (nm e) i names) n [] = ids_of nm n (dict_set i e d)" for n
    using assms by (simp add: index_ok_def dict_get_or_append dict_set_fresh ids_of_def)
  ultimately show ?thesis using assms(1) by (simp add: index_ok_def)
qed

lemma index_ok_release:
  assumes "index_ok nm d names" "map_of d i = Some r" "ids = remove1 i (dict_get_or names (nm r) [])"
  shows "index_ok nm (dict_pop i d) (if ids = [] then dict_pop (nm r) names else dict_set (nm r) ids names)"
proof -
  let ?names = "if ids = [] then dict_pop (nm r) names else dict_set (nm r) ids names"
  have w: "wf_dict d" and ix: "\<And>n. dict_get_or names n [] = ids_of nm n d"
    and ne: "[] \<notin> set (dict_values names)"
    using assms(1) by (simp_all add: index_ok_def)
  have other: "i \<notin> set (ids_of nm n d)" if "n \<noteq> nm r" for n
    using assms(2) that by (simp add: ids_of_mem [OF w])
  have "dict_get_or ?names n [] = ids_of nm n (dict_pop i d)" for n
  proof (cases "n = nm r")
    case True
    then show ?thesis using ix assms(3) by (simp add: ids_of_pop [OF w] dict_simps)
  next
    case False
    then show ?thesis using ix other [OF False] by (simp add: ids_of_pop [OF w] dict_simps remove1_idem)
  qed
  moreover have "[] \<notin> set (dict_values ?names)"
    using ne values_set_nonempty [OF ne, of ids "nm r"] by (auto simp: set_dict_pop image_iff)
  ultimately show ?thesis using assms(1) by (simp add: index_ok_def)
qed

lemma index_ok_same_name:
  assumes "index_ok nm d names" "map_of d i = Some r" "nm r' = nm r"
  shows "index_ok nm (dict_set i r' d) names"
  using assms by (simp add: index_ok_def ids_of_same_name)

lemma index_ok_ids:
  assumes "index_ok nm d names"
  shows "distinct (dict_get_or names n [])" "set (dict_get_or names n []) \<subseteq> dom (map_of d)"
    "p \<in> set d \<Longrightarrow> fst p \<in> set (dict_get_or names n []) \<longleftrightarrow> nm (snd p) = n"
proof -
  have w: "wf_dict d" and ix: "dict_get_or names n [] = ids_of nm n d" using assms by (simp_all add: index_ok_def)
  show "distinct (dict_get_or names n [])" by (simp add: ix distinct_ids_of [OF w])
  show "set (dict_get_or names n []) \<subseteq> dom (map_of d)" by (auto simp: ix ids_of_mem [OF w])
  show "p \<in> set d \<Longrightarrow> fst p \<in> set (dict_get_or names n []) \<longleftrightarrow> nm (snd p) = n"
    using w by (cases p) (simp add: ix ids_of_mem [OF w] wf_dict_map_of)
qed

text \<open>The newest entry of a name, and the names the index knows.\<close>

lemma index_ok_last:
  assumes "index_ok nm d names"
  shows "(let ids = dict_get_or names n [] in if ids = [] then None else map_of d (last ids))
     = (case rev (filter (\<lambda>p. nm (snd p) = n) d) of [] \<Rightarrow> None | p # ps \<Rightarrow> Some (snd p))"
proof (cases "filter (\<lambda>p. nm (snd p) = n) d" rule: rev_cases)
  case Nil
  then show ?thesis using assms by (simp add: index_ok_def ids_of_def)
next
  case (snoc ps p)
  then have "p \<in> set d" by (metis filter_is_subset in_set_conv_decomp subsetD)
  then have "map_of d (fst p) = Some (snd p)" using assms by (metis index_ok_def prod.collapse wf_dict_map_of)
  then show ?thesis using snoc assms by (simp add: index_ok_def ids_of_def)
qed

lemma index_ok_names:
  assumes "index_ok nm d names"
  shows "n \<in> set (dict_keys names) \<longleftrightarrow> ids_of nm n d \<noteq> []"
proof (cases "map_of names n")
  case (Some v)
  then have "v \<in> set (dict_values names)" using map_of_SomeD by force
  then have "v \<noteq> []" using assms by (metis index_ok_def)
  then have "ids_of nm n d \<noteq> []" using assms Some by (metis dict_get_or_def index_ok_def option.simps(5))
  moreover have "n \<in> set (dict_keys names)" using map_of_SomeD [OF Some] by force
  ultimately show ?thesis by simp
next
  case None
  then have "ids_of nm n d = []" using assms by (metis dict_get_or_def index_ok_def option.simps(4))
  with None show ?thesis by (simp add: map_of_eq_None_iff)
qed

section \<open>Removal by owner\<close>

text \<open>
  \<open>for i in ids: if self._entries[i].owner == owner: removed = self._release(i) or removed\<close>, with
  the lookup failing on an unknown identifier.
\<close>

fun release_where ::
  "('r \<Rightarrow> (string, 'e) dict) \<Rightarrow> (string \<Rightarrow> 'r \<Rightarrow> bool \<times> 'r) \<Rightarrow> ('e \<Rightarrow> bool) \<Rightarrow> string list \<Rightarrow> bool \<Rightarrow> 'r
     \<Rightarrow> bool result \<times> 'r" where
  "release_where entries release P [] removed reg = (Inr removed, reg)"
| "release_where entries release P (i # ids) removed reg =
     (case map_of (entries reg) i of
        None \<Rightarrow> (Inl (PyException ''KeyError'' i), reg)
      | Some e \<Rightarrow>
          if P e then (case release i reg of (b, reg') \<Rightarrow> release_where entries release P ids (b \<or> removed) reg')
          else release_where entries release P ids removed reg)"

locale id_release =
  fixes entries :: "'r \<Rightarrow> (string, 'e) dict"
    and release :: "string \<Rightarrow> 'r \<Rightarrow> bool \<times> 'r"
    and ok :: "'r \<Rightarrow> bool"
  assumes release_ok: "ok reg \<Longrightarrow> ok (snd (release i reg))"
    and release_entries: "entries (snd (release i reg)) = dict_pop i (entries reg)"
    and release_found: "fst (release i reg) \<longleftrightarrow> map_of (entries reg) i \<noteq> None"
    and ok_wf: "ok reg \<Longrightarrow> wf_dict (entries reg)"
begin

text \<open>In any registry a removal keeps the entries it leaves as they are.\<close>

lemma release_where_shrinks:
  "map_of (entries (snd (release_where entries release P ids removed reg))) k = Some e \<Longrightarrow> map_of (entries reg) k = Some e"
proof (induction ids arbitrary: reg removed)
  case (Cons i ids)
  then show ?case
    by (cases "map_of (entries reg) i")
       (auto simp: split_beta release_entries dict_simps split: if_splits dest!: Cons.IH)
qed simp

lemma release_where_exact:
  assumes "ok reg" "distinct ids" "set ids \<subseteq> dom (map_of (entries reg))"
  shows "ok (snd (release_where entries release P ids removed reg))
     \<and> fst (release_where entries release P ids removed reg)
         = Inr (removed \<or> (\<exists>p \<in> set (entries reg). fst p \<in> set ids \<and> P (snd p)))
     \<and> entries (snd (release_where entries release P ids removed reg))
         = filter (\<lambda>p. \<not> (fst p \<in> set ids \<and> P (snd p))) (entries reg)"
  using assms
proof (induction ids arbitrary: reg removed)
  case (Cons i ids)
  obtain r where r: "map_of (entries reg) i = Some r" using Cons.prems(3) by auto
  have uniq: "p \<in> set (entries reg) \<Longrightarrow> fst p = i \<Longrightarrow> p = (i, r)" for p
    using r ok_wf [OF Cons.prems(1)] by (cases p) (simp add: wf_dict_map_of)
  have mem: "(i, r) \<in> set (entries reg)" using r by (rule map_of_SomeD)
  show ?case
  proof (cases "P r")
    case True
    let ?reg = "snd (release i reg)"
    have e: "entries ?reg = filter (\<lambda>p. fst p \<noteq> i) (entries reg)"
      by (simp add: release_entries AList.delete_eq) (rule filter_cong, auto)
    have dom: "set ids \<subseteq> dom (map_of (entries ?reg))"
      using Cons.prems(2,3) by (auto simp: release_entries dict_simps dom_def)
    have step: "release_where entries release P (i # ids) removed reg = release_where entries release P ids True ?reg"
      using r True release_found [of i reg] by (simp add: split_beta)
    have "filter (\<lambda>p. \<not> (fst p \<in> set ids \<and> P (snd p))) (entries ?reg)
        = filter (\<lambda>p. \<not> (fst p \<in> set (i # ids) \<and> P (snd p))) (entries reg)"
      unfolding e filter_filter using uniq True by (intro filter_cong) auto
    moreover have "\<exists>p \<in> set (entries reg). fst p \<in> set (i # ids) \<and> P (snd p)"
      using mem True by (intro bexI [of _ "(i, r)"]) simp_all
    ultimately show ?thesis
      using Cons.IH [OF release_ok [OF Cons.prems(1)] _ dom, of True] Cons.prems(2) unfolding step by simp
  next
    case False
    have dom: "set ids \<subseteq> dom (map_of (entries reg))" using Cons.prems(3) by simp
    have "filter (\<lambda>p. \<not> (fst p \<in> set ids \<and> P (snd p))) (entries reg)
        = filter (\<lambda>p. \<not> (fst p \<in> set (i # ids) \<and> P (snd p))) (entries reg)"
      using False uniq by (intro filter_cong) auto
    moreover have "(\<exists>p \<in> set (entries reg). fst p \<in> set ids \<and> P (snd p))
        = (\<exists>p \<in> set (entries reg). fst p \<in> set (i # ids) \<and> P (snd p))"
      using False uniq by (metis list.set_intros(2) set_ConsD snd_conv)
    ultimately show ?thesis using Cons.IH [OF Cons.prems(1) _ dom] Cons.prems(2) False r by simp
  qed
qed simp

end

end
