(* ===== verification/Tools.thy ===== *)
theory Tools
  imports Values Named_Index
begin

text \<open>
  Tool policies (\<open>tools/metadata.py\<close>), the tool registry and its snapshots
  (\<open>tools/registry.py\<close>). A tool is a plugin's object, seen through the attributes the code reads;
  they are taken not to change. A live registration may be rewired by its plugin until it is
  published; the published copy is made once and shared by all later snapshots. The scoped half of a
  registration is in theory \<open>World\<close>.
\<close>

section \<open>Policies\<close>

record tool_policy =
  tp_permissions :: "string list"
  tp_idempotent :: bool
  tp_side_effects :: "string list"
  tp_timeout :: "rat option"
  tp_cost_class :: "string option"
  tp_approval_required :: bool
  tp_metadata :: payload

definition check_timeout :: "pnumber option \<Rightarrow> rat option result" where
  "check_timeout timeout =
     (let bad = Inl (ConfigurationError ''timeout_seconds must be a positive finite number'')
      in case timeout of
           None \<Rightarrow> Inr None
         | Some (NBool b) \<Rightarrow> bad
         | Some NOther \<Rightarrow> bad
         | Some (NInt i) \<Rightarrow> if i \<le> 0 then bad else Inr (Some (of_int i))
         | Some (NFloat (Fin r)) \<Rightarrow> if r \<le> 0 then bad else Inr (Some r)
         | Some (NFloat _) \<Rightarrow> bad)"

definition make_tool_policy :: "pnumber option \<Rightarrow> tool_policy \<Rightarrow> tool_policy result" where
  "make_tool_policy timeout p =
     bind_result (check_timeout timeout) (\<lambda>t.
       Inr (p\<lparr>tp_timeout := t, tp_metadata := frozen_mapping (tp_metadata p)\<rparr>))"

definition default_tool_policy :: tool_policy where
  "default_tool_policy = \<lparr>tp_permissions = [], tp_idempotent = False, tp_side_effects = [], tp_timeout = None,
     tp_cost_class = None, tp_approval_required = False, tp_metadata = []\<rparr>"

section \<open>Tools and registrations\<close>

record 'x tool =
  tl_name :: "string option"
  tl_description :: "string option"
  tl_callable :: bool
  tl_async :: bool
  tl_body :: 'x

definition is_tool :: "'x tool \<Rightarrow> bool" where
  "is_tool t \<longleftrightarrow> tl_callable t \<and> tl_name t \<noteq> None \<and> tl_description t \<noteq> None"

record 'x tool_entry =
  te_id :: string
  te_tool :: "'x tool"
  te_policy :: tool_policy
  te_owner_id :: string
  te_owner_name :: string
  te_scope_id :: nat
  te_name :: string
  te_description :: string
  te_metadata :: payload

record 'x registered_tool =
  rt_data :: "'x tool_entry"
  rt_publication :: "'x tool_entry option"

abbreviation rt_name :: "'x registered_tool \<Rightarrow> string" where
  "rt_name r \<equiv> te_name (rt_data r)"

definition frozen_copy :: "'x registered_tool \<Rightarrow> 'x tool_entry \<times> 'x registered_tool" where
  "frozen_copy r =
     (case rt_publication r of
        Some p \<Rightarrow> (p, r)
      | None \<Rightarrow> let p = (rt_data r)\<lparr>te_metadata := frozen_mapping (te_metadata (rt_data r))\<rparr>
                in (p, r\<lparr>rt_publication := Some p\<rparr>))"

text \<open>The object contract \<open>register\<close> checks before anything is stored.\<close>

definition tool_check :: "'x tool \<Rightarrow> unit result" where
  "tool_check t =
     (if \<not> is_tool t \<or> tl_name t = Some [] \<or> tl_description t = Some [] then
        Inl (ConfigurationError ''registered tools must expose a non-empty name, a non-empty description, and an awaitable ainvoke'')
      else if \<not> tl_async t then Inl (ConfigurationError ''registered tools must implement ainvoke asynchronously'')
      else Inr ())"

section \<open>The registry\<close>

record 'x tool_registry =
  tr_entries :: "(string, 'x registered_tool) dict"
  tr_names :: "(string, string list) dict"

definition new_tool_registry :: "'x tool_registry" where
  "new_tool_registry = \<lparr>tr_entries = [], tr_names = []\<rparr>"

record 'x tool_request =
  tq_tool :: "'x tool"
  tq_policy :: "tool_policy option"
  tq_owner_id :: string
  tq_owner_name :: string
  tq_metadata :: payload

definition tool_entry_of :: "string \<Rightarrow> nat \<Rightarrow> 'x tool_request \<Rightarrow> 'x tool_entry" where
  "tool_entry_of hex scope_id q =
     \<lparr>te_id = ''tool_'' @ hex, te_tool = tq_tool q,
      te_policy = (case tq_policy q of None \<Rightarrow> default_tool_policy | Some p \<Rightarrow> p),
      te_owner_id = tq_owner_id q,
      te_owner_name = (if tq_owner_name q = [] then tq_owner_id q else tq_owner_name q),
      te_scope_id = scope_id,
      te_name = (case tl_name (tq_tool q) of None \<Rightarrow> [] | Some n \<Rightarrow> n),
      te_description = (case tl_description (tq_tool q) of None \<Rightarrow> [] | Some d \<Rightarrow> d),
      te_metadata = frozen_mapping (tq_metadata q)\<rparr>"

definition tool_insert :: "'x tool_entry \<Rightarrow> 'x tool_registry \<Rightarrow> 'x tool_registry" where
  "tool_insert e reg =
     \<lparr>tr_entries = dict_set (te_id e) \<lparr>rt_data = e, rt_publication = None\<rparr> (tr_entries reg),
      tr_names = dict_append (te_name e) (te_id e) (tr_names reg)\<rparr>"

definition tool_release :: "string \<Rightarrow> 'x tool_registry \<Rightarrow> bool \<times> 'x tool_registry" where
  "tool_release i reg =
     (case map_of (tr_entries reg) i of
        None \<Rightarrow> (False, reg)
      | Some r \<Rightarrow>
          let ids = remove1 i (dict_get_or (tr_names reg) (rt_name r) [])
          in (True, \<lparr>tr_entries = dict_pop i (tr_entries reg),
                     tr_names = (if ids = [] then dict_pop (rt_name r) (tr_names reg)
                                 else dict_set (rt_name r) ids (tr_names reg))\<rparr>))"

definition release_owned :: "string \<Rightarrow> string list \<Rightarrow> bool \<Rightarrow> 'x tool_registry \<Rightarrow> bool result \<times> 'x tool_registry" where
  "release_owned owner = release_where tr_entries tool_release (\<lambda>r. te_owner_id (rt_data r) = owner)"

definition tool_unregister :: "string \<Rightarrow> string option \<Rightarrow> 'x tool_registry \<Rightarrow> bool result \<times> 'x tool_registry" where
  "tool_unregister name owner reg =
     (let ids = dict_get_or (tr_names reg) name []
      in case owner of
           None \<Rightarrow> (if ids = [] then (Inr False, reg)
                    else (case tool_release (last ids) reg of (b, reg') \<Rightarrow> (Inr b, reg')))
         | Some o1 \<Rightarrow> release_owned o1 ids False reg)"

text \<open>A plugin assigns to a live registration it holds: policy and metadata.\<close>

definition tool_rewire :: "string \<Rightarrow> tool_policy \<Rightarrow> payload \<Rightarrow> 'x tool_registry \<Rightarrow> 'x tool_registry" where
  "tool_rewire i policy metadata reg =
     (case map_of (tr_entries reg) i of
        None \<Rightarrow> reg
      | Some r \<Rightarrow> reg\<lparr>tr_entries := dict_set i
          (r\<lparr>rt_data := (rt_data r)\<lparr>te_policy := policy, te_metadata := metadata\<rparr>\<rparr>) (tr_entries reg)\<rparr>)"

definition tool_get :: "string \<Rightarrow> 'x tool_registry \<Rightarrow> 'x registered_tool option" where
  "tool_get name reg =
     (let ids = dict_get_or (tr_names reg) name []
      in if ids = [] then None else map_of (tr_entries reg) (last ids))"

definition tool_names :: "'x tool_registry \<Rightarrow> string list" where
  "tool_names reg = sort (dict_keys (tr_names reg))"

definition tool_entries :: "'x tool_registry \<Rightarrow> 'x registered_tool list" where
  "tool_entries reg = sort_key (\<lambda>r. (rt_name r, te_id (rt_data r))) (dict_values (tr_entries reg))"

definition owned_tools :: "string \<Rightarrow> 'x tool_registry \<Rightarrow> string list" where
  "owned_tools owner reg = map rt_name (filter (\<lambda>r. te_owner_id (rt_data r) = owner) (tool_entries reg))"

section \<open>Snapshots\<close>

record 'x tool_snapshot =
  ts_generation_id :: string
  ts_entries :: "'x tool_entry list"

text \<open>Publishing caches the copy on the live registration.\<close>

definition publish_entry :: "'x registered_tool \<Rightarrow> 'x tool_registry \<Rightarrow> 'x tool_registry" where
  "publish_entry r reg = reg\<lparr>tr_entries := dict_set (te_id (rt_data r)) (snd (frozen_copy r)) (tr_entries reg)\<rparr>"

definition take_tool_snapshot ::
  "string \<Rightarrow> string list option \<Rightarrow> 'x tool_registry \<Rightarrow> 'x tool_snapshot \<times> 'x tool_registry" where
  "take_tool_snapshot gid owner_ids reg =
     (let selected = (case owner_ids of
            None \<Rightarrow> tool_entries reg
          | Some owners \<Rightarrow> filter (\<lambda>r. te_owner_id (rt_data r) \<in> set owners) (tool_entries reg))
      in (\<lparr>ts_generation_id = gid, ts_entries = sort_key te_name (map (\<lambda>r. fst (frozen_copy r)) selected)\<rparr>,
          fold publish_entry selected reg))"

definition ts_names :: "'x tool_snapshot \<Rightarrow> string list" where
  "ts_names sn = map te_name (ts_entries sn)"

definition ts_get :: "string \<Rightarrow> 'x tool_snapshot \<Rightarrow> 'x tool_entry option" where
  "ts_get name sn = find (\<lambda>e. te_name e = name) (ts_entries sn)"

definition ts_require :: "string \<Rightarrow> 'x tool_snapshot \<Rightarrow> 'x tool_entry result" where
  "ts_require name sn =
     (case ts_get name sn of
        Some e \<Rightarrow> Inr e
      | None \<Rightarrow> Inl (ToolNotFound (''tool '' @ py_repr name @ '' is not available in generation '' @ ts_generation_id sn)))"

definition ts_contains :: "string \<Rightarrow> 'x tool_snapshot \<Rightarrow> bool" where
  "ts_contains name sn \<longleftrightarrow> ts_get name sn \<noteq> None"

definition ts_tools :: "'x tool_snapshot \<Rightarrow> 'x tool list" where
  "ts_tools sn = map te_tool (ts_entries sn)"

end
