(* ===== verification/Tool_Props.thy ===== *)
theory Tool_Props
  imports Tools
begin

text \<open>
  Properties of the tool registry: the name index is exact in every reachable registry, lookups find
  the newest registration, and removals are by identity.
\<close>

section \<open>The index\<close>

definition tools_ok :: "'x tool_registry \<Rightarrow> bool" where
  "tools_ok reg \<longleftrightarrow> index_ok (\<lambda>r. rt_name r) (tr_entries reg) (tr_names reg)
     \<and> (\<forall>p \<in> set (tr_entries reg). te_id (rt_data (snd p)) = fst p)"

inductive tool_step :: "'x tool_registry \<Rightarrow> 'x tool_registry \<Rightarrow> bool" where
  tstep_register: "map_of (tr_entries reg) (te_id (tool_entry_of hex s q)) = None \<Longrightarrow> tool_check (tq_tool q) = Inr ()
     \<Longrightarrow> tool_step reg (tool_insert (tool_entry_of hex s q) reg)"
| tstep_release: "tool_step reg (snd (tool_release i reg))"
| tstep_unregister: "tool_step reg (snd (tool_unregister name owner reg))"
| tstep_rewire: "tool_step reg (tool_rewire i policy metadata reg)"
| tstep_snapshot: "tool_step reg (snd (take_tool_snapshot gid owners reg))"

inductive tool_reachable :: "'x tool_registry \<Rightarrow> bool" where
  treach_new: "tool_reachable new_tool_registry"
| treach_step: "tool_reachable reg \<Longrightarrow> tool_step reg reg' \<Longrightarrow> tool_reachable reg'"

lemma tools_ok_wf: "tools_ok reg \<Longrightarrow> wf_dict (tr_entries reg)"
  by (simp add: tools_ok_def index_ok_def)

lemma tools_ok_new: "tools_ok new_tool_registry"
  by (simp add: tools_ok_def new_tool_registry_def)

lemma tools_ok_insert:
  assumes "tools_ok reg" "map_of (tr_entries reg) (te_id e) = None"
  shows "tools_ok (tool_insert e reg)"
  using assms index_ok_insert [of "\<lambda>r. rt_name r" "tr_entries reg" "tr_names reg" "te_id e" "\<lparr>rt_data = e, rt_publication = None\<rparr>"]
  by (auto simp: tools_ok_def tool_insert_def dict_set_fresh)

lemma tool_release_entries: "tr_entries (snd (tool_release i reg)) = dict_pop i (tr_entries reg)"
  by (cases "map_of (tr_entries reg) i") (simp_all add: tool_release_def Let_def)

lemma tools_ok_release:
  assumes "tools_ok reg"
  shows "tools_ok (snd (tool_release i reg))"
proof (cases "map_of (tr_entries reg) i")
  case (Some r)
  have "index_ok (\<lambda>r. rt_name r) (tr_entries reg) (tr_names reg)" using assms by (simp add: tools_ok_def)
  from index_ok_release [OF this Some refl] Some assms show ?thesis
    by (simp add: tools_ok_def tool_release_def Let_def set_dict_pop)
qed (use assms in \<open>simp add: tool_release_def\<close>)

lemma tool_release_found: "fst (tool_release i reg) \<longleftrightarrow> map_of (tr_entries reg) i \<noteq> None"
  by (simp add: tool_release_def Let_def split: option.split)

interpretation tool_ids: id_release tr_entries tool_release tools_ok
  by unfold_locales (simp_all add: tools_ok_release tool_release_entries tools_ok_wf tool_release_found)

lemma tools_ok_same_entry:
  assumes "tools_ok reg" "map_of (tr_entries reg) i = Some r" "rt_name r' = rt_name r" "te_id (rt_data r') = te_id (rt_data r)"
  shows "tools_ok (reg\<lparr>tr_entries := dict_set i r' (tr_entries reg)\<rparr>)"
proof -
  have "te_id (rt_data r) = i" using assms(1,2) by (auto simp: tools_ok_def dest!: map_of_SomeD)
  moreover have "index_ok (\<lambda>r. rt_name r) (dict_set i r' (tr_entries reg)) (tr_names reg)"
    using assms(1-3) index_ok_same_name by (fastforce simp: tools_ok_def)
  ultimately show ?thesis using assms by (simp add: tools_ok_def set_dict_set [OF tools_ok_wf [OF assms(1)]])
qed

lemma tools_ok_rewire: "tools_ok reg \<Longrightarrow> tools_ok (tool_rewire i policy metadata reg)"
  by (cases "map_of (tr_entries reg) i") (auto simp: tool_rewire_def intro: tools_ok_same_entry)

lemma frozen_copy_data [simp]: "rt_data (snd (frozen_copy r)) = rt_data r"
  by (simp add: frozen_copy_def Let_def split: option.split)

definition same_tools :: "'x tool_registry \<Rightarrow> 'x tool_registry \<Rightarrow> bool" where
  "same_tools reg reg' \<longleftrightarrow> (\<forall>i. map_option rt_data (map_of (tr_entries reg') i) = map_option rt_data (map_of (tr_entries reg) i))"

lemma publish_same:
  assumes "tools_ok reg" "map_option rt_data (map_of (tr_entries reg) (te_id (rt_data r))) = Some (rt_data r)"
  shows "tools_ok (publish_entry r reg) \<and> same_tools reg (publish_entry r reg)"
proof -
  obtain r0 where r0: "map_of (tr_entries reg) (te_id (rt_data r)) = Some r0" "rt_data r0 = rt_data r"
    using assms(2) by auto
  then show ?thesis
    using tools_ok_same_entry [OF assms(1) r0(1), of "snd (frozen_copy r)"]
    by (auto simp: publish_entry_def same_tools_def dict_simps)
qed

lemma publish_all:
  assumes "tools_ok reg" "\<forall>r \<in> set rs. map_option rt_data (map_of (tr_entries reg) (te_id (rt_data r))) = Some (rt_data r)"
  shows "tools_ok (fold publish_entry rs reg)"
  using assms
proof (induction rs arbitrary: reg)
  case (Cons r rs)
  then have ok: "tools_ok (publish_entry r reg)" and same: "same_tools reg (publish_entry r reg)"
    using publish_same by (metis list.set_intros(1))+
  have "\<forall>q \<in> set rs. map_option rt_data (map_of (tr_entries (publish_entry r reg)) (te_id (rt_data q))) = Some (rt_data q)"
    using Cons.prems(2) same unfolding same_tools_def by (metis list.set_intros(2))
  then show ?case using Cons.IH [OF ok] by simp
qed simp

lemma selected_known:
  assumes "tools_ok reg" "r \<in> set (tool_entries reg)"
  shows "map_of (tr_entries reg) (te_id (rt_data r)) = Some r"
proof -
  obtain i where "(i, r) \<in> set (tr_entries reg)" using assms(2) by (auto simp: tool_entries_def)
  moreover from this have "te_id (rt_data r) = i" using assms(1) by (fastforce simp: tools_ok_def)
  ultimately show ?thesis using assms(1) by (simp add: tools_ok_wf wf_dict_map_of)
qed

lemma tools_ok_snapshot: "tools_ok reg \<Longrightarrow> tools_ok (snd (take_tool_snapshot gid owners reg))"
  by (auto simp: take_tool_snapshot_def Let_def selected_known split: option.split intro!: publish_all)

section \<open>Removal by owner\<close>

lemma tools_ok_unregister:
  assumes "tools_ok reg"
  shows "tools_ok (snd (tool_unregister name owner reg))"
proof -
  have ix: "index_ok (\<lambda>r. rt_name r) (tr_entries reg) (tr_names reg)" using assms by (simp add: tools_ok_def)
  show ?thesis
    using tool_ids.release_where_exact [OF assms index_ok_ids(1,2) [OF ix]] tools_ok_release [OF assms] assms
    by (cases owner) (auto simp: tool_unregister_def release_owned_def Let_def split_beta)
qed

lemma tools_ok_reachable: "tool_reachable reg \<Longrightarrow> tools_ok reg"
  by (induction rule: tool_reachable.induct)
     (auto intro: tools_ok_new tools_ok_insert tools_ok_release tools_ok_unregister tools_ok_rewire
        tools_ok_snapshot elim!: tool_step.cases)

section \<open>Properties\<close>

text \<open>
  In every reachable registry the name index lists exactly the live registrations of each name
  in registration order, and a lookup by name finds the newest of them.
\<close>

theorem tool_index_exact:
  assumes "tool_reachable reg"
  shows "dict_get_or (tr_names reg) name [] = ids_of (\<lambda>r. rt_name r) name (tr_entries reg)
     \<and> tool_get name reg = (case rev (filter (\<lambda>p. rt_name (snd p) = name) (tr_entries reg)) of [] \<Rightarrow> None | p # ps \<Rightarrow> Some (snd p))
     \<and> (name \<in> set (tool_names reg) \<longleftrightarrow> ids_of (\<lambda>r. rt_name r) name (tr_entries reg) \<noteq> [])"
proof -
  have ix: "index_ok (\<lambda>r. rt_name r) (tr_entries reg) (tr_names reg)"
    using tools_ok_reachable [OF assms] by (simp add: tools_ok_def)
  show ?thesis
    using ix index_ok_last [OF ix, of name] index_ok_names [OF ix, of name]
    by (simp add: index_ok_def tool_get_def tool_names_def)
qed

text \<open>
  A plugin that unregisters a name removes exactly its own registrations of that name, whatever
  other owners have registered under it before or after, and the call cannot fail.
\<close>

theorem tool_unregister_exact:
  assumes "tool_reachable reg"
  shows "fst (tool_unregister name (Some owner) reg)
       = Inr (\<exists>p \<in> set (tr_entries reg). rt_name (snd p) = name \<and> te_owner_id (rt_data (snd p)) = owner)
     \<and> tr_entries (snd (tool_unregister name (Some owner) reg))
       = filter (\<lambda>p. \<not> (rt_name (snd p) = name \<and> te_owner_id (rt_data (snd p)) = owner)) (tr_entries reg)"
proof -
  have ok: "tools_ok reg" by (rule tools_ok_reachable [OF assms])
  then have ix: "index_ok (\<lambda>r. rt_name r) (tr_entries reg) (tr_names reg)" by (simp add: tools_ok_def)
  show ?thesis
    using tool_ids.release_where_exact [OF ok index_ok_ids(1,2) [OF ix], of "\<lambda>r. te_owner_id (rt_data r) = owner" name False]
      index_ok_ids(3) [OF ix, of _ name]
    by (auto simp: tool_unregister_def release_owned_def Let_def intro!: filter_cong)
qed

text \<open>Two plugins register the same name; the first one leaves early.\<close>

definition demo_tool :: "string \<Rightarrow> unit tool_request" where
  "demo_tool owner = \<lparr>tq_tool = \<lparr>tl_name = Some ''fetch'', tl_description = Some ''get'', tl_callable = True,
     tl_async = True, tl_body = ()\<rparr>, tq_policy = None, tq_owner_id = owner, tq_owner_name = owner, tq_metadata = []\<rparr>"

definition demo_tools :: "unit tool_registry" where
  "demo_tools = tool_insert (tool_entry_of ''2'' 1 (demo_tool ''q'')) (tool_insert (tool_entry_of ''1'' 0 (demo_tool ''p'')) new_tool_registry)"

lemma demo_tools_reachable: "tool_reachable demo_tools"
  unfolding demo_tools_def
  by (rule treach_step [OF treach_step [OF treach_new tstep_register] tstep_register]; code_simp)

theorem tool_index_exact_witness: "map_option (\<lambda>r. te_owner_id (rt_data r)) (tool_get ''fetch'' demo_tools) = Some ''q''"
proof -
  have "rev (filter (\<lambda>p. rt_name (snd p) = ''fetch'') (tr_entries demo_tools)) =
      [(''tool_2'', \<lparr>rt_data = tool_entry_of ''2'' 1 (demo_tool ''q''), rt_publication = None\<rparr>),
       (''tool_1'', \<lparr>rt_data = tool_entry_of ''1'' 0 (demo_tool ''p''), rt_publication = None\<rparr>)]" by code_simp
  with tool_index_exact [OF demo_tools_reachable, of "''fetch''"] show ?thesis
    by (simp add: tool_entry_of_def demo_tool_def)
qed

theorem tool_unregister_exact_witness:
  "fst (tool_unregister ''fetch'' (Some ''p'') demo_tools) = Inr True
   \<and> map fst (tr_entries (snd (tool_unregister ''fetch'' (Some ''p'') demo_tools))) = [''tool_2'']"
proof -
  have "map fst (filter (\<lambda>p. \<not> (rt_name (snd p) = ''fetch'' \<and> te_owner_id (rt_data (snd p)) = ''p'')) (tr_entries demo_tools)) = [''tool_2'']"
    "list_ex (\<lambda>p. rt_name (snd p) = ''fetch'' \<and> te_owner_id (rt_data (snd p)) = ''p'') (tr_entries demo_tools)"
    by code_simp+
  with tool_unregister_exact [OF demo_tools_reachable, of "''fetch''" "''p''"] show ?thesis
    by (simp add: list_ex_iff)
qed

end
