(* ===== verification/Agent_Registry.thy ===== *)
theory Agent_Registry
  imports Named_Index
begin

text \<open>
  The registry of agent runtimes (\<open>agents.py\<close>): registrations keyed by identity, an index by
  name, removal by identity or by owning scope. A runtime is a user object; only its \<open>name\<close>
  attribute is read. Registration itself is in theory \<open>World\<close>, with the scope that owns it.
\<close>

section \<open>State\<close>

record 'r agent_runtime =
  ar_name :: "string option"
  ar_body :: 'r

record 'r agent_entry =
  ae_id :: string
  ae_name :: string
  ae_runtime :: "'r agent_runtime"
  ae_scope_id :: "nat option"

record 'r agent_registry =
  ag_entries :: "(string, 'r agent_entry) dict"
  ag_names :: "(string, string list) dict"

definition new_agent_registry :: "'r agent_registry" where
  "new_agent_registry = \<lparr>ag_entries = [], ag_names = []\<rparr>"

section \<open>Operations\<close>

text \<open>The name a runtime declares; an attribute that is missing or no text counts as none.\<close>

definition agent_name :: "'r agent_runtime \<Rightarrow> string result" where
  "agent_name rt =
     (let name = (case ar_name rt of None \<Rightarrow> [] | Some n \<Rightarrow> n)
      in if name = [] \<or> name \<noteq> strip name then
           Inl (ConfigurationError ''agent runtime must declare a non-empty, trimmed name'')
         else Inr name)"

definition agent_free :: "string \<Rightarrow> bool \<Rightarrow> 'r agent_registry \<Rightarrow> unit result" where
  "agent_free name replace reg =
     (if dict_get_or (ag_names reg) name [] \<noteq> [] \<and> \<not> replace then
        Inl (ConfigurationError ''agent name is already registered'')
      else Inr ())"

definition agent_insert :: "'r agent_entry \<Rightarrow> 'r agent_registry \<Rightarrow> 'r agent_registry" where
  "agent_insert e reg =
     \<lparr>ag_entries = dict_set (ae_id e) e (ag_entries reg), ag_names = dict_append (ae_name e) (ae_id e) (ag_names reg)\<rparr>"

definition agent_release :: "string \<Rightarrow> 'r agent_registry \<Rightarrow> bool \<times> 'r agent_registry" where
  "agent_release i reg =
     (case map_of (ag_entries reg) i of
        None \<Rightarrow> (False, reg)
      | Some e \<Rightarrow>
          let ids = remove1 i (dict_get_or (ag_names reg) (ae_name e) [])
          in (True, \<lparr>ag_entries = dict_pop i (ag_entries reg),
                     ag_names = (if ids = [] then dict_pop (ae_name e) (ag_names reg)
                                 else dict_set (ae_name e) ids (ag_names reg))\<rparr>))"

definition agent_unregister :: "string \<Rightarrow> nat option \<Rightarrow> 'r agent_registry \<Rightarrow> bool result \<times> 'r agent_registry" where
  "agent_unregister name scope_id reg =
     (let ids = dict_get_or (ag_names reg) name []
      in case scope_id of
           None \<Rightarrow> (if ids = [] then (Inr False, reg)
                    else (case agent_release (last ids) reg of (b, reg') \<Rightarrow> (Inr b, reg')))
         | Some s \<Rightarrow> release_where ag_entries agent_release (\<lambda>e. ae_scope_id e = Some s) ids False reg)"

definition agent_get :: "string \<Rightarrow> 'r agent_registry \<Rightarrow> 'r agent_runtime result" where
  "agent_get name reg =
     (let ids = dict_get_or (ag_names reg) name []
      in if ids = [] then Inl (AgentNotFound (''agent '' @ py_repr name @ '' is not registered''))
         else (case map_of (ag_entries reg) (last ids) of
                 None \<Rightarrow> Inl (PyException ''KeyError'' (last ids))
               | Some e \<Rightarrow> Inr (ae_runtime e)))"

definition agent_names :: "'r agent_registry \<Rightarrow> string list" where
  "agent_names reg = sort (dict_keys (ag_names reg))"

definition agent_contains :: "string \<Rightarrow> 'r agent_registry \<Rightarrow> bool" where
  "agent_contains name reg \<longleftrightarrow> name \<in> set (dict_keys (ag_names reg))"

section \<open>The index\<close>

definition agents_ok :: "'r agent_registry \<Rightarrow> bool" where
  "agents_ok reg \<longleftrightarrow> index_ok ae_name (ag_entries reg) (ag_names reg)"

inductive agent_step :: "'r agent_registry \<Rightarrow> 'r agent_registry \<Rightarrow> bool" where
  astep_register: "map_of (ag_entries reg) (ae_id e) = None \<Longrightarrow> agent_step reg (agent_insert e reg)"
| astep_release: "agent_step reg (snd (agent_release i reg))"
| astep_unregister: "agent_step reg (snd (agent_unregister name scope_id reg))"

inductive agent_reachable :: "'r agent_registry \<Rightarrow> bool" where
  areach_new: "agent_reachable new_agent_registry"
| areach_step: "agent_reachable reg \<Longrightarrow> agent_step reg reg' \<Longrightarrow> agent_reachable reg'"

lemma agents_ok_wf: "agents_ok reg \<Longrightarrow> wf_dict (ag_entries reg)"
  by (simp add: agents_ok_def index_ok_def)

lemma agent_release_entries: "ag_entries (snd (agent_release i reg)) = dict_pop i (ag_entries reg)"
  by (cases "map_of (ag_entries reg) i") (simp_all add: agent_release_def Let_def)

lemma agent_release_found: "fst (agent_release i reg) \<longleftrightarrow> map_of (ag_entries reg) i \<noteq> None"
  by (simp add: agent_release_def Let_def split: option.split)

lemma agents_ok_release:
  assumes "agents_ok reg"
  shows "agents_ok (snd (agent_release i reg))"
proof (cases "map_of (ag_entries reg) i")
  case (Some e)
  from index_ok_release [OF assms [unfolded agents_ok_def] Some refl] Some show ?thesis
    by (simp add: agents_ok_def agent_release_def Let_def)
qed (use assms in \<open>simp add: agent_release_def\<close>)

interpretation agent_ids: id_release ag_entries agent_release agents_ok
  by unfold_locales (simp_all add: agents_ok_release agent_release_entries agents_ok_wf agent_release_found)

lemma agents_ok_unregister:
  assumes "agents_ok reg"
  shows "agents_ok (snd (agent_unregister name scope_id reg))"
  using agent_ids.release_where_exact [OF assms index_ok_ids(1,2) [OF assms [unfolded agents_ok_def]]]
    agents_ok_release [OF assms] assms
  by (cases scope_id) (auto simp: agent_unregister_def Let_def split_beta)

lemma agents_ok_insert: "agents_ok reg \<Longrightarrow> map_of (ag_entries reg) (ae_id e) = None \<Longrightarrow> agents_ok (agent_insert e reg)"
  by (simp add: agents_ok_def agent_insert_def index_ok_insert)

lemma agents_ok_new: "agents_ok new_agent_registry"
  by (simp add: agents_ok_def new_agent_registry_def)

lemma agents_ok_reachable: "agent_reachable reg \<Longrightarrow> agents_ok reg"
  by (induction rule: agent_reachable.induct)
     (auto intro: agents_ok_new agents_ok_insert agents_ok_release agents_ok_unregister elim!: agent_step.cases)

section \<open>Properties\<close>

text \<open>
  In every reachable agent registry \<open>get\<close> returns the runtime registered last under the name
  and still live, and raises \<open>AgentNotFound\<close> exactly when no live registration has that name;
  it never fails in another way.
\<close>

theorem agent_get_outcome:
  assumes "agent_reachable reg"
  shows "agent_get name reg = (case rev (filter (\<lambda>p. ae_name (snd p) = name) (ag_entries reg)) of
       [] \<Rightarrow> Inl (AgentNotFound (''agent '' @ py_repr name @ '' is not registered''))
     | p # ps \<Rightarrow> Inr (ae_runtime (snd p)))
     \<and> (agent_contains name reg \<longleftrightarrow> (\<exists>e. agent_get name reg = Inr e))"
proof -
  have ok: "index_ok ae_name (ag_entries reg) (ag_names reg)"
    using agents_ok_reachable [OF assms] by (simp add: agents_ok_def)
  note last = index_ok_last [OF ok, of name]
  have ix: "dict_get_or (ag_names reg) name [] = ids_of ae_name name (ag_entries reg)" using ok by (simp add: index_ok_def)
  have get: "agent_get name reg = (case rev (filter (\<lambda>p. ae_name (snd p) = name) (ag_entries reg)) of
       [] \<Rightarrow> Inl (AgentNotFound (''agent '' @ py_repr name @ '' is not registered''))
     | p # ps \<Rightarrow> Inr (ae_runtime (snd p)))"
  proof (cases "rev (filter (\<lambda>p. ae_name (snd p) = name) (ag_entries reg))")
    case Nil
    then show ?thesis by (simp add: agent_get_def ix ids_of_def)
  next
    case (Cons p ps)
    then have "ids_of ae_name name (ag_entries reg) \<noteq> []" by (auto simp: ids_of_def)
    then show ?thesis using last Cons by (simp add: agent_get_def ix)
  qed
  moreover have "ids_of ae_name name (ag_entries reg) = [] \<longleftrightarrow> rev (filter (\<lambda>p. ae_name (snd p) = name) (ag_entries reg)) = []"
    by (simp add: ids_of_def)
  ultimately show ?thesis
    using index_ok_names [OF ok, of name] by (auto simp: agent_contains_def split: list.splits)
qed

text \<open>Two plugins contribute an agent of the same name.\<close>

definition demo_agent :: "string \<Rightarrow> nat \<Rightarrow> nat agent_entry" where
  "demo_agent i s = \<lparr>ae_id = i, ae_name = ''planner'', ae_runtime = \<lparr>ar_name = Some ''planner'', ar_body = s\<rparr>, ae_scope_id = Some s\<rparr>"

definition demo_agents :: "nat agent_registry" where
  "demo_agents = agent_insert (demo_agent ''agent_2'' 2) (agent_insert (demo_agent ''agent_1'' 1) new_agent_registry)"

lemma demo_agents_reachable: "agent_reachable demo_agents"
  unfolding demo_agents_def
  by (rule areach_step [OF areach_step [OF areach_new astep_register] astep_register]; code_simp)

theorem agent_get_outcome_witness: "map_sum id ar_body (agent_get ''planner'' demo_agents) = Inr 2"
proof -
  have "rev (filter (\<lambda>p. ae_name (snd p) = ''planner'') (ag_entries demo_agents))
      = [(''agent_2'', demo_agent ''agent_2'' 2), (''agent_1'', demo_agent ''agent_1'' 1)]" by code_simp
  with agent_get_outcome [OF demo_agents_reachable, of "''planner''"] show ?thesis by (simp add: demo_agent_def)
qed

text \<open>
  A plugin that unregisters an agent name through its own facade removes exactly the
  registrations of its own scope; a same-named runtime of another plugin stays, and the call
  cannot fail.
\<close>

theorem agent_unregister_exact:
  assumes "agent_reachable reg"
  shows "fst (agent_unregister name (Some s) reg)
       = Inr (\<exists>p \<in> set (ag_entries reg). ae_name (snd p) = name \<and> ae_scope_id (snd p) = Some s)
     \<and> ag_entries (snd (agent_unregister name (Some s) reg))
       = filter (\<lambda>p. \<not> (ae_name (snd p) = name \<and> ae_scope_id (snd p) = Some s)) (ag_entries reg)"
proof -
  have ok: "agents_ok reg" by (rule agents_ok_reachable [OF assms])
  then have ix: "index_ok ae_name (ag_entries reg) (ag_names reg)" by (simp add: agents_ok_def)
  show ?thesis
    using agent_ids.release_where_exact [OF ok index_ok_ids(1,2) [OF ix], of "\<lambda>e. ae_scope_id e = Some s" name False]
      index_ok_ids(3) [OF ix, of _ name]
    by (auto simp: agent_unregister_def Let_def intro!: filter_cong)
qed

theorem agent_unregister_exact_witness:
  "fst (agent_unregister ''planner'' (Some 1) demo_agents) = Inr True
   \<and> map fst (ag_entries (snd (agent_unregister ''planner'' (Some 1) demo_agents))) = [''agent_2'']"
proof -
  have "map fst (filter (\<lambda>p. \<not> (ae_name (snd p) = ''planner'' \<and> ae_scope_id (snd p) = Some 1)) (ag_entries demo_agents)) = [''agent_2'']"
    "list_ex (\<lambda>p. ae_name (snd p) = ''planner'' \<and> ae_scope_id (snd p) = Some 1) (ag_entries demo_agents)"
    by code_simp+
  with agent_unregister_exact [OF demo_agents_reachable, of "''planner''" 1] show ?thesis
    by (simp add: list_ex_iff)
qed

end
