(* ===== verification/World.thy ===== *)
theory World
  imports Ownership Capabilities Hooks Tool_Props Agent_Registry
begin

text \<open>
  The registries a plugin contributes to, under scoped ownership: \<open>CapabilityRegistry.provide\<close>,
  \<open>HookRegistry.register\<close>, \<open>ToolRegistry.register\<close> and \<open>AgentRegistry.register\<close> with
  the scope they bind to. Each checks that the scope is open, stores an entry that carries the
  scope's identity, and pushes the withdrawal of that entry onto the scope's exit stack.

  The disposers of the scopes are the withdrawals of the four registries (\<open>cleanup\<close>) and the
  user's own callbacks, whose effect \<open>user\<close> acts on state of their own (\<open>wd_user\<close>).
\<close>

section \<open>State\<close>

datatype 'u cleanup =
    WithdrawCapability string
  | UnregisterHook string
  | ReleaseTool string
  | ReleaseAgent string
  | UserCleanup 'u

record ('v, 'o, 'h, 'x, 'r, 's) world =
  wd_caps :: "('v, 'o) cap_registry"
  wd_hooks :: "'h hook_registry"
  wd_tools :: "'x tool_registry"
  wd_agents :: "'r agent_registry"
  wd_user :: 's

fun run_cleanup :: "('u \<Rightarrow> 's callback) \<Rightarrow> 'u cleanup \<Rightarrow> ('v, 'o, 'h, 'x, 'r, 's) world callback" where
  "run_cleanup user (WithdrawCapability i) w = (None, w\<lparr>wd_caps := snd (cap_withdraw i (wd_caps w))\<rparr>)"
| "run_cleanup user (UnregisterHook i) w = (None, w\<lparr>wd_hooks := snd (hook_unregister i (wd_hooks w))\<rparr>)"
| "run_cleanup user (ReleaseTool i) w = (None, w\<lparr>wd_tools := snd (tool_release i (wd_tools w))\<rparr>)"
| "run_cleanup user (ReleaseAgent i) w = (None, w\<lparr>wd_agents := snd (agent_release i (wd_agents w))\<rparr>)"
| "run_cleanup user (UserCleanup u) w = (case user u (wd_user w) of (r, s) \<Rightarrow> (r, w\<lparr>wd_user := s\<rparr>))"

type_synonym ('v, 'o, 'h, 'x, 'r, 'u, 's) harness_state = "('u cleanup, ('v, 'o, 'h, 'x, 'r, 's) world) sys"

section \<open>Scoped registration\<close>

definition assert_scope_open :: "sid \<Rightarrow> string \<Rightarrow> ('f, 'w) sys \<Rightarrow> unit result" where
  "assert_scope_open s operation \<sigma> =
     (case sy_scopes \<sigma> s of
        None \<Rightarrow> Inl (ScopeClosedError ''unknown scope'')
      | Some sc \<Rightarrow> scope_assert_open sc operation)"

definition provide_capability ::
  "('v, 'x) packaging \<Rightarrow> string \<Rightarrow> sid \<Rightarrow> capability_key \<Rightarrow> 'o \<Rightarrow> (string + 'v) option \<Rightarrow> string \<Rightarrow> string
     \<Rightarrow> ('v, 'o, 'h, 't, 'r, 'u, 's) harness_state
     \<Rightarrow> ('v, 'o) registration result \<times> ('v, 'o, 'h, 't, 'r, 'u, 's) harness_state" where
  "provide_capability pk hex s key value version provider_id provider_name \<sigma> =
     (case assert_scope_open s (''provide capability '' @ show_key key) \<sigma> of
        Inl e \<Rightarrow> (Inl e, \<sigma>)
      | Inr _ \<Rightarrow>
          (case make_registration pk hex s key value version provider_id provider_name of
             Inl e \<Rightarrow> (Inl e, \<sigma>)
           | Inr g \<Rightarrow>
               (case scope_cleanup s (''capability '' @ show_key key @ '' from '' @ cr_provider_name g)
                       (CallCleanup (WithdrawCapability (cr_id g))) ''capability''
                       (\<sigma>\<lparr>sy_world := (sy_world \<sigma>)\<lparr>wd_caps := cap_insert g (wd_caps (sy_world \<sigma>))\<rparr>\<rparr>) of
                  (Inl e, \<sigma>') \<Rightarrow> (Inl e, \<sigma>')
                | (Inr _, \<sigma>') \<Rightarrow> (Inr g, \<sigma>'))))"

definition register_hook ::
  "string \<Rightarrow> sid \<Rightarrow> 'h hook_request \<Rightarrow> ('v, 'o, 'h, 't, 'r, 'u, 's) harness_state
     \<Rightarrow> 'h hook_registration result \<times> ('v, 'o, 'h, 't, 'r, 'u, 's) harness_state" where
  "register_hook hex s q \<sigma> =
     (case assert_scope_open s (''register hook for '' @ event_value (hq_event q)) \<sigma> of
        Inl e \<Rightarrow> (Inl e, \<sigma>)
      | Inr _ \<Rightarrow>
          (case hook_insert hex s q (wd_hooks (sy_world \<sigma>)) of
             (h, hooks) \<Rightarrow>
               (case scope_cleanup s (''hook '' @ event_value (hq_event q) @ '' ('' @ hk_handler_name h @ '')'')
                       (CallCleanup (UnregisterHook (hk_id h))) ''hook''
                       (\<sigma>\<lparr>sy_world := (sy_world \<sigma>)\<lparr>wd_hooks := hooks\<rparr>\<rparr>) of
                  (Inl e, \<sigma>') \<Rightarrow> (Inl e, \<sigma>')
                | (Inr _, \<sigma>') \<Rightarrow> (Inr h, \<sigma>'))))"

definition register_tool ::
  "string \<Rightarrow> sid \<Rightarrow> 't tool_request \<Rightarrow> ('v, 'o, 'h, 't, 'r, 'u, 's) harness_state
     \<Rightarrow> 't tool_entry result \<times> ('v, 'o, 'h, 't, 'r, 'u, 's) harness_state" where
  "register_tool hex s q \<sigma> =
     (case assert_scope_open s (''register tool '' @ (case tl_name (tq_tool q) of None \<Rightarrow> ''?'' | Some n \<Rightarrow> n)) \<sigma> of
        Inl e \<Rightarrow> (Inl e, \<sigma>)
      | Inr _ \<Rightarrow>
          (case tool_check (tq_tool q) of
             Inl e \<Rightarrow> (Inl e, \<sigma>)
           | Inr _ \<Rightarrow>
               let entry = tool_entry_of hex s q
               in (case scope_cleanup s (''tool '' @ te_name entry) (CallCleanup (ReleaseTool (te_id entry))) ''tool''
                        (\<sigma>\<lparr>sy_world := (sy_world \<sigma>)\<lparr>wd_tools := tool_insert entry (wd_tools (sy_world \<sigma>))\<rparr>\<rparr>) of
                     (Inl e, \<sigma>') \<Rightarrow> (Inl e, \<sigma>')
                   | (Inr _, \<sigma>') \<Rightarrow> (Inr entry, \<sigma>'))))"

text \<open>
  An agent runtime may bind the services of the harness: user code that runs between the checks and
  the registration, on the user's state, and may raise. Ownership is registered before the entry is
  published; without a scope the entry is not owned.
\<close>

definition register_agent ::
  "('r agent_runtime \<Rightarrow> 's callback) \<Rightarrow> string \<Rightarrow> sid option \<Rightarrow> 'r agent_runtime \<Rightarrow> bool
     \<Rightarrow> ('v, 'o, 'h, 't, 'r, 'u, 's) harness_state
     \<Rightarrow> 'r agent_runtime result \<times> ('v, 'o, 'h, 't, 'r, 'u, 's) harness_state" where
  "register_agent binding hex scope runtime replace \<sigma> =
     (case agent_name runtime of
        Inl e \<Rightarrow> (Inl e, \<sigma>)
      | Inr name \<Rightarrow>
          (case (case scope of None \<Rightarrow> Inr () | Some s \<Rightarrow> assert_scope_open s (''register agent '' @ py_repr name) \<sigma>) of
             Inl e \<Rightarrow> (Inl e, \<sigma>)
           | Inr _ \<Rightarrow>
               (case agent_free name replace (wd_agents (sy_world \<sigma>)) of
                  Inl e \<Rightarrow> (Inl e, \<sigma>)
                | Inr _ \<Rightarrow>
                    let entry = \<lparr>ae_id = ''agent_'' @ hex, ae_name = name, ae_runtime = runtime, ae_scope_id = scope\<rparr>;
                        publish = (\<lambda>\<sigma>. \<sigma>\<lparr>sy_world := (sy_world \<sigma>)\<lparr>wd_agents := agent_insert entry (wd_agents (sy_world \<sigma>))\<rparr>\<rparr>)
                    in (case binding runtime (wd_user (sy_world \<sigma>)) of
                          (Some e, u) \<Rightarrow> (Inl e, \<sigma>\<lparr>sy_world := (sy_world \<sigma>)\<lparr>wd_user := u\<rparr>\<rparr>)
                        | (None, u) \<Rightarrow>
                            let \<sigma>1 = \<sigma>\<lparr>sy_world := (sy_world \<sigma>)\<lparr>wd_user := u\<rparr>\<rparr>
                            in (case scope of
                                  None \<Rightarrow> (Inr runtime, publish \<sigma>1)
                                | Some s \<Rightarrow>
                                    (case scope_cleanup s (''agent '' @ name) (CallCleanup (ReleaseAgent (ae_id entry))) ''agent'' \<sigma>1 of
                                       (Inl e, \<sigma>2) \<Rightarrow> (Inl e, \<sigma>2)
                                     | (Inr _, \<sigma>2) \<Rightarrow> (Inr runtime, publish \<sigma>2)))))))"

section \<open>Owners\<close>

definition cap_owner :: "('v, 'o, 'h, 't, 'r, 's) world \<Rightarrow> string \<Rightarrow> sid option" where
  "cap_owner w i = map_option cr_scope_id (map_of (wd_caps w) i)"

definition hook_owner :: "('v, 'o, 'h, 't, 'r, 's) world \<Rightarrow> string \<Rightarrow> sid option" where
  "hook_owner w i = map_option hk_scope_id (map_of (hr_registrations (wd_hooks w)) i)"

definition tool_owner :: "('v, 'o, 'h, 't, 'r, 's) world \<Rightarrow> string \<Rightarrow> sid option" where
  "tool_owner w i = map_option (\<lambda>r. te_scope_id (rt_data r)) (map_of (tr_entries (wd_tools w)) i)"

definition agent_owner :: "('v, 'o, 'h, 't, 'r, 's) world \<Rightarrow> string \<Rightarrow> sid option" where
  "agent_owner w i = Option.bind (map_of (ag_entries (wd_agents w)) i) ae_scope_id"

fun withdraws_cap :: "'u cleanup \<Rightarrow> string option" where
  "withdraws_cap (WithdrawCapability i) = Some i"
| "withdraws_cap _ = None"

fun withdraws_hook :: "'u cleanup \<Rightarrow> string option" where
  "withdraws_hook (UnregisterHook i) = Some i"
| "withdraws_hook _ = None"

fun withdraws_tool :: "'u cleanup \<Rightarrow> string option" where
  "withdraws_tool (ReleaseTool i) = Some i"
| "withdraws_tool _ = None"

fun withdraws_agent :: "'u cleanup \<Rightarrow> string option" where
  "withdraws_agent (ReleaseAgent i) = Some i"
| "withdraws_agent _ = None"

interpretation caps: owned_entries cap_owner withdraws_cap "run_cleanup user"
  by unfold_locales (case_tac f; simp add: cap_owner_def cap_withdraw_def dict_simps split: prod.split)+

interpretation hooks: owned_entries hook_owner withdraws_hook "run_cleanup user"
  by unfold_locales (case_tac f; simp add: hook_owner_def hook_unregister_def dict_simps split: prod.split)+

interpretation tools: owned_entries tool_owner withdraws_tool "run_cleanup user"
  by unfold_locales (case_tac f; simp add: tool_owner_def tool_release_entries dict_simps split: prod.split)+

interpretation agents: owned_entries agent_owner withdraws_agent "run_cleanup user"
  by unfold_locales (case_tac f; simp add: agent_owner_def agent_release_entries dict_simps split: prod.split)+

end
