(* ===== verification/World_Props.thy ===== *)
theory World_Props
  imports World
begin

text \<open>
  The life of a harness: scope operations of user code, closes, registrations, early removals.
  In every reachable state each registration belongs to an open scope that will withdraw it, and no
  scope withdraws the registration of another; a close therefore removes exactly the registrations
  of the scopes it closes.
\<close>

section \<open>Steps\<close>

text \<open>
  Identifiers come from \<open>uuid4\<close>: the one drawn for a registration is in no registry and no
  pending withdrawal (\<open>unclaimed\<close>). A scope operation of user code registers callbacks of the
  user only and leaves the registries alone.
\<close>

definition same_registries :: "('v, 'o, 'h, 't, 'r, 's) world \<Rightarrow> ('v, 'o, 'h, 't, 'r, 's) world \<Rightarrow> bool" where
  "same_registries w w' \<longleftrightarrow> wd_caps w' = wd_caps w \<and> wd_hooks w' = wd_hooks w \<and> wd_tools w' = wd_tools w \<and> wd_agents w' = wd_agents w"

definition user_cleanups_only :: "('v, 'o, 'h, 't, 'r, 'u, 's) harness_state \<Rightarrow> ('v, 'o, 'h, 't, 'r, 'u, 's) harness_state \<Rightarrow> bool" where
  "user_cleanups_only \<sigma> \<sigma>' \<longleftrightarrow> (\<forall>s sc' h f. sy_scopes \<sigma>' s = Some sc' \<and> h \<in> set (sc_stack sc') \<and> calls (snd h) = Some f
     \<longrightarrow> (\<exists>u. f = UserCleanup u) \<or> (\<exists>sc. sy_scopes \<sigma> s = Some sc \<and> h \<in> set (sc_stack sc)))"

abbreviation on_world :: "('w \<Rightarrow> 'w) \<Rightarrow> ('f, 'w) sys \<Rightarrow> ('f, 'w) sys" where
  "on_world g \<sigma> \<equiv> \<sigma>\<lparr>sy_world := g (sy_world \<sigma>)\<rparr>"

inductive world_step ::
  "('v, 'x) packaging \<Rightarrow> ('u \<Rightarrow> 's callback) \<Rightarrow> ('r agent_runtime \<Rightarrow> 's callback)
     \<Rightarrow> ('v, 'o, 'h, 't, 'r, 'u, 's) harness_state \<Rightarrow> ('v, 'o, 'h, 't, 'r, 'u, 's) harness_state \<Rightarrow> bool"
  for pk user binding where
  ws_scope: "scope_step (run_cleanup user) \<sigma> \<sigma>' \<Longrightarrow> same_registries (sy_world \<sigma>) (sy_world \<sigma>') \<Longrightarrow> user_cleanups_only \<sigma> \<sigma>'
     \<Longrightarrow> world_step pk user binding \<sigma> \<sigma>'"
| ws_close: "scope_aclose (sy_next \<sigma>) tasks (run_cleanup user) s \<sigma> = Some (e, \<sigma>') \<Longrightarrow> world_step pk user binding \<sigma> \<sigma>'"
| ws_provide: "unclaimed withdraws_cap (''cap_'' @ hex) \<sigma>
     \<Longrightarrow> provide_capability pk hex s key value version provider_id provider_name \<sigma> = (g, \<sigma>') \<Longrightarrow> world_step pk user binding \<sigma> \<sigma>'"
| ws_hook: "unclaimed withdraws_hook (''hook_'' @ hex) \<sigma> \<Longrightarrow> register_hook hex s hq \<sigma> = (h, \<sigma>') \<Longrightarrow> world_step pk user binding \<sigma> \<sigma>'"
| ws_tool: "unclaimed withdraws_tool (''tool_'' @ hex) \<sigma> \<Longrightarrow> map_of (tr_entries (wd_tools (sy_world \<sigma>))) (''tool_'' @ hex) = None
     \<Longrightarrow> register_tool hex s tq \<sigma> = (t, \<sigma>') \<Longrightarrow> world_step pk user binding \<sigma> \<sigma>'"
| ws_agent: "unclaimed withdraws_agent (''agent_'' @ hex) \<sigma>
     \<Longrightarrow> register_agent binding hex scope runtime replace \<sigma> = (a, \<sigma>') \<Longrightarrow> world_step pk user binding \<sigma> \<sigma>'"
| ws_withdraw: "world_step pk user binding \<sigma> (on_world (\<lambda>w. w\<lparr>wd_caps := snd (cap_withdraw i (wd_caps w))\<rparr>) \<sigma>)"
| ws_withdraw_provider: "world_step pk user binding \<sigma> (on_world (\<lambda>w. w\<lparr>wd_caps := snd (cap_withdraw_provider p (wd_caps w))\<rparr>) \<sigma>)"
| ws_unregister_hook: "world_step pk user binding \<sigma> (on_world (\<lambda>w. w\<lparr>wd_hooks := snd (hook_unregister i (wd_hooks w))\<rparr>) \<sigma>)"
| ws_unregister_tool: "world_step pk user binding \<sigma> (on_world (\<lambda>w. w\<lparr>wd_tools := snd (tool_unregister name owner (wd_tools w))\<rparr>) \<sigma>)"
| ws_rewire_tool: "world_step pk user binding \<sigma> (on_world (\<lambda>w. w\<lparr>wd_tools := tool_rewire i policy metadata (wd_tools w)\<rparr>) \<sigma>)"
| ws_snapshot_tools: "world_step pk user binding \<sigma> (on_world (\<lambda>w. w\<lparr>wd_tools := snd (take_tool_snapshot gid owners (wd_tools w))\<rparr>) \<sigma>)"
| ws_unregister_agent: "world_step pk user binding \<sigma> (on_world (\<lambda>w. w\<lparr>wd_agents := snd (agent_unregister name scope_id (wd_agents w))\<rparr>) \<sigma>)"

definition empty_world :: "'s \<Rightarrow> ('v, 'o, 'h, 't, 'r, 's) world" where
  "empty_world s = \<lparr>wd_caps = [], wd_hooks = new_hook_registry, wd_tools = new_tool_registry,
     wd_agents = new_agent_registry, wd_user = s\<rparr>"

inductive world_reachable ::
  "('v, 'x) packaging \<Rightarrow> ('u \<Rightarrow> 's callback) \<Rightarrow> ('r agent_runtime \<Rightarrow> 's callback)
     \<Rightarrow> ('v, 'o, 'h, 't, 'r, 'u, 's) harness_state \<Rightarrow> bool"
  for pk user binding where
  wreach_root: "world_reachable pk user binding (root_store name (empty_world s))"
| wreach_step: "world_reachable pk user binding \<sigma> \<Longrightarrow> world_step pk user binding \<sigma> \<sigma>' \<Longrightarrow> world_reachable pk user binding \<sigma>'"

section \<open>The invariant\<close>

definition world_ok :: "('v, 'o, 'h, 't, 'r, 'u, 's) harness_state \<Rightarrow> bool" where
  "world_ok \<sigma> \<longleftrightarrow> store_ok \<sigma> \<and> linked \<sigma> \<and> tools_ok (wd_tools (sy_world \<sigma>))
     \<and> contract cap_owner withdraws_cap \<sigma> \<and> contract hook_owner withdraws_hook \<sigma>
     \<and> contract tool_owner withdraws_tool \<sigma> \<and> contract agent_owner withdraws_agent \<sigma>"

lemmas owner_defs = cap_owner_def hook_owner_def tool_owner_def agent_owner_def

text \<open>What a registration leaves behind, whichever registry it is for.\<close>

definition registers ::
  "('v, 'o, 'h, 't, 'r, 'u, 's) harness_state \<Rightarrow> ('v, 'o, 'h, 't, 'r, 's) world \<Rightarrow> sid \<Rightarrow> 'u cleanup
     \<Rightarrow> ('v, 'o, 'h, 't, 'r, 'u, 's) harness_state \<Rightarrow> bool" where
  "registers \<sigma> w s f \<sigma>' \<longleftrightarrow> (\<exists>d kind fx. scope_cleanup s d (CallCleanup f) kind (\<sigma>\<lparr>sy_world := w\<rparr>) = (Inr fx, \<sigma>'))"

lemma cleanup_total:
  assumes "assert_scope_open s operation \<sigma> = Inr u" "scope_cleanup s d f kind (\<sigma>\<lparr>sy_world := w\<rparr>) = (r, \<sigma>')"
  shows "\<exists>fx. r = Inr fx"
  using assms
  by (auto simp: assert_scope_open_def scope_assert_open_def scope_cleanup_def register_effect_def Let_def
      split: option.splits if_splits)

lemma cleanup_on_world:
  "scope_cleanup s d f kind (\<sigma>\<lparr>sy_world := w\<rparr>) = (case scope_cleanup s d f kind \<sigma> of (r, \<sigma>') \<Rightarrow> (r, \<sigma>'\<lparr>sy_world := w\<rparr>))"
proof (cases "sy_scopes \<sigma> s")
  case (Some sc)
  then show ?thesis
    by (cases \<sigma>; cases "sc_state sc = SCOPE_OPEN")
       (simp_all add: scope_cleanup_def register_effect_def scope_assert_open_def Let_def push_exit_def
         put_scope_def update_scope_def fun_eq_iff)
qed (simp add: scope_cleanup_def register_effect_def)

lemma provide_shape:
  assumes "provide_capability pk hex s key value version pid pname \<sigma> = (r, \<sigma>')"
  shows "\<sigma>' = \<sigma> \<or> (\<exists>g. cr_id g = ''cap_'' @ hex \<and> cr_scope_id g = s
     \<and> registers \<sigma> ((sy_world \<sigma>)\<lparr>wd_caps := cap_insert g (wd_caps (sy_world \<sigma>))\<rparr>) s (WithdrawCapability (cr_id g)) \<sigma>')"
proof (cases "assert_scope_open s (''provide capability '' @ show_key key) \<sigma>")
  case (Inr u)
  show ?thesis
  proof (cases "make_registration pk hex s key value version pid pname")
    case (Inr g)
    then have g: "cr_id g = ''cap_'' @ hex" "cr_scope_id g = s"
      by (auto simp: make_registration_def bind_result_eq_Inr split: if_splits)
    let ?run = "scope_cleanup s (''capability '' @ show_key key @ '' from '' @ cr_provider_name g)
       (CallCleanup (WithdrawCapability (cr_id g))) ''capability'' (\<sigma>\<lparr>sy_world := (sy_world \<sigma>)\<lparr>wd_caps := cap_insert g (wd_caps (sy_world \<sigma>))\<rparr>\<rparr>)"
    obtain q \<sigma>1 where c: "?run = (q, \<sigma>1)" by fastforce
    then obtain fx where "q = Inr fx"
      using cleanup_total [OF \<open>assert_scope_open s _ \<sigma> = Inr u\<close>] by blast
    then have "\<sigma>' = \<sigma>1" using assms \<open>assert_scope_open s _ \<sigma> = Inr u\<close> Inr c by (simp add: provide_capability_def)
    then show ?thesis using g c \<open>q = Inr fx\<close> unfolding registers_def by blast
  qed (use assms Inr in \<open>simp add: provide_capability_def\<close>)
qed (use assms in \<open>simp add: provide_capability_def\<close>)

lemma hook_shape:
  assumes "register_hook hex s q \<sigma> = (r, \<sigma>')"
  shows "\<sigma>' = \<sigma> \<or> registers \<sigma> ((sy_world \<sigma>)\<lparr>wd_hooks := snd (hook_insert hex s q (wd_hooks (sy_world \<sigma>)))\<rparr>) s
     (UnregisterHook (''hook_'' @ hex)) \<sigma>'"
proof (cases "assert_scope_open s (''register hook for '' @ event_value (hq_event q)) \<sigma>")
  case (Inr u)
  obtain h hooks where h: "hook_insert hex s q (wd_hooks (sy_world \<sigma>)) = (h, hooks)" by fastforce
  then have i: "hk_id h = ''hook_'' @ hex" by (auto simp: hook_insert_def Let_def)
  let ?run = "scope_cleanup s (''hook '' @ event_value (hq_event q) @ '' ('' @ hk_handler_name h @ '')'')
     (CallCleanup (UnregisterHook (hk_id h))) ''hook'' (\<sigma>\<lparr>sy_world := (sy_world \<sigma>)\<lparr>wd_hooks := hooks\<rparr>\<rparr>)"
  obtain q1 \<sigma>1 where c: "?run = (q1, \<sigma>1)" by fastforce
  then obtain fx where "q1 = Inr fx" using cleanup_total [OF Inr] by blast
  then have "\<sigma>' = \<sigma>1" using assms Inr h c by (simp add: register_hook_def)
  then show ?thesis using h i c \<open>q1 = Inr fx\<close> unfolding registers_def by auto
qed (use assms in \<open>simp add: register_hook_def\<close>)

lemma tool_shape:
  assumes "register_tool hex s q \<sigma> = (r, \<sigma>')"
  shows "\<sigma>' = \<sigma> \<or> registers \<sigma> ((sy_world \<sigma>)\<lparr>wd_tools := tool_insert (tool_entry_of hex s q) (wd_tools (sy_world \<sigma>))\<rparr>) s
     (ReleaseTool (''tool_'' @ hex)) \<sigma>'"
proof (cases "assert_scope_open s (''register tool '' @ (case tl_name (tq_tool q) of None \<Rightarrow> ''?'' | Some n \<Rightarrow> n)) \<sigma>")
  case (Inr u)
  show ?thesis
  proof (cases "tool_check (tq_tool q)")
    case (Inr v)
    let ?e = "tool_entry_of hex s q"
    have i: "te_id ?e = ''tool_'' @ hex" by (simp add: tool_entry_of_def)
    let ?run = "scope_cleanup s (''tool '' @ te_name ?e) (CallCleanup (ReleaseTool (te_id ?e))) ''tool''
       (\<sigma>\<lparr>sy_world := (sy_world \<sigma>)\<lparr>wd_tools := tool_insert ?e (wd_tools (sy_world \<sigma>))\<rparr>\<rparr>)"
    obtain q1 \<sigma>1 where c: "?run = (q1, \<sigma>1)" by fastforce
    then obtain fx where "q1 = Inr fx" using cleanup_total [OF \<open>assert_scope_open s _ \<sigma> = Inr u\<close>] by blast
    then have "\<sigma>' = \<sigma>1" using assms Inr \<open>assert_scope_open s _ \<sigma> = Inr u\<close> c by (simp add: register_tool_def Let_def)
    then show ?thesis using i c \<open>q1 = Inr fx\<close> unfolding registers_def by auto
  qed (use assms Inr in \<open>simp add: register_tool_def\<close>)
qed (use assms in \<open>simp add: register_tool_def\<close>)

lemma agent_shape:
  assumes "register_agent binding hex scope runtime replace \<sigma> = (r, \<sigma>')"
  shows "(\<exists>w. same_registries (sy_world \<sigma>) w \<and> \<sigma>' = \<sigma>\<lparr>sy_world := w\<rparr>)
     \<or> (\<exists>e u. ae_id e = ''agent_'' @ hex \<and> ae_scope_id e = scope \<and>
          (let w = (sy_world \<sigma>)\<lparr>wd_user := u, wd_agents := agent_insert e (wd_agents (sy_world \<sigma>))\<rparr>
           in (scope = None \<and> \<sigma>' = \<sigma>\<lparr>sy_world := w\<rparr>) \<or> (\<exists>s. scope = Some s \<and> registers \<sigma> w s (ReleaseAgent (''agent_'' @ hex)) \<sigma>')))"
proof -
  have same: "\<exists>w. same_registries (sy_world \<sigma>) w \<and> \<sigma> = \<sigma>\<lparr>sy_world := w\<rparr>"
    by (intro exI [of _ "sy_world \<sigma>"]) (simp add: same_registries_def)
  show ?thesis
  proof (cases "agent_name runtime")
    case (Inl e)
    then show ?thesis using assms same by (simp add: register_agent_def)
  next
    case (Inr name)
    let ?gate = "case scope of None \<Rightarrow> Inr () | Some s \<Rightarrow> assert_scope_open s (''register agent '' @ py_repr name) \<sigma>"
    consider (stop) "\<exists>e. ?gate = Inl e \<or> agent_free name replace (wd_agents (sy_world \<sigma>)) = Inl e"
      | (go) "?gate = Inr ()" "agent_free name replace (wd_agents (sy_world \<sigma>)) = Inr ()"
      by (cases "?gate"; cases "agent_free name replace (wd_agents (sy_world \<sigma>))") auto
    then show ?thesis
    proof cases
      case stop
      then have "\<sigma>' = \<sigma>" using assms Inr by (auto simp: register_agent_def split: sum.splits)
      then show ?thesis using same by simp
    next
      case go
      let ?e = "\<lparr>ae_id = ''agent_'' @ hex, ae_name = name, ae_runtime = runtime, ae_scope_id = scope\<rparr>"
      obtain b u where b: "binding runtime (wd_user (sy_world \<sigma>)) = (b, u)" by fastforce
      let ?w = "(sy_world \<sigma>)\<lparr>wd_user := u, wd_agents := agent_insert ?e (wd_agents (sy_world \<sigma>))\<rparr>"
      show ?thesis
      proof (cases b)
        case (Some x)
        then have "\<sigma>' = \<sigma>\<lparr>sy_world := (sy_world \<sigma>)\<lparr>wd_user := u\<rparr>\<rparr>"
          using assms Inr go b by (simp add: register_agent_def Let_def)
        then show ?thesis
          by (intro disjI1 exI [of _ "(sy_world \<sigma>)\<lparr>wd_user := u\<rparr>"]) (simp add: same_registries_def)
      next
        case None
        show ?thesis
        proof (cases scope)
          case None
          then have "\<sigma>' = \<sigma>\<lparr>sy_world := ?w\<rparr>"
            using assms Inr go b \<open>b = None\<close> by (simp add: register_agent_def Let_def)
          then show ?thesis using None by (intro disjI2 exI [of _ ?e] exI [of _ u]) simp
        next
          case (Some s)
          have open_s: "assert_scope_open s (''register agent '' @ py_repr name) \<sigma> = Inr ()" using go(1) Some by simp
          let ?run = "\<lambda>w. scope_cleanup s (''agent '' @ name) (CallCleanup (ReleaseAgent (''agent_'' @ hex))) ''agent'' (\<sigma>\<lparr>sy_world := w\<rparr>)"
          obtain q \<sigma>2 where c: "?run ((sy_world \<sigma>)\<lparr>wd_user := u\<rparr>) = (q, \<sigma>2)" by fastforce
          then obtain fx where q: "q = Inr fx" using cleanup_total [OF open_s] by blast
          have "sy_world \<sigma>2 = (sy_world \<sigma>)\<lparr>wd_user := u\<rparr>" using cleanup_world [OF c] by simp
          then have "\<sigma>' = \<sigma>2\<lparr>sy_world := ?w\<rparr>"
            using assms Inr go b None Some open_s c q by (simp add: register_agent_def Let_def)
          moreover have "?run ?w = (q, \<sigma>2\<lparr>sy_world := ?w\<rparr>)"
            using c cleanup_on_world [of s "''agent '' @ name" _ "''agent''" ?w "\<sigma>\<lparr>sy_world := (sy_world \<sigma>)\<lparr>wd_user := u\<rparr>\<rparr>"] by simp
          ultimately have "registers \<sigma> ?w s (ReleaseAgent (''agent_'' @ hex)) \<sigma>'" using q unfolding registers_def by blast
          then show ?thesis using Some by (intro disjI2 exI [of _ ?e] exI [of _ u]) simp
        qed
      qed
    qed
  qed
qed

section \<open>Preservation\<close>

lemma linked_world [simp]: "linked (\<sigma>\<lparr>sy_world := w\<rparr>) = linked \<sigma>"
  by (simp add: linked_def hangs_def)

lemma world_ok_registers:
  assumes "world_ok \<sigma>" "registers \<sigma> w s f \<sigma>'" "tools_ok (wd_tools w)"
    and "extends cap_owner withdraws_cap \<sigma> w s f" "extends hook_owner withdraws_hook \<sigma> w s f"
    and "extends tool_owner withdraws_tool \<sigma> w s f" "extends agent_owner withdraws_agent \<sigma> w s f"
  shows "world_ok \<sigma>'"
proof -
  obtain d kind fx where c: "scope_cleanup s d (CallCleanup f) kind (\<sigma>\<lparr>sy_world := w\<rparr>) = (Inr fx, \<sigma>')"
    using assms(2) by (auto simp: registers_def)
  have step: "scope_step (run_cleanup user) (\<sigma>\<lparr>sy_world := w\<rparr>) \<sigma>'" for user :: "'a \<Rightarrow> 'g callback"
    by (rule step_cleanup [OF c])
  have "store_ok \<sigma>'" "linked \<sigma>'"
    using store_ok_step [OF step] linked_step [OF step] assms(1) by (simp_all add: world_ok_def)
  moreover have "tools_ok (wd_tools (sy_world \<sigma>'))" using cleanup_world [OF c] assms(3) by simp
  ultimately show ?thesis
    using caps.contract_extends [OF _ c assms(4)] hooks.contract_extends [OF _ c assms(5)]
      tools.contract_extends [OF _ c assms(6)] agents.contract_extends [OF _ c assms(7)] assms(1)
    by (simp add: world_ok_def)
qed

text \<open>Changes of the registries that add no entry.\<close>

lemma contract_on_world:
  assumes "contract owner_of withdraws \<sigma>" "\<And>k s. owner_of w k = Some s \<Longrightarrow> owner_of (sy_world \<sigma>) k = Some s"
  shows "contract owner_of withdraws (\<sigma>\<lparr>sy_world := w\<rparr>)"
  using assms by (simp add: contract_def owned_by_def private_cleanups_def) metis

lemma world_ok_fewer:
  assumes "world_ok \<sigma>" "tools_ok (wd_tools w)"
    and "\<And>k s. cap_owner w k = Some s \<Longrightarrow> cap_owner (sy_world \<sigma>) k = Some s"
    and "\<And>k s. hook_owner w k = Some s \<Longrightarrow> hook_owner (sy_world \<sigma>) k = Some s"
    and "\<And>k s. tool_owner w k = Some s \<Longrightarrow> tool_owner (sy_world \<sigma>) k = Some s"
    and "\<And>k s. agent_owner w k = Some s \<Longrightarrow> agent_owner (sy_world \<sigma>) k = Some s"
  shows "world_ok (\<sigma>\<lparr>sy_world := w\<rparr>)"
  using assms by (simp add: world_ok_def contract_on_world)

lemma withdraw_provider_shrinks:
  fixes reg :: "('v, 'o) cap_registry"
  shows "map_of (snd (cap_withdraw_provider p reg)) k = Some g \<Longrightarrow> map_of reg k = Some g"
proof -
  have "map_of (fold (\<lambda>g r. snd (cap_withdraw (cr_id g) r)) gs r) k = Some g \<Longrightarrow> map_of r k = Some g" for gs and r :: "('v, 'o) cap_registry"
  proof (induction gs arbitrary: r)
    case (Cons h gs)
    then have "map_of (snd (cap_withdraw (cr_id h) r)) k = Some g" by simp
    then show ?case by (simp add: cap_withdraw_def dict_simps split: if_splits)
  qed simp
  then show "map_of (snd (cap_withdraw_provider p reg)) k = Some g \<Longrightarrow> map_of reg k = Some g"
    by (simp add: cap_withdraw_provider_def Let_def)
qed

lemma unregister_tool_shrinks: "map_of (tr_entries (snd (tool_unregister name owner reg))) k = Some r \<Longrightarrow> map_of (tr_entries reg) k = Some r"
  by (cases owner)
     (auto simp: tool_unregister_def release_owned_def Let_def split_beta tool_release_entries dict_simps
       split: if_splits dest: tool_ids.release_where_shrinks)

lemma unregister_agent_shrinks: "map_of (ag_entries (snd (agent_unregister name scope_id reg))) k = Some e \<Longrightarrow> map_of (ag_entries reg) k = Some e"
  by (cases scope_id)
     (auto simp: agent_unregister_def Let_def split_beta agent_release_entries dict_simps
       split: if_splits dest: agent_ids.release_where_shrinks)

lemma rewire_keeps_scope:
  "map_option (\<lambda>r. te_scope_id (rt_data r)) (map_of (tr_entries (tool_rewire i policy metadata reg)) k)
     = map_option (\<lambda>r. te_scope_id (rt_data r)) (map_of (tr_entries reg) k)"
  by (auto simp: tool_rewire_def dict_simps split: option.split)

lemma snapshot_keeps_tools:
  assumes "tools_ok reg"
  shows "same_tools reg (snd (take_tool_snapshot gid owners reg))"
proof -
  have "same_tools reg (fold publish_entry rs reg)"
    if "tools_ok reg" "\<forall>r \<in> set rs. map_option rt_data (map_of (tr_entries reg) (te_id (rt_data r))) = Some (rt_data r)"
    for rs and reg :: "'a tool_registry"
    using that
  proof (induction rs arbitrary: reg)
    case (Cons r rs)
    then have p: "tools_ok (publish_entry r reg)" "same_tools reg (publish_entry r reg)"
      using publish_same by (metis list.set_intros(1))+
    then have "same_tools (publish_entry r reg) (fold publish_entry rs (publish_entry r reg))"
      using Cons by (intro Cons.IH) (auto simp: same_tools_def)
    with p(2) show ?case by (simp add: same_tools_def)
  qed (simp add: same_tools_def)
  with assms show ?thesis
    by (auto simp: take_tool_snapshot_def Let_def selected_known split: option.split)
qed

section \<open>Every step keeps the invariant\<close>

lemma world_ok_provide:
  assumes "world_ok \<sigma>" "unclaimed withdraws_cap (''cap_'' @ hex) \<sigma>"
    and "provide_capability pk hex s key value version pid pname \<sigma> = (r, \<sigma>')"
  shows "world_ok \<sigma>'"
proof -
  { fix g assume g: "cr_id g = ''cap_'' @ hex" "cr_scope_id g = s"
      and r: "registers \<sigma> ((sy_world \<sigma>)\<lparr>wd_caps := cap_insert g (wd_caps (sy_world \<sigma>))\<rparr>) s (WithdrawCapability (cr_id g)) \<sigma>'"
    have "world_ok \<sigma>'"
      by (rule world_ok_registers [OF assms(1) r])
         (use assms(1,2) g in \<open>auto simp: extends_def owner_defs cap_insert_def dict_simps world_ok_def\<close>) }
  then show ?thesis using provide_shape [OF assms(3)] assms(1) by blast
qed

lemma world_ok_hook:
  assumes "world_ok \<sigma>" "unclaimed withdraws_hook (''hook_'' @ hex) \<sigma>" "register_hook hex s q \<sigma> = (r, \<sigma>')"
  shows "world_ok \<sigma>'"
proof -
  { assume r: "registers \<sigma> ((sy_world \<sigma>)\<lparr>wd_hooks := snd (hook_insert hex s q (wd_hooks (sy_world \<sigma>)))\<rparr>) s
       (UnregisterHook (''hook_'' @ hex)) \<sigma>'"
    have "world_ok \<sigma>'"
      by (rule world_ok_registers [OF assms(1) r])
         (use assms(1,2) in \<open>auto simp: extends_def owner_defs hook_insert_def Let_def dict_simps world_ok_def\<close>) }
  then show ?thesis using hook_shape [OF assms(3)] assms(1) by blast
qed

lemma world_ok_tool:
  assumes "world_ok \<sigma>" "unclaimed withdraws_tool (''tool_'' @ hex) \<sigma>"
    and "map_of (tr_entries (wd_tools (sy_world \<sigma>))) (''tool_'' @ hex) = None" "register_tool hex s q \<sigma> = (r, \<sigma>')"
  shows "world_ok \<sigma>'"
proof -
  have i: "te_id (tool_entry_of hex s q) = ''tool_'' @ hex" "te_scope_id (tool_entry_of hex s q) = s"
    by (simp_all add: tool_entry_of_def)
  have ok: "tools_ok (tool_insert (tool_entry_of hex s q) (wd_tools (sy_world \<sigma>)))"
    using assms(1,3) i by (intro tools_ok_insert) (simp_all add: world_ok_def)
  { assume r: "registers \<sigma> ((sy_world \<sigma>)\<lparr>wd_tools := tool_insert (tool_entry_of hex s q) (wd_tools (sy_world \<sigma>))\<rparr>) s
       (ReleaseTool (''tool_'' @ hex)) \<sigma>'"
    have "world_ok \<sigma>'"
      by (rule world_ok_registers [OF assms(1) r])
         (use assms(2) i ok in \<open>auto simp: extends_def owner_defs tool_insert_def dict_simps\<close>) }
  then show ?thesis using tool_shape [OF assms(4)] assms(1) by blast
qed

lemma world_ok_same:
  assumes "world_ok \<sigma>" "same_registries (sy_world \<sigma>) w"
  shows "world_ok (\<sigma>\<lparr>sy_world := w\<rparr>)"
  by (rule world_ok_fewer [OF assms(1)]) (use assms in \<open>auto simp: same_registries_def owner_defs world_ok_def\<close>)

lemma world_ok_agent:
  assumes "world_ok \<sigma>" "unclaimed withdraws_agent (''agent_'' @ hex) \<sigma>"
    and "register_agent binding hex scope runtime replace \<sigma> = (r, \<sigma>')"
  shows "world_ok \<sigma>'"
proof -
  let ?w = "\<lambda>e u. (sy_world \<sigma>)\<lparr>wd_user := u, wd_agents := agent_insert e (wd_agents (sy_world \<sigma>))\<rparr>"
  from agent_shape [OF assms(3)] consider
      (same) w where "same_registries (sy_world \<sigma>) w" "\<sigma>' = \<sigma>\<lparr>sy_world := w\<rparr>"
    | (free) e u where "ae_id e = ''agent_'' @ hex" "ae_scope_id e = None" "\<sigma>' = \<sigma>\<lparr>sy_world := ?w e u\<rparr>"
    | (owned) e u s where "ae_id e = ''agent_'' @ hex" "ae_scope_id e = Some s"
        "registers \<sigma> (?w e u) s (ReleaseAgent (''agent_'' @ hex)) \<sigma>'"
    by (auto simp: Let_def)
  then show ?thesis
  proof cases
    case same
    then show ?thesis using world_ok_same [OF assms(1)] by simp
  next
    case free
    have "world_ok (\<sigma>\<lparr>sy_world := ?w e u\<rparr>)"
      by (rule world_ok_fewer [OF assms(1)])
         (use assms(1) free(1,2) in \<open>auto simp: owner_defs agent_insert_def dict_simps world_ok_def split: if_splits\<close>)
    then show ?thesis using free(3) by simp
  next
    case owned
    show ?thesis
      by (rule world_ok_registers [OF assms(1) owned(3)])
         (use assms(1,2) owned(1,2) in \<open>auto simp: extends_def owner_defs agent_insert_def dict_simps world_ok_def\<close>)
  qed
qed

lemma tools_ok_run_all: "tools_ok (wd_tools w) \<Longrightarrow> tools_ok (wd_tools (run_all (run_cleanup user) fs w))"
proof (induction fs arbitrary: w)
  case (Cons f fs)
  have "tools_ok (wd_tools (snd (run_cleanup user f w)))"
    using Cons.prems by (cases f) (auto simp: tools_ok_release split: prod.split)
  then show ?case using Cons.IH by simp
qed simp

lemma world_ok_close:
  assumes "world_ok \<sigma>" "scope_aclose (sy_next \<sigma>) tasks (run_cleanup user) s \<sigma> = Some (e, \<sigma>')"
  shows "world_ok \<sigma>'"
proof -
  have ok: "store_ok \<sigma>" "linked \<sigma>" using assms(1) by (simp_all add: world_ok_def)
  obtain sc where sc: "sy_scopes \<sigma> s = Some sc"
    using assms(2) by (cases "sy_next \<sigma>"; cases "sy_scopes \<sigma> s") simp_all
  have "sy_world \<sigma>' = run_all (run_cleanup user) (teardown_plan (sy_next \<sigma>) \<sigma> s) (sy_world \<sigma>)"
    using aclose_closes [OF ok(1) sc, of "sy_next \<sigma>" tasks "run_cleanup user"] assms(2) by (auto simp: closes_def)
  then have "tools_ok (wd_tools (sy_world \<sigma>'))" using assms(1) by (simp add: tools_ok_run_all world_ok_def)
  moreover have "store_ok \<sigma>'" "linked \<sigma>'"
    using store_ok_step [OF step_close [OF assms(2)] ok(1)] linked_close [OF ok assms(2)] by simp_all
  ultimately show ?thesis
    using assms(1) caps.contract_close [OF ok _ assms(2)] hooks.contract_close [OF ok _ assms(2)]
      tools.contract_close [OF ok _ assms(2)] agents.contract_close [OF ok _ assms(2)]
    by (simp add: world_ok_def)
qed

lemma user_withdrawals:
  assumes "user_cleanups_only \<sigma> \<sigma>'" "\<And>u. withdraws (UserCleanup u) = None"
  shows "same_withdrawals withdraws \<sigma> \<sigma>'"
  using assms unfolding user_cleanups_only_def same_withdrawals_def by (metis option.distinct(1))

lemma world_ok_scope:
  assumes "world_ok \<sigma>" "scope_step (run_cleanup user) \<sigma> \<sigma>'" "same_registries (sy_world \<sigma>) (sy_world \<sigma>')"
    and "user_cleanups_only \<sigma> \<sigma>'"
  shows "world_ok \<sigma>'"
proof -
  have ok: "store_ok \<sigma>" "linked \<sigma>" using assms(1) by (simp_all add: world_ok_def)
  have kept: "contract owner_of withdraws \<sigma>'"
    if "owned_entries owner_of withdraws (run_cleanup user)" "contract owner_of withdraws \<sigma>"
      "\<And>u. withdraws (UserCleanup u) = None" "owner_of (sy_world \<sigma>') = owner_of (sy_world \<sigma>)"
    for owner_of and withdraws :: "'a cleanup \<Rightarrow> string option"
  proof -
    have "owned_by owner_of withdraws \<sigma>'"
      using owned_entries.owned_scope_step [OF that(1) assms(2) ok] that(2,4) by (simp add: contract_def)
    moreover have "same_withdrawals withdraws \<sigma> \<sigma>'" by (rule user_withdrawals [OF assms(4)]) (rule that(3))
    then have "private_cleanups owner_of withdraws \<sigma>'"
      using owned_entries.private_fewer [OF that(1), of \<sigma> \<sigma>'] that(2,4) by (simp add: contract_def)
    ultimately show ?thesis by (simp add: contract_def)
  qed
  have "cap_owner (sy_world \<sigma>') = cap_owner (sy_world \<sigma>)" "hook_owner (sy_world \<sigma>') = hook_owner (sy_world \<sigma>)"
    "tool_owner (sy_world \<sigma>') = tool_owner (sy_world \<sigma>)" "agent_owner (sy_world \<sigma>') = agent_owner (sy_world \<sigma>)"
    using assms(3) by (auto simp: same_registries_def owner_defs fun_eq_iff)
  moreover have "tools_ok (wd_tools (sy_world \<sigma>'))" using assms(1,3) by (simp add: world_ok_def same_registries_def)
  ultimately show ?thesis
    using assms(1) store_ok_step [OF assms(2) ok(1)] linked_step [OF assms(2) ok]
      kept [OF caps.owned_entries_axioms] kept [OF hooks.owned_entries_axioms]
      kept [OF tools.owned_entries_axioms] kept [OF agents.owned_entries_axioms]
    by (simp add: world_ok_def)
qed

lemma world_ok_step:
  assumes "world_ok \<sigma>" "world_step pk user binding \<sigma> \<sigma>'"
  shows "world_ok \<sigma>'"
proof -
  have tools: "tools_ok (wd_tools (sy_world \<sigma>))" using assms(1) by (simp add: world_ok_def)
  show ?thesis
    using assms(2)
proof cases
  case ws_scope
  then show ?thesis by (rule world_ok_scope [OF assms(1)])
next
  case ws_close
  then show ?thesis by (rule world_ok_close [OF assms(1)])
next
  case ws_provide
  then show ?thesis by (rule world_ok_provide [OF assms(1)])
next
  case ws_hook
  then show ?thesis by (rule world_ok_hook [OF assms(1)])
next
  case ws_tool
  then show ?thesis by (rule world_ok_tool [OF assms(1)])
next
  case ws_agent
  then show ?thesis by (rule world_ok_agent [OF assms(1)])
next
  case ws_withdraw
  show ?thesis unfolding ws_withdraw
    by (rule world_ok_fewer [OF assms(1)])
       (use tools in \<open>auto simp: owner_defs cap_withdraw_def dict_simps split: if_splits\<close>)
next
  case (ws_withdraw_provider p)
  show ?thesis unfolding ws_withdraw_provider
    by (rule world_ok_fewer [OF assms(1)]) (use tools in \<open>auto simp: owner_defs dest: withdraw_provider_shrinks\<close>)
next
  case ws_unregister_hook
  show ?thesis unfolding ws_unregister_hook
    by (rule world_ok_fewer [OF assms(1)])
       (use tools in \<open>auto simp: owner_defs hook_unregister_def dict_simps split: if_splits\<close>)
next
  case ws_unregister_tool
  show ?thesis unfolding ws_unregister_tool
    by (rule world_ok_fewer [OF assms(1)])
       (use tools in \<open>auto simp: owner_defs tools_ok_unregister dest: unregister_tool_shrinks\<close>)
next
  case ws_rewire_tool
  show ?thesis unfolding ws_rewire_tool
    by (rule world_ok_fewer [OF assms(1)])
       (use tools in \<open>simp_all add: owner_defs tools_ok_rewire rewire_keeps_scope\<close>)
next
  case (ws_snapshot_tools gid owners)
  note same = snapshot_keeps_tools [OF tools, of gid owners] tools_ok_snapshot [OF tools, of gid owners]
  have "map_option (\<lambda>r. te_scope_id (rt_data r)) (map_of (tr_entries (snd (take_tool_snapshot gid owners (wd_tools (sy_world \<sigma>))))) k)
      = map_option (\<lambda>r. te_scope_id (rt_data r)) (map_of (tr_entries (wd_tools (sy_world \<sigma>))) k)" for k
    using arg_cong [OF same(1) [unfolded same_tools_def, rule_format, of k], of "map_option te_scope_id"]
    by (simp add: option.map_comp comp_def)
  then show ?thesis unfolding ws_snapshot_tools
    by (intro world_ok_fewer [OF assms(1)]) (simp_all add: owner_defs same(2))
next
  case ws_unregister_agent
  show ?thesis unfolding ws_unregister_agent
    by (rule world_ok_fewer [OF assms(1)])
       (use tools in \<open>auto simp: owner_defs Option.bind_eq_Some_conv dest: unregister_agent_shrinks\<close>)
qed
qed

lemma contract_root: "(\<And>k. owner_of w k = None) \<Longrightarrow> contract owner_of withdraws (root_store name w)"
  by (simp add: contract_def owned_by_def private_cleanups_def root_store_def new_scope_def)

lemma empty_world_simps [simp]:
  "cap_owner (empty_world s) k = None" "hook_owner (empty_world s) k = None"
  "tool_owner (empty_world s) k = None" "agent_owner (empty_world s) k = None"
  "wd_tools (empty_world s) = new_tool_registry"
  by (simp_all add: owner_defs empty_world_def new_hook_registry_def new_tool_registry_def new_agent_registry_def)

lemma root_store_world [simp]: "sy_world (root_store name w) = w"
  by (simp add: root_store_def)

lemma world_ok_root: "world_ok (root_store name (empty_world s))"
  by (simp add: world_ok_def store_ok_root linked_root contract_root tools_ok_new)

lemma world_ok_reachable: "world_reachable pk user binding \<sigma> \<Longrightarrow> world_ok \<sigma>"
  by (induction rule: world_reachable.induct) (auto intro: world_ok_root world_ok_step)

section \<open>Properties\<close>

lemma contract_owner_open:
  "contract owner_of withdraws \<sigma> \<Longrightarrow> owner_of (sy_world \<sigma>) i = Some s
     \<Longrightarrow> \<exists>sc. sy_scopes \<sigma> s = Some sc \<and> sc_state sc = SCOPE_OPEN"
  unfolding contract_def owned_by_def by blast

text \<open>
  C12: No registration outlives its scope. In every reachable state of the harness, whatever the user's
  callbacks did and whichever of them failed, the scope recorded on a capability, hook, tool or
  agent registration is open.
\<close>

theorem registration_owner_open:
  assumes "world_reachable pk user binding \<sigma>"
    and "s \<in> {t. cap_owner (sy_world \<sigma>) i = Some t \<or> hook_owner (sy_world \<sigma>) i = Some t
              \<or> tool_owner (sy_world \<sigma>) i = Some t \<or> agent_owner (sy_world \<sigma>) i = Some t}"
  shows "\<exists>sc. sy_scopes \<sigma> s = Some sc \<and> sc_state sc = SCOPE_OPEN \<and> sc_close_task sc = None"
proof -
  have ok: "world_ok \<sigma>" by (rule world_ok_reachable [OF assms(1)])
  then have "\<exists>sc. sy_scopes \<sigma> s = Some sc \<and> sc_state sc = SCOPE_OPEN"
    using assms(2) contract_owner_open unfolding world_ok_def by blast
  with ok show ?thesis by (auto simp: world_ok_def store_ok_def scope_ok_def)
qed

text \<open>
  C3: Closing a scope withdraws the registrations of exactly the scopes it closes: those of the scope
  and of every scope below it are gone afterwards, every other one is still there with the same
  owner, and none is added, whichever callbacks raise on the way.
\<close>

theorem close_withdraws_subtree_only:
  assumes "world_reachable pk user binding \<sigma>"
    and "scope_aclose (sy_next \<sigma>) tasks (run_cleanup user) s \<sigma> = Some (r, \<sigma>')"
    and "owner_of = cap_owner \<or> owner_of = hook_owner \<or> owner_of = tool_owner \<or> owner_of = agent_owner"
  shows "owner_of (sy_world \<sigma>') i = Some t \<longleftrightarrow> owner_of (sy_world \<sigma>) i = Some t \<and> \<not> descends (parent_of \<sigma>) s t"
proof -
  have ok: "store_ok \<sigma>" "linked \<sigma>" and c: "contract cap_owner withdraws_cap \<sigma>" "contract hook_owner withdraws_hook \<sigma>"
    "contract tool_owner withdraws_tool \<sigma>" "contract agent_owner withdraws_agent \<sigma>"
    using world_ok_reachable [OF assms(1)] by (simp_all add: world_ok_def)
  from assms(3) show ?thesis
  proof (elim disjE)
    assume "owner_of = cap_owner"
    then show ?thesis using caps.close_withdraws_exactly [OF ok _ _ assms(2)] c(1) by (simp add: contract_def)
  next
    assume "owner_of = hook_owner"
    then show ?thesis using hooks.close_withdraws_exactly [OF ok _ _ assms(2)] c(2) by (simp add: contract_def)
  next
    assume "owner_of = tool_owner"
    then show ?thesis using tools.close_withdraws_exactly [OF ok _ _ assms(2)] c(3) by (simp add: contract_def)
  next
    assume "owner_of = agent_owner"
    then show ?thesis using agents.close_withdraws_exactly [OF ok _ _ assms(2)] c(4) by (simp add: contract_def)
  qed
qed

text \<open>A plugin scope below the root; both register a hook.\<close>

type_synonym demo_state = "(nat, unit, unit, unit, unit, unit, unit) harness_state"

definition demo_hook :: "unit hook_request" where
  "demo_hook = \<lparr>hq_event = AGENT_ERROR, hq_handler = (), hq_handler_name = ''note'', hq_mode = OBSERVE,
     hq_priority = 0, hq_error_policy = RECORD_ERROR, hq_owner_id = ''p''\<rparr>"

definition demo_plugin_scope :: demo_state where
  "demo_plugin_scope = snd (scope_child 0 ''plugin'' (root_store ''harness'' (empty_world ())))"

definition demo_world :: demo_state where
  "demo_world = snd (register_hook ''2'' 0 demo_hook (snd (register_hook ''1'' 1 demo_hook demo_plugin_scope)))"

definition demo_user :: "unit \<Rightarrow> unit callback" where
  "demo_user u w = (None, w)"

lemmas demo_world_defs = demo_plugin_scope_def demo_hook_def register_hook_def hook_insert_def assert_scope_open_def
  scope_child_def scope_cleanup_def register_effect_def scope_assert_open_def push_exit_def root_store_def new_scope_def
  empty_world_def new_hook_registry_def Let_def

lemma demo_plugin_scope_step: "world_step pk demo_user binding (root_store ''harness'' (empty_world ())) demo_plugin_scope"
proof (rule ws_scope)
  show "scope_step (run_cleanup demo_user) (root_store ''harness'' (empty_world ())) demo_plugin_scope"
    unfolding demo_plugin_scope_def by (rule step_child_snd)
  show "same_registries (sy_world (root_store ''harness'' (empty_world ()))) (sy_world demo_plugin_scope)"
    by (simp add: demo_world_defs same_registries_def)
  show "user_cleanups_only (root_store ''harness'' (empty_world ())) demo_plugin_scope"
    by (auto simp: demo_world_defs user_cleanups_only_def calls_def split: if_splits)
qed

lemma hook_step_snd:
  "unclaimed withdraws_hook (''hook_'' @ hex) \<sigma> \<Longrightarrow> world_step pk user binding \<sigma> (snd (register_hook hex s q \<sigma>))"
  by (rule ws_hook [where h = "fst (register_hook hex s q \<sigma>)"]) simp_all

lemma demo_world_unclaimed:
  "unclaimed withdraws_hook (''hook_'' @ ''1'') demo_plugin_scope"
  "unclaimed withdraws_hook (''hook_'' @ ''2'') (snd (register_hook ''1'' 1 demo_hook demo_plugin_scope))"
  by (auto simp: demo_world_defs unclaimed_def calls_def split: if_splits)

lemma demo_world_reachable: "world_reachable pk demo_user binding demo_world"
proof -
  have "world_reachable pk demo_user binding demo_plugin_scope"
    by (rule wreach_step [OF wreach_root demo_plugin_scope_step])
  note first = wreach_step [OF this hook_step_snd [OF demo_world_unclaimed(1)]]
  show ?thesis
    unfolding demo_world_def by (rule wreach_step [OF first hook_step_snd [OF demo_world_unclaimed(2)]])
qed

lemma demo_world_owners: "hook_owner (sy_world demo_world) ''hook_1'' = Some 1" "hook_owner (sy_world demo_world) ''hook_2'' = Some 0"
  by (simp_all add: demo_world_def demo_world_defs hook_owner_def)

theorem registration_owner_open_witness: "\<exists>sc. sy_scopes demo_world 1 = Some sc \<and> sc_state sc = SCOPE_OPEN \<and> sc_close_task sc = None"
  using registration_owner_open [OF demo_world_reachable [of undefined undefined], where s = 1 and i = "''hook_1''"]
  by (simp add: demo_world_owners)

theorem close_withdraws_subtree_only_witness:
  "\<exists>r \<sigma>'. scope_aclose (sy_next demo_world) (\<lambda>_. TaskFinished) (run_cleanup demo_user) 1 demo_world = Some (r, \<sigma>')
     \<and> hook_owner (sy_world \<sigma>') ''hook_1'' = None \<and> hook_owner (sy_world \<sigma>') ''hook_2'' = Some 0"
proof -
  have reach: "world_reachable undefined demo_user undefined demo_world" by (rule demo_world_reachable)
  have ok: "store_ok demo_world" using world_ok_reachable [OF reach] by (simp add: world_ok_def)
  obtain sc where sc: "sy_scopes demo_world 1 = Some sc" by (simp add: demo_world_def demo_world_defs)
  obtain r \<sigma>' where run: "scope_aclose (sy_next demo_world) (\<lambda>_. TaskFinished) (run_cleanup demo_user) 1 demo_world = Some (r, \<sigma>')"
    using aclose_closes [OF ok sc, of "sy_next demo_world" "\<lambda>_. TaskFinished" "run_cleanup demo_user"] by auto
  note exact = close_withdraws_subtree_only [OF reach run, of hook_owner]
  have "\<not> descends (parent_of demo_world) 1 0"
    using descends_le [of "parent_of demo_world" 1 0] ok by (auto simp: store_ok_def)
  then have "hook_owner (sy_world \<sigma>') ''hook_2'' = Some 0" using exact [of "''hook_2''" 0] demo_world_owners(2) by simp
  moreover have "hook_owner (sy_world \<sigma>') ''hook_1'' = None"
  proof (rule ccontr)
    assume "hook_owner (sy_world \<sigma>') ''hook_1'' \<noteq> None"
    then obtain t where t: "hook_owner (sy_world \<sigma>') ''hook_1'' = Some t" by blast
    then have "hook_owner (sy_world demo_world) ''hook_1'' = Some t \<and> \<not> descends (parent_of demo_world) 1 t"
      using exact [of "''hook_1''" t] by simp
    then show False using demo_world_owners(1) by auto
  qed
  ultimately show ?thesis using run by blast
qed

end
