(* ===== verification/Hook_Props.thy ===== *)
theory Hook_Props
  imports Hooks
begin

text \<open>
  Properties of the hook registry and of dispatch: the order of the handlers, agreement of snapshots
  with the registry, and the outcome of a handler chain in terms of the handlers that ran.
\<close>

section \<open>The registry over its life\<close>

inductive hook_step :: "'h hook_registry \<Rightarrow> 'h hook_registry \<Rightarrow> bool" where
  hstep_register: "hook_insert hex s q reg = (h, reg') \<Longrightarrow> hook_step reg reg'"
| hstep_unregister: "hook_unregister i reg = (b, reg') \<Longrightarrow> hook_step reg reg'"

inductive hook_reachable :: "'h hook_registry \<Rightarrow> bool" where
  hreach_new: "hook_reachable new_hook_registry"
| hreach_step: "hook_reachable reg \<Longrightarrow> hook_step reg reg' \<Longrightarrow> hook_reachable reg'"

definition hooks_ok :: "'h hook_registry \<Rightarrow> bool" where
  "hooks_ok reg \<longleftrightarrow> wf_dict (hr_registrations reg)
     \<and> (\<forall>(i, h) \<in> set (hr_registrations reg). hk_id h = i \<and> hk_sequence h \<le> hr_sequence reg)
     \<and> inj_on hk_sequence (set (dict_values (hr_registrations reg)))"

lemma hooks_ok_new: "hooks_ok new_hook_registry"
  by (simp add: hooks_ok_def new_hook_registry_def)

lemma hooks_ok_insert:
  assumes "hooks_ok reg" "hook_insert hex s q reg = (h, reg')"
  shows "hooks_ok reg'"
proof -
  let ?d = "hr_registrations reg"
  have r: "hr_registrations reg' = dict_set (hk_id h) h ?d" "hr_sequence reg' = Suc (hr_sequence reg)"
    "hk_sequence h = Suc (hr_sequence reg)"
    using assms(2) by (auto simp: hook_insert_def Let_def)
  have w: "wf_dict ?d" and old: "\<And>i g. (i, g) \<in> set ?d \<Longrightarrow> hk_id g = i \<and> hk_sequence g \<le> hr_sequence reg"
    using assms(1) by (auto simp: hooks_ok_def)
  have s: "set (dict_set (hk_id h) h ?d) = insert (hk_id h, h) {p \<in> set ?d. fst p \<noteq> hk_id h}"
    by (rule set_dict_set [OF w])
  have "inj_on hk_sequence (insert h (snd ` {p \<in> set ?d. fst p \<noteq> hk_id h}))"
  proof -
    have "inj_on hk_sequence (snd ` {p \<in> set ?d. fst p \<noteq> hk_id h})"
      using assms(1) by (auto simp: hooks_ok_def intro: inj_on_subset)
    moreover have "hk_sequence h \<notin> hk_sequence ` (snd ` {p \<in> set ?d. fst p \<noteq> hk_id h})"
      using old r(3) by fastforce
    ultimately show ?thesis by auto
  qed
  then show ?thesis using old w r s by (auto simp: hooks_ok_def le_SucI)
qed

lemma hooks_ok_unregister: "hooks_ok reg \<Longrightarrow> hook_unregister i reg = (b, reg') \<Longrightarrow> hooks_ok reg'"
  by (auto simp: hooks_ok_def hook_unregister_def set_dict_pop elim!: inj_on_subset)

lemma hooks_ok_reachable: "hook_reachable reg \<Longrightarrow> hooks_ok reg"
  by (induction rule: hook_reachable.induct)
     (auto intro: hooks_ok_new hooks_ok_insert hooks_ok_unregister elim!: hook_step.cases)

lemma hooks_ok_order_inj: "hooks_ok reg \<Longrightarrow> inj_on order_key (set (dict_values (hr_registrations reg)))"
  unfolding hooks_ok_def inj_on_def order_key_def by blast

lemma strict_sort_key:
  assumes "inj_on f (set xs)" "distinct xs"
  shows "sorted_wrt (\<lambda>a b. f a < f b) (sort_key f xs)"
proof -
  have "sorted (map f (sort_key f xs))" by simp
  moreover have "distinct (map f (sort_key f xs))" using assms by (simp add: distinct_map)
  ultimately have "sorted_wrt (<) (map f (sort_key f xs))" by (simp add: strict_sorted_iff)
  then show ?thesis by (simp add: sorted_wrt_map)
qed

lemma hooks_ok_distinct:
  assumes "hooks_ok reg"
  shows "distinct (dict_values (hr_registrations reg))"
proof -
  have "distinct (map fst (hr_registrations reg))" using assms by (simp add: hooks_ok_def wf_dict_def)
  moreover have "map hk_id (dict_values (hr_registrations reg)) = map fst (hr_registrations reg)"
    using assms by (auto simp: hooks_ok_def)
  ultimately show ?thesis by (metis distinct_map)
qed

definition selected_hook :: "hook_event \<Rightarrow> string list option \<Rightarrow> 'h hook_registration \<Rightarrow> bool" where
  "selected_hook event owners h \<longleftrightarrow> hk_event h = event \<and> (\<forall>os. owners = Some os \<longrightarrow> hk_owner_id h \<in> set os)"

lemma snapshot_handlers:
  assumes "hooks_ok reg"
  shows "hs_handlers event (hook_snapshot gid owners reg)
    = filter (selected_hook event owners) (hook_handlers event reg)"
proof -
  let ?vs = "dict_values (hr_registrations reg)"
  have eq: "hs_registrations (hook_snapshot gid owners reg)
      = filter (\<lambda>h. \<forall>os. owners = Some os \<longrightarrow> hk_owner_id h \<in> set os) (hook_registrations reg)"
    by (cases owners) (simp_all add: hook_snapshot_def Let_def)
  have "mset (filter (\<lambda>h. hk_event h = event) (hs_registrations (hook_snapshot gid owners reg)))
      = mset (filter (selected_hook event owners) ?vs)"
    unfolding eq by (simp add: hook_registrations_def mset_filter filter_filter_mset selected_hook_def conj_commute)
  moreover have "inj_on order_key (set (filter (\<lambda>h. hk_event h = event) (hs_registrations (hook_snapshot gid owners reg))))"
    unfolding eq using hooks_ok_order_inj [OF assms] by (rule inj_on_subset) (auto simp: hook_registrations_def)
  ultimately have "hs_handlers event (hook_snapshot gid owners reg) = sort_key order_key (filter (selected_hook event owners) ?vs)"
    unfolding hs_handlers_def by (rule sort_key_canonical)
  also have "filter (selected_hook event owners) ?vs
      = filter (selected_hook event owners) (filter (\<lambda>h. hk_event h = event) ?vs)"
    by (auto simp: selected_hook_def intro: filter_cong)
  finally show ?thesis by (simp add: hook_handlers_def filter_sort)
qed

text \<open>
  C23: In every reachable registry the handlers of an event are exactly its registrations, strictly
  ordered by priority and then by registration order, and a snapshot dispatches to exactly those of
  them its owner selection keeps, in the same order.
\<close>

theorem hook_handlers_ordered:
  assumes "hook_reachable reg"
  shows "set (hook_handlers event reg) = {h \<in> set (dict_values (hr_registrations reg)). hk_event h = event}
     \<and> sorted_wrt (\<lambda>a b. order_key a < order_key b) (hook_handlers event reg)
     \<and> hs_handlers event (hook_snapshot gid owners reg) = filter (selected_hook event owners) (hook_handlers event reg)"
proof -
  have ok: "hooks_ok reg" by (rule hooks_ok_reachable [OF assms])
  have "sorted_wrt (\<lambda>a b. order_key a < order_key b) (hook_handlers event reg)"
    unfolding hook_handlers_def
    by (rule strict_sort_key [OF inj_on_subset [OF hooks_ok_order_inj [OF ok]] distinct_filter [OF hooks_ok_distinct [OF ok]]]) auto
  with snapshot_handlers [OF ok] show ?thesis by (auto simp: hook_handlers_def)
qed

definition demo_hook :: "hook_event \<Rightarrow> int \<Rightarrow> string \<Rightarrow> nat hook_request" where
  "demo_hook event priority owner = \<lparr>hq_event = event, hq_handler = 0, hq_handler_name = ''audit'',
     hq_mode = OBSERVE, hq_priority = priority, hq_error_policy = RECORD_ERROR, hq_owner_id = owner\<rparr>"

definition demo_hooks :: "nat hook_registry" where
  "demo_hooks = snd (hook_insert ''2'' 1 (demo_hook AGENT_ERROR (-1) ''q'')
     (snd (hook_insert ''1'' 0 (demo_hook AGENT_ERROR 5 ''p'') new_hook_registry)))"

lemma hstep_register_snd: "hook_step reg (snd (hook_insert hex s q reg))"
  by (rule hstep_register) (rule surjective_pairing)

lemma demo_hooks_reachable: "hook_reachable demo_hooks"
  unfolding demo_hooks_def by (rule hreach_step [OF hreach_step [OF hreach_new hstep_register_snd] hstep_register_snd])

theorem hook_handlers_ordered_witness:
  "map hk_priority (hook_handlers AGENT_ERROR demo_hooks) = [-1, 5]
   \<and> hs_handlers AGENT_ERROR (hook_snapshot ''gen'' (Some [''p'']) demo_hooks)
       = filter (selected_hook AGENT_ERROR (Some [''p''])) (hook_handlers AGENT_ERROR demo_hooks)"
proof -
  have "map hk_priority (hook_handlers AGENT_ERROR demo_hooks) = [-1, 5]" by code_simp
  then show ?thesis
    using hook_handlers_ordered [OF demo_hooks_reachable, of AGENT_ERROR "''gen''" "Some [''p'']"] by simp
qed

section \<open>The outcome of a handler chain\<close>

datatype hook_effect =
    KeepPayload | NewPayload payload | RecordFailure py_exn | StopChain | AbortChain py_exn

definition hook_effect_of :: "'h hook_registration \<Rightarrow> hook_event \<Rightarrow> py_exn + pvalue \<Rightarrow> hook_effect" where
  "hook_effect_of h event returned =
     (case returned of
        Inl e \<Rightarrow> if \<not> is_exception e then AbortChain e
                 else if hk_error_policy h = RAISE_ERROR then
                   AbortChain (HookExecutionError (''hook '' @ hk_handler_name h @ '' failed for '' @ event_value event))
                 else RecordFailure e
      | Inr v \<Rightarrow>
          if hk_mode h = OBSERVE \<or> v = PNone then KeepPayload
          else if hk_mode h = BAIL then (if truthy v then StopChain else KeepPayload)
          else (case mapping_payload v of
                  Some p \<Rightarrow> NewPayload p
                | None \<Rightarrow> if hk_error_policy h = RAISE_ERROR then
                     AbortChain (HookExecutionError (''transform hook '' @ hk_handler_name h @ '' did not return a mapping''))
                   else RecordFailure (PyException ''TypeError'' ''transform hook did not return a mapping'')))"

text \<open>The handlers that ran and what each contributed.\<close>

fun hook_trace ::
  "('h, 'w) invoke \<Rightarrow> hook_event \<Rightarrow> 'h hook_registration list \<Rightarrow> payload \<Rightarrow> 'w
     \<Rightarrow> ('h hook_registration \<times> hook_effect) list" where
  "hook_trace invoke event [] current w = []"
| "hook_trace invoke event (h # hs) current w =
     (case invoke (hk_handler h) current w of (returned, w') \<Rightarrow>
        let eff = hook_effect_of h event returned
        in (h, eff) # (case eff of
             NewPayload p \<Rightarrow> hook_trace invoke event hs p w'
           | StopChain \<Rightarrow> [] | AbortChain e \<Rightarrow> []
           | _ \<Rightarrow> hook_trace invoke event hs current w'))"

fun trace_payload :: "('h hook_registration \<times> hook_effect) list \<Rightarrow> payload \<Rightarrow> payload" where
  "trace_payload [] p = p"
| "trace_payload ((h, NewPayload q) # t) p = trace_payload t q"
| "trace_payload ((h, _) # t) p = trace_payload t p"

fun trace_failures :: "hook_event \<Rightarrow> ('h hook_registration \<times> hook_effect) list \<Rightarrow> cleanup_failure list" where
  "trace_failures event [] = []"
| "trace_failures event ((h, RecordFailure e) # t) = CleanupFailure (hook_description h event) e # trace_failures event t"
| "trace_failures event ((h, _) # t) = trace_failures event t"

fun trace_abort :: "('h hook_registration \<times> hook_effect) list \<Rightarrow> py_exn option" where
  "trace_abort [] = None"
| "trace_abort ((h, AbortChain e) # t) = Some e"
| "trace_abort ((h, _) # t) = trace_abort t"

definition trace_result ::
  "hook_event \<Rightarrow> ('h hook_registration \<times> hook_effect) list \<Rightarrow> payload \<Rightarrow> cleanup_failure list \<Rightarrow> hook_result result" where
  "trace_result event t p failures =
     (case trace_abort t of
        Some e \<Rightarrow> Inl e
      | None \<Rightarrow> Inr \<lparr>hres_event = event, hres_payload = trace_payload t p,
                     hres_stopped = (StopChain \<in> snd ` set t), hres_failures = failures @ trace_failures event t\<rparr>)"

lemma run_handlers_Cons:
  "run_handlers invoke event (h # hs) current failures w =
     (case invoke (hk_handler h) current w of (returned, w') \<Rightarrow>
        (case hook_effect_of h event returned of
           KeepPayload \<Rightarrow> run_handlers invoke event hs current failures w'
         | NewPayload p \<Rightarrow> run_handlers invoke event hs p failures w'
         | RecordFailure e \<Rightarrow> run_handlers invoke event hs current (failures @ [CleanupFailure (hook_description h event) e]) w'
         | StopChain \<Rightarrow> (Inr \<lparr>hres_event = event, hres_payload = current, hres_stopped = True, hres_failures = failures\<rparr>, w')
         | AbortChain e \<Rightarrow> (Inl e, w')))"
  by (cases "hk_mode h")
     (auto simp: hook_effect_of_def split: prod.splits sum.splits option.splits)

lemma run_handlers_trace:
  "fst (run_handlers invoke event hs current failures w)
     = trace_result event (hook_trace invoke event hs current w) current failures"
proof (induction hs arbitrary: current failures w)
  case (Cons h hs)
  obtain returned w' where i: "invoke (hk_handler h) current w = (returned, w')" by fastforce
  show ?case unfolding run_handlers_Cons i prod.case
    by (cases "hook_effect_of h event returned") (simp_all add: Cons.IH i Let_def trace_result_def split: option.split)
qed (simp add: trace_result_def)

lemma hook_trace_prefix: "map fst (hook_trace invoke event hs current w) = take (length (hook_trace invoke event hs current w)) hs"
proof (induction hs arbitrary: current w)
  case (Cons h hs)
  obtain returned w' where i: "invoke (hk_handler h) current w = (returned, w')" by fastforce
  show ?case by (cases "hook_effect_of h event returned") (simp_all add: Cons.IH i Let_def)
qed simp

definition ends_chain :: "hook_effect \<Rightarrow> bool" where
  "ends_chain eff \<longleftrightarrow> eff = StopChain \<or> (\<exists>e. eff = AbortChain e)"

lemma hook_trace_ends:
  "(\<forall>p \<in> set (butlast (hook_trace invoke event hs current w)). \<not> ends_chain (snd p))
   \<and> (length (hook_trace invoke event hs current w) < length hs \<longrightarrow>
        hook_trace invoke event hs current w \<noteq> [] \<and> ends_chain (snd (last (hook_trace invoke event hs current w))))"
proof (induction hs arbitrary: current w)
  case (Cons h hs)
  obtain returned w' where i: "invoke (hk_handler h) current w = (returned, w')" by fastforce
  show ?case
  proof (cases "hook_effect_of h event returned")
    case KeepPayload
    then show ?thesis using Cons.IH [of current w'] by (auto simp: i Let_def ends_chain_def)
  next
    case (NewPayload p)
    then show ?thesis using Cons.IH [of p w'] by (auto simp: i Let_def ends_chain_def)
  next
    case (RecordFailure e)
    then show ?thesis using Cons.IH [of current w'] by (auto simp: i Let_def ends_chain_def)
  qed (simp_all add: i Let_def ends_chain_def)
qed simp

definition runs_initially :: "'h hook_registration list \<Rightarrow> ('h hook_registration \<times> hook_effect) list \<Rightarrow> bool" where
  "runs_initially hs t \<longleftrightarrow> map fst t = take (length t) hs
     \<and> (\<forall>x \<in> set (butlast t). \<not> ends_chain (snd x))
     \<and> (length t < length hs \<longrightarrow> t \<noteq> [] \<and> ends_chain (snd (last t)))"

text \<open>
  C24: Dispatch runs an initial segment of the ordered handlers, all of them unless one bails or
  aborts, and its outcome is determined by what those handlers did: the payload is the last one a
  transform returned, deep-frozen, or the frozen initial one; the failures are those of the handlers
  that record them, in order; the chain is stopped exactly when the last handler that ran bailed with
  a true value; and dispatch raises exactly when a handler with the raise policy failed or a
  cancellation passed through.
\<close>

theorem hook_dispatch_outcome:
  "(let hs = (case hooks of None \<Rightarrow> hook_handlers event reg | Some sn \<Rightarrow> hs_handlers event sn);
        t = hook_trace invoke event hs (frozen_mapping p) w
    in fst (hook_dispatch invoke event p hooks reg w) = trace_result event t (frozen_mapping p) []
     \<and> runs_initially hs t)"
proof -
  have "runs_initially hs (hook_trace invoke event hs q w)" for hs q
    using hook_trace_prefix [of invoke event hs q w] hook_trace_ends [of invoke event hs q w]
    unfolding runs_initially_def by blast
  then show ?thesis by (simp add: hook_dispatch_def Let_def run_handlers_trace)
qed

end
