(* ===== verification/Plugins.thy ===== *)
theory Plugins
  imports World_Props Resolver
begin

text \<open>
  Plugin instances (\<open>plugins/lifecycle.py\<close>) and their registry (\<open>plugins/registry.py\<close>): desired
  entries with revisions, mounting with rollback, disposal. \<open>setup\<close> and \<open>teardown\<close> are plugin
  code: arguments that act on the harness state of theory \<open>World\<close> and may raise; they see the
  instance but not this registry. A manifest is taken in its parsed form (\<open>contracts\<close>).
\<close>

section \<open>Lifecycle\<close>

datatype plugin_state = PENDING | LOADING | ACTIVE | UNLOADING | DISPOSED | FAILED

datatype plugin_health = UNKNOWN | HEALTHY | DEGRADED | UNHEALTHY

definition state_value :: "plugin_state \<Rightarrow> string" where
  "state_value st = (case st of PENDING \<Rightarrow> ''pending'' | LOADING \<Rightarrow> ''loading'' | ACTIVE \<Rightarrow> ''active''
     | UNLOADING \<Rightarrow> ''unloading'' | DISPOSED \<Rightarrow> ''disposed'' | FAILED \<Rightarrow> ''failed'')"

definition allowed_transitions :: "plugin_state \<Rightarrow> plugin_state list" where
  "allowed_transitions st = (case st of
       PENDING \<Rightarrow> [LOADING, DISPOSED]
     | LOADING \<Rightarrow> [ACTIVE, FAILED]
     | ACTIVE \<Rightarrow> [UNLOADING, FAILED]
     | UNLOADING \<Rightarrow> [DISPOSED]
     | FAILED \<Rightarrow> [LOADING, DISPOSED]
     | DISPOSED \<Rightarrow> [])"

text \<open>A plugin object, and what \<open>install\<close> takes: an object or a class to instantiate.\<close>

record ('v, 'x, 'p) plugin_object =
  pg_manifest :: "('v, 'x) contracts option"
  pg_config :: payload
  pg_body :: 'p

datatype ('v, 'x, 'p) plugin_source =
    PluginObject "('v, 'x, 'p) plugin_object"
  | PluginClass "payload option \<Rightarrow> ('v, 'x, 'p) plugin_object result"

record ('v, 'x, 'p) plugin_entry =
  pe_entry_id :: string
  pe_plugin :: "('v, 'x, 'p) plugin_object"
  pe_manifest :: "('v, 'x) contracts"
  pe_config :: payload
  pe_revision :: nat
  pe_scope :: string

record ('v, 'x, 'o, 'p) plugin_instance =
  pi_instance_id :: string
  pi_entry_id :: string
  pi_manifest :: "('v, 'x) contracts"
  pi_plugin :: "('v, 'x, 'p) plugin_object"
  pi_scope_id :: sid
  pi_config :: payload
  pi_resolved :: "(string, ('v, 'o) registration) dict"
  pi_entry_revision :: nat
  pi_state :: plugin_state
  pi_health :: plugin_health
  pi_error :: "py_exn option"
  pi_generation_refs :: nat

definition new_instance ::
  "string \<Rightarrow> ('v, 'x, 'p) plugin_entry \<Rightarrow> sid \<Rightarrow> (string, ('v, 'o) registration) dict \<Rightarrow> ('v, 'x, 'o, 'p) plugin_instance" where
  "new_instance instance_id entry s resolved =
     \<lparr>pi_instance_id = instance_id, pi_entry_id = pe_entry_id entry, pi_manifest = pe_manifest entry,
      pi_plugin = pe_plugin entry, pi_scope_id = s, pi_config = frozen_mapping (pe_config entry), pi_resolved = resolved,
      pi_entry_revision = pe_revision entry, pi_state = PENDING, pi_health = UNKNOWN, pi_error = None,
      pi_generation_refs = 0\<rparr>"

definition transition :: "plugin_state \<Rightarrow> ('v, 'x, 'o, 'p) plugin_instance \<Rightarrow> ('v, 'x, 'o, 'p) plugin_instance result" where
  "transition new_state inst =
     (if new_state = pi_state inst then Inr inst
      else if new_state \<notin> set (allowed_transitions (pi_state inst)) then
        Inl (HarnessStateError (''illegal plugin transition '' @ state_value (pi_state inst) @ '' -> '' @ state_value new_state))
      else Inr (inst\<lparr>pi_state := new_state\<rparr>))"

section \<open>Desired entries\<close>

record ('v, 'x, 'o, 'p) plugin_registry =
  pr_entries :: "(string, ('v, 'x, 'p) plugin_entry) dict"
  pr_instances :: "(string, ('v, 'x, 'o, 'p) plugin_instance) dict"
  pr_by_entry :: "(string, string list) dict"
  pr_revisions :: "(string, nat) dict"

definition new_plugin_registry :: "('v, 'x, 'o, 'p) plugin_registry" where
  "new_plugin_registry = \<lparr>pr_entries = [], pr_instances = [], pr_by_entry = [], pr_revisions = []\<rparr>"

definition make_entry :: "('v, 'x, 'p) plugin_entry \<Rightarrow> ('v, 'x, 'p) plugin_entry result" where
  "make_entry e =
     (if pe_entry_id e = [] \<or> pe_entry_id e \<noteq> strip (pe_entry_id e) then
        Inl (ConfigurationError ''entry id must be a non-empty, trimmed string'')
      else Inr e)"

text \<open>
  The first free name \<open>base-2\<close>, \<open>base-3\<close>, ...: the fuel is the number of taken names, one more
  candidate than that cannot all be taken.
\<close>

definition suffixed :: "string \<Rightarrow> nat \<Rightarrow> string" where
  "suffixed base n = base @ ''-'' @ show_nat n"

fun free_suffix :: "nat \<Rightarrow> string list \<Rightarrow> string \<Rightarrow> nat \<Rightarrow> nat" where
  "free_suffix 0 taken base n = n"
| "free_suffix (Suc fuel) taken base n = (if suffixed base n \<in> set taken then free_suffix fuel taken base (n + 1) else n)"

definition default_entry_id :: "('v, 'x) contracts \<Rightarrow> ('v, 'x, 'o, 'p) plugin_registry \<Rightarrow> string" where
  "default_entry_id manifest reg =
     (let base = ct_name manifest; taken = dict_keys (pr_entries reg)
      in if base \<notin> set taken then base else suffixed base (free_suffix (length taken) taken base 2))"

definition plugin_install ::
  "('v, 'x, 'p) plugin_source \<Rightarrow> string option \<Rightarrow> payload option \<Rightarrow> bool \<Rightarrow> string
     \<Rightarrow> ('v, 'x, 'o, 'p) plugin_registry \<Rightarrow> ('v, 'x, 'p) plugin_entry result \<times> ('v, 'x, 'o, 'p) plugin_registry" where
  "plugin_install source entry_id config replace scope reg =
     (case (case source of PluginObject p \<Rightarrow> Inr p | PluginClass cls \<Rightarrow> cls config) of
        Inl e \<Rightarrow> (Inl e, reg)
      | Inr p \<Rightarrow>
          if (case (source, config) of (PluginObject _, Some c) \<Rightarrow> \<not> payload_eq (frozen_mapping c) (frozen_mapping (pg_config p)) | _ \<Rightarrow> False)
          then (Inl (ConfigurationError ''configuration for a plugin instance must match its constructed config''), reg)
          else (case pg_manifest p of
                  None \<Rightarrow> (Inl (PluginLoadError ''plugin does not declare a PluginManifest''), reg)
                | Some manifest \<Rightarrow>
                    if (case entry_id of None \<Rightarrow> False | Some i \<Rightarrow> strip i = [] \<or> i \<noteq> strip i) then
                      (Inl (ConfigurationError ''entry id must be a non-empty, trimmed string''), reg)
                    else
                      let i = (case entry_id of None \<Rightarrow> default_entry_id manifest reg | Some i \<Rightarrow> i)
                      in if i \<in> set (dict_keys (pr_entries reg)) \<and> \<not> replace then
                           (Inl (PluginLoadError ''duplicate plugin entry id''), reg)
                         else
                           let revision = dict_get_or (pr_revisions reg) i 0 + 1;
                               reg1 = reg\<lparr>pr_revisions := dict_set i revision (pr_revisions reg)\<rparr>;
                               effective = frozen_mapping (case config of None \<Rightarrow> pg_config p | Some c \<Rightarrow> c)
                           in (case make_entry \<lparr>pe_entry_id = i, pe_plugin = p, pe_manifest = manifest, pe_config = effective,
                                                pe_revision = revision, pe_scope = scope\<rparr> of
                                 Inl e \<Rightarrow> (Inl e, reg1)
                               | Inr entry \<Rightarrow> (Inr entry, reg1\<lparr>pr_entries := dict_set i entry (pr_entries reg1)\<rparr>))))"

definition plugin_uninstall :: "string \<Rightarrow> ('v, 'x, 'o, 'p) plugin_registry \<Rightarrow> bool \<times> ('v, 'x, 'o, 'p) plugin_registry" where
  "plugin_uninstall i reg = (map_of (pr_entries reg) i \<noteq> None, reg\<lparr>pr_entries := dict_pop i (pr_entries reg)\<rparr>)"

definition plugin_entries :: "('v, 'x, 'o, 'p) plugin_registry \<Rightarrow> ('v, 'x, 'p) plugin_entry list" where
  "plugin_entries reg = map (\<lambda>i. the (map_of (pr_entries reg) i)) (sort (dict_keys (pr_entries reg)))"

type_synonym ('v, 'x, 'p) captured_entry = "('v, 'x, 'p) plugin_entry option \<times> nat option"

definition capture_entry :: "string \<Rightarrow> ('v, 'x, 'o, 'p) plugin_registry \<Rightarrow> ('v, 'x, 'p) captured_entry" where
  "capture_entry i reg = (map_of (pr_entries reg) i, map_of (pr_revisions reg) i)"

definition restore_entry ::
  "string \<Rightarrow> ('v, 'x, 'p) captured_entry \<Rightarrow> ('v, 'x, 'o, 'p) plugin_registry \<Rightarrow> ('v, 'x, 'o, 'p) plugin_registry" where
  "restore_entry i captured reg =
     reg\<lparr>pr_entries := (case fst captured of None \<Rightarrow> dict_pop i (pr_entries reg) | Some e \<Rightarrow> dict_set i e (pr_entries reg)),
         pr_revisions := (case snd captured of None \<Rightarrow> dict_pop i (pr_revisions reg) | Some n \<Rightarrow> dict_set i n (pr_revisions reg))\<rparr>"

definition entries_for_scope :: "string \<Rightarrow> ('v, 'x, 'o, 'p) plugin_registry \<Rightarrow> string list" where
  "entries_for_scope path reg = map pe_entry_id (filter (\<lambda>e. pe_scope e = path) (plugin_entries reg))"

section \<open>Instances\<close>

definition pr_instance :: "string \<Rightarrow> ('v, 'x, 'o, 'p) plugin_registry \<Rightarrow> ('v, 'x, 'o, 'p) plugin_instance option" where
  "pr_instance i reg =
     (let ids = dict_get_or (pr_by_entry reg) i []
      in if ids = [] then None else map_of (pr_instances reg) (last ids))"

definition add_instance :: "('v, 'x, 'o, 'p) plugin_instance \<Rightarrow> ('v, 'x, 'o, 'p) plugin_registry \<Rightarrow> ('v, 'x, 'o, 'p) plugin_registry" where
  "add_instance inst reg =
     reg\<lparr>pr_instances := dict_set (pi_instance_id inst) inst (pr_instances reg),
         pr_by_entry := dict_append (pi_entry_id inst) (pi_instance_id inst) (pr_by_entry reg)\<rparr>"

text \<open>The instance is one mutable object: the registry holds its current value.\<close>

definition put_instance :: "('v, 'x, 'o, 'p) plugin_instance \<Rightarrow> ('v, 'x, 'o, 'p) plugin_registry \<Rightarrow> ('v, 'x, 'o, 'p) plugin_registry" where
  "put_instance inst reg = reg\<lparr>pr_instances := dict_set (pi_instance_id inst) inst (pr_instances reg)\<rparr>"

definition forget :: "('v, 'x, 'o, 'p) plugin_instance \<Rightarrow> ('v, 'x, 'o, 'p) plugin_registry \<Rightarrow> ('v, 'x, 'o, 'p) plugin_registry" where
  "forget inst reg =
     (let instances = dict_pop (pi_instance_id inst) (pr_instances reg)
      in case map_of (pr_by_entry reg) (pi_entry_id inst) of
           None \<Rightarrow> reg\<lparr>pr_instances := instances\<rparr>
         | Some ids \<Rightarrow>
             if pi_instance_id inst \<in> set ids then
               let ids' = remove1 (pi_instance_id inst) ids
               in reg\<lparr>pr_instances := instances,
                      pr_by_entry := (if ids' = [] then dict_pop (pi_entry_id inst) (pr_by_entry reg)
                                      else dict_set (pi_entry_id inst) ids' (pr_by_entry reg))\<rparr>
             else reg\<lparr>pr_instances := instances\<rparr>)"

definition registrations_of :: "('v, 'x, 'o, 'p) plugin_instance \<Rightarrow> ('v, 'o) cap_registry \<Rightarrow> ('v, 'o) registration list" where
  "registrations_of inst caps = filter (\<lambda>g. cr_provider_id g = pi_instance_id inst) (cap_registrations caps)"

definition plugin_candidate ::
  "('v, 'o) cap_registry \<Rightarrow> ('v, 'x, 'o, 'p) plugin_registry \<Rightarrow> ('v, 'x, 'p) plugin_entry \<Rightarrow> ('v, 'x, 'o) candidate" where
  "plugin_candidate caps reg entry =
     (let inst = pr_instance (pe_entry_id entry) reg;
          active = (case inst of None \<Rightarrow> False | Some i \<Rightarrow> pi_state i = ACTIVE \<and> pi_entry_revision i = pe_revision entry)
      in \<lparr>pc_entry_id = pe_entry_id entry, pc_manifest = pe_manifest entry,
          pc_instance_id = map_option pi_instance_id inst, pc_active = active,
          pc_registrations = (case inst of None \<Rightarrow> [] | Some i \<Rightarrow> if active then registrations_of i caps else []),
          pc_scope = pe_scope entry\<rparr>)"

definition plugin_candidates :: "('v, 'o) cap_registry \<Rightarrow> ('v, 'x, 'o, 'p) plugin_registry \<Rightarrow> ('v, 'x, 'o) candidate list" where
  "plugin_candidates caps reg = map (plugin_candidate caps reg) (plugin_entries reg)"

section \<open>Mounting and disposal\<close>

text \<open>
  Plugin code runs on the harness state. A run of the teardown tasks is the argument \<open>tasks\<close>, user
  callbacks are \<open>user\<close>; \<open>None\<close> means that the call does not return.
\<close>

type_synonym ('v, 'x, 'o, 'p, 'h, 't, 'r, 'u, 's) plugin_code =
  "('v, 'x, 'o, 'p) plugin_instance \<Rightarrow> ('v, 'o, 'h, 't, 'r, 'u, 's) harness_state \<Rightarrow> py_exn option \<times> ('v, 'o, 'h, 't, 'r, 'u, 's) harness_state"

type_synonym ('v, 'x, 'o, 'p, 'h, 't, 'r, 'u, 's) plugin_system =
  "('v, 'x, 'o, 'p) plugin_registry \<times> ('v, 'o, 'h, 't, 'r, 'u, 's) harness_state"

definition close_scope ::
  "(nat \<Rightarrow> task_result) \<Rightarrow> ('u \<Rightarrow> 's callback) \<Rightarrow> sid \<Rightarrow> ('v, 'o, 'h, 't, 'r, 'u, 's) harness_state
     \<Rightarrow> (py_exn option \<times> ('v, 'o, 'h, 't, 'r, 'u, 's) harness_state) option" where
  "close_scope tasks user s \<sigma> = scope_aclose (sy_next \<sigma>) tasks (run_cleanup user) s \<sigma>"

definition cleanup_failures_of :: "py_exn option \<Rightarrow> cleanup_failure list" where
  "cleanup_failures_of r = (case r of Some (EffectCleanupError _ failures) \<Rightarrow> failures | _ \<Rightarrow> [])"

definition rollback ::
  "(nat \<Rightarrow> task_result) \<Rightarrow> ('u \<Rightarrow> 's callback) \<Rightarrow> ('v, 'x, 'o, 'p) plugin_instance \<Rightarrow> py_exn
     \<Rightarrow> ('v, 'o, 'h, 't, 'r, 'u, 's) harness_state
     \<Rightarrow> (cleanup_failure list \<times> ('v, 'x, 'o, 'p) plugin_instance \<times> ('v, 'o, 'h, 't, 'r, 'u, 's) harness_state) option" where
  "rollback tasks user inst setup_error \<sigma> =
     (case close_scope tasks user (pi_scope_id inst) \<sigma> of
        None \<Rightarrow> None
      | Some (r, \<sigma>') \<Rightarrow>
          Some (cleanup_failures_of r,
                (case transition FAILED inst of Inl _ \<Rightarrow> inst | Inr failed \<Rightarrow> failed)
                  \<lparr>pi_health := UNHEALTHY, pi_error := Some setup_error\<rparr>, \<sigma>'))"

definition plugin_mount ::
  "('v, 'x, 'o, 'p, 'h, 't, 'r, 'u, 's) plugin_code \<Rightarrow> (nat \<Rightarrow> task_result) \<Rightarrow> ('u \<Rightarrow> 's callback) \<Rightarrow> string
     \<Rightarrow> ('v, 'x, 'p) plugin_entry \<Rightarrow> (string, ('v, 'o) registration) dict \<Rightarrow> bool
     \<Rightarrow> ('v, 'x, 'o, 'p, 'h, 't, 'r, 'u, 's) plugin_system
     \<Rightarrow> (string result \<times> ('v, 'x, 'o, 'p, 'h, 't, 'r, 'u, 's) plugin_system) option" where
  "plugin_mount setup tasks user hex entry resolved supersede ps =
     (case ps of (reg, \<sigma>) \<Rightarrow>
        let current = pr_instance (pe_entry_id entry) reg
        in if \<not> supersede \<and> (case current of None \<Rightarrow> False
               | Some c \<Rightarrow> pi_state c \<noteq> DISPOSED \<and> pi_entry_revision c = pe_revision entry) then
             Some (Inl (PluginLoadError ''plugin entry is already mounted for this revision''), (reg, \<sigma>))
           else
             let instance_id = ''plugin_'' @ hex;
                 (s, \<sigma>1) = scope_init (''plugin:'' @ pe_entry_id entry) \<sigma>;
                 inst = new_instance instance_id entry s resolved;
                 reg1 = add_instance inst reg
             in (case transition LOADING inst of
                   Inl e \<Rightarrow> Some (Inl e, (reg1, \<sigma>1))
                 | Inr loading \<Rightarrow>
                     let reg2 = put_instance loading reg1
                     in (case setup loading \<sigma>1 of
                           (Some error, \<sigma>2) \<Rightarrow>
                             (case rollback tasks user loading error \<sigma>2 of
                                None \<Rightarrow> None
                              | Some (failures, failed, \<sigma>3) \<Rightarrow>
                                  Some (Inl (if is_exception error
                                             then PluginSetupError (''plugin '' @ py_repr (ct_name (pe_manifest entry)) @ '' failed during setup'') failures
                                             else error),
                                        (put_instance failed reg2, \<sigma>3)))
                         | (None, \<sigma>2) \<Rightarrow>
                             (case transition ACTIVE loading of
                                Inl e \<Rightarrow> Some (Inl e, (reg2, \<sigma>2))
                              | Inr active \<Rightarrow>
                                  Some (Inr instance_id, (put_instance (active\<lparr>pi_health := HEALTHY\<rparr>) reg2, \<sigma>2))))))"

text \<open>
  The last part of \<open>dispose\<close>: close the scope, then forget the instance whatever the close raised. A
  failed instance was rolled back before, its failures are not reported again. An instance that is
  no longer in the registry has been disposed.
\<close>

definition is_cleanup_error :: "py_exn \<Rightarrow> bool" where
  "is_cleanup_error e = (case e of EffectCleanupError _ _ \<Rightarrow> True | _ \<Rightarrow> False)"

definition finish_dispose ::
  "(nat \<Rightarrow> task_result) \<Rightarrow> ('u \<Rightarrow> 's callback) \<Rightarrow> ('v, 'x, 'o, 'p) plugin_instance
     \<Rightarrow> ('v, 'x, 'o, 'p, 'h, 't, 'r, 'u, 's) plugin_system
     \<Rightarrow> (unit result \<times> ('v, 'x, 'o, 'p, 'h, 't, 'r, 'u, 's) plugin_system) option" where
  "finish_dispose tasks user inst ps =
     (case ps of (reg, \<sigma>) \<Rightarrow>
        (case close_scope tasks user (pi_scope_id inst) \<sigma> of
           None \<Rightarrow> None
         | Some (r, \<sigma>') \<Rightarrow>
             let reg' = forget inst reg
             in (case r of
                   None \<Rightarrow> Some (Inr (), (reg', \<sigma>'))
                 | Some e \<Rightarrow> if is_cleanup_error e \<and> pi_state inst = FAILED then Some (Inr (), (reg', \<sigma>')) else Some (Inl e, (reg', \<sigma>')))))"

definition plugin_dispose ::
  "('v, 'x, 'o, 'p, 'h, 't, 'r, 'u, 's) plugin_code \<Rightarrow> (nat \<Rightarrow> task_result) \<Rightarrow> ('u \<Rightarrow> 's callback) \<Rightarrow> string
     \<Rightarrow> ('v, 'x, 'o, 'p, 'h, 't, 'r, 'u, 's) plugin_system
     \<Rightarrow> (unit result \<times> ('v, 'x, 'o, 'p, 'h, 't, 'r, 'u, 's) plugin_system) option" where
  "plugin_dispose teardown tasks user i ps =
     (case ps of (reg, \<sigma>) \<Rightarrow>
        (case map_of (pr_instances reg) i of
           None \<Rightarrow> Some (Inr (), (reg, \<sigma>))
         | Some inst \<Rightarrow>
             if pi_state inst = DISPOSED then Some (Inr (), (reg, \<sigma>))
             else if pi_generation_refs inst > 0 then
               Some (Inl (PluginLoadError ''refusing to dispose a plugin instance reachable from a live generation''), (reg, \<sigma>))
             else
               (case pi_state inst of
                  ACTIVE \<Rightarrow>
                    let unloading = inst\<lparr>pi_state := UNLOADING\<rparr>
                    in (case teardown unloading \<sigma> of
                          (None, \<sigma>1) \<Rightarrow> finish_dispose tasks user unloading (put_instance unloading reg, \<sigma>1)
                        | (Some e, \<sigma>1) \<Rightarrow>
                            let unhealthy = unloading\<lparr>pi_health := UNHEALTHY\<rparr>
                            in finish_dispose tasks user unhealthy (put_instance unhealthy reg,
                                 record_failure (pi_scope_id inst) (''teardown of '' @ py_repr (ct_name (pi_manifest inst))) e \<sigma>1))
                | PENDING \<Rightarrow>
                    let disposed = inst\<lparr>pi_state := DISPOSED\<rparr>
                    in (case close_scope tasks user (pi_scope_id inst) \<sigma> of
                          None \<Rightarrow> None
                        | Some (Some e, \<sigma>') \<Rightarrow> Some (Inl e, (put_instance disposed reg, \<sigma>'))
                        | Some (None, \<sigma>') \<Rightarrow> Some (Inr (), (forget disposed reg, \<sigma>')))
                | LOADING \<Rightarrow> Some (Inl (PluginLoadError ''cannot dispose a plugin instance while it is loading''), (reg, \<sigma>))
                | _ \<Rightarrow> finish_dispose tasks user inst ps)))"

end
