(* ===== verification/Plugin_Props.thy ===== *)
theory Plugin_Props
  imports Plugins
begin

text \<open>
  The life of the plugin registry on top of the harness state: a failed mount leaves nothing behind,
  a disposal withdraws everything the plugin contributed, and an instance a live generation reaches
  is never disposed.
\<close>

section \<open>What plugin code may do\<close>

text \<open>Plugin code acts on the harness only through its operations.\<close>

abbreviation world_steps where
  "world_steps pk user binding \<equiv> (world_step pk user binding)\<^sup>*\<^sup>*"

definition runs_plugin_code where
  "runs_plugin_code pk user binding code \<sigma> \<longleftrightarrow> (\<forall>inst. world_steps pk user binding \<sigma> (snd (code inst \<sigma>)))"

lemma world_reachable_steps: "world_steps pk user binding \<sigma> \<sigma>' \<Longrightarrow> world_reachable pk user binding \<sigma> \<Longrightarrow> world_reachable pk user binding \<sigma>'"
  by (induction rule: rtranclp_induct) (auto intro: wreach_step)

section \<open>Scopes are never lost and closed ones stay closed\<close>

definition scopes_kept :: "('f, 'w) sys \<Rightarrow> ('f, 'w) sys \<Rightarrow> bool" where
  "scopes_kept \<sigma> \<sigma>' \<longleftrightarrow> (\<forall>t tc. sy_scopes \<sigma> t = Some tc \<longrightarrow> (\<exists>tc'. sy_scopes \<sigma>' t = Some tc'))
     \<and> (\<forall>t. closed_at \<sigma> t \<longrightarrow> closed_at \<sigma>' t)"

lemma scopes_kept_refl [simp]: "scopes_kept \<sigma> \<sigma>"
  by (simp add: scopes_kept_def)

lemma scopes_kept_trans: "scopes_kept \<sigma> \<sigma>' \<Longrightarrow> scopes_kept \<sigma>' \<sigma>'' \<Longrightarrow> scopes_kept \<sigma> \<sigma>''"
  unfolding scopes_kept_def by meson

lemma scopes_kept_world [simp]: "scopes_kept \<sigma> (\<sigma>'\<lparr>sy_world := w\<rparr>) = scopes_kept \<sigma> \<sigma>'" "scopes_kept (\<sigma>\<lparr>sy_world := w\<rparr>) \<sigma>' = scopes_kept \<sigma> \<sigma>'"
  by (simp_all add: scopes_kept_def closed_at_def)

lemma scopes_kept_grows: "grows \<sigma> \<sigma>' \<Longrightarrow> scopes_kept \<sigma> \<sigma>'"
  unfolding grows_def scopes_kept_def closed_at_def by (metis (no_types, lifting))

lemma scopes_kept_close:
  assumes "store_ok \<sigma>" "linked \<sigma>" "scope_aclose (sy_next \<sigma>) tasks run s \<sigma> = Some (r, \<sigma>')"
  shows "scopes_kept \<sigma> \<sigma>' \<and> closed_at \<sigma>' s \<and> parent_of \<sigma>' = parent_of \<sigma> \<and> store_ok \<sigma>' \<and> linked \<sigma>'"
proof -
  obtain sc where sc: "sy_scopes \<sigma> s = Some sc"
    using assms(3) by (cases "sy_next \<sigma>"; cases "sy_scopes \<sigma> s") simp_all
  have c: "closes (sy_next \<sigma>) run s \<sigma> r \<sigma>'"
    using aclose_closes [OF assms(1) sc, of "sy_next \<sigma>" tasks run] assms(3) by auto
  have inside: "closed_at \<sigma>' t" if "descends (parent_of \<sigma>) s t" for t
    by (rule aclose_subtree_closed [OF assms that])
  have outside: "sy_scopes \<sigma>' t = sy_scopes \<sigma> t" if "\<not> descends (parent_of \<sigma>) s t" for t
    using c that by (simp add: closes_def frame_def)
  have "scopes_kept \<sigma> \<sigma>'" unfolding scopes_kept_def
  proof (intro conjI allI impI)
    show "\<exists>tc'. sy_scopes \<sigma>' t = Some tc'" if "sy_scopes \<sigma> t = Some tc" for t tc
      using that inside [of t] outside [of t] by (cases "descends (parent_of \<sigma>) s t") (auto simp: closed_at_def)
    show "closed_at \<sigma>' t" if "closed_at \<sigma> t" for t
      using that inside [of t] outside [of t] by (cases "descends (parent_of \<sigma>) s t") (auto simp: closed_at_def)
  qed
  moreover have "parent_of \<sigma>' = parent_of \<sigma>" using c by (simp add: closes_def frame_def)
  ultimately show ?thesis
    using inside [OF descends_refl] store_ok_closes [OF assms(1) c] linked_close [OF assms] by blast
qed

lemma scopes_kept_step:
  assumes "scope_step run \<sigma> \<sigma>'" "store_ok \<sigma>" "linked \<sigma>"
  shows "scopes_kept \<sigma> \<sigma>'"
  using assms(1)
proof cases
  case (step_child s name c)
  then show ?thesis using child_grows_linked [OF assms(2,3)] scopes_kept_grows by blast
next
  case (step_init name s)
  then show ?thesis using init_grows_linked [OF assms(2,3)] scopes_kept_grows by blast
next
  case (step_close tasks s e)
  then show ?thesis using scopes_kept_close [OF assms(2,3)] by blast
next
  case (step_async_begin s cm_type r)
  then have "register_effect s ''context'' (''async context '' @ cm_type) \<sigma> = (r, \<sigma>')"
    by (simp add: enter_async_begin_def)
  from scopes_kept_grows [OF grows_register(1) [OF this]] show ?thesis .
qed (auto intro!: scopes_kept_grows intro: grows_intros dest: grows_ops)

lemma registers_kept:
  assumes "registers \<sigma> w s f \<sigma>'"
  shows "scopes_kept \<sigma> \<sigma>'"
  using assms grows_cleanup(1) scopes_kept_grows unfolding registers_def by (metis scopes_kept_world(2))

lemma world_step_kept:
  assumes "world_step pk user binding \<sigma> \<sigma>'" "world_ok \<sigma>"
  shows "scopes_kept \<sigma> \<sigma>'"
proof -
  have ok: "store_ok \<sigma>" "linked \<sigma>" using assms(2) by (simp_all add: world_ok_def)
  from assms(1) show ?thesis
  proof cases
    case ws_scope
    then show ?thesis using scopes_kept_step [OF _ ok] by blast
  next
    case ws_close
    then show ?thesis using scopes_kept_close [OF ok] by blast
  next
    case ws_provide
    then show ?thesis using provide_shape registers_kept scopes_kept_refl by metis
  next
    case ws_hook
    then show ?thesis using hook_shape registers_kept scopes_kept_refl by metis
  next
    case ws_tool
    then show ?thesis using tool_shape registers_kept scopes_kept_refl by metis
  next
    case ws_agent
    then show ?thesis using agent_shape [of binding] by (auto simp: Let_def dest!: agent_shape dest: registers_kept)
  qed simp_all
qed

lemma world_steps_kept:
  assumes "world_steps pk user binding \<sigma> \<sigma>'" "world_ok \<sigma>"
  shows "scopes_kept \<sigma> \<sigma>' \<and> world_ok \<sigma>'"
  using assms
proof (induction rule: rtranclp_induct)
  case (step y z)
  then show ?case using world_step_kept world_ok_step scopes_kept_trans by blast
qed simp

section \<open>A closed scope owns nothing\<close>

definition owns_nothing :: "('v, 'o, 'h, 't, 'r, 'u, 's) harness_state \<Rightarrow> sid \<Rightarrow> bool" where
  "owns_nothing \<sigma> s \<longleftrightarrow> (\<forall>i t. cap_owner (sy_world \<sigma>) i = Some t \<or> hook_owner (sy_world \<sigma>) i = Some t
      \<or> tool_owner (sy_world \<sigma>) i = Some t \<or> agent_owner (sy_world \<sigma>) i = Some t \<longrightarrow> \<not> descends (parent_of \<sigma>) s t)"

lemma closed_owns_nothing:
  assumes "world_ok \<sigma>" "closed_at \<sigma> s"
  shows "owns_nothing \<sigma> s"
proof -
  have ok: "store_ok \<sigma>" "linked \<sigma>" using assms(1) by (simp_all add: world_ok_def)
  have "\<not> descends (parent_of \<sigma>) s t" if "sy_scopes \<sigma> t = Some tc" "sc_state tc = SCOPE_OPEN" for t tc
  proof
    assume d: "descends (parent_of \<sigma>) s t"
    obtain sc where "sy_scopes \<sigma> s = Some sc" using assms(2) by (auto simp: closed_at_def)
    then have "closed_at \<sigma> t"
      using closed_down [OF d subtree_okI [OF ok(1)] linked_linked_below [OF ok(2)] assms(2)] by blast
    then show False using that by (simp add: closed_at_def)
  qed
  then show ?thesis
    using assms(1) contract_owner_open unfolding owns_nothing_def world_ok_def by metis
qed

section \<open>The instance index\<close>

definition instances_ok :: "('v, 'x, 'o, 'p) plugin_registry \<Rightarrow> bool" where
  "instances_ok reg \<longleftrightarrow> index_ok pi_entry_id (pr_instances reg) (pr_by_entry reg)
     \<and> (\<forall>p \<in> set (pr_instances reg). pi_instance_id (snd p) = fst p)"

lemma instances_ok_new: "instances_ok new_plugin_registry"
  by (simp add: instances_ok_def new_plugin_registry_def)

lemma instances_ok_id: "instances_ok reg \<Longrightarrow> map_of (pr_instances reg) i = Some inst \<Longrightarrow> pi_instance_id inst = i"
  by (auto simp: instances_ok_def dest!: map_of_SomeD)

lemma instances_ok_add:
  assumes "instances_ok reg" "map_of (pr_instances reg) (pi_instance_id inst) = None"
  shows "instances_ok (add_instance inst reg)"
  using assms index_ok_insert [of pi_entry_id "pr_instances reg" "pr_by_entry reg" "pi_instance_id inst" inst]
  by (auto simp: instances_ok_def add_instance_def dict_set_fresh)

lemma instances_ok_put:
  assumes "instances_ok reg" "map_of (pr_instances reg) (pi_instance_id inst) = Some old" "pi_entry_id inst = pi_entry_id old"
  shows "instances_ok (put_instance inst reg)"
proof -
  have w: "wf_dict (pr_instances reg)" using assms(1) by (simp add: instances_ok_def index_ok_def)
  have "index_ok pi_entry_id (dict_set (pi_instance_id inst) inst (pr_instances reg)) (pr_by_entry reg)"
    using assms index_ok_same_name unfolding instances_ok_def by metis
  then show ?thesis using assms(1) by (simp add: instances_ok_def put_instance_def set_dict_set [OF w])
qed

lemma forget_instances: "pr_instances (forget inst reg) = dict_pop (pi_instance_id inst) (pr_instances reg)"
  "pr_entries (forget inst reg) = pr_entries reg" "pr_revisions (forget inst reg) = pr_revisions reg"
  by (simp_all add: forget_def Let_def split: option.split)

lemma instances_ok_forget:
  assumes "instances_ok reg" "map_of (pr_instances reg) (pi_instance_id inst) = Some old" "pi_entry_id inst = pi_entry_id old"
  shows "instances_ok (forget inst reg)"
proof -
  have ix: "index_ok pi_entry_id (pr_instances reg) (pr_by_entry reg)" and w: "wf_dict (pr_instances reg)"
    using assms(1) by (simp_all add: instances_ok_def index_ok_def)
  have "dict_get_or (pr_by_entry reg) (pi_entry_id old) [] = ids_of pi_entry_id (pi_entry_id old) (pr_instances reg)"
    using ix by (simp add: index_ok_def)
  moreover have mem: "pi_instance_id inst \<in> set (ids_of pi_entry_id (pi_entry_id old) (pr_instances reg))"
    using assms(2) by (simp add: ids_of_mem [OF w])
  ultimately obtain ids where ids: "map_of (pr_by_entry reg) (pi_entry_id old) = Some ids" "pi_instance_id inst \<in> set ids"
    by (cases "map_of (pr_by_entry reg) (pi_entry_id old)") (auto simp: dict_get_or_def)
  let ?ids = "remove1 (pi_instance_id inst) (dict_get_or (pr_by_entry reg) (pi_entry_id old) [])"
  have "forget inst reg = reg\<lparr>pr_instances := dict_pop (pi_instance_id inst) (pr_instances reg),
     pr_by_entry := (if ?ids = [] then dict_pop (pi_entry_id old) (pr_by_entry reg) else dict_set (pi_entry_id old) ?ids (pr_by_entry reg))\<rparr>"
    using ids assms(3) by (simp add: forget_def Let_def dict_get_or_def)
  moreover have "index_ok pi_entry_id (dict_pop (pi_instance_id inst) (pr_instances reg))
     (if ?ids = [] then dict_pop (pi_entry_id old) (pr_by_entry reg) else dict_set (pi_entry_id old) ?ids (pr_by_entry reg))"
    by (rule index_ok_release [OF ix assms(2) refl])
  ultimately show ?thesis using assms(1) by (simp add: instances_ok_def set_dict_pop)
qed

text \<open>The newest instance of an entry.\<close>

lemma pr_instance_added:
  assumes "instances_ok (add_instance inst reg)" "map_of (pr_instances (add_instance inst reg)) (pi_instance_id inst) = Some inst"
  shows "pr_instance (pi_entry_id inst) (add_instance inst reg) = Some inst"
  using assms by (simp add: pr_instance_def add_instance_def dict_get_or_append)

section \<open>One mount, one disposal\<close>

definition loading_of where
  "loading_of hex entry s resolved = (new_instance (''plugin_'' @ hex) entry s resolved)\<lparr>pi_state := LOADING\<rparr>"

definition already_mounted where
  "already_mounted entry supersede reg \<longleftrightarrow> \<not> supersede \<and> (case pr_instance (pe_entry_id entry) reg of None \<Rightarrow> False
     | Some c \<Rightarrow> pi_state c \<noteq> DISPOSED \<and> pi_entry_revision c = pe_revision entry)"

text \<open>\<open>plugin_mount\<close> with the transitions evaluated.\<close>

lemma plugin_mount_eq:
  "plugin_mount setup tasks user hex entry resolved supersede (reg, \<sigma>) =
     (if already_mounted entry supersede reg then
        Some (Inl (PluginLoadError ''plugin entry is already mounted for this revision''), (reg, \<sigma>))
      else
        let loading = loading_of hex entry (sy_next \<sigma>) resolved;
            \<sigma>1 = snd (scope_init (''plugin:'' @ pe_entry_id entry) \<sigma>);
            reg2 = put_instance loading (add_instance (new_instance (''plugin_'' @ hex) entry (sy_next \<sigma>) resolved) reg)
        in (case setup loading \<sigma>1 of
              (Some error, \<sigma>2) \<Rightarrow>
                (case close_scope tasks user (sy_next \<sigma>) \<sigma>2 of
                   None \<Rightarrow> None
                 | Some (r, \<sigma>3) \<Rightarrow>
                     Some (Inl (if is_exception error
                           then PluginSetupError (''plugin '' @ py_repr (ct_name (pe_manifest entry)) @ '' failed during setup'') (cleanup_failures_of r)
                           else error),
                         (put_instance (loading\<lparr>pi_state := FAILED, pi_health := UNHEALTHY, pi_error := Some error\<rparr>) reg2, \<sigma>3)))
            | (None, \<sigma>2) \<Rightarrow>
                Some (Inr (''plugin_'' @ hex), (put_instance (loading\<lparr>pi_state := ACTIVE, pi_health := HEALTHY\<rparr>) reg2, \<sigma>2))))"
  by (simp add: plugin_mount_def already_mounted_def loading_of_def Let_def scope_init_def transition_def allowed_transitions_def
      new_instance_def rollback_def split: option.split prod.split)

lemma put_put_instance: "pi_instance_id a = pi_instance_id b \<Longrightarrow> put_instance b (put_instance a reg) = put_instance b reg"
  by (simp add: put_instance_def)

text \<open>What the registry holds after a mount that ran: the new instance, last of its entry.\<close>

lemma added_instance:
  assumes "instances_ok reg" "map_of (pr_instances reg) (pi_instance_id inst) = None"
    and "pi_instance_id inst' = pi_instance_id inst" "pi_entry_id inst' = pi_entry_id inst"
  shows "instances_ok (put_instance inst' (add_instance inst reg))"
    and "map_of (pr_instances (put_instance inst' (add_instance inst reg))) i
       = (if i = pi_instance_id inst then Some inst' else map_of (pr_instances reg) i)"
    and "pr_instance (pi_entry_id inst) (put_instance inst' (add_instance inst reg)) = Some inst'"
    and "pr_entries (put_instance inst' (add_instance inst reg)) = pr_entries reg"
  using instances_ok_put [OF instances_ok_add [OF assms(1,2)], of inst' inst] assms
  by (simp_all add: put_instance_def add_instance_def dict_simps pr_instance_def dict_get_or_append)

lemma init_world_step: "world_step pk user binding \<sigma> (snd (scope_init name \<sigma>))"
proof (rule ws_scope)
  show "scope_step (run_cleanup user) \<sigma> (snd (scope_init name \<sigma>))"
    by (rule step_init [where s = "fst (scope_init name \<sigma>)"]) simp
  show "same_registries (sy_world \<sigma>) (sy_world (snd (scope_init name \<sigma>)))"
    by (simp add: scope_init_def same_registries_def)
  show "user_cleanups_only \<sigma> (snd (scope_init name \<sigma>))"
    by (auto simp: scope_init_def user_cleanups_only_def new_scope_def split: if_splits)
qed

lemma failure_world_step: "world_step pk user binding \<sigma> (record_failure s d e \<sigma>)"
proof (rule ws_scope)
  show "scope_step (run_cleanup user) \<sigma> (record_failure s d e \<sigma>)" by (rule step_failure)
  show "same_registries (sy_world \<sigma>) (sy_world (record_failure s d e \<sigma>))"
    by (simp add: record_failure_def same_registries_def)
  show "user_cleanups_only \<sigma> (record_failure s d e \<sigma>)"
    by (auto simp: record_failure_def user_cleanups_only_def split: if_splits)
qed

text \<open>Closing a scope that exists returns.\<close>

lemma close_scope_returns:
  assumes "world_reachable pk user binding \<sigma>" "sy_scopes \<sigma> s = Some sc"
  obtains r \<sigma>' where "close_scope tasks user s \<sigma> = Some (r, \<sigma>')" "world_reachable pk user binding \<sigma>'"
    "scopes_kept \<sigma> \<sigma>'" "closed_at \<sigma>' s"
proof -
  have ok: "store_ok \<sigma>" "linked \<sigma>" using world_ok_reachable [OF assms(1)] by (simp_all add: world_ok_def)
  obtain r \<sigma>' where run: "scope_aclose (sy_next \<sigma>) tasks (run_cleanup user) s \<sigma> = Some (r, \<sigma>')"
    using aclose_closes [OF ok(1) assms(2), of "sy_next \<sigma>" tasks "run_cleanup user"] by auto
  show ?thesis
    using that [of r \<sigma>'] run scopes_kept_close [OF ok run] wreach_step [OF assms(1) ws_close [OF run]]
    by (simp add: close_scope_def)
qed

section \<open>The system\<close>

definition psys_ok where
  "psys_ok pk user binding ps \<longleftrightarrow> (case ps of (reg, \<sigma>) \<Rightarrow> instances_ok reg \<and> world_reachable pk user binding \<sigma>
     \<and> (\<forall>i inst. map_of (pr_instances reg) i = Some inst \<longrightarrow>
          (\<exists>sc. sy_scopes \<sigma> (pi_scope_id inst) = Some sc) \<and> pi_state inst \<in> {ACTIVE, FAILED}
          \<and> (pi_state inst = FAILED \<longrightarrow> closed_at \<sigma> (pi_scope_id inst))))"

text \<open>The outcome of a mount in a reachable system.\<close>

lemma plugin_mount_cases:
  fixes resolved :: "(string, ('v, 'o) registration) dict"
  assumes ok: "psys_ok pk user binding (reg, \<sigma>)" and fresh: "map_of (pr_instances reg) (''plugin_'' @ hex) = None"
    and code: "runs_plugin_code pk user binding setup (snd (scope_init (''plugin:'' @ pe_entry_id entry) \<sigma>))"
  defines "base \<equiv> new_instance (''plugin_'' @ hex) entry (sy_next \<sigma>) resolved"
  obtains (refused) "plugin_mount setup tasks user hex entry resolved supersede (reg, \<sigma>)
        = Some (Inl (PluginLoadError ''plugin entry is already mounted for this revision''), (reg, \<sigma>))"
      "already_mounted entry supersede reg"
  | (mounted) \<sigma>2 where "plugin_mount setup tasks user hex entry resolved supersede (reg, \<sigma>)
        = Some (Inr (''plugin_'' @ hex), (put_instance (base\<lparr>pi_state := ACTIVE, pi_health := HEALTHY\<rparr>) (add_instance base reg), \<sigma>2))"
      "world_steps pk user binding \<sigma> \<sigma>2" "world_reachable pk user binding \<sigma>2" "scopes_kept \<sigma> \<sigma>2" "\<exists>sc. sy_scopes \<sigma>2 (sy_next \<sigma>) = Some sc"
      "setup (loading_of hex entry (sy_next \<sigma>) resolved) (snd (scope_init (''plugin:'' @ pe_entry_id entry) \<sigma>)) = (None, \<sigma>2)"
      "\<not> already_mounted entry supersede reg"
  | (failed) e err \<sigma>3 where "plugin_mount setup tasks user hex entry resolved supersede (reg, \<sigma>)
        = Some (Inl e, (put_instance (base\<lparr>pi_state := FAILED, pi_health := UNHEALTHY, pi_error := Some err\<rparr>) (add_instance base reg), \<sigma>3))"
      "world_reachable pk user binding \<sigma>3" "scopes_kept \<sigma> \<sigma>3" "closed_at \<sigma>3 (sy_next \<sigma>)"
      "fst (setup (loading_of hex entry (sy_next \<sigma>) resolved) (snd (scope_init (''plugin:'' @ pe_entry_id entry) \<sigma>))) = Some err"
      "\<not> already_mounted entry supersede reg"
proof (cases "already_mounted entry supersede reg")
  case True
  then show ?thesis by (intro refused) (simp_all add: plugin_mount_eq)
next
  case False
  let ?\<sigma>1 = "snd (scope_init (''plugin:'' @ pe_entry_id entry) \<sigma>)"
  let ?loading = "loading_of hex entry (sy_next \<sigma>) resolved"
  have reach: "world_reachable pk user binding \<sigma>" using ok by (simp add: psys_ok_def)
  obtain r \<sigma>2 where set: "setup ?loading ?\<sigma>1 = (r, \<sigma>2)" by fastforce
  have steps: "world_steps pk user binding ?\<sigma>1 \<sigma>2"
    using code set unfolding runs_plugin_code_def by (metis snd_conv)
  have reach1: "world_reachable pk user binding ?\<sigma>1" by (rule wreach_step [OF reach init_world_step])
  have reach2: "world_reachable pk user binding \<sigma>2" by (rule world_reachable_steps [OF steps reach1])
  have kept: "scopes_kept \<sigma> ?\<sigma>1" "scopes_kept ?\<sigma>1 \<sigma>2"
    using world_step_kept [OF init_world_step world_ok_reachable [OF reach]]
      world_steps_kept [OF steps world_ok_reachable [OF reach1]] by blast+
  have s1: "sy_scopes ?\<sigma>1 (sy_next \<sigma>) = Some (new_scope (''plugin:'' @ pe_entry_id entry) None)"
    by (simp add: scope_init_def)
  then obtain sc where s2: "sy_scopes \<sigma>2 (sy_next \<sigma>) = Some sc" using kept(2) unfolding scopes_kept_def by blast
  have load: "?loading = base\<lparr>pi_state := LOADING\<rparr>" by (simp add: loading_of_def base_def)
  show ?thesis
  proof (cases r)
    case None
    have "plugin_mount setup tasks user hex entry resolved supersede (reg, \<sigma>)
        = Some (Inr (''plugin_'' @ hex), (put_instance (base\<lparr>pi_state := ACTIVE, pi_health := HEALTHY\<rparr>) (add_instance base reg), \<sigma>2))"
      using False set None by (simp add: plugin_mount_eq Let_def put_put_instance load base_def)
    moreover have "world_steps pk user binding \<sigma> \<sigma>2" using steps init_world_step converse_rtranclp_into_rtranclp by metis
    ultimately show ?thesis using mounted reach2 scopes_kept_trans [OF kept] s2 set None False by blast
  next
    case (Some err)
    obtain q \<sigma>3 where c: "close_scope tasks user (sy_next \<sigma>) \<sigma>2 = Some (q, \<sigma>3)" "world_reachable pk user binding \<sigma>3"
      "scopes_kept \<sigma>2 \<sigma>3" "closed_at \<sigma>3 (sy_next \<sigma>)" by (rule close_scope_returns [OF reach2 s2])
    have "plugin_mount setup tasks user hex entry resolved supersede (reg, \<sigma>)
        = Some (Inl (if is_exception err
             then PluginSetupError (''plugin '' @ py_repr (ct_name (pe_manifest entry)) @ '' failed during setup'') (cleanup_failures_of q)
             else err), (put_instance (base\<lparr>pi_state := FAILED, pi_health := UNHEALTHY, pi_error := Some err\<rparr>) (add_instance base reg), \<sigma>3))"
      using False set Some c(1) by (simp add: plugin_mount_eq Let_def put_put_instance load base_def)
    then show ?thesis
      using failed c(2,4) scopes_kept_trans [OF scopes_kept_trans [OF kept] c(3)] set Some False by simp
  qed
qed

lemma finish_dispose_returns:
  assumes "world_reachable pk user binding \<sigma>" "sy_scopes \<sigma> (pi_scope_id inst) = Some sc"
  obtains q \<sigma>' where "finish_dispose tasks user inst (reg, \<sigma>) = Some (q, (forget inst reg, \<sigma>'))"
    "world_reachable pk user binding \<sigma>'" "scopes_kept \<sigma> \<sigma>'" "closed_at \<sigma>' (pi_scope_id inst)"
proof -
  obtain r \<sigma>' where c: "close_scope tasks user (pi_scope_id inst) \<sigma> = Some (r, \<sigma>')" "world_reachable pk user binding \<sigma>'"
    "scopes_kept \<sigma> \<sigma>'" "closed_at \<sigma>' (pi_scope_id inst)" by (rule close_scope_returns [OF assms])
  have "\<exists>q. finish_dispose tasks user inst (reg, \<sigma>) = Some (q, (forget inst reg, \<sigma>'))"
    using c(1) by (cases r) (simp_all add: finish_dispose_def Let_def)
  then show ?thesis using that [OF _ c(2-4)] by blast
qed

lemma forget_put:
  assumes "instances_ok reg" "map_of (pr_instances reg) i = Some inst" "pi_instance_id inst' = i" "pi_entry_id inst' = pi_entry_id inst"
  shows "instances_ok (forget inst' (put_instance inst' reg))"
    and "pr_instances (forget inst' (put_instance inst' reg)) = dict_pop i (pr_instances reg)"
    and "pr_entries (forget inst' (put_instance inst' reg)) = pr_entries reg"
proof -
  have "instances_ok (put_instance inst' reg)" using instances_ok_put [OF assms(1), of inst' inst] assms(2-4) by simp
  moreover have "map_of (pr_instances (put_instance inst' reg)) i = Some inst'" using assms(3) by (simp add: put_instance_def dict_simps)
  ultimately show "instances_ok (forget inst' (put_instance inst' reg))" using instances_ok_forget assms(3) by blast
  have "dict_pop i (dict_set i inst' d) = dict_pop i d" for d :: "(string, ('a, 'b, 'c, 'd) plugin_instance) dict"
    by (induction d) auto
  then show "pr_instances (forget inst' (put_instance inst' reg)) = dict_pop i (pr_instances reg)"
    using assms(3) by (simp add: forget_instances put_instance_def)
  show "pr_entries (forget inst' (put_instance inst' reg)) = pr_entries reg" by (simp add: forget_instances put_instance_def)
qed

text \<open>The outcome of a disposal in a reachable system.\<close>

lemma plugin_dispose_cases:
  assumes ok: "psys_ok pk user binding (reg, \<sigma>)" and code: "runs_plugin_code pk user binding teardown \<sigma>"
  obtains (gone) "map_of (pr_instances reg) i = None" "plugin_dispose teardown tasks user i (reg, \<sigma>) = Some (Inr (), (reg, \<sigma>))"
  | (refused) inst where "map_of (pr_instances reg) i = Some inst" "pi_generation_refs inst > 0"
      "plugin_dispose teardown tasks user i (reg, \<sigma>)
         = Some (Inl (PluginLoadError ''refusing to dispose a plugin instance reachable from a live generation''), (reg, \<sigma>))"
  | (disposed) inst q reg' \<sigma>' where "map_of (pr_instances reg) i = Some inst" "pi_generation_refs inst = 0"
      "plugin_dispose teardown tasks user i (reg, \<sigma>) = Some (q, (reg', \<sigma>'))"
      "instances_ok reg'" "pr_instances reg' = dict_pop i (pr_instances reg)" "pr_entries reg' = pr_entries reg"
      "world_reachable pk user binding \<sigma>'" "scopes_kept \<sigma> \<sigma>'" "closed_at \<sigma>' (pi_scope_id inst)"
proof (cases "map_of (pr_instances reg) i")
  case None
  then show ?thesis by (intro gone) (simp_all add: plugin_dispose_def)
next
  case (Some inst)
  have reach: "world_reachable pk user binding \<sigma>" and insts: "instances_ok reg" using ok by (simp_all add: psys_ok_def)
  obtain sc where sc: "sy_scopes \<sigma> (pi_scope_id inst) = Some sc" and st: "pi_state inst = ACTIVE \<or> pi_state inst = FAILED"
    using ok Some by (auto simp: psys_ok_def)
  have i: "pi_instance_id inst = i" by (rule instances_ok_id [OF insts Some])
  show ?thesis
  proof (cases "pi_generation_refs inst = 0")
    case False
    then show ?thesis using st by (intro refused [OF Some]) (auto simp: plugin_dispose_def Some)
  next
    case refs: True
    show ?thesis
    proof (cases "pi_state inst = FAILED")
      case True
      obtain q \<sigma>' where f: "finish_dispose tasks user inst (reg, \<sigma>) = Some (q, (forget inst reg, \<sigma>'))"
        "world_reachable pk user binding \<sigma>'" "scopes_kept \<sigma> \<sigma>'" "closed_at \<sigma>' (pi_scope_id inst)"
        by (rule finish_dispose_returns [OF reach sc])
      have "plugin_dispose teardown tasks user i (reg, \<sigma>) = Some (q, (forget inst reg, \<sigma>'))"
        using f(1) True refs by (simp add: plugin_dispose_def Some)
      moreover have "instances_ok (forget inst reg)" using instances_ok_forget [OF insts, of inst inst] Some i by simp
      ultimately show ?thesis using disposed [OF Some refs] f(2-4) i by (simp add: forget_instances)
    next
      case False
      then have active: "pi_state inst = ACTIVE" using st by simp
      let ?u = "inst\<lparr>pi_state := UNLOADING\<rparr>"
      obtain r \<sigma>1 where t: "teardown ?u \<sigma> = (r, \<sigma>1)" by fastforce
      have steps: "world_steps pk user binding \<sigma> \<sigma>1" using code t unfolding runs_plugin_code_def by (metis snd_conv)
      define \<sigma>2 where "\<sigma>2 = (case r of None \<Rightarrow> \<sigma>1 | Some e \<Rightarrow> record_failure (pi_scope_id inst) (''teardown of '' @ py_repr (ct_name (pi_manifest inst))) e \<sigma>1)"
      define v where "v = (case r of None \<Rightarrow> ?u | Some e \<Rightarrow> ?u\<lparr>pi_health := UNHEALTHY\<rparr>)"
      have v: "pi_instance_id v = i" "pi_entry_id v = pi_entry_id inst" "pi_scope_id v = pi_scope_id inst"
        using i by (simp_all add: v_def split: option.split)
      have steps2: "world_steps pk user binding \<sigma> \<sigma>2"
      proof (cases r)
        case None
        then show ?thesis using steps by (simp add: \<sigma>2_def)
      next
        case (Some e)
        have "world_steps pk user binding \<sigma> (record_failure (pi_scope_id inst) d e \<sigma>1)" for d
          by (rule rtranclp.rtrancl_into_rtrancl [OF steps failure_world_step])
        then show ?thesis using Some by (simp add: \<sigma>2_def)
      qed
      have reach2: "world_reachable pk user binding \<sigma>2" by (rule world_reachable_steps [OF steps2 reach])
      have kept2: "scopes_kept \<sigma> \<sigma>2" using world_steps_kept [OF steps2 world_ok_reachable [OF reach]] by blast
      then obtain sc2 where "sy_scopes \<sigma>2 (pi_scope_id v) = Some sc2" using sc v(3) unfolding scopes_kept_def by auto
      then obtain q \<sigma>' where f: "finish_dispose tasks user v (put_instance v reg, \<sigma>2) = Some (q, (forget v (put_instance v reg), \<sigma>'))"
        "world_reachable pk user binding \<sigma>'" "scopes_kept \<sigma>2 \<sigma>'" "closed_at \<sigma>' (pi_scope_id v)"
        by (rule finish_dispose_returns [OF reach2])
      have "plugin_dispose teardown tasks user i (reg, \<sigma>) = finish_dispose tasks user v (put_instance v reg, \<sigma>2)"
        using active refs t by (cases r) (simp_all add: plugin_dispose_def Some Let_def v_def \<sigma>2_def)
      then show ?thesis
        using disposed [OF Some refs, of q "forget v (put_instance v reg)" \<sigma>'] f forget_put [OF insts Some v(1,2)] v(3)
          scopes_kept_trans [OF kept2] by simp
    qed
  qed
qed

inductive plugin_step for pk user binding where
  pstep_install: "plugin_install source entry_id config replace scope reg = (r, reg') \<Longrightarrow> plugin_step pk user binding (reg, \<sigma>) (reg', \<sigma>)"
| pstep_uninstall: "plugin_uninstall i reg = (b, reg') \<Longrightarrow> plugin_step pk user binding (reg, \<sigma>) (reg', \<sigma>)"
| pstep_restore: "plugin_step pk user binding (reg, \<sigma>) (restore_entry i captured reg, \<sigma>)"
| pstep_refs: "map_of (pr_instances reg) i = Some inst
     \<Longrightarrow> plugin_step pk user binding (reg, \<sigma>) (put_instance (inst\<lparr>pi_generation_refs := n\<rparr>) reg, \<sigma>)"
| pstep_world: "world_step pk user binding \<sigma> \<sigma>' \<Longrightarrow> plugin_step pk user binding (reg, \<sigma>) (reg, \<sigma>')"
| pstep_mount: "map_of (pr_instances reg) (''plugin_'' @ hex) = None
     \<Longrightarrow> runs_plugin_code pk user binding setup (snd (scope_init (''plugin:'' @ pe_entry_id entry) \<sigma>))
     \<Longrightarrow> plugin_mount setup tasks user hex entry resolved supersede (reg, \<sigma>) = Some (q, ps') \<Longrightarrow> plugin_step pk user binding (reg, \<sigma>) ps'"
| pstep_dispose: "runs_plugin_code pk user binding teardown \<sigma>
     \<Longrightarrow> plugin_dispose teardown tasks user i (reg, \<sigma>) = Some (u, ps') \<Longrightarrow> plugin_step pk user binding (reg, \<sigma>) ps'"

inductive plugin_reachable for pk user binding where
  preach_new: "plugin_reachable pk user binding (new_plugin_registry, root_store name (empty_world s))"
| preach_step: "plugin_reachable pk user binding ps \<Longrightarrow> plugin_step pk user binding ps ps' \<Longrightarrow> plugin_reachable pk user binding ps'"

lemma psys_ok_instances:
  assumes "psys_ok pk user binding (reg, \<sigma>)" "instances_ok reg'" "world_reachable pk user binding \<sigma>'" "scopes_kept \<sigma> \<sigma>'"
    and "\<And>i inst'. map_of (pr_instances reg') i = Some inst' \<Longrightarrow>
       (\<exists>inst. map_of (pr_instances reg) i = Some inst \<and> pi_scope_id inst' = pi_scope_id inst \<and> pi_state inst' = pi_state inst)
       \<or> ((\<exists>sc. sy_scopes \<sigma>' (pi_scope_id inst') = Some sc) \<and> pi_state inst' \<in> {ACTIVE, FAILED}
           \<and> (pi_state inst' = FAILED \<longrightarrow> closed_at \<sigma>' (pi_scope_id inst')))"
  shows "psys_ok pk user binding (reg', \<sigma>')"
proof -
  have "(\<exists>sc. sy_scopes \<sigma>' (pi_scope_id inst') = Some sc) \<and> pi_state inst' \<in> {ACTIVE, FAILED}
      \<and> (pi_state inst' = FAILED \<longrightarrow> closed_at \<sigma>' (pi_scope_id inst'))"
    if "map_of (pr_instances reg') i = Some inst'" for i inst'
    using assms(5) [OF that]
  proof (elim disjE exE conjE)
    fix inst assume old: "map_of (pr_instances reg) i = Some inst" "pi_scope_id inst' = pi_scope_id inst" "pi_state inst' = pi_state inst"
    then have "(\<exists>sc. sy_scopes \<sigma> (pi_scope_id inst) = Some sc) \<and> pi_state inst \<in> {ACTIVE, FAILED}
      \<and> (pi_state inst = FAILED \<longrightarrow> closed_at \<sigma> (pi_scope_id inst))" using assms(1) by (simp add: psys_ok_def)
    then show ?thesis using assms(4) old(2,3) unfolding scopes_kept_def by metis
  qed blast
  then show ?thesis using assms(2,3) by (simp add: psys_ok_def)
qed

lemma psys_ok_same_instances:
  assumes "psys_ok pk user binding (reg, \<sigma>)" "pr_instances reg' = pr_instances reg" "pr_by_entry reg' = pr_by_entry reg"
  shows "psys_ok pk user binding (reg', \<sigma>)"
  using assms by (simp add: psys_ok_def instances_ok_def)

lemma install_instances:
  "plugin_install source entry_id config replace scope reg = (r, reg')
     \<Longrightarrow> pr_instances reg' = pr_instances reg \<and> pr_by_entry reg' = pr_by_entry reg"
  by (auto simp: plugin_install_def Let_def split: sum.splits option.splits if_splits)

lemma psys_ok_step:
  assumes "plugin_step pk user binding ps ps'" "psys_ok pk user binding ps"
  shows "psys_ok pk user binding ps'"
  using assms(1)
proof cases
  case (pstep_install source entry_id config replace scope reg r reg' \<sigma>)
  then show ?thesis using psys_ok_same_instances install_instances assms(2) by metis
next
  case (pstep_uninstall i reg b reg' \<sigma>)
  then show ?thesis using psys_ok_same_instances [of pk user binding reg \<sigma> reg'] assms(2) by (auto simp: plugin_uninstall_def)
next
  case (pstep_restore reg \<sigma> i captured)
  then show ?thesis using psys_ok_same_instances [of pk user binding reg \<sigma> "restore_entry i captured reg"] assms(2) by (simp add: restore_entry_def)
next
  case (pstep_refs reg i inst \<sigma> n)
  have ok: "psys_ok pk user binding (reg, \<sigma>)" using assms(2) pstep_refs(1) by simp
  then have id: "pi_instance_id inst = i" using pstep_refs(3) instances_ok_id by (auto simp: psys_ok_def)
  show ?thesis unfolding pstep_refs(2)
  proof (rule psys_ok_instances [OF ok])
    show "instances_ok (put_instance (inst\<lparr>pi_generation_refs := n\<rparr>) reg)"
      using instances_ok_put [of reg "inst\<lparr>pi_generation_refs := n\<rparr>" inst] ok pstep_refs(3) id by (simp add: psys_ok_def)
  qed (use ok pstep_refs(3) id in \<open>auto simp: put_instance_def dict_simps psys_ok_def split: if_splits\<close>)
next
  case (pstep_world \<sigma> \<sigma>' reg)
  have ok: "psys_ok pk user binding (reg, \<sigma>)" using assms(2) pstep_world(1) by simp
  then have reach: "world_reachable pk user binding \<sigma>" by (simp add: psys_ok_def)
  show ?thesis unfolding pstep_world(2)
    by (rule psys_ok_instances [OF ok])
       (use ok wreach_step [OF reach pstep_world(3)] world_step_kept [OF pstep_world(3) world_ok_reachable [OF reach]] in
         \<open>auto simp: psys_ok_def\<close>)
next
  case (pstep_mount reg hex plugin_setup entry \<sigma> tasks resolved supersede q)
  have ok: "psys_ok pk user binding (reg, \<sigma>)" using assms(2) pstep_mount(1) by simp
  have insts: "instances_ok reg" using ok by (simp add: psys_ok_def)
  let ?base = "new_instance (''plugin_'' @ hex) entry (sy_next \<sigma>) resolved"
  have base: "pi_instance_id ?base = ''plugin_'' @ hex" "pi_scope_id ?base = sy_next \<sigma>" by (simp_all add: new_instance_def)
  have fresh: "map_of (pr_instances reg) (pi_instance_id ?base) = None" using pstep_mount(2) base by simp
  show ?thesis
  proof (cases rule: plugin_mount_cases [OF ok pstep_mount(2,3), of tasks resolved supersede])
    case 1
    then show ?thesis using pstep_mount(4) ok by simp
  next
    case (2 \<sigma>2)
    note added = added_instance [OF insts fresh, of "?base\<lparr>pi_state := ACTIVE, pi_health := HEALTHY\<rparr>"]
    have "ps' = (put_instance (?base\<lparr>pi_state := ACTIVE, pi_health := HEALTHY\<rparr>) (add_instance ?base reg), \<sigma>2)"
      using 2(1) pstep_mount(4) by simp
    then show ?thesis
      using 2(3-5) added(1,2) base by (auto intro!: psys_ok_instances [OF ok] split: if_splits)
  next
    case (3 e err \<sigma>3)
    note added = added_instance [OF insts fresh, of "?base\<lparr>pi_state := FAILED, pi_health := UNHEALTHY, pi_error := Some err\<rparr>"]
    have "ps' = (put_instance (?base\<lparr>pi_state := FAILED, pi_health := UNHEALTHY, pi_error := Some err\<rparr>) (add_instance ?base reg), \<sigma>3)"
      using 3(1) pstep_mount(4) by simp
    moreover have "\<exists>sc. sy_scopes \<sigma>3 (sy_next \<sigma>) = Some sc" using 3(4) by (auto simp: closed_at_def)
    ultimately show ?thesis
      using 3(2-4) added(1,2) base by (auto intro!: psys_ok_instances [OF ok] split: if_splits)
  qed
next
  case (pstep_dispose teardown \<sigma> tasks i reg u)
  have ok: "psys_ok pk user binding (reg, \<sigma>)" using assms(2) pstep_dispose(1) by simp
  show ?thesis
  proof (cases rule: plugin_dispose_cases [OF ok pstep_dispose(2), of i tasks])
    case (3 inst q reg' \<sigma>')
    then have "ps' = (reg', \<sigma>')" using pstep_dispose(3) by simp
    then show ?thesis
      using 3 by (auto intro!: psys_ok_instances [OF ok] simp: dict_simps split: if_splits)
  qed (use pstep_dispose(3) ok in simp_all)
qed

lemma psys_ok_reachable: "plugin_reachable pk user binding ps \<Longrightarrow> psys_ok pk user binding ps"
proof (induction rule: plugin_reachable.induct)
  case (preach_new name s)
  then show ?case by (simp add: psys_ok_def instances_ok_new wreach_root) (simp add: new_plugin_registry_def)
qed (rule psys_ok_step)

end
