(* ===== verification/Entry_Props.thy ===== *)
theory Entry_Props
  imports Plugins
begin

text \<open>
  The desired entries of the plugin registry: installing gives a fresh name and the next revision,
  a captured entry is restored exactly whatever was installed or removed under its name since.
\<close>

section \<open>Default names\<close>

lemma suffixed_inj: "suffixed base m = suffixed base n \<longleftrightarrow> m = n"
  by (simp add: suffixed_def show_nat_inj)

lemma free_suffix_free:
  assumes "card (set taken \<inter> suffixed base ` {n..}) \<le> fuel"
  shows "suffixed base (free_suffix fuel taken base n) \<notin> set taken"
  using assms
proof (induction fuel arbitrary: n)
  case 0
  then have "set taken \<inter> suffixed base ` {n..} = {}" by simp
  then show ?case by auto
next
  case (Suc fuel)
  show ?case
  proof (cases "suffixed base n \<in> set taken")
    case True
    have "set taken \<inter> suffixed base ` {n + 1..} \<subseteq> (set taken \<inter> suffixed base ` {n..}) - {suffixed base n}"
      by (auto simp: suffixed_inj)
    then have "card (set taken \<inter> suffixed base ` {n + 1..}) \<le> card ((set taken \<inter> suffixed base ` {n..}) - {suffixed base n})"
      by (intro card_mono) auto
    also have "... \<le> fuel" using Suc.prems True by (subst card_Diff_singleton) auto
    finally show ?thesis using Suc.IH True by simp
  qed simp
qed

lemma default_entry_id_free: "map_of (pr_entries reg) (default_entry_id manifest reg) = None"
proof -
  let ?taken = "dict_keys (pr_entries reg)"
  have "card (set ?taken \<inter> X) \<le> length ?taken" for X
    using card_mono [of "set ?taken" "set ?taken \<inter> X"] card_length [of ?taken] by simp
  then have "suffixed (ct_name manifest) (free_suffix (length ?taken) ?taken (ct_name manifest) 2) \<notin> set ?taken"
    by (rule free_suffix_free)
  then have "default_entry_id manifest reg \<notin> set ?taken" by (simp add: default_entry_id_def Let_def)
  then show ?thesis by (simp add: map_of_eq_None_iff)
qed

section \<open>Installing\<close>

lemma plugin_install_cases:
  assumes "plugin_install source entry_id config replace scope reg = (r, reg')"
  obtains (failed) e where "r = Inl e" "pr_entries reg' = pr_entries reg" "pr_instances reg' = pr_instances reg"
      "pr_by_entry reg' = pr_by_entry reg" "entry_id \<noteq> None \<longrightarrow> reg' = reg"
  | (installed) entry i where "r = Inr entry" "pe_entry_id entry = i" "pe_scope entry = scope"
      "i = (case entry_id of None \<Rightarrow> default_entry_id (pe_manifest entry) reg | Some i \<Rightarrow> i)"
      "map_of (pr_entries reg) i \<noteq> None \<longrightarrow> replace" "i \<noteq> []" "strip i = i"
      "pe_revision entry = dict_get_or (pr_revisions reg) i 0 + 1"
      "pr_entries reg' = dict_set i entry (pr_entries reg)"
      "pr_revisions reg' = dict_set i (pe_revision entry) (pr_revisions reg)"
      "pr_instances reg' = pr_instances reg" "pr_by_entry reg' = pr_by_entry reg"
proof (cases "case source of PluginObject p \<Rightarrow> Inr p | PluginClass cls \<Rightarrow> cls config")
  case (Inl e)
  then have "r = Inl e" "reg' = reg" using assms by (simp_all add: plugin_install_def)
  then show ?thesis using failed by simp
next
  case (Inr p)
  let ?bad = "case (source, config) of (PluginObject _, Some c) \<Rightarrow> \<not> payload_eq (frozen_mapping c) (frozen_mapping (pg_config p)) | _ \<Rightarrow> False"
  show ?thesis
  proof (cases ?bad)
    case True
    then have "\<exists>e. r = Inl e \<and> reg' = reg" using assms Inr by (auto simp: plugin_install_def)
    then show ?thesis using failed by auto
  next
    case good: False
    show ?thesis
    proof (cases "pg_manifest p")
      case None
      then have "\<exists>e. r = Inl e \<and> reg' = reg" using assms Inr good by (auto simp: plugin_install_def)
      then show ?thesis using failed by auto
    next
      case (Some manifest)
      let ?untrimmed = "case entry_id of None \<Rightarrow> False | Some i \<Rightarrow> strip i = [] \<or> i \<noteq> strip i"
      let ?i = "case entry_id of None \<Rightarrow> default_entry_id manifest reg | Some i \<Rightarrow> i"
      show ?thesis
      proof (cases "?untrimmed \<or> (?i \<in> set (dict_keys (pr_entries reg)) \<and> \<not> replace)")
        case True
        then have "\<exists>e. r = Inl e \<and> reg' = reg"
          using assms Inr good Some by (cases ?untrimmed; cases r) (simp_all add: plugin_install_def Let_def)
        then show ?thesis using failed by auto
      next
        case False
        let ?n = "dict_get_or (pr_revisions reg) ?i 0 + 1"
        let ?e = "\<lparr>pe_entry_id = ?i, pe_plugin = p, pe_manifest = manifest,
          pe_config = frozen_mapping (case config of None \<Rightarrow> pg_config p | Some c \<Rightarrow> c), pe_revision = ?n, pe_scope = scope\<rparr>"
        have run: "(case make_entry ?e of
             Inl e \<Rightarrow> (Inl e, reg\<lparr>pr_revisions := dict_set ?i ?n (pr_revisions reg)\<rparr>)
           | Inr entry \<Rightarrow> (Inr entry, reg\<lparr>pr_revisions := dict_set ?i ?n (pr_revisions reg), pr_entries := dict_set ?i entry (pr_entries reg)\<rparr>)) = (r, reg')"
          using assms Inr good Some False by (cases replace) (simp_all add: plugin_install_def Let_def cong del: sum.case_cong_weak)
        show ?thesis
        proof (cases "?i = [] \<or> ?i \<noteq> strip ?i")
          case True
          then have "make_entry ?e = Inl (ConfigurationError ''entry id must be a non-empty, trimmed string'')"
            by (simp add: make_entry_def)
          moreover have "entry_id = None" using True False by (auto split: option.splits)
          ultimately show ?thesis using failed run by (cases r) auto
        next
          case trimmed: False
          then have "make_entry ?e = Inr ?e" by (simp add: make_entry_def)
          then have "r = Inr ?e" "reg' = reg\<lparr>pr_revisions := dict_set ?i ?n (pr_revisions reg), pr_entries := dict_set ?i ?e (pr_entries reg)\<rparr>"
            using run by auto
          moreover have "map_of (pr_entries reg) ?i \<noteq> None \<longrightarrow> replace" using False by (simp add: map_of_eq_None_iff)
          moreover have "?i \<noteq> []" "strip ?i = ?i" using trimmed by fastforce+
          ultimately show ?thesis by (intro installed [of ?e ?i]) (simp_all cong del: option.case_cong_weak)
        qed
      qed
    qed
  qed
qed

text \<open>
  C32: Installing either fails and leaves every desired entry as it was, or it stores exactly the
  returned entry: its revision is one more than the last one given out under that name (also when
  the name was uninstalled since), an existing name is only taken over with \<open>replace\<close>, a name the
  caller does not choose is free, and no other entry and no mounted instance changes.
\<close>

theorem plugin_install_outcome:
  assumes "plugin_install source entry_id config replace scope reg = (r, reg')"
  shows "case r of
       Inl e \<Rightarrow> pr_entries reg' = pr_entries reg
     | Inr entry \<Rightarrow>
         map_of (pr_entries reg') (pe_entry_id entry) = Some entry
         \<and> (\<forall>j. j \<noteq> pe_entry_id entry \<longrightarrow> map_of (pr_entries reg') j = map_of (pr_entries reg) j)
         \<and> pe_revision entry = dict_get_or (pr_revisions reg) (pe_entry_id entry) 0 + 1
         \<and> map_of (pr_revisions reg') (pe_entry_id entry) = Some (pe_revision entry)
         \<and> (map_of (pr_entries reg) (pe_entry_id entry) \<noteq> None \<longrightarrow> replace \<and> entry_id = Some (pe_entry_id entry))
         \<and> pe_entry_id entry \<noteq> [] \<and> strip (pe_entry_id entry) = pe_entry_id entry
         \<and> pr_instances reg' = pr_instances reg"
proof (cases rule: plugin_install_cases [OF assms])
  case (1 e)
  then show ?thesis by simp
next
  case (2 entry i)
  have "replace \<and> entry_id = Some i" if "map_of (pr_entries reg) i \<noteq> None"
    using that 2(4,5) default_entry_id_free [of reg "pe_manifest entry"] by (cases entry_id) auto
  then show ?thesis using 2 by (simp add: dict_simps)
qed

section \<open>Capture and restore\<close>

text \<open>A batch works on one entry: it installs under its name or uninstalls it, any number of times.\<close>

inductive entry_step :: "string \<Rightarrow> ('v, 'x, 'o, 'p) plugin_registry \<Rightarrow> ('v, 'x, 'o, 'p) plugin_registry \<Rightarrow> bool" for i where
  es_install: "plugin_install source (Some i) config replace scope reg = (r, reg') \<Longrightarrow> entry_step i reg reg'"
| es_uninstall: "plugin_uninstall i reg = (b, reg') \<Longrightarrow> entry_step i reg reg'"

definition same_but :: "string \<Rightarrow> ('v, 'x, 'o, 'p) plugin_registry \<Rightarrow> ('v, 'x, 'o, 'p) plugin_registry \<Rightarrow> bool" where
  "same_but i reg reg' \<longleftrightarrow> wf_dict (pr_entries reg')
     \<and> (\<forall>j. j \<noteq> i \<longrightarrow> map_of (pr_entries reg') j = map_of (pr_entries reg) j \<and> map_of (pr_revisions reg') j = map_of (pr_revisions reg) j)
     \<and> pr_instances reg' = pr_instances reg \<and> pr_by_entry reg' = pr_by_entry reg"

lemma same_but_step:
  assumes "entry_step i reg1 reg2" "same_but i reg reg1"
  shows "same_but i reg reg2"
  using assms(1)
proof cases
  case (es_install source config replace scope r)
  show ?thesis
  proof (cases rule: plugin_install_cases [OF es_install])
    case (1 e)
    then show ?thesis using assms(2) by simp
  next
    case (2 entry j)
    then show ?thesis using assms(2) by (simp add: same_but_def dict_simps)
  qed
next
  case (es_uninstall b)
  then show ?thesis using assms(2) by (auto simp: same_but_def plugin_uninstall_def dict_simps)
qed

lemma same_but_steps:
  assumes "(entry_step i)\<^sup>*\<^sup>* reg reg'" "wf_dict (pr_entries reg)"
  shows "same_but i reg reg'"
  using assms(1)
proof (induction rule: rtranclp_induct)
  case base
  then show ?case using assms(2) by (simp add: same_but_def)
next
  case (step reg1 reg2)
  then show ?case using same_but_step by blast
qed

lemma plugin_entries_cong:
  assumes "wf_dict (pr_entries reg)" "wf_dict (pr_entries reg')" "\<And>j. map_of (pr_entries reg') j = map_of (pr_entries reg) j"
  shows "plugin_entries reg' = plugin_entries reg"
proof -
  have "set (dict_keys (pr_entries reg')) = set (dict_keys (pr_entries reg))"
    using assms(3) dom_map_of_conv_image_fst [of "pr_entries reg"] dom_map_of_conv_image_fst [of "pr_entries reg'"]
    by (auto simp: dom_def)
  then have "sort (dict_keys (pr_entries reg')) = sort (dict_keys (pr_entries reg))"
    using assms(1,2) by (intro sorted_distinct_set_unique) (simp_all add: wf_dict_def)
  then show ?thesis using assms(3) by (simp add: plugin_entries_def)
qed

text \<open>
  C33: Restoring a captured entry undoes any batch of installs and uninstalls under its name: the
  registry lists exactly the entries it listed before, every revision counter is the one before,
  and the mounted instances are untouched.
\<close>

theorem restore_undoes_batch:
  assumes "wf_dict (pr_entries reg)" "(entry_step i)\<^sup>*\<^sup>* reg reg1"
  defines "reg2 \<equiv> restore_entry i (capture_entry i reg) reg1"
  shows "plugin_entries reg2 = plugin_entries reg \<and> (\<forall>j. map_of (pr_entries reg2) j = map_of (pr_entries reg) j)
     \<and> (\<forall>j. map_of (pr_revisions reg2) j = map_of (pr_revisions reg) j) \<and> pr_instances reg2 = pr_instances reg"
proof -
  have s: "same_but i reg reg1" by (rule same_but_steps [OF assms(2,1)])
  have e: "map_of (pr_entries reg2) j = map_of (pr_entries reg) j" for j
    using s by (cases "map_of (pr_entries reg) i") (auto simp: reg2_def restore_entry_def capture_entry_def same_but_def dict_simps)
  moreover have "map_of (pr_revisions reg2) j = map_of (pr_revisions reg) j" for j
    using s by (cases "map_of (pr_revisions reg) i") (auto simp: reg2_def restore_entry_def capture_entry_def same_but_def dict_simps)
  moreover have "wf_dict (pr_entries reg2)"
    using s by (auto simp: reg2_def restore_entry_def same_but_def split: option.split)
  moreover have "pr_instances reg2 = pr_instances reg" using s by (simp add: reg2_def restore_entry_def same_but_def)
  ultimately show ?thesis using plugin_entries_cong [OF assms(1)] by blast
qed

text \<open>A plugin named \<open>mailer\<close>, installed twice under the default name.\<close>

definition demo_contracts :: "(nat, unit) contracts" where
  "demo_contracts = \<lparr>ct_name = ''mailer'', ct_identity = ''mailer@1.0'', ct_provided = [], ct_required = [], ct_optional = []\<rparr>"

definition demo_plugin :: "(nat, unit, unit) plugin_object" where
  "demo_plugin = \<lparr>pg_manifest = Some demo_contracts, pg_config = [], pg_body = ()\<rparr>"

definition demo_installed :: "(nat, unit, unit, unit) plugin_registry" where
  "demo_installed = snd (plugin_install (PluginObject demo_plugin) None None False ''root'' new_plugin_registry)"

lemma demo_default_ids:
  "default_entry_id demo_contracts new_plugin_registry = ''mailer''"
  "default_entry_id demo_contracts demo_installed = ''mailer-2''"
  by code_simp+

lemma demo_install:
  "plugin_install (PluginObject demo_plugin) None None False ''root'' demo_installed
     = (Inr \<lparr>pe_entry_id = ''mailer-2'', pe_plugin = demo_plugin, pe_manifest = demo_contracts, pe_config = [],
          pe_revision = 1, pe_scope = ''root''\<rparr>,
        snd (plugin_install (PluginObject demo_plugin) None None False ''root'' demo_installed))"
  by code_simp

theorem plugin_install_outcome_witness:
  "map_of (pr_revisions (snd (plugin_install (PluginObject demo_plugin) None None False ''root'' demo_installed))) ''mailer-2'' = Some 1"
  using plugin_install_outcome [OF demo_install] by simp

theorem restore_undoes_batch_witness:
  "plugin_entries (restore_entry ''mailer'' (capture_entry ''mailer'' demo_installed)
     (snd (plugin_uninstall ''mailer'' (snd (plugin_install (PluginObject demo_plugin) (Some ''mailer'') None True ''root'' demo_installed)))))
   = plugin_entries demo_installed"
proof -
  let ?reg1 = "snd (plugin_install (PluginObject demo_plugin) (Some ''mailer'') None True ''root'' demo_installed)"
  let ?reg2 = "snd (plugin_uninstall ''mailer'' ?reg1)"
  have "entry_step ''mailer'' demo_installed ?reg1" by (rule es_install [OF surjective_pairing])
  moreover have "entry_step ''mailer'' ?reg1 ?reg2" by (rule es_uninstall [OF surjective_pairing])
  ultimately have steps: "(entry_step ''mailer'')\<^sup>*\<^sup>* demo_installed ?reg2" by (blast intro: rtranclp_trans)
  have "wf_dict (pr_entries demo_installed)" by code_simp
  from restore_undoes_batch [OF this steps] show ?thesis by blast
qed

end
