(* ===== verification/Plugin_Outcomes.thy ===== *)
theory Plugin_Outcomes
  imports Plugin_Props Entry_Props
begin

text \<open>
  What a mount and a disposal leave behind, in every system reached by installs, mounts, disposals
  and the harness operations in between.
\<close>

text \<open>
  C4: A plugin whose setup failed contributes nothing, at any later time: the scope of every failed
  instance is closed and no registry holds an entry that this scope or a scope below it owns.
\<close>

theorem failed_plugin_contributes_nothing:
  assumes "plugin_reachable pk user binding (reg, \<sigma>)" "map_of (pr_instances reg) i = Some inst" "pi_state inst = FAILED"
  shows "closed_at \<sigma> (pi_scope_id inst) \<and> owns_nothing \<sigma> (pi_scope_id inst)"
proof -
  have "psys_ok pk user binding (reg, \<sigma>)" by (rule psys_ok_reachable [OF assms(1)])
  then have closed: "closed_at \<sigma> (pi_scope_id inst)" and reach: "world_reachable pk user binding \<sigma>"
    using assms(2,3) by (auto simp: psys_ok_def)
  show ?thesis using closed closed_owns_nothing [OF world_ok_reachable [OF reach] closed] by blast
qed

text \<open>
  C13: A mount always returns. An entry already mounted for its revision is refused with nothing
  changed. Otherwise the entry's newest instance is the new one: active when \<open>setup\<close> succeeded;
  and when it raised the mount raises too, the instance is failed with that error, and everything
  \<open>setup\<close> had registered is withdrawn. Desired entries and other instances do not change.
\<close>

theorem plugin_mount_outcome:
  fixes resolved :: "(string, ('v, 'o) registration) dict"
  assumes "plugin_reachable pk user binding (reg, \<sigma>)" "map_of (pr_instances reg) (''plugin_'' @ hex) = None"
    and "runs_plugin_code pk user binding setup (snd (scope_init (''plugin:'' @ pe_entry_id entry) \<sigma>))"
  shows "\<exists>q reg' \<sigma>'. plugin_mount setup tasks user hex entry resolved supersede (reg, \<sigma>) = Some (q, (reg', \<sigma>'))
     \<and> pr_entries reg' = pr_entries reg
     \<and> (\<forall>i. i \<noteq> ''plugin_'' @ hex \<longrightarrow> map_of (pr_instances reg') i = map_of (pr_instances reg) i)
     \<and> (if already_mounted entry supersede reg
        then reg' = reg \<and> \<sigma>' = \<sigma> \<and> q = Inl (PluginLoadError ''plugin entry is already mounted for this revision'')
        else \<exists>inst. pr_instance (pe_entry_id entry) reg' = Some inst \<and> pi_instance_id inst = ''plugin_'' @ hex
           \<and> pi_entry_revision inst = pe_revision entry
           \<and> (case fst (setup (loading_of hex entry (sy_next \<sigma>) resolved) (snd (scope_init (''plugin:'' @ pe_entry_id entry) \<sigma>))) of
                None \<Rightarrow> q = Inr (''plugin_'' @ hex) \<and> pi_state inst = ACTIVE \<and> pi_health inst = HEALTHY
              | Some err \<Rightarrow> (\<exists>e. q = Inl e) \<and> pi_state inst = FAILED \<and> pi_error inst = Some err
                  \<and> closed_at \<sigma>' (pi_scope_id inst) \<and> owns_nothing \<sigma>' (pi_scope_id inst)))"
proof -
  have ok: "psys_ok pk user binding (reg, \<sigma>)" by (rule psys_ok_reachable [OF assms(1)])
  then have insts: "instances_ok reg" by (simp add: psys_ok_def)
  let ?base = "new_instance (''plugin_'' @ hex) entry (sy_next \<sigma>) resolved"
  have base: "pi_instance_id ?base = ''plugin_'' @ hex" "pi_scope_id ?base = sy_next \<sigma>" "pi_entry_id ?base = pe_entry_id entry"
    "pi_entry_revision ?base = pe_revision entry"
    by (simp_all add: new_instance_def)
  have fresh: "map_of (pr_instances reg) (pi_instance_id ?base) = None" using assms(2) base by simp
  show ?thesis
  proof (cases rule: plugin_mount_cases [OF ok assms(2,3), of tasks resolved supersede])
    case 1
    then show ?thesis by simp
  next
    case (2 \<sigma>2)
    note added = added_instance [OF insts fresh, of "?base\<lparr>pi_state := ACTIVE, pi_health := HEALTHY\<rparr>"]
    show ?thesis
      by (intro exI conjI, rule 2(1)) (use 2(6,7) added(2,3,4) base in simp_all)
  next
    case (3 e err \<sigma>3)
    note added = added_instance [OF insts fresh, of "?base\<lparr>pi_state := FAILED, pi_health := UNHEALTHY, pi_error := Some err\<rparr>"]
    have "owns_nothing \<sigma>3 (sy_next \<sigma>)" by (rule closed_owns_nothing [OF world_ok_reachable [OF 3(2)] 3(4)])
    then show ?thesis
      by (intro exI conjI, rule_tac 3(1)) (use 3(4-6) added(2,3,4) base in simp_all)
  qed
qed

text \<open>
  C8: In every reachable state, for a \<open>teardown\<close> that acts on the harness through its operations,
  a disposal returns. It is refused with nothing changed while a live generation still
  reaches the instance; otherwise, whatever \<open>teardown\<close> and the cleanups raised, the registry has
  forgotten exactly this instance, its scope is closed and nothing it registered is left.
\<close>

theorem plugin_dispose_outcome:
  assumes "plugin_reachable pk user binding (reg, \<sigma>)" "runs_plugin_code pk user binding teardown \<sigma>"
  shows "\<exists>q reg' \<sigma>'. plugin_dispose teardown tasks user i (reg, \<sigma>) = Some (q, (reg', \<sigma>'))
     \<and> (case map_of (pr_instances reg) i of
          None \<Rightarrow> q = Inr () \<and> reg' = reg \<and> \<sigma>' = \<sigma>
        | Some inst \<Rightarrow>
            if pi_generation_refs inst > 0 then (\<exists>m. q = Inl (PluginLoadError m)) \<and> reg' = reg \<and> \<sigma>' = \<sigma>
            else (\<forall>j. map_of (pr_instances reg') j = (if j = i then None else map_of (pr_instances reg) j))
              \<and> pr_entries reg' = pr_entries reg
              \<and> closed_at \<sigma>' (pi_scope_id inst) \<and> owns_nothing \<sigma>' (pi_scope_id inst))"
proof -
  have ok: "psys_ok pk user binding (reg, \<sigma>)" by (rule psys_ok_reachable [OF assms(1)])
  show ?thesis
  proof (cases rule: plugin_dispose_cases [OF ok assms(2), of i tasks])
    case (3 inst q reg' \<sigma>')
    have "owns_nothing \<sigma>' (pi_scope_id inst)" by (rule closed_owns_nothing [OF world_ok_reachable [OF 3(7)] 3(9)])
    then show ?thesis using 3 by (simp add: dict_simps)
  qed simp_all
qed

section \<open>A concrete plugin\<close>

text \<open>
  The demo plugin registers a hook during \<open>setup\<close> and, when \<open>fails\<close>, raises afterwards.
\<close>

definition demo_setup where
  "demo_setup fails = (\<lambda>inst \<sigma>. (if fails then Some (PyException ''ValueError'' ''no server'') else None,
     snd (register_hook ''1'' (pi_scope_id inst) demo_hook \<sigma>)))"

definition demo_entry :: "(nat, unit, unit) plugin_entry" where
  "demo_entry = \<lparr>pe_entry_id = ''mailer'', pe_plugin = demo_plugin, pe_manifest = demo_contracts, pe_config = [],
     pe_revision = 1, pe_scope = ''root''\<rparr>"

abbreviation demo_root :: demo_state where
  "demo_root \<equiv> root_store ''harness'' (empty_world ())"

abbreviation demo_registry :: "(nat, unit, unit, unit) plugin_registry" where
  "demo_registry \<equiv> new_plugin_registry"

abbreviation demo_pk :: "(nat, unit) packaging" where
  "demo_pk \<equiv> undefined"

abbreviation demo_binding :: "unit agent_runtime \<Rightarrow> unit callback" where
  "demo_binding \<equiv> undefined"

lemma demo_unclaimed: "unclaimed withdraws_hook (''hook_'' @ ''1'') (snd (scope_init name demo_root))"
  by (auto simp: demo_world_defs scope_init_def unclaimed_def calls_def split: if_splits)

lemma demo_runs: "runs_plugin_code demo_pk demo_user demo_binding (demo_setup fails) (snd (scope_init name demo_root))"
  unfolding runs_plugin_code_def demo_setup_def snd_conv
  using hook_step_snd [OF demo_unclaimed] by blast

lemma demo_reachable: "plugin_reachable demo_pk demo_user demo_binding (demo_registry, demo_root)"
  by (rule preach_new)

lemma demo_not_mounted: "\<not> already_mounted demo_entry False new_plugin_registry"
  by (simp add: already_mounted_def new_plugin_registry_def pr_instance_def dict_get_or_def)

lemma demo_sels: "pe_entry_id demo_entry = ''mailer''" "pe_revision demo_entry = 1"
  "fst (demo_setup fails inst \<sigma>) = (if fails then Some (PyException ''ValueError'' ''no server'') else None)"
  "map_of (pr_instances demo_registry) i = None"
  by (simp_all add: demo_entry_def demo_setup_def new_plugin_registry_def)

theorem plugin_mount_outcome_witness:
  "\<exists>q reg' \<sigma>'. plugin_mount (demo_setup False) (\<lambda>_. TaskFinished) demo_user ''a'' demo_entry [] False (demo_registry, demo_root)
      = Some (q, (reg', \<sigma>')) \<and> q = Inr ''plugin_a''
     \<and> (\<exists>inst. pr_instance ''mailer'' reg' = Some inst \<and> pi_state inst = ACTIVE \<and> pi_entry_revision inst = 1)"
proof -
  obtain q reg' \<sigma>' where "plugin_mount (demo_setup False) (\<lambda>_. TaskFinished) demo_user ''a'' demo_entry [] False (demo_registry, demo_root)
      = Some (q, (reg', \<sigma>'))"
    "\<exists>inst. pr_instance ''mailer'' reg' = Some inst \<and> pi_entry_revision inst = 1 \<and> q = Inr ''plugin_a'' \<and> pi_state inst = ACTIVE"
    using plugin_mount_outcome [OF demo_reachable demo_sels(4) demo_runs [where fails = False],
        where tasks = "\<lambda>_. TaskFinished" and hex = "''a''" and resolved = "[]" and supersede = False and entry = demo_entry]
    by (auto simp: demo_sels demo_not_mounted)
  then show ?thesis by blast
qed

text \<open>The demo plugin mounted and failed: the hook its setup registered is gone.\<close>

theorem failed_plugin_contributes_nothing_witness:
  "\<exists>e reg' \<sigma>' inst. plugin_mount (demo_setup True) (\<lambda>_. TaskFinished) demo_user ''a'' demo_entry [] False (demo_registry, demo_root)
      = Some (Inl e, (reg', \<sigma>')) \<and> map_of (pr_instances reg') ''plugin_a'' = Some inst \<and> pi_state inst = FAILED
     \<and> closed_at \<sigma>' (pi_scope_id inst) \<and> owns_nothing \<sigma>' (pi_scope_id inst)"
proof -
  have ok: "psys_ok demo_pk demo_user demo_binding (demo_registry, demo_root)"
    by (rule psys_ok_reachable [OF demo_reachable])
  have free: "map_of (pr_instances demo_registry) (''plugin_'' @ ''a'') = None" by (rule demo_sels(4))
  have code: "runs_plugin_code demo_pk demo_user demo_binding (demo_setup True) (snd (scope_init (''plugin:'' @ pe_entry_id demo_entry) demo_root))"
    by (rule demo_runs)
  show ?thesis
  proof (cases rule: plugin_mount_cases [OF ok free code, where tasks = "\<lambda>_. TaskFinished" and resolved = "[]" and supersede = False])
    case (3 e err \<sigma>3)
    let ?base = "new_instance (''plugin_'' @ ''a'') demo_entry (sy_next demo_root) [] :: (nat, unit, unit, unit) plugin_instance"
    let ?inst = "?base\<lparr>pi_state := FAILED, pi_health := UNHEALTHY, pi_error := Some err\<rparr>"
    let ?reg = "put_instance ?inst (add_instance ?base demo_registry)"
    have reach: "plugin_reachable demo_pk demo_user demo_binding (?reg, \<sigma>3)"
      by (rule preach_step [OF demo_reachable pstep_mount [OF free code 3(1)]])
    have inst: "map_of (pr_instances ?reg) ''plugin_a'' = Some ?inst"
      by (simp add: put_instance_def add_instance_def new_instance_def new_plugin_registry_def)
    have "closed_at \<sigma>3 (pi_scope_id ?inst) \<and> owns_nothing \<sigma>3 (pi_scope_id ?inst)"
      by (rule failed_plugin_contributes_nothing [OF reach inst]) simp
    then show ?thesis using 3(1) inst by (intro exI [of _ e] exI [of _ ?reg] exI [of _ \<sigma>3] exI [of _ ?inst]) simp
  qed (simp_all add: demo_not_mounted demo_setup_def)
qed

text \<open>The demo plugin mounted: its scope owns the hook its setup registered.\<close>

lemma demo_mounted:
  obtains reg :: "(nat, unit, unit, unit) plugin_registry" and \<sigma> :: demo_state and inst
  where "plugin_reachable demo_pk demo_user demo_binding (reg, \<sigma>)"
    "map_of (pr_instances reg) ''plugin_a'' = Some inst" "pi_state inst = ACTIVE" "pi_generation_refs inst = 0"
    "pi_instance_id inst = ''plugin_a''" "hook_owner (sy_world \<sigma>) ''hook_1'' = Some (pi_scope_id inst)"
proof -
  have ok: "psys_ok demo_pk demo_user demo_binding (demo_registry, demo_root)"
    by (rule psys_ok_reachable [OF demo_reachable])
  have free: "map_of (pr_instances demo_registry) (''plugin_'' @ ''a'') = None" by (rule demo_sels(4))
  have code: "runs_plugin_code demo_pk demo_user demo_binding (demo_setup False) (snd (scope_init (''plugin:'' @ pe_entry_id demo_entry) demo_root))"
    by (rule demo_runs)
  show thesis
  proof (cases rule: plugin_mount_cases [OF ok free code, where tasks = "\<lambda>_. TaskFinished" and resolved = "[]" and supersede = False])
    case (2 \<sigma>2)
    let ?base = "new_instance (''plugin_'' @ ''a'') demo_entry (sy_next demo_root) [] :: (nat, unit, unit, unit) plugin_instance"
    let ?inst = "?base\<lparr>pi_state := ACTIVE, pi_health := HEALTHY\<rparr>"
    let ?reg = "put_instance ?inst (add_instance ?base demo_registry)"
    have "plugin_reachable demo_pk demo_user demo_binding (?reg, \<sigma>2)"
      by (rule preach_step [OF demo_reachable pstep_mount [OF free code 2(1)]])
    moreover have "map_of (pr_instances ?reg) ''plugin_a'' = Some ?inst" "pi_instance_id ?inst = ''plugin_a''"
      "pi_generation_refs ?inst = 0"
      by (simp_all add: put_instance_def add_instance_def new_instance_def new_plugin_registry_def)
    moreover have "hook_owner (sy_world \<sigma>2) ''hook_1'' = Some (pi_scope_id ?inst)"
    proof -
      have "\<sigma>2 = snd (register_hook ''1'' (sy_next demo_root) demo_hook (snd (scope_init (''plugin:'' @ pe_entry_id demo_entry) demo_root)))"
        using 2(6) by (simp add: demo_setup_def loading_of_def new_instance_def)
      then show ?thesis by (simp add: demo_world_defs scope_init_def new_instance_def hook_owner_def)
    qed
    ultimately show thesis by (intro that [of ?reg \<sigma>2 ?inst]) simp_all
  qed (simp_all add: demo_not_mounted demo_setup_def)
qed

text \<open>Referenced by one generation the disposal is refused; released, it takes the hook with it.\<close>

theorem plugin_dispose_outcome_witness:
  "\<exists>(reg :: (nat, unit, unit, unit) plugin_registry) (\<sigma> :: demo_state) inst. map_of (pr_instances reg) ''plugin_a'' = Some inst \<and> pi_state inst = ACTIVE
     \<and> hook_owner (sy_world \<sigma>) ''hook_1'' = Some (pi_scope_id inst)
     \<and> (\<exists>m. plugin_dispose (\<lambda>inst \<sigma>. (None, \<sigma>)) (\<lambda>_. TaskFinished) demo_user ''plugin_a''
              (put_instance (inst\<lparr>pi_generation_refs := 1\<rparr>) reg, \<sigma>)
            = Some (Inl (PluginLoadError m), (put_instance (inst\<lparr>pi_generation_refs := 1\<rparr>) reg, \<sigma>)))
     \<and> (\<exists>q reg' \<sigma>'. plugin_dispose (\<lambda>inst \<sigma>. (None, \<sigma>)) (\<lambda>_. TaskFinished) demo_user ''plugin_a'' (reg, \<sigma>)
            = Some (q, (reg', \<sigma>')) \<and> map_of (pr_instances reg') ''plugin_a'' = None
          \<and> closed_at \<sigma>' (pi_scope_id inst) \<and> hook_owner (sy_world \<sigma>') ''hook_1'' \<noteq> Some (pi_scope_id inst))"
proof -
  obtain reg :: "(nat, unit, unit, unit) plugin_registry" and \<sigma> :: demo_state and inst where m: "plugin_reachable demo_pk demo_user demo_binding (reg, \<sigma>)"
    "map_of (pr_instances reg) ''plugin_a'' = Some inst" "pi_state inst = ACTIVE" "pi_generation_refs inst = 0"
    "pi_instance_id inst = ''plugin_a''" "hook_owner (sy_world \<sigma>) ''hook_1'' = Some (pi_scope_id inst)"
    by (rule demo_mounted)
  let ?held = "put_instance (inst\<lparr>pi_generation_refs := 1\<rparr>) reg"
  have idle: "runs_plugin_code demo_pk demo_user demo_binding (\<lambda>inst \<sigma>. (None, \<sigma>)) \<sigma>"
    by (simp add: runs_plugin_code_def)
  have reach: "plugin_reachable demo_pk demo_user demo_binding (?held, \<sigma>)"
    by (rule preach_step [OF m(1) pstep_refs [OF m(2)]])
  have "map_of (pr_instances ?held) ''plugin_a'' = Some (inst\<lparr>pi_generation_refs := 1\<rparr>)"
    using m(5) by (simp add: put_instance_def dict_simps)
  with plugin_dispose_outcome [OF reach idle, of "\<lambda>_. TaskFinished" "''plugin_a''"]
  have refused: "\<exists>m. plugin_dispose (\<lambda>inst \<sigma>. (None, \<sigma>)) (\<lambda>_. TaskFinished) demo_user ''plugin_a'' (?held, \<sigma>)
      = Some (Inl (PluginLoadError m), (?held, \<sigma>))"
    by auto
  from plugin_dispose_outcome [OF m(1) idle, of "\<lambda>_. TaskFinished" "''plugin_a''"] m(2,4)
  obtain q reg' \<sigma>' where done': "plugin_dispose (\<lambda>inst \<sigma>. (None, \<sigma>)) (\<lambda>_. TaskFinished) demo_user ''plugin_a'' (reg, \<sigma>)
      = Some (q, (reg', \<sigma>'))" "map_of (pr_instances reg') ''plugin_a'' = None"
    "closed_at \<sigma>' (pi_scope_id inst)" "owns_nothing \<sigma>' (pi_scope_id inst)"
    by auto
  have "hook_owner (sy_world \<sigma>') ''hook_1'' \<noteq> Some (pi_scope_id inst)"
    using done'(4) descends_refl unfolding owns_nothing_def by blast
  with m(2,3,6) refused done'(1-3) show ?thesis by blast
qed

end
