(* ===== verification/Budget.thy ===== *)
theory Budget
  imports Values
begin

text \<open>
  Budget dimensions, limits and usage (\<open>budget/models.py\<close>) and the governors that charge them
  (\<open>budget/governor.py\<close>). Governors live in a store in the order of their creation; a governor
  is its index, and its parent, which is passed to the constructor, is an earlier index. The
  recursion of the code into the parent is the iteration over \<open>lineage\<close>. The clock is read once
  per operation and is an argument \<open>now\<close>; a float is a rational (rounding is not modelled).
\<close>

section \<open>Dimensions and limits\<close>

datatype budget_dimension = WALL_CLOCK_SECONDS | MODEL_CALLS | TOOL_CALLS | TOKENS | ESTIMATED_COST | CHILD_RUNS

datatype budget_enforcement = ENFORCED | ACCOUNTED

definition budget_dimensions :: "budget_dimension list" where
  "budget_dimensions = [WALL_CLOCK_SECONDS, MODEL_CALLS, TOOL_CALLS, TOKENS, ESTIMATED_COST, CHILD_RUNS]"

definition dimension_value :: "budget_dimension \<Rightarrow> string" where
  "dimension_value d = (case d of WALL_CLOCK_SECONDS \<Rightarrow> ''wall_clock_seconds'' | MODEL_CALLS \<Rightarrow> ''model_calls''
     | TOOL_CALLS \<Rightarrow> ''tool_calls'' | TOKENS \<Rightarrow> ''tokens'' | ESTIMATED_COST \<Rightarrow> ''estimated_cost''
     | CHILD_RUNS \<Rightarrow> ''child_runs'')"

definition enforcement_of :: "budget_dimension \<Rightarrow> budget_enforcement" where
  "enforcement_of d = (case d of WALL_CLOCK_SECONDS \<Rightarrow> ENFORCED | TOOL_CALLS \<Rightarrow> ENFORCED | CHILD_RUNS \<Rightarrow> ENFORCED
     | MODEL_CALLS \<Rightarrow> ACCOUNTED | TOKENS \<Rightarrow> ACCOUNTED | ESTIMATED_COST \<Rightarrow> ACCOUNTED)"

definition is_count :: "budget_dimension \<Rightarrow> bool" where
  "is_count d \<longleftrightarrow> d \<in> {MODEL_CALLS, TOOL_CALLS, TOKENS, CHILD_RUNS}"

text \<open>As given by the caller the limits are \<open>pnumber\<close>s; once validated they are rationals.\<close>

record 'n budget_limits =
  bl_wall_clock_seconds :: "'n option"
  bl_model_calls :: "'n option"
  bl_tool_calls :: "'n option"
  bl_tokens :: "'n option"
  bl_estimated_cost :: "'n option"
  bl_child_runs :: "'n option"

definition no_limits :: "'n budget_limits" where
  "no_limits = \<lparr>bl_wall_clock_seconds = None, bl_model_calls = None, bl_tool_calls = None,
     bl_tokens = None, bl_estimated_cost = None, bl_child_runs = None\<rparr>"

definition limit_for :: "'n budget_limits \<Rightarrow> budget_dimension \<Rightarrow> 'n option" where
  "limit_for limits d = (case d of WALL_CLOCK_SECONDS \<Rightarrow> bl_wall_clock_seconds limits
     | MODEL_CALLS \<Rightarrow> bl_model_calls limits | TOOL_CALLS \<Rightarrow> bl_tool_calls limits
     | TOKENS \<Rightarrow> bl_tokens limits | ESTIMATED_COST \<Rightarrow> bl_estimated_cost limits
     | CHILD_RUNS \<Rightarrow> bl_child_runs limits)"

text \<open>The rational a finite number stands for.\<close>

definition number_value :: "pnumber \<Rightarrow> rat option" where
  "number_value n = (case n of NInt i \<Rightarrow> Some (of_int i) | NFloat (Fin r) \<Rightarrow> Some r | _ \<Rightarrow> None)"

text \<open>\<open>isinstance(n, (int, float))\<close> and no \<open>bool\<close>.\<close>

definition is_number :: "pnumber \<Rightarrow> bool" where
  "is_number n = (case n of NInt i \<Rightarrow> True | NFloat x \<Rightarrow> True | _ \<Rightarrow> False)"

definition check_limit :: "budget_dimension \<Rightarrow> pnumber \<Rightarrow> unit result" where
  "check_limit d n =
     (if is_count d \<and> (case n of NInt i \<Rightarrow> False | _ \<Rightarrow> True) then
        Inl (ConfigurationError ''count budget limits must be integers'')
      else if \<not> is_number n then Inl (ConfigurationError ''budget limits must be numbers'')
      else (case number_value n of
              None \<Rightarrow> Inl (ConfigurationError ''budget limits must be non-negative and finite'')
            | Some r \<Rightarrow> if r < 0 then Inl (ConfigurationError ''budget limits must be non-negative and finite'')
                        else Inr ()))"

definition make_budget_limits :: "pnumber budget_limits \<Rightarrow> rat budget_limits result" where
  "make_budget_limits raw =
     bind_result
       (map_result (\<lambda>d. case limit_for raw d of None \<Rightarrow> Inr () | Some n \<Rightarrow> check_limit d n) budget_dimensions)
       (\<lambda>_. let value = (\<lambda>n. Option.bind n number_value)
            in Inr \<lparr>bl_wall_clock_seconds = value (bl_wall_clock_seconds raw), bl_model_calls = value (bl_model_calls raw),
                    bl_tool_calls = value (bl_tool_calls raw), bl_tokens = value (bl_tokens raw),
                    bl_estimated_cost = value (bl_estimated_cost raw), bl_child_runs = value (bl_child_runs raw)\<rparr>)"

record budget_limit =
  bd_dimension :: budget_dimension
  bd_limit :: "rat option"
  bd_enforcement :: budget_enforcement

definition bd_is_enforced :: "budget_limit \<Rightarrow> bool" where
  "bd_is_enforced l \<longleftrightarrow> bd_limit l \<noteq> None \<and> bd_enforcement l = ENFORCED"

definition bd_requires_accounting :: "budget_limit \<Rightarrow> bool" where
  "bd_requires_accounting l \<longleftrightarrow> bd_limit l \<noteq> None \<and> bd_enforcement l = ACCOUNTED"

definition spec_for :: "rat budget_limits \<Rightarrow> budget_dimension \<Rightarrow> budget_limit" where
  "spec_for limits d = \<lparr>bd_dimension = d, bd_limit = limit_for limits d, bd_enforcement = enforcement_of d\<rparr>"

definition is_unlimited :: "rat budget_limits \<Rightarrow> bool" where
  "is_unlimited limits \<longleftrightarrow> list_all (\<lambda>d. limit_for limits d = None) budget_dimensions"

definition enforced_dimensions :: "rat budget_limits \<Rightarrow> budget_dimension list" where
  "enforced_dimensions limits = filter (\<lambda>d. bd_is_enforced (spec_for limits d)) budget_dimensions"

definition accounted_dimensions :: "rat budget_limits \<Rightarrow> budget_dimension list" where
  "accounted_dimensions limits = filter (\<lambda>d. bd_requires_accounting (spec_for limits d)) budget_dimensions"

section \<open>Usage\<close>

record budget_usage =
  bu_model_calls :: int
  bu_tool_calls :: int
  bu_tokens :: int
  bu_estimated_cost :: rat
  bu_child_runs :: int
  bu_started_at :: rat

definition new_usage :: "rat \<Rightarrow> budget_usage" where
  "new_usage now = \<lparr>bu_model_calls = 0, bu_tool_calls = 0, bu_tokens = 0, bu_estimated_cost = 0,
     bu_child_runs = 0, bu_started_at = now\<rparr>"

definition usage_consumed :: "rat \<Rightarrow> budget_usage \<Rightarrow> budget_dimension \<Rightarrow> rat" where
  "usage_consumed now u d = (case d of
       WALL_CLOCK_SECONDS \<Rightarrow> max 0 (now - bu_started_at u)
     | MODEL_CALLS \<Rightarrow> of_int (bu_model_calls u)
     | TOOL_CALLS \<Rightarrow> of_int (bu_tool_calls u)
     | TOKENS \<Rightarrow> of_int (bu_tokens u)
     | ESTIMATED_COST \<Rightarrow> bu_estimated_cost u
     | CHILD_RUNS \<Rightarrow> of_int (bu_child_runs u))"

text \<open>\<open>int(amount)\<close> of an amount that is not negative.\<close>

definition usage_add :: "budget_dimension \<Rightarrow> rat \<Rightarrow> budget_usage \<Rightarrow> budget_usage" where
  "usage_add d amount u = (case d of
       MODEL_CALLS \<Rightarrow> u\<lparr>bu_model_calls := bu_model_calls u + \<lfloor>amount\<rfloor>\<rparr>
     | TOOL_CALLS \<Rightarrow> u\<lparr>bu_tool_calls := bu_tool_calls u + \<lfloor>amount\<rfloor>\<rparr>
     | TOKENS \<Rightarrow> u\<lparr>bu_tokens := bu_tokens u + \<lfloor>amount\<rfloor>\<rparr>
     | ESTIMATED_COST \<Rightarrow> u\<lparr>bu_estimated_cost := bu_estimated_cost u + amount\<rparr>
     | CHILD_RUNS \<Rightarrow> u\<lparr>bu_child_runs := bu_child_runs u + \<lfloor>amount\<rfloor>\<rparr>
     | WALL_CLOCK_SECONDS \<Rightarrow> u)"

section \<open>Governors\<close>

record governor =
  gv_limits :: "rat budget_limits"
  gv_parent :: "nat option"
  gv_usage :: budget_usage

type_synonym budget_store = "governor list"

text \<open>A governor, its parent, the parent's parent and so on; the fuel is the index.\<close>

fun lineage_upto :: "nat \<Rightarrow> budget_store \<Rightarrow> nat \<Rightarrow> nat list" where
  "lineage_upto 0 st g = [g]"
| "lineage_upto (Suc n) st g = g # (case gv_parent (st ! g) of None \<Rightarrow> [] | Some p \<Rightarrow> lineage_upto n st p)"

definition lineage :: "budget_store \<Rightarrow> nat \<Rightarrow> nat list" where
  "lineage st g = lineage_upto g st g"

definition new_governor :: "rat budget_limits option \<Rightarrow> nat option \<Rightarrow> rat \<Rightarrow> budget_store \<Rightarrow> nat \<times> budget_store" where
  "new_governor limits parent now st =
     (length st, st @ [\<lparr>gv_limits = (case limits of None \<Rightarrow> no_limits | Some l \<Rightarrow> l), gv_parent = parent, gv_usage = new_usage now\<rparr>])"

definition gov_consumed :: "rat \<Rightarrow> budget_store \<Rightarrow> nat \<Rightarrow> budget_dimension \<Rightarrow> rat" where
  "gov_consumed now st g d = usage_consumed now (gv_usage (st ! g)) d"

definition gov_limit :: "budget_store \<Rightarrow> nat \<Rightarrow> budget_dimension \<Rightarrow> rat option" where
  "gov_limit st g d = limit_for (gv_limits (st ! g)) d"

fun remaining_along :: "rat \<Rightarrow> budget_store \<Rightarrow> budget_dimension \<Rightarrow> nat list \<Rightarrow> rat option" where
  "remaining_along now st d [] = None"
| "remaining_along now st d (g # gs) =
     (let own = (case gov_limit st g d of None \<Rightarrow> [] | Some l \<Rightarrow> [l - gov_consumed now st g d]);
          inherited = (case remaining_along now st d gs of None \<Rightarrow> [] | Some r \<Rightarrow> [r])
      in case own @ inherited of
           [] \<Rightarrow> None
         | c # cs \<Rightarrow> Some (max 0 (fold min cs c)))"

definition gov_remaining :: "rat \<Rightarrow> budget_store \<Rightarrow> nat \<Rightarrow> budget_dimension \<Rightarrow> rat option" where
  "gov_remaining now st g d = remaining_along now st d (lineage st g)"

definition gov_deadline :: "budget_store \<Rightarrow> nat \<Rightarrow> rat option" where
  "gov_deadline st g =
     (case gov_limit st g WALL_CLOCK_SECONDS of
        None \<Rightarrow> None
      | Some l \<Rightarrow> Some (bu_started_at (gv_usage (st ! g)) + l))"

fun remaining_seconds_along :: "rat \<Rightarrow> budget_store \<Rightarrow> nat list \<Rightarrow> rat option" where
  "remaining_seconds_along now st [] = None"
| "remaining_seconds_along now st (g # gs) =
     (case gov_deadline st g of
        None \<Rightarrow> remaining_seconds_along now st gs
      | Some deadline \<Rightarrow>
          let own = max 0 (deadline - now)
          in (case remaining_seconds_along now st gs of None \<Rightarrow> Some own | Some r \<Rightarrow> Some (min own r)))"

definition gov_remaining_seconds :: "rat \<Rightarrow> budget_store \<Rightarrow> nat \<Rightarrow> rat option" where
  "gov_remaining_seconds now st g = remaining_seconds_along now st (lineage st g)"

section \<open>Charging\<close>

definition validate_amount :: "budget_dimension \<Rightarrow> pnumber \<Rightarrow> rat result" where
  "validate_amount d n =
     (if \<not> is_number n then Inl (ConfigurationError ''consumption amounts must be numbers'')
      else (case number_value n of
              None \<Rightarrow> Inl (ConfigurationError ''consumption amounts must be non-negative and finite'')
            | Some r \<Rightarrow>
                if r < 0 then Inl (ConfigurationError ''consumption amounts must be non-negative and finite'')
                else if is_count d \<and> of_int \<lfloor>r\<rfloor> \<noteq> r then
                  Inl (ConfigurationError ''count dimensions require integer amounts'')
                else Inr r))"

fun check_along :: "rat \<Rightarrow> budget_store \<Rightarrow> budget_dimension \<Rightarrow> pnumber \<Rightarrow> nat list \<Rightarrow> unit result" where
  "check_along now st d amount [] = Inr ()"
| "check_along now st d amount (g # gs) =
     bind_result (validate_amount d amount) (\<lambda>r.
       case gov_limit st g d of
         None \<Rightarrow> check_along now st d amount gs
       | Some l \<Rightarrow>
           if gov_consumed now st g d + r > l then Inl (BudgetExceeded (''budget exceeded for '' @ dimension_value d))
           else check_along now st d amount gs)"

definition gov_check :: "rat \<Rightarrow> budget_store \<Rightarrow> nat \<Rightarrow> budget_dimension \<Rightarrow> pnumber \<Rightarrow> unit result" where
  "gov_check now st g d amount = check_along now st d amount (lineage st g)"

text \<open>\<open>_record\<close>: the usage of the governor and of every ancestor.\<close>

definition add_usage :: "budget_dimension \<Rightarrow> rat \<Rightarrow> nat \<Rightarrow> budget_store \<Rightarrow> budget_store" where
  "add_usage d r g st = st[g := (st ! g)\<lparr>gv_usage := usage_add d r (gv_usage (st ! g))\<rparr>]"

definition gov_record_up :: "budget_dimension \<Rightarrow> rat \<Rightarrow> nat list \<Rightarrow> budget_store \<Rightarrow> budget_store" where
  "gov_record_up d r gs st = fold (add_usage d r) gs st"

definition gov_consume :: "rat \<Rightarrow> nat \<Rightarrow> budget_dimension \<Rightarrow> pnumber \<Rightarrow> budget_store \<Rightarrow> unit result \<times> budget_store" where
  "gov_consume now g d amount st =
     (case gov_check now st g d amount of
        Inl e \<Rightarrow> (Inl e, st)
      | Inr _ \<Rightarrow> (Inr (), gov_record_up d (case number_value amount of None \<Rightarrow> 0 | Some r \<Rightarrow> r) (lineage st g) st))"

definition record_charges :: "pnumber \<Rightarrow> pnumber \<Rightarrow> pnumber \<Rightarrow> (budget_dimension \<times> pnumber) list" where
  "record_charges model_calls tokens estimated_cost =
     [(MODEL_CALLS, model_calls), (TOKENS, tokens), (ESTIMATED_COST, estimated_cost)]"

definition gov_record ::
  "rat \<Rightarrow> nat \<Rightarrow> pnumber \<Rightarrow> pnumber \<Rightarrow> pnumber \<Rightarrow> budget_store \<Rightarrow> unit result \<times> budget_store" where
  "gov_record now g model_calls tokens estimated_cost st =
     (let charges = record_charges model_calls tokens estimated_cost
      in case map_result (\<lambda>(d, amount). validate_amount d amount) charges of
           Inl e \<Rightarrow> (Inl e, st)
         | Inr amounts \<Rightarrow>
             let due = filter (\<lambda>((d, amount), r). r \<noteq> 0) (zip charges amounts)
             in (case map_result (\<lambda>((d, amount), r). gov_check now st g d amount) due of
                   Inl e \<Rightarrow> (Inl e, st)
                 | Inr _ \<Rightarrow> (Inr (), fold (\<lambda>((d, amount), r) st'. gov_record_up d r (lineage st' g) st') due st)))"

definition gov_child :: "rat \<Rightarrow> nat \<Rightarrow> rat budget_limits option \<Rightarrow> budget_store \<Rightarrow> nat result \<times> budget_store" where
  "gov_child now g limits st =
     (case gov_consume now g CHILD_RUNS (NFloat (Fin 1)) st of
        (Inl e, st') \<Rightarrow> (Inl e, st')
      | (Inr _, st') \<Rightarrow> (case new_governor limits (Some g) now st' of (c, st'') \<Rightarrow> (Inr c, st'')))"

end
