(* ===== verification/Budget_Props.thy ===== *)
theory Budget_Props
  imports Budget
begin

text \<open>
  Properties of budget governors: no allocation is ever overdrawn, a parent accounts for everything
  its children consume, a charge succeeds exactly when what remains along the parent chain covers
  it, and a report is all or nothing.
\<close>

section \<open>Lineages\<close>

definition parents_earlier :: "budget_store \<Rightarrow> bool" where
  "parents_earlier st \<longleftrightarrow> (\<forall>g < length st. \<forall>p. gv_parent (st ! g) = Some p \<longrightarrow> p < g)"

lemma lineage_fuel:
  assumes "parents_earlier st" "g < length st" "g \<le> n" "g \<le> m"
  shows "lineage_upto n st g = lineage_upto m st g"
  using assms(2-)
proof (induction g arbitrary: n m rule: less_induct)
  case (less g)
  have earlier: "p < g" if "gv_parent (st ! g) = Some p" for p
    using assms(1) less.prems(1) that by (simp add: parents_earlier_def)
  show ?case
  proof (cases "gv_parent (st ! g)")
    case None
    then show ?thesis by (cases n; cases m) simp_all
  next
    case (Some p)
    then obtain n' m' where "n = Suc n'" "m = Suc m'"
      using earlier less.prems by (metis gr0_conv_Suc le_trans less_le_trans less_nat_zero_code not_gr0)
    then show ?thesis using less.IH [OF earlier [OF Some], of n' m'] less.prems earlier [OF Some] Some by simp
  qed
qed

lemma lineage_step:
  assumes "parents_earlier st" "g < length st"
  shows "lineage st g = g # (case gv_parent (st ! g) of None \<Rightarrow> [] | Some p \<Rightarrow> lineage st p)"
proof (cases "gv_parent (st ! g)")
  case None
  then show ?thesis by (cases g) (simp_all add: lineage_def)
next
  case (Some p)
  then have "p < g" using assms by (simp add: parents_earlier_def)
  then obtain h where "g = Suc h" by (cases g) simp_all
  then show ?thesis using Some lineage_fuel [OF assms(1), of p h p] \<open>p < g\<close> assms(2) by (simp add: lineage_def)
qed

lemma lineage_bounds:
  assumes "parents_earlier st" "g < length st"
  shows "distinct (lineage st g) \<and> (\<forall>h \<in> set (lineage st g). h \<le> g)"
  using assms(2)
proof (induction g rule: less_induct)
  case (less g)
  show ?case
  proof (cases "gv_parent (st ! g)")
    case None
    then show ?thesis by (simp add: lineage_step [OF assms(1) less.prems])
  next
    case (Some p)
    then have "p < g" using assms(1) less.prems by (simp add: parents_earlier_def)
    then have "distinct (lineage st p) \<and> (\<forall>h \<in> set (lineage st p). h \<le> p)" using less by simp
    then show ?thesis using Some \<open>p < g\<close> by (auto simp: lineage_step [OF assms(1) less.prems])
  qed
qed

lemma lineage_in_store: "parents_earlier st \<Longrightarrow> g < length st \<Longrightarrow> h \<in> set (lineage st g) \<Longrightarrow> h < length st"
  using lineage_bounds by fastforce

text \<open>A lineage is closed under parents, and its members other than the first have one child in it.\<close>

lemma lineage_parent:
  assumes "parents_earlier st" "g < length st" "h \<in> set (lineage st g)" "gv_parent (st ! h) = Some p"
  shows "p \<in> set (lineage st g)"
  using assms(2,3)
proof (induction g rule: less_induct)
  case (less g)
  have p: "p \<in> set (lineage st p)" using lineage_step [OF assms(1)] lineage_in_store [OF assms(1) less.prems] assms(1,4)
    by (metis less_trans list.set_intros(1) parents_earlier_def)
  show ?case
  proof (cases "h = g")
    case True
    then show ?thesis using p assms(4) by (simp add: lineage_step [OF assms(1) less.prems(1)])
  next
    case False
    then obtain q where q: "gv_parent (st ! g) = Some q" "h \<in> set (lineage st q)"
      using less.prems by (cases "gv_parent (st ! g)") (auto simp: lineage_step [OF assms(1) less.prems(1)])
    then have "q < g" using assms(1) less.prems(1) by (simp add: parents_earlier_def)
    then have "p \<in> set (lineage st q)" using less q(2) by simp
    then show ?thesis using q(1) by (simp add: lineage_step [OF assms(1) less.prems(1)])
  qed
qed

lemma lineage_one_child:
  assumes "parents_earlier st" "g < length st" "h \<in> set (lineage st g)" "h' \<in> set (lineage st g)"
    and "gv_parent (st ! h) = Some p" "gv_parent (st ! h') = Some p"
  shows "h = h'"
  using assms(2-4)
proof (induction g rule: less_induct)
  case (less g)
  show ?case
  proof (cases "gv_parent (st ! g)")
    case None
    then show ?thesis using less.prems by (simp add: lineage_step [OF assms(1) less.prems(1)])
  next
    case (Some q)
    then have q: "q < g" using assms(1) less.prems(1) by (simp add: parents_earlier_def)
    have le: "u \<le> q" if "u \<in> set (lineage st q)" for u
      using lineage_bounds [OF assms(1), of q] q less.prems(1) that by simp
    have below: "r < u" if "u \<in> set (lineage st q)" "gv_parent (st ! u) = Some r" for u r
      using assms(1) le [OF that(1)] that(2) q less.prems(1) by (simp add: parents_earlier_def)
    have no: "\<not> (u \<in> set (lineage st q) \<and> gv_parent (st ! u) = Some q)" for u
      using below le by (meson leD)
    have "h = g \<or> h \<in> set (lineage st q)" "h' = g \<or> h' \<in> set (lineage st q)"
      using less.prems(2,3) Some by (auto simp: lineage_step [OF assms(1) less.prems(1)])
    then show ?thesis using no less.IH [OF q] q less.prems(1) Some assms(5,6) by (metis less_trans option.inject)
  qed
qed

lemma lineage_cong:
  assumes "parents_earlier st" "length st' = length st" "\<And>h. gv_parent (st' ! h) = gv_parent (st ! h)"
  shows "lineage st' g = lineage st g"
proof -
  have "lineage_upto n st' g = lineage_upto n st g" for n g
    using assms(3) by (induction n arbitrary: g) (simp_all split: option.split)
  then show ?thesis by (simp add: lineage_def)
qed

section \<open>Charges\<close>

definition integral_charge :: "budget_dimension \<Rightarrow> rat \<Rightarrow> bool" where
  "integral_charge d r \<longleftrightarrow> (is_count d \<longrightarrow> of_int \<lfloor>r\<rfloor> = r)"

lemma validate_amount_Inr:
  "validate_amount d n = Inr r \<longleftrightarrow> number_value n = Some r \<and> 0 \<le> r \<and> integral_charge d r"
proof -
  have "is_number n" if "number_value n = Some r" using that by (cases n) (simp_all add: number_value_def is_number_def)
  then show ?thesis
    by (auto simp: validate_amount_def integral_charge_def split: option.splits)
qed

lemma consumed_add:
  assumes "integral_charge d r"
  shows "usage_consumed now (usage_add d r u) d'
     = usage_consumed now u d' + (if d' = d \<and> d \<noteq> WALL_CLOCK_SECONDS then r else 0)"
  using assms by (cases d; cases d') (simp_all add: usage_consumed_def usage_add_def integral_charge_def is_count_def)

text \<open>Same governors, parents and limits.\<close>

definition same_frame :: "budget_store \<Rightarrow> budget_store \<Rightarrow> bool" where
  "same_frame st st' \<longleftrightarrow> length st' = length st \<and> (\<forall>g. gv_parent (st' ! g) = gv_parent (st ! g) \<and> gv_limits (st' ! g) = gv_limits (st ! g))"

lemma same_frame_refl [simp]: "same_frame st st"
  by (simp add: same_frame_def)

lemma same_frame_trans: "same_frame st st' \<Longrightarrow> same_frame st' st'' \<Longrightarrow> same_frame st st''"
  by (simp add: same_frame_def)

lemma add_usage_frame: "same_frame st (add_usage d r g st)"
  by (cases "g < length st") (auto simp: same_frame_def add_usage_def nth_list_update list_update_beyond)

lemma record_up_frame: "same_frame st (gov_record_up d r gs st)"
  by (induction gs arbitrary: st)
     (auto simp: gov_record_up_def intro: same_frame_trans add_usage_frame)

lemma same_frame_lineage: "parents_earlier st \<Longrightarrow> same_frame st st' \<Longrightarrow> lineage st' g = lineage st g"
  by (rule lineage_cong) (simp_all add: same_frame_def)

lemma same_frame_parents: "parents_earlier st \<Longrightarrow> same_frame st st' \<Longrightarrow> parents_earlier st'"
  by (simp add: same_frame_def parents_earlier_def)

lemma same_frame_limit: "same_frame st st' \<Longrightarrow> gov_limit st' g d = gov_limit st g d"
  by (simp add: same_frame_def gov_limit_def)

lemma record_up_consumed:
  assumes "distinct gs" "\<forall>h \<in> set gs. h < length st" "integral_charge d r"
  shows "gov_consumed now (gov_record_up d r gs st) g d'
     = gov_consumed now st g d' + (if g \<in> set gs \<and> d' = d \<and> d \<noteq> WALL_CLOCK_SECONDS then r else 0)"
  using assms(1,2)
proof (induction gs arbitrary: st)
  case (Cons h gs)
  let ?st = "add_usage d r h st"
  have "gov_consumed now ?st g d' = gov_consumed now st g d' + (if g = h \<and> d' = d \<and> d \<noteq> WALL_CLOCK_SECONDS then r else 0)"
    using Cons.prems(2) consumed_add [OF assms(3)] by (simp add: gov_consumed_def add_usage_def nth_list_update)
  moreover have "\<forall>h \<in> set gs. h < length ?st" using Cons.prems(2) by (simp add: add_usage_def)
  ultimately show ?case using Cons by (auto simp: gov_record_up_def)
qed (simp add: gov_record_up_def)

lemma check_along_Inr:
  "check_along now st d n gs = Inr ()
     \<longleftrightarrow> gs = [] \<or> (\<exists>r. validate_amount d n = Inr r
          \<and> (\<forall>g \<in> set gs. \<forall>l. gov_limit st g d = Some l \<longrightarrow> gov_consumed now st g d + r \<le> l))"
proof (induction gs)
  case (Cons g gs)
  show ?case
  proof (cases "validate_amount d n")
    case (Inr r)
    then show ?thesis using Cons by (auto split: option.splits)
  qed simp
qed simp

section \<open>The invariant\<close>

definition gov_children :: "budget_store \<Rightarrow> nat \<Rightarrow> nat list" where
  "gov_children st p = filter (\<lambda>c. gv_parent (st ! c) = Some p) [0..<length st]"

definition children_consumed :: "budget_store \<Rightarrow> nat \<Rightarrow> budget_dimension \<Rightarrow> rat" where
  "children_consumed st p d = sum_list (map (\<lambda>c. gov_consumed 0 st c d) (gov_children st p))"

definition within_limits :: "budget_store \<Rightarrow> bool" where
  "within_limits st \<longleftrightarrow> (\<forall>g d l. g < length st \<and> d \<noteq> WALL_CLOCK_SECONDS \<and> gov_limit st g d = Some l \<longrightarrow> gov_consumed 0 st g d \<le> l)"

definition children_covered :: "budget_store \<Rightarrow> bool" where
  "children_covered st \<longleftrightarrow> (\<forall>g d. g < length st \<and> d \<noteq> WALL_CLOCK_SECONDS \<longrightarrow> children_consumed st g d \<le> gov_consumed 0 st g d)"

definition budget_ok :: "budget_store \<Rightarrow> bool" where
  "budget_ok st \<longleftrightarrow> parents_earlier st \<and> within_limits st \<and> children_covered st"

text \<open>The clock does not matter for the dimensions that are accumulated.\<close>

lemma consumed_now: "d \<noteq> WALL_CLOCK_SECONDS \<Longrightarrow> gov_consumed now st g d = gov_consumed 0 st g d"
  by (cases d) (simp_all add: gov_consumed_def usage_consumed_def)

lemma sum_list_one:
  assumes "distinct xs" "\<And>x y. x \<in> set xs \<Longrightarrow> y \<in> set xs \<Longrightarrow> P x \<Longrightarrow> P y \<Longrightarrow> x = y" "0 \<le> (r :: rat)"
  shows "sum_list (map (\<lambda>x. f x + (if P x then r else 0)) xs) \<le> sum_list (map f xs) + (if \<exists>x \<in> set xs. P x then r else 0)"
  using assms(1,2)
proof (induction xs)
  case (Cons x xs)
  show ?case
  proof (cases "P x")
    case True
    then have "\<forall>y \<in> set xs. \<not> P y" using Cons.prems by (metis distinct.simps(2) list.set_intros)
    then have "map (\<lambda>x. f x + (if P x then r else 0)) xs = map f xs" by (intro map_cong) auto
    then have "sum_list (map (\<lambda>x. f x + (if P x then r else 0)) xs) = sum_list (map f xs)" by (rule arg_cong)
    then show ?thesis using True by (simp only: list.map sum_list.Cons list.set bex_simps if_True) simp
  next
    case False
    have "sum_list (map (\<lambda>x. f x + (if P x then r else 0)) xs) \<le> sum_list (map f xs) + (if \<exists>x \<in> set xs. P x then r else 0)"
      using Cons by (metis distinct.simps(2) list.set_intros(2))
    then show ?thesis using False by auto
  qed
qed simp

text \<open>One checked charge of a governor and its ancestors keeps the invariant.\<close>

lemma budget_ok_charge:
  assumes "budget_ok st" "g < length st" "integral_charge d r" "0 \<le> r"
    and "d = WALL_CLOCK_SECONDS \<or> (\<forall>h \<in> set (lineage st g). \<forall>l. gov_limit st h d = Some l \<longrightarrow> gov_consumed 0 st h d + r \<le> l)"
  shows "budget_ok (gov_record_up d r (lineage st g) st)"
proof -
  let ?st = "gov_record_up d r (lineage st g) st"
  have pe: "parents_earlier st" using assms(1) by (simp add: budget_ok_def)
  note frame = record_up_frame [of st d r "lineage st g"]
  have dist: "distinct (lineage st g)" and inb: "\<forall>h \<in> set (lineage st g). h < length st"
    using lineage_bounds [OF pe assms(2)] lineage_in_store [OF pe assms(2)] by auto
  note used = record_up_consumed [OF dist inb assms(3), of 0]
  have len: "length ?st = length st" using frame by (simp add: same_frame_def)
  have "within_limits ?st"
    using assms(1,5) by (auto simp: within_limits_def budget_ok_def same_frame_limit [OF frame] len used)
  moreover have "children_covered ?st"
    unfolding children_covered_def
  proof (intro allI impI)
    fix p d' assume p: "p < length ?st \<and> d' \<noteq> WALL_CLOCK_SECONDS"
    have kids: "gov_children ?st p = gov_children st p" using frame by (simp add: gov_children_def same_frame_def)
    let ?hit = "\<lambda>c. c \<in> set (lineage st g) \<and> d' = d \<and> d \<noteq> WALL_CLOCK_SECONDS"
    have one: "c = c'" if "c \<in> set (gov_children st p)" "c' \<in> set (gov_children st p)" "?hit c" "?hit c'" for c c'
      using that lineage_one_child [OF pe assms(2)] by (simp add: gov_children_def)
    have hits: "?hit p" if "\<exists>c \<in> set (gov_children st p). ?hit c"
      using that lineage_parent [OF pe assms(2)] by (auto simp: gov_children_def)
    have "children_consumed ?st p d' = sum_list (map (\<lambda>c. gov_consumed 0 st c d' + (if ?hit c then r else 0)) (gov_children st p))"
      by (simp add: children_consumed_def kids used)
    also have "\<dots> \<le> children_consumed st p d' + (if \<exists>c \<in> set (gov_children st p). ?hit c then r else 0)"
      unfolding children_consumed_def
      by (rule sum_list_one) (use one assms(4) in \<open>auto simp: gov_children_def\<close>)
    also have "\<dots> \<le> gov_consumed 0 st p d' + (if ?hit p then r else 0)"
    proof (rule add_mono)
      show "children_consumed st p d' \<le> gov_consumed 0 st p d'"
        using assms(1) p len by (simp add: budget_ok_def children_covered_def)
      show "(if \<exists>c \<in> set (gov_children st p). ?hit c then r else 0) \<le> (if ?hit p then r else 0)"
        using hits assms(4) by auto
    qed
    finally show "children_consumed ?st p d' \<le> gov_consumed 0 ?st p d'" by (simp add: used)
  qed
  ultimately show ?thesis using same_frame_parents [OF pe frame] by (simp add: budget_ok_def)
qed

section \<open>Every operation keeps the invariant\<close>

lemma lineage_nonempty [simp]: "lineage st g \<noteq> []"
  by (cases g) (simp_all add: lineage_def)

lemma gov_check_Inr:
  "gov_check now st g d n = Inr () \<longleftrightarrow> (\<exists>r. validate_amount d n = Inr r
     \<and> (\<forall>h \<in> set (lineage st g). \<forall>l. gov_limit st h d = Some l \<longrightarrow> gov_consumed now st h d + r \<le> l))"
  by (simp add: gov_check_def check_along_Inr)

text \<open>The store a successful charge leaves.\<close>

lemma gov_consume_cases:
  assumes "gov_consume now g d n st = (q, st')"
  obtains (refused) e where "q = Inl e" "st' = st" "gov_check now st g d n = Inl e"
  | (charged) r where "q = Inr ()" "validate_amount d n = Inr r" "gov_check now st g d n = Inr ()"
      "st' = gov_record_up d r (lineage st g) st"
proof (cases "gov_check now st g d n")
  case (Inl e)
  then have "q = Inl e" "st' = st" using assms by (simp_all add: gov_consume_def)
  then show ?thesis using refused Inl by blast
next
  case (Inr u)
  then obtain r where r: "validate_amount d n = Inr r" using Inr by (auto simp: gov_check_def check_along_Inr)
  then have "number_value n = Some r" by (simp add: validate_amount_Inr)
  then show ?thesis using assms Inr r charged by (simp add: gov_consume_def)
qed

lemma budget_ok_consume:
  assumes "budget_ok st" "g < length st" "gov_consume now g d n st = (q, st')"
  shows "budget_ok st' \<and> same_frame st st'"
  using assms(3)
proof (cases rule: gov_consume_cases)
  case refused
  then show ?thesis using assms(1) by simp
next
  case (charged r)
  have pe: "parents_earlier st" using assms(1) by (simp add: budget_ok_def)
  have "0 \<le> r" "integral_charge d r" using charged(2) by (simp_all add: validate_amount_Inr)
  moreover have "d = WALL_CLOCK_SECONDS \<or> (\<forall>h \<in> set (lineage st g). \<forall>l. gov_limit st h d = Some l \<longrightarrow> gov_consumed 0 st h d + r \<le> l)"
    using charged(2,3) gov_check_Inr [of now st g d n] consumed_now [of d now st] by auto
  ultimately show ?thesis using budget_ok_charge [OF assms(1,2)] record_up_frame charged(4) by simp
qed

lemma map_result_unit: "map_result f xs = Inr us \<Longrightarrow> x \<in> set xs \<Longrightarrow> \<exists>u. f x = Inr u"
  by (auto simp: map_result_Inr list_all2_conv_all_nth in_set_conv_nth)

text \<open>The charges of a report, in order, each on the store the earlier ones leave.\<close>

definition due_charges :: "(budget_dimension \<times> pnumber) list \<Rightarrow> rat list \<Rightarrow> ((budget_dimension \<times> pnumber) \<times> rat) list" where
  "due_charges charges amounts = filter (\<lambda>((d, amount), r). r \<noteq> 0) (zip charges amounts)"

definition apply_charges :: "nat \<Rightarrow> ((budget_dimension \<times> pnumber) \<times> rat) list \<Rightarrow> budget_store \<Rightarrow> budget_store" where
  "apply_charges g due st = fold (\<lambda>((d, amount), r) st'. gov_record_up d r (lineage st' g) st') due st"

definition payable :: "budget_store \<Rightarrow> nat \<Rightarrow> (budget_dimension \<times> pnumber) \<times> rat \<Rightarrow> bool" where
  "payable st g c = (case c of ((d, amount), r) \<Rightarrow> 0 \<le> r \<and> integral_charge d r
     \<and> (d = WALL_CLOCK_SECONDS \<or> (\<forall>h \<in> set (lineage st g). \<forall>l. gov_limit st h d = Some l \<longrightarrow> gov_consumed 0 st h d + r \<le> l)))"

lemma apply_charges_ok:
  assumes "budget_ok st" "g < length st" "distinct (map (\<lambda>c. fst (fst c)) due)" "\<forall>c \<in> set due. payable st g c"
  shows "budget_ok (apply_charges g due st) \<and> same_frame st (apply_charges g due st)
     \<and> (\<forall>h d. gov_consumed now (apply_charges g due st) h d = gov_consumed now st h d
          + sum_list (map (\<lambda>c. if h \<in> set (lineage st g) \<and> d = fst (fst c) \<and> d \<noteq> WALL_CLOCK_SECONDS then snd c else 0) due))"
  using assms
proof (induction due arbitrary: st)
  case (Cons c due)
  obtain d n r where c: "c = ((d, n), r)" by (metis prod.collapse)
  let ?st = "gov_record_up d r (lineage st g) st"
  have pe: "parents_earlier st" using Cons.prems(1) by (simp add: budget_ok_def)
  note frame = record_up_frame [of st d r "lineage st g"]
  have lin: "lineage ?st g = lineage st g" by (rule same_frame_lineage [OF pe frame])
  have p: "0 \<le> r" "integral_charge d r"
    "d = WALL_CLOCK_SECONDS \<or> (\<forall>h \<in> set (lineage st g). \<forall>l. gov_limit st h d = Some l \<longrightarrow> gov_consumed 0 st h d + r \<le> l)"
    using Cons.prems(4) c by (simp_all add: payable_def)
  have ok: "budget_ok ?st" by (rule budget_ok_charge [OF Cons.prems(1,2) p(2,1,3)])
  have used: "gov_consumed t ?st h d' = gov_consumed t st h d' + (if h \<in> set (lineage st g) \<and> d' = d \<and> d \<noteq> WALL_CLOCK_SECONDS then r else 0)" for t h d'
    using lineage_bounds [OF pe Cons.prems(2)] lineage_in_store [OF pe Cons.prems(2)] by (intro record_up_consumed [OF _ _ p(2)]) auto
  have "\<forall>c' \<in> set due. payable ?st g c'"
  proof
    fix c' assume c': "c' \<in> set due"
    then have "fst (fst c') \<noteq> d" using Cons.prems(3) c by (metis (no_types, lifting) distinct.simps(2) fst_conv image_eqI list.set_map list.simps(9))
    then show "payable ?st g c'"
      using Cons.prems(4) c' used same_frame_limit [OF frame] lin unfolding payable_def by (auto split: prod.splits)
  qed
  moreover have "g < length ?st" using Cons.prems(2) frame by (simp add: same_frame_def)
  ultimately have IH: "budget_ok (apply_charges g due ?st) \<and> same_frame ?st (apply_charges g due ?st)
     \<and> (\<forall>h d. gov_consumed now (apply_charges g due ?st) h d = gov_consumed now ?st h d
          + sum_list (map (\<lambda>c. if h \<in> set (lineage ?st g) \<and> d = fst (fst c) \<and> d \<noteq> WALL_CLOCK_SECONDS then snd c else 0) due))"
    using Cons.IH [OF ok] Cons.prems(3) by simp
  have step: "apply_charges g (c # due) st = apply_charges g due ?st" by (simp add: apply_charges_def c)
  show ?case
    using IH same_frame_trans [OF frame] used unfolding step lin by (auto simp: c)
qed (simp add: apply_charges_def)

text \<open>A report: refused as a whole, or every charge that is not zero is payable.\<close>

lemma gov_record_cases:
  assumes "gov_record now g mc tk ec st = (q, st')"
  obtains (refused) e where "q = Inl e" "st' = st"
  | (charged) amounts where "q = Inr ()"
      "map_result (\<lambda>(d, amount). validate_amount d amount) (record_charges mc tk ec) = Inr amounts"
      "\<forall>c \<in> set (due_charges (record_charges mc tk ec) amounts). gov_check now st g (fst (fst c)) (snd (fst c)) = Inr ()"
      "st' = apply_charges g (due_charges (record_charges mc tk ec) amounts) st"
proof (cases "map_result (\<lambda>(d, amount). validate_amount d amount) (record_charges mc tk ec)")
  case (Inl e)
  then have "q = Inl e" "st' = st" using assms by (simp_all add: gov_record_def Let_def)
  then show ?thesis by (rule refused)
next
  case (Inr amounts)
  let ?due = "due_charges (record_charges mc tk ec) amounts"
  let ?checks = "map_result (\<lambda>((d, amount), r). gov_check now st g d amount) ?due"
  show ?thesis
  proof (cases ?checks)
    case (Inl e)
    then have "q = Inl e" "st' = st" using assms Inr by (simp_all add: gov_record_def due_charges_def Let_def)
    then show ?thesis by (rule refused)
  next
    case (Inr us)
    have "\<forall>c \<in> set ?due. gov_check now st g (fst (fst c)) (snd (fst c)) = Inr ()"
      using map_result_unit [OF Inr] by (auto simp: split_beta)
    moreover have "q = Inr ()" "st' = apply_charges g ?due st"
      using assms Inr \<open>map_result _ (record_charges mc tk ec) = Inr amounts\<close>
      by (simp_all add: gov_record_def due_charges_def apply_charges_def Let_def)
    ultimately show ?thesis using charged \<open>map_result _ (record_charges mc tk ec) = Inr amounts\<close> by blast
  qed
qed

lemma due_charges_payable:
  assumes "map_result (\<lambda>(d, amount). validate_amount d amount) (record_charges mc tk ec) = Inr amounts"
    and "\<forall>c \<in> set (due_charges (record_charges mc tk ec) amounts). gov_check now st g (fst (fst c)) (snd (fst c)) = Inr ()"
  shows "distinct (map (\<lambda>c. fst (fst c)) (due_charges (record_charges mc tk ec) amounts))
     \<and> (\<forall>c \<in> set (due_charges (record_charges mc tk ec) amounts). payable st g c)"
proof -
  obtain a b c where amounts: "amounts = [a, b, c]" and v: "validate_amount MODEL_CALLS mc = Inr a"
    "validate_amount TOKENS tk = Inr b" "validate_amount ESTIMATED_COST ec = Inr c"
    using assms(1) by (auto simp: record_charges_def split: sum.splits)
  let ?all = "[((MODEL_CALLS, mc), a), ((TOKENS, tk), b), ((ESTIMATED_COST, ec), c)]"
  have due: "due_charges (record_charges mc tk ec) amounts = filter (\<lambda>((d, amount), r). r \<noteq> 0) ?all"
    by (simp add: due_charges_def record_charges_def amounts)
  have "payable st g x" if "x \<in> set (due_charges (record_charges mc tk ec) amounts)" for x
  proof -
    obtain d n r where x: "x = ((d, n), r)" by (metis prod.collapse)
    have "x \<in> set ?all" using that unfolding due by (metis filter_is_subset subsetD)
    then have val: "validate_amount d n = Inr r" "d \<noteq> WALL_CLOCK_SECONDS" using v by (auto simp: x)
    have "gov_check now st g d n = Inr ()" using assms(2) that by (force simp: x)
    then show ?thesis
      using val consumed_now [OF val(2), of now st] by (auto simp: x payable_def gov_check_Inr validate_amount_Inr)
  qed
  moreover have "distinct (map (\<lambda>c. fst (fst c)) (due_charges (record_charges mc tk ec) amounts))"
    unfolding due by simp
  ultimately show ?thesis by blast
qed

lemma budget_ok_record:
  assumes "budget_ok st" "g < length st" "gov_record now g mc tk ec st = (q, st')"
  shows "budget_ok st'"
  using assms(3)
proof (cases rule: gov_record_cases)
  case refused
  then show ?thesis using assms(1) by simp
next
  case (charged amounts)
  then show ?thesis using apply_charges_ok [OF assms(1,2)] due_charges_payable [OF charged(2,3)] by simp
qed

text \<open>Limits that passed the constructor.\<close>

definition sane_limits :: "rat budget_limits option \<Rightarrow> bool" where
  "sane_limits limits \<longleftrightarrow> (case limits of None \<Rightarrow> True | Some l \<Rightarrow> \<exists>raw. make_budget_limits raw = Inr l)"

lemma make_budget_limits_nonneg:
  assumes "make_budget_limits raw = Inr l" "limit_for l d = Some r"
  shows "0 \<le> r"
proof -
  obtain us where us: "map_result (\<lambda>d. case limit_for raw d of None \<Rightarrow> Inr () | Some n \<Rightarrow> check_limit d n) budget_dimensions = Inr us"
    using assms(1) by (auto simp: make_budget_limits_def bind_result_eq_Inr)
  have "d \<in> set budget_dimensions" by (cases d) (simp_all add: budget_dimensions_def)
  from map_result_unit [OF us this]
  have chk: "limit_for raw d = Some n \<Longrightarrow> check_limit d n = Inr ()" for n by simp
  have "limit_for l d = Option.bind (limit_for raw d) number_value"
    using assms(1) by (cases d) (auto simp: make_budget_limits_def bind_result_eq_Inr limit_for_def Let_def)
  then obtain n where "limit_for raw d = Some n" "number_value n = Some r" using assms(2) by (cases "limit_for raw d") auto
  then show ?thesis using chk by (auto simp: check_limit_def split: if_splits)
qed

lemma budget_ok_new:
  assumes "budget_ok st" "sane_limits limits" "\<And>p. parent = Some p \<Longrightarrow> p < length st"
  shows "budget_ok (snd (new_governor limits parent now st))"
proof -
  let ?st = "snd (new_governor limits parent now st)"
  have pe: "parents_earlier ?st"
    using assms(1,3) by (auto simp: budget_ok_def parents_earlier_def new_governor_def nth_append less_Suc_eq)
  have old: "gov_limit ?st g d = gov_limit st g d" "gov_consumed 0 ?st g d = gov_consumed 0 st g d" if "g < length st" for g d
    using that by (simp_all add: new_governor_def gov_limit_def gov_consumed_def nth_append)
  have fresh: "gov_consumed 0 ?st (length st) d = 0" if "d \<noteq> WALL_CLOCK_SECONDS" for d
    using that by (cases d) (simp_all add: new_governor_def gov_consumed_def new_usage_def usage_consumed_def)
  have "0 \<le> l" if "gov_limit ?st (length st) d = Some l" for d l
  proof (cases limits)
    case None
    then show ?thesis using that by (cases d) (simp_all add: new_governor_def gov_limit_def no_limits_def limit_for_def)
  next
    case (Some lim)
    then show ?thesis using that assms(2) make_budget_limits_nonneg
      by (auto simp: sane_limits_def new_governor_def gov_limit_def)
  qed
  then have "within_limits ?st"
    using assms(1) old fresh by (auto simp: budget_ok_def within_limits_def less_Suc_eq new_governor_def)
  moreover have "children_covered ?st"
    unfolding children_covered_def
  proof (intro allI impI)
    fix p d assume p: "p < length ?st \<and> d \<noteq> WALL_CLOCK_SECONDS"
    show "children_consumed ?st p d \<le> gov_consumed 0 ?st p d"
    proof (cases "p < length st")
      case True
      have kids: "gov_children ?st p = gov_children st p @ (if parent = Some p then [length st] else [])"
        by (auto simp: gov_children_def new_governor_def nth_append intro: filter_cong)
      have "map (\<lambda>c. gov_consumed 0 ?st c d) (gov_children st p) = map (\<lambda>c. gov_consumed 0 st c d) (gov_children st p)"
        using old by (simp add: gov_children_def)
      then have "sum_list (map (\<lambda>c. gov_consumed 0 ?st c d) (gov_children st p)) = children_consumed st p d"
        unfolding children_consumed_def by (rule arg_cong)
      moreover have "sum_list (map (\<lambda>c. gov_consumed 0 ?st c d) (if parent = Some p then [length st] else [])) = 0"
        using fresh p by auto
      ultimately have "children_consumed ?st p d = children_consumed st p d"
        by (simp only: children_consumed_def kids map_append sum_list_append add_0_right)
      then show ?thesis using assms(1) True p old by (simp add: budget_ok_def children_covered_def)
    next
      case False
      then have "p = length st" using p by (simp add: new_governor_def)
      moreover have "gv_parent (?st ! c) \<noteq> Some (length st)" if "c < length ?st" for c
      proof
        assume "gv_parent (?st ! c) = Some (length st)"
        then have "length st < c" using pe that unfolding parents_earlier_def by blast
        then show False using that by (simp add: new_governor_def)
      qed
      then have "gov_children ?st (length st) = []" by (simp add: gov_children_def filter_empty_conv)
      ultimately show ?thesis using fresh p by (simp add: children_consumed_def)
    qed
  qed
  ultimately show ?thesis using pe by (simp add: budget_ok_def)
qed

inductive budget_step :: "budget_store \<Rightarrow> budget_store \<Rightarrow> bool" where
  bstep_new: "sane_limits limits \<Longrightarrow> new_governor limits None now st = (g, st') \<Longrightarrow> budget_step st st'"
| bstep_consume: "g < length st \<Longrightarrow> gov_consume now g d amount st = (q, st') \<Longrightarrow> budget_step st st'"
| bstep_record: "g < length st \<Longrightarrow> gov_record now g model_calls tokens cost st = (q, st') \<Longrightarrow> budget_step st st'"
| bstep_child: "g < length st \<Longrightarrow> sane_limits limits \<Longrightarrow> gov_child now g limits st = (c, st') \<Longrightarrow> budget_step st st'"

inductive budget_reachable :: "budget_store \<Rightarrow> bool" where
  breach_empty: "budget_reachable []"
| breach_step: "budget_reachable st \<Longrightarrow> budget_step st st' \<Longrightarrow> budget_reachable st'"

lemma budget_ok_step:
  assumes "budget_step st st'" "budget_ok st"
  shows "budget_ok st'"
  using assms(1)
proof cases
  case (bstep_new limits now g)
  then show ?thesis using budget_ok_new [OF assms(2), of limits None now] by simp
next
  case bstep_consume
  then show ?thesis using budget_ok_consume [OF assms(2)] by blast
next
  case bstep_record
  then show ?thesis using budget_ok_record [OF assms(2)] by blast
next
  case (bstep_child g limits now c)
  obtain q st1 where q: "gov_consume now g CHILD_RUNS (NFloat (Fin 1)) st = (q, st1)" by fastforce
  have ok: "budget_ok st1" "same_frame st st1" using budget_ok_consume [OF assms(2) bstep_child(1) q] by simp_all
  have "st' = st1 \<or> st' = snd (new_governor limits (Some g) now st1)"
    using bstep_child(3) q by (cases q) (auto simp: gov_child_def split: prod.splits)
  then show ?thesis
    using ok budget_ok_new [OF ok(1) bstep_child(2), of "Some g" now] bstep_child(1) by (auto simp: same_frame_def)
qed

lemma budget_ok_reachable: "budget_reachable st \<Longrightarrow> budget_ok st"
proof (induction rule: budget_reachable.induct)
  case breach_empty
  then show ?case by (simp add: budget_ok_def parents_earlier_def within_limits_def children_covered_def)
qed (rule budget_ok_step)

section \<open>Properties\<close>

text \<open>
  C6: No allocation is ever overdrawn. Whatever governors are created, charged and reported to, the
  recorded consumption of every governor stays within its limit in every dimension but wall-clock
  time, and covers what all its child allocations together have consumed.
\<close>

theorem budget_never_overdrawn:
  assumes "budget_reachable st" "g < length st" "d \<noteq> WALL_CLOCK_SECONDS"
  shows "(case gov_limit st g d of None \<Rightarrow> True | Some l \<Rightarrow> gov_consumed now st g d \<le> l)
     \<and> sum_list (map (\<lambda>c. gov_consumed now st c d) (gov_children st g)) \<le> gov_consumed now st g d"
proof -
  have "budget_ok st" by (rule budget_ok_reachable [OF assms(1)])
  then show ?thesis
    using assms(2,3) consumed_now [OF assms(3), of now st]
    by (auto simp: budget_ok_def within_limits_def children_covered_def children_consumed_def split: option.split)
qed

text \<open>A parent with room for three tool calls, of which a child with no limit of its own uses two.\<close>

definition three_calls :: "rat budget_limits" where
  "three_calls = no_limits\<lparr>bl_tool_calls := Some 3\<rparr>"

definition demo_parent :: budget_store where
  "demo_parent = snd (new_governor (Some three_calls) None 0 [])"

definition demo_budget :: budget_store where
  "demo_budget = snd (gov_child 0 0 None demo_parent)"

definition demo_spent :: budget_store where
  "demo_spent = snd (gov_consume 5 1 TOOL_CALLS (NInt 2) demo_budget)"

lemma three_calls_sane: "sane_limits (Some three_calls)"
proof -
  have "make_budget_limits (no_limits\<lparr>bl_tool_calls := Some (NInt 3)\<rparr>) = Inr three_calls"
    by (simp add: make_budget_limits_def budget_dimensions_def limit_for_def no_limits_def check_limit_def is_count_def
        is_number_def number_value_def three_calls_def Let_def)
  then show ?thesis unfolding sane_limits_def by auto
qed

lemma demo_budget_reachable: "budget_reachable demo_budget"
proof -
  have "budget_step [] demo_parent"
    by (rule bstep_new [OF three_calls_sane, where g = 0 and now = 0]) (simp add: demo_parent_def new_governor_def)
  moreover have "budget_step demo_parent demo_budget"
    by (rule bstep_child [of 0 _ None 0 "fst (gov_child 0 0 None demo_parent)"])
       (simp_all add: demo_budget_def demo_parent_def new_governor_def sane_limits_def)
  ultimately show ?thesis using breach_step breach_empty by blast
qed

lemma demo_budget_length: "length demo_budget = 2"
  by code_simp

lemma demo_spent_reachable: "budget_reachable demo_spent"
proof (rule breach_step [OF demo_budget_reachable bstep_consume])
  show "gov_consume 5 1 TOOL_CALLS (NInt 2) demo_budget = (fst (gov_consume 5 1 TOOL_CALLS (NInt 2) demo_budget), demo_spent)"
    by (simp add: demo_spent_def)
qed (simp add: demo_budget_length)

theorem budget_never_overdrawn_witness:
  "gov_consumed 5 demo_spent 0 TOOL_CALLS \<le> 3
     \<and> sum_list (map (\<lambda>c. gov_consumed 5 demo_spent c TOOL_CALLS) (gov_children demo_spent 0)) \<le> gov_consumed 5 demo_spent 0 TOOL_CALLS"
proof -
  have "0 < length demo_spent" "gov_limit demo_spent 0 TOOL_CALLS = Some 3" by code_simp+
  then show ?thesis using budget_never_overdrawn [OF demo_spent_reachable, of 0 TOOL_CALLS 5] by simp
qed

lemma remaining_covers:
  assumes "0 < r"
  shows "(case remaining_along now st d gs of None \<Rightarrow> True | Some m \<Rightarrow> r \<le> m)
     \<longleftrightarrow> (\<forall>h \<in> set gs. \<forall>l. gov_limit st h d = Some l \<longrightarrow> gov_consumed now st h d + r \<le> l)"
proof (induction gs)
  case (Cons g gs)
  have clip: "r \<le> max 0 x \<longleftrightarrow> r \<le> x" for x using assms by auto
  show ?case
  proof (cases "gov_limit st g d")
    case None
    then show ?thesis using Cons clip by (cases "remaining_along now st d gs") simp_all
  next
    case (Some l)
    have "gov_consumed now st g d + r \<le> l \<longleftrightarrow> r \<le> l - gov_consumed now st g d" by auto
    then show ?thesis using Some Cons clip by (cases "remaining_along now st d gs") auto
  qed
qed simp

text \<open>
  C34: A charge of a positive valid amount succeeds exactly when the allowance that \<open>remaining\<close> reports
  along the parent chain covers it (or no limit applies). A charge that succeeds adds the amount to
  the governor and to each of its ancestors and changes nothing else; one that fails raises
  \<open>BudgetExceeded\<close> and changes nothing at all.
\<close>

theorem gov_consume_exact:
  assumes "budget_reachable st" "g < length st" "validate_amount d amount = Inr r" "0 < r"
    and "gov_consume now g d amount st = (q, st')"
  shows "(q = Inr () \<longleftrightarrow> (case gov_remaining now st g d of None \<Rightarrow> True | Some m \<Rightarrow> r \<le> m))
     \<and> (q = Inr () \<and> same_frame st st'
          \<and> (\<forall>h d'. gov_consumed now st' h d' = gov_consumed now st h d'
               + (if h \<in> set (lineage st g) \<and> d' = d \<and> d \<noteq> WALL_CLOCK_SECONDS then r else 0))
        \<or> q = Inl (BudgetExceeded (''budget exceeded for '' @ dimension_value d)) \<and> st' = st)"
proof -
  have pe: "parents_earlier st" using budget_ok_reachable [OF assms(1)] by (simp add: budget_ok_def)
  have chk: "gov_check now st g d amount = Inr () \<longleftrightarrow> (case gov_remaining now st g d of None \<Rightarrow> True | Some m \<Rightarrow> r \<le> m)"
    using assms(3) by (simp add: gov_check_Inr gov_remaining_def remaining_covers [OF assms(4)])
  have err: "e = BudgetExceeded (''budget exceeded for '' @ dimension_value d)" if "check_along now st d amount gs = Inl e" for e gs
    using that assms(3) by (induction gs) (auto split: option.splits if_splits)
  show ?thesis
    using assms(5)
  proof (cases rule: gov_consume_cases)
    case (refused e)
    then show ?thesis using chk err by (auto simp: gov_check_def)
  next
    case (charged r')
    then have "r' = r" using assms(3) by simp
    have "distinct (lineage st g)" "\<forall>h \<in> set (lineage st g). h < length st"
      using lineage_bounds [OF pe assms(2)] lineage_in_store [OF pe assms(2)] by blast+
    moreover have "integral_charge d r" using assms(3) by (simp add: validate_amount_Inr)
    ultimately show ?thesis
      using chk charged \<open>r' = r\<close> record_up_consumed record_up_frame by auto
  qed
qed

theorem gov_consume_exact_witness:
  "fst (gov_consume 5 1 TOOL_CALLS (NInt 2) demo_budget) = Inr ()
   \<and> fst (gov_consume 5 1 TOOL_CALLS (NInt 2) demo_spent) = Inl (BudgetExceeded ''budget exceeded for tool_calls'')"
proof -
  have v: "validate_amount TOOL_CALLS (NInt 2) = Inr 2" "1 < length demo_budget" "1 < length demo_spent" by code_simp+
  have r: "gov_remaining 5 demo_budget 1 TOOL_CALLS = Some 3" "gov_remaining 5 demo_spent 1 TOOL_CALLS = Some 1" by code_simp+
  obtain q st' where a: "gov_consume 5 1 TOOL_CALLS (NInt 2) demo_budget = (q, st')" by fastforce
  obtain p st'' where b: "gov_consume 5 1 TOOL_CALLS (NInt 2) demo_spent = (p, st'')" by fastforce
  show ?thesis
    using gov_consume_exact [OF demo_budget_reachable v(2,1) _ a] gov_consume_exact [OF demo_spent_reachable v(3,1) _ b] r a b
    by (auto simp: dimension_value_def)
qed

text \<open>
  A report of model calls, tokens and cost is all or nothing: either one of the amounts is invalid
  or crosses a limit somewhere along the parent chain and no governor changes, or every governor of
  the chain is charged each of the three amounts exactly, and no other governor and no other
  dimension changes.
\<close>

theorem gov_record_atomic:
  assumes "budget_reachable st" "g < length st" "gov_record now g model_calls tokens cost st = (q, st')"
  shows "(\<exists>e. q = Inl e) \<and> st' = st
     \<or> (\<exists>a b c. q = Inr () \<and> number_value model_calls = Some a \<and> number_value tokens = Some b \<and> number_value cost = Some c
          \<and> same_frame st st'
          \<and> (\<forall>h d. gov_consumed now st' h d = gov_consumed now st h d
               + (if h \<in> set (lineage st g)
                  then (case d of MODEL_CALLS \<Rightarrow> a | TOKENS \<Rightarrow> b | ESTIMATED_COST \<Rightarrow> c | _ \<Rightarrow> 0) else 0)))"
  using assms(3)
proof (cases rule: gov_record_cases)
  case (charged amounts)
  obtain a b c where amounts: "amounts = [a, b, c]" and v: "validate_amount MODEL_CALLS model_calls = Inr a"
    "validate_amount TOKENS tokens = Inr b" "validate_amount ESTIMATED_COST cost = Inr c"
    using charged(2) by (auto simp: record_charges_def split: sum.splits)
  let ?due = "due_charges (record_charges model_calls tokens cost) amounts"
  have due: "?due = filter (\<lambda>((d, amount), r). r \<noteq> 0) [((MODEL_CALLS, model_calls), a), ((TOKENS, tokens), b), ((ESTIMATED_COST, cost), c)]"
    by (simp add: due_charges_def record_charges_def amounts)
  note applied = apply_charges_ok [OF budget_ok_reachable [OF assms(1)] assms(2), of ?due now]
  have "sum_list (map (\<lambda>x. if h \<in> set (lineage st g) \<and> d = fst (fst x) \<and> d \<noteq> WALL_CLOCK_SECONDS then snd x else 0) ?due)
      = (if h \<in> set (lineage st g) then (case d of MODEL_CALLS \<Rightarrow> a | TOKENS \<Rightarrow> b | ESTIMATED_COST \<Rightarrow> c | _ \<Rightarrow> 0) else 0)" for h d
    unfolding due by (cases d) auto
  then show ?thesis
    using applied due_charges_payable [OF charged(2,3)] v charged(1,4) by (auto simp: validate_amount_Inr)
qed simp

theorem gov_record_atomic_witness:
  "\<exists>st'. gov_record 5 1 (NInt 1) (NInt 40) (NFloat (Fin (1 / 4))) demo_budget = (Inr (), st')
     \<and> gov_consumed 5 st' 0 TOKENS = gov_consumed 5 demo_budget 0 TOKENS + 40"
proof -
  obtain q st' where r: "gov_record 5 1 (NInt 1) (NInt 40) (NFloat (Fin (1 / 4))) demo_budget = (q, st')" by fastforce
  have "fst (gov_record 5 1 (NInt 1) (NInt 40) (NFloat (Fin (1 / 4))) demo_budget) = Inr ()" by code_simp
  then have q: "q = Inr ()" using r by simp
  have "1 < length demo_budget" "0 \<in> set (lineage demo_budget 1)" by code_simp+
  then show ?thesis
    using gov_record_atomic [OF demo_budget_reachable _ r] r q by (auto simp: number_value_def)
qed

text \<open>
  The two ways the governor computes the time that is left agree: \<open>remaining_seconds\<close>, from the
  deadlines along the parent chain, is what \<open>remaining\<close> reports for the wall clock, once the clock
  is not before the start of the allocations.
\<close>

theorem remaining_seconds_agree:
  assumes "list_all (\<lambda>gv. bu_started_at (gv_usage gv) \<le> now) st" "budget_reachable st" "g < length st"
  shows "gov_remaining_seconds now st g = gov_remaining now st g WALL_CLOCK_SECONDS"
proof -
  have pe: "parents_earlier st" using budget_ok_reachable [OF assms(2)] by (simp add: budget_ok_def)
  have along: "remaining_seconds_along now st gs = remaining_along now st WALL_CLOCK_SECONDS gs
      \<and> (\<forall>m. remaining_seconds_along now st gs = Some m \<longrightarrow> 0 \<le> m)"
    if "\<forall>h \<in> set gs. h < length st" for gs
    using that
  proof (induction gs)
    case (Cons h gs)
    have "bu_started_at (gv_usage (st ! h)) \<le> now" using assms(1) Cons.prems by (simp add: list_all_length)
    then have c: "gov_consumed now st h WALL_CLOCK_SECONDS = now - bu_started_at (gv_usage (st ! h))"
      by (simp add: gov_consumed_def usage_consumed_def)
    have IH: "remaining_seconds_along now st gs = remaining_along now st WALL_CLOCK_SECONDS gs"
      "\<And>m. remaining_along now st WALL_CLOCK_SECONDS gs = Some m \<Longrightarrow> 0 \<le> m" using Cons by auto
    show ?case
    proof (cases "gov_limit st h WALL_CLOCK_SECONDS")
      case None
      then show ?thesis using IH by (cases "remaining_along now st WALL_CLOCK_SECONDS gs") (auto simp: gov_deadline_def max_def)
    next
      case (Some l)
      then show ?thesis using IH c
        by (cases "remaining_along now st WALL_CLOCK_SECONDS gs") (auto simp: gov_deadline_def max_def min_def algebra_simps)
    qed
  qed simp
  show ?thesis
    using along [of "lineage st g"] lineage_in_store [OF pe assms(3)] by (simp add: gov_remaining_seconds_def gov_remaining_def)
qed

theorem remaining_seconds_agree_witness:
  "gov_remaining_seconds 5 demo_budget 1 = gov_remaining 5 demo_budget 1 WALL_CLOCK_SECONDS"
proof -
  have "list_all (\<lambda>gv. bu_started_at (gv_usage gv) \<le> 5) demo_budget" by code_simp
  then show ?thesis using remaining_seconds_agree [OF _ demo_budget_reachable, of 5 1] demo_budget_length by simp
qed

end
