(* ===== verification/Policy.thy ===== *)
theory Policy
  imports Values
begin

text \<open>
  Permissions, grants and their glob patterns (\<open>policy/permissions.py\<close>) and the policies built from
  them (\<open>policy/engine.py\<close>). \<open>fnmatch.fnmatchcase\<close> of the standard library is modelled by its
  pattern syntax: \<open>*\<close>, \<open>?\<close>, character sets with ranges and negation.
\<close>

section \<open>Patterns\<close>

datatype glob_token = Star | AnyChar | Literal char | CharSet bool "(char \<times> char) list"

text \<open>The members of a character set: a hyphen between two characters makes a range.\<close>

fun set_ranges :: "string \<Rightarrow> (char \<times> char) list" where
  "set_ranges (a # h # b # cs) = (if h = CHR ''-'' then (a, b) # set_ranges cs else (a, a) # set_ranges (h # b # cs))"
| "set_ranges (a # cs) = (a, a) # set_ranges cs"
| "set_ranges [] = []"

text \<open>What follows an opening bracket: negation, members, and the rest after the closing bracket.\<close>

definition char_set :: "string \<Rightarrow> (glob_token \<times> string) option" where
  "char_set cs =
     (let negated = (cs \<noteq> [] \<and> hd cs = CHR ''!'');
          inner = (if negated then tl cs else cs);
          opening = (if inner \<noteq> [] \<and> hd inner = CHR '']'' then [CHR '']''] else []);
          (body, rest) = partition_on (CHR '']'') (drop (length opening) inner)
      in map_option (\<lambda>r. (CharSet negated (set_ranges (opening @ body)), r)) rest)"

lemma partition_on_shorter: "partition_on c s = (a, Some r) \<Longrightarrow> length r < length s"
  by (induction s arbitrary: a) (auto split: if_splits prod.splits)

lemma char_set_shorter: "char_set cs = Some (t, rest) \<Longrightarrow> length rest \<le> length cs"
  by (auto simp: char_set_def Let_def split: prod.splits if_splits dest!: partition_on_shorter)

function glob_tokens :: "string \<Rightarrow> glob_token list" where
  "glob_tokens s =
     (case s of
        [] \<Rightarrow> []
      | c # cs \<Rightarrow>
          if c = CHR ''*'' then Star # glob_tokens cs
          else if c = CHR ''?'' then AnyChar # glob_tokens cs
          else if c = CHR ''['' then
            (case char_set cs of None \<Rightarrow> Literal c # glob_tokens cs | Some (t, rest) \<Rightarrow> t # glob_tokens rest)
          else Literal c # glob_tokens cs)"
  by pat_completeness auto
termination by (relation "measure length") (auto dest: char_set_shorter simp: less_Suc_eq_le)

declare glob_tokens.simps [simp del]

lemma glob_tokens_simps [simp]:
  "glob_tokens [] = []"
  "glob_tokens (c # cs) =
     (if c = CHR ''*'' then Star # glob_tokens cs
      else if c = CHR ''?'' then AnyChar # glob_tokens cs
      else if c = CHR ''['' then
        (case char_set cs of None \<Rightarrow> Literal c # glob_tokens cs | Some (t, rest) \<Rightarrow> t # glob_tokens rest)
      else Literal c # glob_tokens cs)"
  by (simp_all add: glob_tokens.simps [of "[]"] glob_tokens.simps [of "c # cs"])

definition in_ranges :: "char \<Rightarrow> (char \<times> char) list \<Rightarrow> bool" where
  "in_ranges c rs = list_ex (\<lambda>(a, b). (of_char a :: nat) \<le> of_char c \<and> (of_char c :: nat) \<le> of_char b) rs"

fun one_matches :: "glob_token \<Rightarrow> char \<Rightarrow> bool" where
  "one_matches Star c = False"
| "one_matches AnyChar c = True"
| "one_matches (Literal d) c = (c = d)"
| "one_matches (CharSet negated rs) c = (in_ranges c rs \<noteq> negated)"

fun glob_matches :: "glob_token list \<Rightarrow> string \<Rightarrow> bool" where
  "glob_matches [] s = (s = [])"
| "glob_matches (Star # ts) [] = glob_matches ts []"
| "glob_matches (Star # ts) (c # cs) = (glob_matches ts (c # cs) \<or> glob_matches (Star # ts) cs)"
| "glob_matches (t # ts) [] = False"
| "glob_matches (t # ts) (c # cs) = (one_matches t c \<and> glob_matches ts cs)"

definition fnmatchcase :: "string \<Rightarrow> string \<Rightarrow> bool" where
  "fnmatchcase name pattern = glob_matches (glob_tokens pattern) name"

section \<open>Permissions and grants\<close>

record permission =
  pm_name :: string
  pm_resource :: "string option"

definition make_permission :: "string \<Rightarrow> string option \<Rightarrow> permission result" where
  "make_permission name resource =
     (if name = [] \<or> name \<noteq> strip name then
        Inl (ConfigurationError ''permission name must be a non-empty, trimmed string'')
      else if hd name = CHR '':'' \<or> last name = CHR '':'' then
        Inl (ConfigurationError ''permission name must not contain an empty segment'')
      else if resource = Some [] then
        Inl (ConfigurationError ''permission resource must not be empty'')
      else Inr \<lparr>pm_name = name, pm_resource = resource\<rparr>)"

definition parse_permission :: "string \<Rightarrow> permission result" where
  "parse_permission text =
     (if text = [] then Inl (ConfigurationError ''permission text must not be empty'')
      else case partition_on (CHR '':'') text of
             (name, resource) \<Rightarrow>
               bind_result (make_permission (strip name) (map_option strip resource)) (\<lambda>p.
                 if pm_name p = [] then Inl (ConfigurationError ''permission name must not be empty'') else Inr p))"

definition show_permission :: "permission \<Rightarrow> string" where
  "show_permission p = (case pm_resource p of None \<Rightarrow> pm_name p | Some r \<Rightarrow> pm_name p @ '':'' @ r)"

record permission_grant =
  pgt_name :: string
  pgt_resource :: "string option"

definition parse_grant :: "string \<Rightarrow> permission_grant result" where
  "parse_grant text = bind_result (parse_permission text) (\<lambda>p. Inr \<lparr>pgt_name = pm_name p, pgt_resource = pm_resource p\<rparr>)"

definition show_grant :: "permission_grant \<Rightarrow> string" where
  "show_grant g = (case pgt_resource g of None \<Rightarrow> pgt_name g | Some r \<Rightarrow> pgt_name g @ '':'' @ r)"

definition grant_allows :: "permission_grant \<Rightarrow> permission \<Rightarrow> bool" where
  "grant_allows g p =
     (if pm_name p \<noteq> pgt_name g then False
      else case pgt_resource g of
             None \<Rightarrow> True
           | Some pattern \<Rightarrow> (case pm_resource p of None \<Rightarrow> False | Some r \<Rightarrow> fnmatchcase r pattern))"

section \<open>Policies\<close>

record policy_request =
  pq_permission :: permission
  pq_subject :: string
  pq_resource :: "string option"
  pq_context :: payload

record policy_result =
  pa_allowed :: bool
  pa_reason :: string
  pa_approval_required :: bool
  pa_matched_grant :: "permission_grant option"

definition policy_answer :: "bool \<Rightarrow> string \<Rightarrow> policy_result" where
  "policy_answer allowed reason =
     \<lparr>pa_allowed = allowed, pa_reason = reason, pa_approval_required = False, pa_matched_grant = None\<rparr>"

definition allow_all_evaluate :: "policy_request \<Rightarrow> policy_result" where
  "allow_all_evaluate q = policy_answer True ''no policy restrictions configured''"

definition deny_all_evaluate :: "policy_request \<Rightarrow> policy_result" where
  "deny_all_evaluate q = policy_answer False ''policy denies every operation''"

record grant_policy =
  gp_grants :: "permission_grant list"
  gp_approval_required :: "string list"

definition make_grant_policy :: "(permission_grant + string) list \<Rightarrow> string list \<Rightarrow> grant_policy result" where
  "make_grant_policy grants approval_required =
     bind_result (map_result (\<lambda>g. case g of Inl g \<Rightarrow> Inr g | Inr text \<Rightarrow> parse_grant text) grants) (\<lambda>gs.
       Inr \<lparr>gp_grants = gs, gp_approval_required = approval_required\<rparr>)"

fun evaluate_grants :: "permission_grant list \<Rightarrow> string list \<Rightarrow> permission \<Rightarrow> policy_result" where
  "evaluate_grants [] approval p = policy_answer False (''no grant covers '' @ show_permission p)"
| "evaluate_grants (g # gs) approval p =
     (if grant_allows g p then
        (if pm_name p \<in> set approval then
           \<lparr>pa_allowed = True, pa_reason = ''granted by '' @ show_grant g @ '', pending approval'',
            pa_approval_required = True, pa_matched_grant = Some g\<rparr>
         else
           \<lparr>pa_allowed = True, pa_reason = ''granted by '' @ show_grant g,
            pa_approval_required = False, pa_matched_grant = Some g\<rparr>)
      else evaluate_grants gs approval p)"

definition grant_policy_evaluate :: "grant_policy \<Rightarrow> policy_request \<Rightarrow> policy_result" where
  "grant_policy_evaluate gp q = evaluate_grants (gp_grants gp) (gp_approval_required gp) (pq_permission q)"

section \<open>Parsing and printing\<close>

lemma lstrip_fix: "lstrip s = s \<longleftrightarrow> s = [] \<or> \<not> is_space (hd s)"
proof (cases s)
  case (Cons c cs)
  have "length (dropWhile is_space cs) \<le> length cs" by (rule length_dropWhile_le)
  then have "dropWhile is_space cs \<noteq> c # cs" by (metis length_Cons not_less_eq_eq order_refl)
  then show ?thesis using Cons by (auto simp: lstrip_def)
qed (simp add: lstrip_def)

lemma lstrip_start: "lstrip s = [] \<or> \<not> is_space (hd (lstrip s))"
  unfolding lstrip_def using hd_dropWhile by blast

lemma strip_idem: "strip (strip s) = strip s"
proof -
  let ?u = "lstrip s"
  obtain spaces where drop: "rev ?u = spaces @ lstrip (rev ?u)"
    unfolding lstrip_def by (metis takeWhile_dropWhile_id)
  then have u: "?u = strip s @ rev spaces"
    unfolding strip_def by (metis rev_append rev_rev_ident)
  have "lstrip (strip s) = strip s"
    using lstrip_start [of s] u by (cases "strip s") (auto simp: lstrip_fix)
  moreover have "lstrip (rev (strip s)) = rev (strip s)"
    using lstrip_start [of "rev ?u"] by (simp add: strip_def lstrip_fix)
  ultimately show ?thesis by (simp add: strip_def [of "strip s"])
qed

lemma strip_subset: "set (strip s) \<subseteq> set s"
proof
  fix c assume "c \<in> set (strip s)"
  then have "c \<in> set (dropWhile is_space (rev (dropWhile is_space s)))" by (simp add: strip_def lstrip_def)
  then have "c \<in> set (dropWhile is_space s)" using set_dropWhileD by fastforce
  then show "c \<in> set s" using set_dropWhileD by fastforce
qed

lemma partition_on_before: "partition_on c s = (a, r) \<Longrightarrow> c \<notin> set a"
  by (induction s arbitrary: a r) (auto split: if_splits prod.splits)

lemma make_permission_Inr:
  "make_permission name resource = Inr p \<longleftrightarrow> name \<noteq> [] \<and> name = strip name \<and> hd name \<noteq> CHR '':'' \<and> last name \<noteq> CHR '':''
     \<and> resource \<noteq> Some [] \<and> p = \<lparr>pm_name = name, pm_resource = resource\<rparr>"
  by (auto simp: make_permission_def)

lemma parse_permission_Inr:
  assumes "parse_permission text = Inr p"
  shows "make_permission (pm_name p) (pm_resource p) = Inr p" "CHR '':'' \<notin> set (pm_name p)"
    "map_option strip (pm_resource p) = pm_resource p"
proof -
  obtain name resource where part: "partition_on (CHR '':'') text = (name, resource)" by fastforce
  then have made: "make_permission (strip name) (map_option strip resource) = Inr p"
    using assms by (auto simp: parse_permission_def bind_result_eq_Inr split: if_splits)
  then have p: "pm_name p = strip name" "pm_resource p = map_option strip resource" by (auto simp: make_permission_Inr)
  then show "make_permission (pm_name p) (pm_resource p) = Inr p" using made by simp
  show "CHR '':'' \<notin> set (pm_name p)" using partition_on_before [OF part] strip_subset [of name] p by auto
  show "map_option strip (pm_resource p) = pm_resource p" using p by (cases resource) (simp_all add: strip_idem)
qed

text \<open>
  Parsing a permission and printing it are inverse to each other on everything that parses: the
  printed form of a parsed permission parses back to it, so a permission that travels as text (in a
  tool policy, a configuration or an error) is the same permission again.
\<close>

theorem permission_roundtrip:
  assumes "parse_permission text = Inr p"
  shows "parse_permission (show_permission p) = Inr p"
proof -
  note p = parse_permission_Inr [OF assms]
  then have name: "pm_name p \<noteq> []" "strip (pm_name p) = pm_name p" by (auto simp: make_permission_Inr)
  have "partition_on (CHR '':'') (show_permission p) = (pm_name p, pm_resource p)"
    using p(2) by (cases "pm_resource p") (simp_all add: show_permission_def partition_on_None partition_on_Some)
  moreover have "show_permission p \<noteq> []" using name by (simp add: show_permission_def split: option.split)
  ultimately show ?thesis using p(1,3) name by (simp add: parse_permission_def)
qed

theorem permission_roundtrip_witness:
  "parse_permission (show_permission \<lparr>pm_name = ''filesystem.write'', pm_resource = Some ''/workspace/out''\<rparr>)
     = Inr \<lparr>pm_name = ''filesystem.write'', pm_resource = Some ''/workspace/out''\<rparr>"
proof (rule permission_roundtrip)
  show "parse_permission '' filesystem.write : /workspace/out '' = Inr \<lparr>pm_name = ''filesystem.write'', pm_resource = Some ''/workspace/out''\<rparr>"
    by code_simp
qed

section \<open>What a grant covers\<close>

text \<open>The language of a pattern: the text splits into one part per token.\<close>

definition token_part :: "glob_token \<Rightarrow> string \<Rightarrow> bool" where
  "token_part t part \<longleftrightarrow> t = Star \<or> (\<exists>c. part = [c] \<and> one_matches t c)"

definition glob_language :: "glob_token list \<Rightarrow> string \<Rightarrow> bool" where
  "glob_language ts s \<longleftrightarrow> (\<exists>parts. list_all2 token_part ts parts \<and> concat parts = s)"

lemma glob_language_Nil: "glob_language [] s \<longleftrightarrow> s = []"
  by (auto simp: glob_language_def)

lemma glob_language_Cons: "glob_language (t # ts) s \<longleftrightarrow> (\<exists>part rest. s = part @ rest \<and> token_part t part \<and> glob_language ts rest)"
proof
  assume "glob_language (t # ts) s"
  then show "\<exists>part rest. s = part @ rest \<and> token_part t part \<and> glob_language ts rest"
    unfolding glob_language_def list_all2_Cons1 by fastforce
next
  assume "\<exists>part rest. s = part @ rest \<and> token_part t part \<and> glob_language ts rest"
  then obtain part parts where "s = part @ concat parts" "token_part t part" "list_all2 token_part ts parts"
    by (auto simp: glob_language_def)
  then show "glob_language (t # ts) s" unfolding glob_language_def by (intro exI [of _ "part # parts"]) simp
qed

lemma glob_language_one:
  assumes "t \<noteq> Star"
  shows "glob_language (t # ts) [] = False" "glob_language (t # ts) (c # cs) = (one_matches t c \<and> glob_language ts cs)"
  using assms by (simp_all add: glob_language_Cons token_part_def) (metis append_Cons append_Nil list.inject)

lemma glob_matches_language: "glob_matches ts s \<longleftrightarrow> glob_language ts s"
proof (induction ts s rule: glob_matches.induct)
  case (3 ts c cs)
  have "glob_language (Star # ts) (c # cs) \<longleftrightarrow> glob_language ts (c # cs) \<or> glob_language (Star # ts) cs"
    by (auto simp: glob_language_Cons token_part_def Cons_eq_append_conv)
  then show ?case using 3 by simp
next
  case (2 ts)
  then show ?case by (simp add: glob_language_Cons token_part_def)
qed (simp_all add: glob_language_Nil glob_language_one)

definition covers :: "permission_grant \<Rightarrow> permission \<Rightarrow> bool" where
  "covers g p \<longleftrightarrow> pgt_name g = pm_name p
     \<and> (\<forall>pattern. pgt_resource g = Some pattern \<longrightarrow> (\<exists>r. pm_resource p = Some r \<and> glob_language (glob_tokens pattern) r))"

lemma grant_allows_covers: "grant_allows g p \<longleftrightarrow> covers g p"
  by (auto simp: grant_allows_def covers_def fnmatchcase_def glob_matches_language split: option.splits)

lemma evaluate_grants_eq:
  "evaluate_grants gs approval p =
     (case find (\<lambda>g. covers g p) gs of
        None \<Rightarrow> policy_answer False (''no grant covers '' @ show_permission p)
      | Some g \<Rightarrow> \<lparr>pa_allowed = True, pa_reason = ''granted by '' @ show_grant g @ (if pm_name p \<in> set approval then '', pending approval'' else []),
                   pa_approval_required = (pm_name p \<in> set approval), pa_matched_grant = Some g\<rparr>)"
  by (induction gs) (simp_all add: grant_allows_covers)

text \<open>
  C40: A grant policy allows exactly what its grants cover: it answers allowed iff some grant has the
  permission's name and, where the grant is narrowed to a pattern, the request names a resource in
  the language of that pattern; approval is demanded exactly for allowed requests of the listed
  permissions, and an allowed answer names a grant that covers the request.
\<close>

theorem grant_policy_exact:
  "(pa_allowed (grant_policy_evaluate gp q) \<longleftrightarrow> (\<exists>g. g \<in> set (gp_grants gp) \<and> covers g (pq_permission q)))
   \<and> (pa_approval_required (grant_policy_evaluate gp q)
        \<longleftrightarrow> pa_allowed (grant_policy_evaluate gp q) \<and> pm_name (pq_permission q) \<in> set (gp_approval_required gp))
   \<and> pa_matched_grant (grant_policy_evaluate gp q) = find (\<lambda>g. covers g (pq_permission q)) (gp_grants gp)"
proof (cases "find (\<lambda>g. covers g (pq_permission q)) (gp_grants gp)")
  case None
  then have "\<And>g. g \<in> set (gp_grants gp) \<Longrightarrow> \<not> covers g (pq_permission q)" by (simp add: find_None_iff)
  moreover have "grant_policy_evaluate gp q = policy_answer False (''no grant covers '' @ show_permission (pq_permission q))"
    by (simp only: grant_policy_evaluate_def evaluate_grants_eq None option.case)
  ultimately show ?thesis using None by (auto simp: policy_answer_def)
next
  case (Some g)
  then have "g \<in> set (gp_grants gp)" "covers g (pq_permission q)" by (auto simp: find_Some_iff)
  moreover have "pa_allowed (grant_policy_evaluate gp q)"
    "pa_approval_required (grant_policy_evaluate gp q) = (pm_name (pq_permission q) \<in> set (gp_approval_required gp))"
    "pa_matched_grant (grant_policy_evaluate gp q) = Some g"
    by (simp_all only: grant_policy_evaluate_def evaluate_grants_eq Some option.case policy_result.simps)
  ultimately show ?thesis using Some by auto
qed

end
