(* ===== verification/Redaction.thy ===== *)
theory Redaction
  imports Values "HOL-Library.Sublist"
begin

text \<open>
  Redaction of secret material (\<open>secrets/redaction.py\<close>): the tracked values, the sensitive keys and
  the recursive scrubbing of text and payloads. The tracked values are a set; the list stands for
  the order in which the set is iterated. The main fact is that no tracked value is left anywhere in
  a scrubbed payload, as long as no tracked value overlaps the marker.
\<close>

section \<open>Text\<close>

definition redacted_marker :: string where
  "redacted_marker = ''<redacted>''"

text \<open>\<open>text.replace(old, new)\<close> for a non-empty \<open>old\<close>: leftmost occurrences, not overlapping.\<close>

function replace_all :: "string \<Rightarrow> string \<Rightarrow> string \<Rightarrow> string" where
  "replace_all old new s =
     (if s = [] \<or> old = [] then s
      else if prefix old s then new @ replace_all old new (drop (length old) s)
      else hd s # replace_all old new (tl s))"
  by pat_completeness auto
termination by (relation "measure (\<lambda>(old, new, s). length s)") auto

declare replace_all.simps [simp del]

record redactor =
  rd_values :: "string list"

definition new_redactor :: redactor where
  "new_redactor = \<lparr>rd_values = []\<rparr>"

definition redactor_add :: "string \<Rightarrow> redactor \<Rightarrow> bool \<times> redactor" where
  "redactor_add value rd =
     (if value = [] then (False, rd) else (True, rd\<lparr>rd_values := List.insert value (rd_values rd)\<rparr>))"

definition redactor_discard :: "string \<Rightarrow> redactor \<Rightarrow> redactor" where
  "redactor_discard value rd = rd\<lparr>rd_values := removeAll value (rd_values rd)\<rparr>"

definition make_redactor :: "string list \<Rightarrow> redactor" where
  "make_redactor values = fold (\<lambda>v rd. snd (redactor_add v rd)) values new_redactor"

text \<open>Longer values first.\<close>

definition redact_text :: "redactor \<Rightarrow> string \<Rightarrow> string" where
  "redact_text rd s =
     fold (\<lambda>value text. if sublist value text then replace_all value redacted_marker text else text)
       (sort_key (\<lambda>v. - int (length v)) (rd_values rd)) s"

definition redact_and_report :: "redactor \<Rightarrow> string \<Rightarrow> string \<times> bool" where
  "redact_and_report rd s = (let r = redact_text rd s in (r, r \<noteq> s))"

section \<open>Sensitive keys\<close>

definition lower_char :: "char \<Rightarrow> char" where
  "lower_char c = (let n = (of_char c :: nat) in if 65 \<le> n \<and> n \<le> 90 then char_of (n + 32) else c)"

definition word_char :: "char \<Rightarrow> bool" where
  "word_char c = (let n = (of_char (lower_char c) :: nat) in 97 \<le> n \<and> n \<le> 122 \<or> 48 \<le> n \<and> n \<le> 57)"

definition secret_words :: "string list" where
  "secret_words = [''api_key'', ''apikey'', ''secret'', ''token'', ''password'', ''passwd'', ''credential'', ''private_key'',
     ''access_key'', ''client_secret'', ''authorization'', ''auth'']"

text \<open>A word of the pattern, not preceded or followed by a letter or digit.\<close>

definition secret_key :: "string \<Rightarrow> bool" where
  "secret_key key =
     (let k = map lower_char key
      in list_ex (\<lambda>i. (i = 0 \<or> \<not> word_char (k ! (i - 1)))
           \<and> list_ex (\<lambda>w. prefix w (drop i k)
               \<and> (drop (i + length w) k = [] \<or> \<not> word_char (hd (drop (i + length w) k)))) secret_words)
         [0..<length k])"

section \<open>Payloads\<close>

definition redact_key :: "redactor \<Rightarrow> pkey \<Rightarrow> pkey" where
  "redact_key rd k = (case k of KText s \<Rightarrow> KText (redact_text rd s) | _ \<Rightarrow> k)"

text \<open>
  \<open>redact_value\<close>; the key is the one the value is stored under. Entries whose keys become equal
  overwrite each other, as do equal set elements.
\<close>

fun redact_value :: "redactor \<Rightarrow> string option \<Rightarrow> pvalue \<Rightarrow> pvalue" where
  "redact_value rd key v =
     (if (case key of None \<Rightarrow> False | Some k \<Rightarrow> secret_key k) then PText redacted_marker
      else case v of
             PText s \<Rightarrow> PText (redact_text rd s)
           | PDict kvs \<Rightarrow>
               PDict (fold (\<lambda>(k, x) d. dict_set k x d)
                 (map (\<lambda>(k, x). (redact_key rd k, redact_value rd (Some (key_text k)) x)) kvs) [])
           | PFrozenDict kvs \<Rightarrow>
               PDict (fold (\<lambda>(k, x) d. dict_set k x d)
                 (map (\<lambda>(k, x). (KText (redact_text rd k), redact_value rd (Some k) x)) kvs) [])
           | PList vs \<Rightarrow> PList (map (redact_value rd None) vs)
           | PTuple vs \<Rightarrow> PTuple (map (redact_value rd None) vs)
           | PSet vs \<Rightarrow> PSet (remdups (map (redact_value rd None) vs))
           | PFrozenSet vs \<Rightarrow> PFrozenSet (remdups (map (redact_value rd None) vs))
           | _ \<Rightarrow> v)"

declare redact_value.simps [simp del]

text \<open>\<open>redact_value\<close> of a mapping with text keys, as payloads are.\<close>

definition redact_payload :: "redactor \<Rightarrow> payload \<Rightarrow> payload" where
  "redact_payload rd d =
     fold (\<lambda>(k, x) d. dict_set k x d) (map (\<lambda>(k, x). (redact_text rd k, redact_value rd (Some k) x)) d) []"

section \<open>No tracked value is left\<close>

text \<open>
  A tracked value and the marker are apart: neither contains the other, and no end of the one is a
  beginning of the other, so an occurrence of the value never overlaps a marker in the text.
\<close>

definition apart :: "string \<Rightarrow> string \<Rightarrow> bool" where
  "apart v new \<longleftrightarrow> v \<noteq> [] \<and> \<not> sublist v new \<and> \<not> sublist new v
     \<and> list_all (\<lambda>p. p = [] \<or> \<not> suffix p v) (prefixes new)
     \<and> list_all (\<lambda>p. p = [] \<or> \<not> prefix p v) (suffixes new)"

definition scrubbable :: "redactor \<Rightarrow> bool" where
  "scrubbable rd \<longleftrightarrow> list_all (\<lambda>v. apart v redacted_marker) (rd_values rd)"

definition clean :: "redactor \<Rightarrow> string \<Rightarrow> bool" where
  "clean rd s \<longleftrightarrow> (\<forall>v \<in> set (rd_values rd). \<not> sublist v s)"

lemma replace_all_simps:
  "replace_all old new [] = []"
  "replace_all [] new s = s"
  "old \<noteq> [] \<Longrightarrow> \<not> prefix old (c # cs) \<Longrightarrow> replace_all old new (c # cs) = c # replace_all old new cs"
  by (simp_all add: replace_all.simps [of old new "[]"] replace_all.simps [of "[]" new s] replace_all.simps [of old new "c # cs"])

lemma replace_all_prefix:
  assumes "old \<noteq> []" "prefix old s"
  shows "replace_all old new s = new @ replace_all old new (drop (length old) s)"
proof -
  have "s \<noteq> []" using assms by auto
  then show ?thesis using assms by (subst replace_all.simps) simp
qed

text \<open>An occurrence of a value next to an inserted marker lies before or after it.\<close>

lemma sublist_apart:
  assumes "apart w new" "sublist w (a @ new @ b)"
  shows "sublist w a \<or> sublist w b"
proof -
  have ends: "p = [] \<or> \<not> suffix p w" if "prefix p new" for p
    using assms(1) that by (auto simp: apart_def list_all_iff)
  have starts: "p = [] \<or> \<not> prefix p w" if "suffix p new" for p
    using assms(1) that by (auto simp: apart_def list_all_iff)
  have inside: "\<not> sublist w new" "\<not> sublist new w" using assms(1) by (simp_all add: apart_def)
  have right: "sublist w b" if "sublist w (new @ b)"
  proof -
    from that inside(1) consider "sublist w b" | w1 w2 where "w = w1 @ w2" "suffix w1 new" "prefix w2 b"
      unfolding sublist_append by blast
    then show ?thesis
    proof cases
      case 2
      then have "w1 = []" using starts [of w1] by auto
      with 2 show ?thesis by (simp add: prefix_imp_sublist)
    qed
  qed
  from assms(2) consider "sublist w a" | "sublist w (new @ b)"
    | w1 w2 where "w = w1 @ w2" "suffix w1 a" "prefix w2 (new @ b)"
    unfolding sublist_append [of w a] by blast
  then show ?thesis
  proof cases
    case 3
    from 3(3) consider "prefix w2 new" | rest where "w2 = new @ rest" unfolding prefix_append by blast
    then show ?thesis
    proof cases
      case 1
      then have "w2 = []" using ends [of w2] 3(1) by (auto simp: suffix_def)
      with 3 show ?thesis by (simp add: suffix_imp_sublist)
    next
      case 2
      with 3(1) have "sublist new w" by (metis sublist_appendI)
      with inside(2) show ?thesis by blast
    qed
  qed (use right in blast)+
qed

text \<open>Replacing brings in no occurrence of a value that is apart from the inserted text.\<close>

lemma sublist_replace_all:
  assumes "apart w new"
  shows "sublist w (a @ replace_all old new s) \<Longrightarrow> sublist w (a @ s)"
proof (induction "length s" arbitrary: a s rule: less_induct)
  case lt: less
  show ?case
  proof (cases "s = [] \<or> old = []")
    case True
    with lt.prems show ?thesis by (auto simp: replace_all_simps)
  next
    case False
    then obtain c cs where s: "s = c # cs" by (cases s) auto
    show ?thesis
    proof (cases "prefix old s")
      case True
      let ?rest = "drop (length old) s"
      have "replace_all old new s = new @ replace_all old new ?rest"
        by (rule replace_all_prefix [OF _ True]) (use False in blast)
      with lt.prems have "sublist w (a @ new @ replace_all old new ?rest)" by simp
      from sublist_apart [OF assms this] show ?thesis
      proof
        assume "sublist w (replace_all old new ?rest)"
        then have "sublist w ([] @ replace_all old new ?rest)" by simp
        then have "sublist w ([] @ ?rest)" by (rule lt.hyps [rotated]) (use False in auto)
        then have "sublist w s" by (simp add: sublist_order.order_trans [OF _ sublist_drop])
        then show ?thesis by (simp add: sublist_append)
      qed (simp add: sublist_append)
    next
      case no: False
      then have "replace_all old new s = c # replace_all old new cs" using False s by (simp add: replace_all_simps)
      with lt.prems have "sublist w ((a @ [c]) @ replace_all old new cs)" by simp
      then have "sublist w ((a @ [c]) @ cs)" by (rule lt.hyps [rotated]) (simp add: s)
      then show ?thesis by (simp add: s)
    qed
  qed
qed

text \<open>The replaced value is gone: \<open>a\<close> is the text already passed, in which no occurrence starts.\<close>

lemma replace_all_removes_from:
  assumes "apart old new" "\<forall>i < length a. \<not> prefix old (drop i (a @ s))"
  shows "\<not> sublist old (a @ replace_all old new s)"
  using assms(2)
proof (induction "length s" arbitrary: a s rule: less_induct)
  case lt: less
  have ne: "old \<noteq> []" using assms(1) by (simp add: apart_def)
  have passed: "\<not> sublist old a"
  proof
    assume "sublist old a"
    then obtain x y where a: "a = x @ old @ y" by (auto simp: sublist_def)
    then have "length x < length a" "prefix old (drop (length x) (a @ s))" using ne by simp_all
    with lt.prems show False by blast
  qed
  show ?case
  proof (cases s)
    case Nil
    with passed show ?thesis by (simp add: replace_all_simps)
  next
    case (Cons c cs)
    show ?thesis
    proof (cases "prefix old s")
      case True
      let ?rest = "drop (length old) s"
      have "\<not> sublist old ([] @ replace_all old new ?rest)"
        by (rule lt.hyps) (use ne Cons in auto)
      with passed sublist_apart [OF assms(1), of a "replace_all old new ?rest"]
      show ?thesis by (auto simp: replace_all_prefix [OF ne True])
    next
      case False
      have "\<not> prefix old (drop i ((a @ [c]) @ cs))" if "i < length (a @ [c])" for i
        using lt.prems False that Cons by (cases "i = length a") auto
      then have "\<not> sublist old ((a @ [c]) @ replace_all old new cs)"
        by (intro lt.hyps) (simp_all add: Cons)
      with False ne show ?thesis by (simp add: Cons replace_all_simps)
    qed
  qed
qed

lemma replace_all_removes: "apart old new \<Longrightarrow> \<not> sublist old (replace_all old new s)"
  using replace_all_removes_from [of old new "[]" s] by simp

lemma redact_text_clean:
  assumes "scrubbable rd"
  shows "clean rd (redact_text rd s)"
proof -
  let ?step = "\<lambda>value text. if sublist value text then replace_all value redacted_marker text else text"
  have ok: "apart v redacted_marker" if "v \<in> set (rd_values rd)" for v
    using that assms by (auto simp: scrubbable_def list_all_iff)
  have keep: "\<not> sublist v (fold ?step vs t)" if "v \<in> set (rd_values rd)" "\<not> sublist v t" for v vs t
    using that(2)
    by (induction vs arbitrary: t) (auto dest: sublist_replace_all [OF ok [OF that(1)], where a = "[]", simplified])
  have "\<not> sublist v (fold ?step vs t)" if "v \<in> set vs" "set vs \<subseteq> set (rd_values rd)" for v vs t
    using that
  proof (induction vs arbitrary: t)
    case (Cons u us)
    show ?case
    proof (cases "u = v")
      case True
      have v: "v \<in> set (rd_values rd)" using Cons.prems by auto
      have "\<not> sublist v (?step v t)" using replace_all_removes [OF ok [OF v]] by simp
      then show ?thesis using keep [OF v] True by simp
    qed (use Cons in auto)
  qed simp
  then show ?thesis by (simp add: clean_def redact_text_def)
qed

text \<open>All text in a value: its keys and its leaves.\<close>

definition key_texts :: "pkey \<Rightarrow> string set" where
  "key_texts k = (case k of KText s \<Rightarrow> {s} | _ \<Rightarrow> {})"

fun texts_in :: "pvalue \<Rightarrow> string set" where
  "texts_in (PText s) = {s}"
| "texts_in (PList vs) = (\<Union>v \<in> set vs. texts_in v)"
| "texts_in (PTuple vs) = (\<Union>v \<in> set vs. texts_in v)"
| "texts_in (PSet vs) = (\<Union>v \<in> set vs. texts_in v)"
| "texts_in (PFrozenSet vs) = (\<Union>v \<in> set vs. texts_in v)"
| "texts_in (PDict kvs) = (\<Union>(k, v) \<in> set kvs. key_texts k \<union> texts_in v)"
| "texts_in (PFrozenDict kvs) = (\<Union>(k, v) \<in> set kvs. insert k (texts_in v))"
| "texts_in v = {}"

lemma marker_clean: "scrubbable rd \<Longrightarrow> clean rd redacted_marker"
proof -
  assume "scrubbable rd"
  then have "\<not> sublist v redacted_marker" if "v \<in> set (rd_values rd)" for v
    using that by (auto simp: scrubbable_def list_all_iff apart_def)
  then show ?thesis by (simp add: clean_def)
qed

abbreviation sensitive :: "string option \<Rightarrow> bool" where
  "sensitive key \<equiv> (case key of None \<Rightarrow> False | Some k \<Rightarrow> secret_key k)"

lemma redact_value_sensitive: "sensitive key \<Longrightarrow> redact_value rd key v = PText redacted_marker"
  by (simp add: redact_value.simps)

lemma redact_value_clean:
  assumes "scrubbable rd"
  shows "t \<in> texts_in (redact_value rd key v) \<Longrightarrow> clean rd t"
proof (induction v arbitrary: key t)
  case (PDict kvs)
  show ?case
  proof (cases "sensitive key")
    case True
    then show ?thesis using PDict.prems marker_clean [OF assms] by (simp add: redact_value_sensitive)
  next
    case False
    let ?items = "map (\<lambda>(k, x). (redact_key rd k, redact_value rd (Some (key_text k)) x)) kvs"
    have "t \<in> texts_in (PDict (fold (\<lambda>(k, x) d. dict_set k x d) ?items []))"
      using PDict.prems False by (simp add: redact_value.simps [of rd key])
    then obtain k v where "(k, v) \<in> set ?items" "t \<in> key_texts k \<union> texts_in v"
      using set_fold_set [OF wf_dict_Nil, of ?items] by (auto simp del: set_map)
    then obtain k v where kv: "(k, v) \<in> set kvs" "t \<in> key_texts (redact_key rd k) \<union> texts_in (redact_value rd (Some (key_text k)) v)"
      by auto
    then show ?thesis
      using PDict.IH [OF kv(1), of v] redact_text_clean [OF assms] by (auto simp: redact_key_def key_texts_def split: pkey.splits)
  qed
next
  case (PFrozenDict kvs)
  show ?case
  proof (cases "sensitive key")
    case True
    then show ?thesis using PFrozenDict.prems marker_clean [OF assms] by (simp add: redact_value_sensitive)
  next
    case False
    let ?items = "map (\<lambda>(k, x). (KText (redact_text rd k), redact_value rd (Some k) x)) kvs"
    have "t \<in> texts_in (PDict (fold (\<lambda>(k, x) d. dict_set k x d) ?items []))"
      using PFrozenDict.prems False by (simp add: redact_value.simps [of rd key])
    then obtain k v where "(k, v) \<in> set ?items" "t \<in> key_texts k \<union> texts_in v"
      using set_fold_set [OF wf_dict_Nil, of ?items] by (auto simp del: set_map)
    then obtain k v where kv: "(k, v) \<in> set kvs" "t = redact_text rd k \<or> t \<in> texts_in (redact_value rd (Some k) v)"
      by (auto simp: key_texts_def)
    then show ?thesis using PFrozenDict.IH [OF kv(1), of v] redact_text_clean [OF assms] by auto
  qed
next
  case (PText s)
  then show ?case
    by (cases "sensitive key") (simp_all add: redact_value.simps [of rd key] marker_clean [OF assms] redact_text_clean [OF assms])
next
  case (PList vs)
  then show ?case
    by (cases "sensitive key") (auto simp: redact_value.simps [of rd key] marker_clean [OF assms])
next
  case (PTuple vs)
  then show ?case
    by (cases "sensitive key") (auto simp: redact_value.simps [of rd key] marker_clean [OF assms])
next
  case (PSet vs)
  then show ?case
    by (cases "sensitive key") (auto simp: redact_value.simps [of rd key] marker_clean [OF assms])
next
  case (PFrozenSet vs)
  then show ?case
    by (cases "sensitive key") (auto simp: redact_value.simps [of rd key] marker_clean [OF assms])
qed (auto simp: redact_value.simps marker_clean [OF assms] split: if_splits option.splits)

lemma redact_payload_clean:
  assumes "scrubbable rd" "(k, v) \<in> set (redact_payload rd d)"
  shows "clean rd k" "t \<in> texts_in v \<Longrightarrow> clean rd t"
proof -
  obtain k' x where "k = redact_text rd k'" "v = redact_value rd (Some k') x"
    using assms(2) set_fold_set [OF wf_dict_Nil, of "map (\<lambda>(k, x). (redact_text rd k, redact_value rd (Some k) x)) d"]
    by (auto simp: redact_payload_def)
  then show "clean rd k" "t \<in> texts_in v \<Longrightarrow> clean rd t"
    using redact_text_clean [OF assms(1)] redact_value_clean [OF assms(1)] by auto
qed

end
