(* ===== verification/Formats.thy ===== *)
theory Formats
  imports Values
begin

text \<open>
  Format versions of persisted documents (\<open>persistence/formats.py\<close>): the declared version, and the
  migration of an older document step by step. Documents have text keys, as JSON has; a migration
  step is an argument and may raise.
\<close>

definition format_error :: "string \<Rightarrow> string \<Rightarrow> py_exn" where
  "format_error message reason = FormatError message reason"

definition malformed :: "string \<Rightarrow> py_exn" where
  "malformed format_name = format_error (format_name @ '' document declares a malformed format version'') ''malformed_version''"

definition declared_format_version :: "string \<Rightarrow> int \<Rightarrow> payload \<Rightarrow> int result" where
  "declared_format_version format_name supported doc =
     (case map_of doc ''format_version'' of
        None \<Rightarrow> Inr 0
      | Some (PInt found) \<Rightarrow>
          if found < 0 then Inl (malformed format_name)
          else if found > supported then
            Inl (format_error (format_name @ '' document declares format version '' @ show_int found
              @ '', newer than this release supports ('' @ show_int supported @ '')'') ''future_version'')
          else Inr found
      | Some _ \<Rightarrow> Inl (malformed format_name))"

type_synonym migration = "payload \<Rightarrow> payload result"

text \<open>The loop ends: the version counts up to the supported one.\<close>

function migrate_from :: "string \<Rightarrow> int \<Rightarrow> (int, migration) dict \<Rightarrow> int \<Rightarrow> payload \<Rightarrow> payload result" where
  "migrate_from format_name supported migrations version doc =
     (if version < supported then
        (case map_of migrations version of
           None \<Rightarrow> Inl (format_error (format_name @ '' document at format version '' @ show_int version
             @ '' has no migration path to version '' @ show_int supported) ''unmigratable'')
         | Some step \<Rightarrow> bind_result (step doc) (migrate_from format_name supported migrations (version + 1)))
      else Inr doc)"
  by pat_completeness auto
termination by (relation "measure (\<lambda>(name, supported, migrations, version, doc). nat (supported - version))") auto

declare migrate_from.simps [simp del]

definition migrate_payload :: "string \<Rightarrow> int \<Rightarrow> (int, migration) dict \<Rightarrow> payload \<Rightarrow> payload result" where
  "migrate_payload format_name supported migrations doc =
     bind_result (declared_format_version format_name supported doc) (\<lambda>version.
     bind_result (migrate_from format_name supported migrations version doc) (\<lambda>migrated.
       Inr (dict_set ''format_version'' (PInt supported) migrated)))"

lemma migrate_current:
  assumes "map_of doc ''format_version'' = Some (PInt supported)" "0 \<le> supported"
  shows "migrate_payload format_name supported migrations doc = Inr doc"
proof -
  have "dict_set ''format_version'' (PInt supported) doc = doc"
    using assms(1) by (induction doc) (auto split: if_splits)
  then show ?thesis
    using assms by (simp add: migrate_payload_def declared_format_version_def migrate_from.simps [of format_name supported])
qed

text \<open>The specification: a document is taken through every step in turn.\<close>

inductive migrates :: "(int, migration) dict \<Rightarrow> int \<Rightarrow> int \<Rightarrow> payload \<Rightarrow> payload \<Rightarrow> bool" for migrations supported where
  mig_done: "migrates migrations supported supported doc doc"
| mig_step: "version < supported \<Longrightarrow> map_of migrations version = Some step \<Longrightarrow> step doc = Inr next_doc
     \<Longrightarrow> migrates migrations supported (version + 1) next_doc out \<Longrightarrow> migrates migrations supported version doc out"

inductive_cases migratesE: "migrates migrations supported version doc out"

lemma migrate_from_done: "migrate_from format_name supported migrations supported doc = Inr doc"
  by (subst migrate_from.simps) simp

lemma migrate_from_less:
  assumes "version < supported"
  shows "migrate_from format_name supported migrations version doc = Inr out \<longleftrightarrow>
     (\<exists>step d. map_of migrations version = Some step \<and> step doc = Inr d \<and> migrate_from format_name supported migrations (version + 1) d = Inr out)"
  using assms
  by (cases "map_of migrations version") (auto simp: migrate_from.simps [of format_name supported migrations version] bind_result_eq_Inr)

lemma migrate_from_migrates:
  assumes "version \<le> supported"
  shows "migrate_from format_name supported migrations version doc = Inr out \<longleftrightarrow> migrates migrations supported version doc out"
  using assms
proof (induction "nat (supported - version)" arbitrary: version doc)
  case 0
  then have "version = supported" by simp
  then show ?case using migrate_from_done by (auto intro: mig_done elim: migratesE)
next
  case (Suc n)
  then have less: "version < supported" and n: "n = nat (supported - (version + 1))" by simp_all
  have IH: "migrate_from format_name supported migrations (version + 1) d = Inr out \<longleftrightarrow> migrates migrations supported (version + 1) d out" for d
    using Suc.hyps(1) [OF n] less by simp
  show ?case unfolding migrate_from_less [OF less] IH
    using less by (auto intro: mig_step elim: migratesE)
qed

end
