(* ===== verification/Hashing.thy ===== *)
theory Hashing
  imports Values
begin

text \<open>
  Canonical serialisation and stable hashes (\<open>persistence/hashing.py\<close>). A value is reduced to JSON
  data with sorted mappings and sets, written out by \<open>json.dumps\<close> and digested. The digest and the
  decimal text of a float are functions of the standard library that the code only calls: they are
  arguments. Objects that render themselves (enumerations, data classes, \<open>model_dump\<close>) are not
  among the values; a \<open>PObject\<close> is an arbitrary object and is refused.
\<close>

section \<open>JSON text\<close>

definition json_escape :: "bool \<Rightarrow> char \<Rightarrow> string" where
  "json_escape ascii c = (let n = (of_char c :: nat)
     in if n = 34 \<or> n = 92 then [CHR 0x5C, c]
        else if n = 8 then [CHR 0x5C, CHR ''b'']
        else if n = 9 then [CHR 0x5C, CHR ''t'']
        else if n = 10 then [CHR 0x5C, CHR ''n'']
        else if n = 12 then [CHR 0x5C, CHR ''f'']
        else if n = 13 then [CHR 0x5C, CHR ''r'']
        else if n < 32 \<or> ascii \<and> 127 \<le> n
          then [CHR 0x5C, CHR ''u'', CHR ''0'', CHR ''0'', hex_digit (n div 16), hex_digit (n mod 16)]
        else [c])"

definition json_string :: "bool \<Rightarrow> string \<Rightarrow> string" where
  "json_string ascii s = [CHR 0x22] @ concat (map (json_escape ascii) s) @ [CHR 0x22]"

record json_style =
  js_ascii :: bool
  js_item :: string
  js_colon :: string

definition json_float :: "(rat \<Rightarrow> string) \<Rightarrow> pfloat \<Rightarrow> string" where
  "json_float ft f = (case f of Fin r \<Rightarrow> ft r | PosInf \<Rightarrow> ''Infinity'' | NegInf \<Rightarrow> ''-Infinity'' | NotANumber \<Rightarrow> ''NaN'')"

text \<open>Canonical values: the containers are lists and mappings with text keys.\<close>

fun json_text :: "json_style \<Rightarrow> (rat \<Rightarrow> string) \<Rightarrow> pvalue \<Rightarrow> string" where
  "json_text st ft PNone = ''null''"
| "json_text st ft (PBool b) = (if b then ''true'' else ''false'')"
| "json_text st ft (PInt i) = show_int i"
| "json_text st ft (PFloat f) = json_float ft f"
| "json_text st ft (PText s) = json_string (js_ascii st) s"
| "json_text st ft (PList vs) = ''['' @ join_with (js_item st) (map (json_text st ft) vs) @ '']''"
| "json_text st ft (PDict kvs) =
     ''{'' @ join_with (js_item st)
       (map (\<lambda>(k, v). json_string (js_ascii st) (key_text k) @ js_colon st @ json_text st ft v) kvs) @ ''}''"
| "json_text st ft v = []"

section \<open>Canonical form\<close>

text \<open>\<open>round(value, 12)\<close>, half to even, on exact numbers.\<close>

definition round_even :: "rat \<Rightarrow> int" where
  "round_even r = (let low = \<lfloor>r\<rfloor>; d = r - of_int low
     in if d < 1 / 2 then low else if d > 1 / 2 then low + 1 else if even low then low else low + 1)"

definition canonical_float :: "pfloat \<Rightarrow> pvalue" where
  "canonical_float f = (case f of
       Fin r \<Rightarrow> if of_int \<lfloor>r\<rfloor> = r \<and> \<bar>r\<bar> < 2 ^ 53 then PInt \<lfloor>r\<rfloor>
               else PFloat (Fin (of_int (round_even (r * 10 ^ 12)) / 10 ^ 12))
     | _ \<Rightarrow> PFloat f)"

text \<open>\<open>_order\<close>: the default rendering of \<open>json.dumps\<close>.\<close>

definition default_style :: json_style where
  "default_style = \<lparr>js_ascii = True, js_item = '', '', js_colon = '': ''\<rparr>"

definition compact_style :: json_style where
  "compact_style = \<lparr>js_ascii = False, js_item = '','', js_colon = '':''\<rparr>"

definition order_text :: "(rat \<Rightarrow> string) \<Rightarrow> pvalue \<Rightarrow> string" where
  "order_text ft = json_text default_style ft"

definition unserialisable :: py_exn where
  "unserialisable = ConfigurationError ''value cannot be canonically serialized''"

definition text_key :: "pkey \<Rightarrow> string result" where
  "text_key k = (case k of KText s \<Rightarrow> Inr s | _ \<Rightarrow> Inl (ConfigurationError ''canonical hashing requires string mapping keys''))"

definition sorted_mapping :: "(string \<times> pvalue) list \<Rightarrow> pvalue" where
  "sorted_mapping items = PDict (map (\<lambda>(s, v). (KText s, v)) (sort_key fst items))"

fun canonicalize :: "(rat \<Rightarrow> string) \<Rightarrow> pvalue \<Rightarrow> pvalue result" where
  "canonicalize ft (PFloat f) = Inr (canonical_float f)"
| "canonicalize ft (PDict kvs) =
     bind_result (map_result (\<lambda>(k, v). bind_result (text_key k) (\<lambda>s. bind_result (canonicalize ft v) (\<lambda>c. Inr (s, c)))) kvs)
       (\<lambda>items. Inr (sorted_mapping items))"
| "canonicalize ft (PFrozenDict kvs) =
     bind_result (map_result (\<lambda>(s, v). bind_result (canonicalize ft v) (\<lambda>c. Inr (s, c))) kvs)
       (\<lambda>items. Inr (sorted_mapping items))"
| "canonicalize ft (PSet vs) =
     bind_result (map_result (canonicalize ft) vs) (\<lambda>cs. Inr (PList (sort_key (order_text ft) cs)))"
| "canonicalize ft (PFrozenSet vs) =
     bind_result (map_result (canonicalize ft) vs) (\<lambda>cs. Inr (PList (sort_key (order_text ft) cs)))"
| "canonicalize ft (PList vs) = bind_result (map_result (canonicalize ft) vs) (\<lambda>cs. Inr (PList cs))"
| "canonicalize ft (PTuple vs) = bind_result (map_result (canonicalize ft) vs) (\<lambda>cs. Inr (PList cs))"
| "canonicalize ft (PObject n) = Inl unserialisable"
| "canonicalize ft v = Inr v"

definition canonical_json :: "(rat \<Rightarrow> string) \<Rightarrow> pvalue \<Rightarrow> string result" where
  "canonical_json ft v = bind_result (canonicalize ft v) (\<lambda>c. Inr (json_text compact_style ft c))"

definition stable_hash :: "(string \<Rightarrow> string) \<Rightarrow> (rat \<Rightarrow> string) \<Rightarrow> nat option \<Rightarrow> pvalue \<Rightarrow> string result" where
  "stable_hash digest ft limit v =
     bind_result (canonical_json ft v) (\<lambda>text. Inr (case limit of None \<Rightarrow> digest text | Some n \<Rightarrow> take n (digest text)))"

definition prompt_hash :: "(string \<Rightarrow> string) \<Rightarrow> string \<Rightarrow> string" where
  "prompt_hash digest text = digest (strip text)"

section \<open>Independence of the representation\<close>

text \<open>
  The same data in another representation: integral floats and integers, lists and tuples, plain and
  frozen mappings in any key order, plain and frozen sets in any order. Set elements are told apart
  by the text they are sorted by.
\<close>

definition text_items :: "pvalue \<Rightarrow> (string \<times> pvalue) list option" where
  "text_items v = (case v of
       PDict kvs \<Rightarrow> if list_all (\<lambda>(k, x). \<exists>s. k = KText s) kvs then Some (map (\<lambda>(k, x). (key_text k, x)) kvs) else None
     | PFrozenDict kvs \<Rightarrow> Some kvs | _ \<Rightarrow> None)"

definition sequence_items :: "pvalue \<Rightarrow> pvalue list option" where
  "sequence_items v = (case v of PList vs \<Rightarrow> Some vs | PTuple vs \<Rightarrow> Some vs | _ \<Rightarrow> None)"

definition told_apart :: "(rat \<Rightarrow> string) \<Rightarrow> pvalue list \<Rightarrow> bool" where
  "told_apart ft xs \<longleftrightarrow> (\<forall>x y c d. x \<in> set xs \<longrightarrow> y \<in> set xs \<longrightarrow> canonicalize ft x = Inr c \<longrightarrow> canonicalize ft y = Inr d
     \<longrightarrow> order_text ft c = order_text ft d \<longrightarrow> c = d)"

inductive same_data :: "(rat \<Rightarrow> string) \<Rightarrow> pvalue \<Rightarrow> pvalue \<Rightarrow> bool" for ft where
  sd_refl: "same_data ft v v"
| sd_symmetric: "same_data ft w v \<Longrightarrow> same_data ft v w"
| sd_integral: "\<bar>i\<bar> < 2 ^ 53 \<Longrightarrow> same_data ft (PInt i) (PFloat (Fin (of_int i)))"
| sd_sequence: "sequence_items v = Some vs \<Longrightarrow> sequence_items w = Some ws \<Longrightarrow> list_all2 (same_data ft) vs ws \<Longrightarrow> same_data ft v w"
| sd_mapping: "text_items v = Some d \<Longrightarrow> text_items w = Some e \<Longrightarrow> wf_dict d \<Longrightarrow> mset (map fst d) = mset (map fst e)
     \<Longrightarrow> (\<And>k x y. map_of d k = Some x \<Longrightarrow> map_of e k = Some y \<Longrightarrow> same_data ft x y) \<Longrightarrow> same_data ft v w"
| sd_set: "set_items v = Some xs \<Longrightarrow> set_items w = Some ys \<Longrightarrow> mset xs = mset ys \<Longrightarrow> told_apart ft xs \<Longrightarrow> same_data ft v w"

text \<open>Agreement of two results up to the error raised.\<close>

definition same_outcome :: "'a result \<Rightarrow> 'a result \<Rightarrow> bool" where
  "same_outcome r s \<longleftrightarrow> (\<forall>x. r = Inr x \<longleftrightarrow> s = Inr x)"

lemma same_outcome_refl [simp]: "same_outcome r r"
  by (simp add: same_outcome_def)

lemma same_outcome_bind: "same_outcome r s \<Longrightarrow> same_outcome (bind_result r f) (bind_result s f)"
  by (auto simp: same_outcome_def bind_result_eq_Inr)

lemma canonicalize_sequence:
  "sequence_items v = Some vs \<Longrightarrow> canonicalize ft v = bind_result (map_result (canonicalize ft) vs) (\<lambda>cs. Inr (PList cs))"
  by (cases v) (simp_all add: sequence_items_def)

lemma canonicalize_set:
  "set_items v = Some xs \<Longrightarrow> canonicalize ft v = bind_result (map_result (canonicalize ft) xs) (\<lambda>cs. Inr (PList (sort_key (order_text ft) cs)))"
  by (cases v) (simp_all add: set_items_def)

definition canonical_items :: "(rat \<Rightarrow> string) \<Rightarrow> (string \<times> pvalue) list \<Rightarrow> (string \<times> pvalue) list result" where
  "canonical_items ft d = map_result (\<lambda>(s, x). bind_result (canonicalize ft x) (\<lambda>c. Inr (s, c))) d"

lemma canonicalize_mapping:
  assumes "text_items v = Some d"
  shows "canonicalize ft v = bind_result (canonical_items ft d) (\<lambda>items. Inr (sorted_mapping items))"
proof (cases v)
  case (PDict kvs)
  then have keyed: "list_all (\<lambda>(k, x). \<exists>s. k = KText s) kvs" and d: "d = map (\<lambda>(k, x). (key_text k, x)) kvs"
    using assms by (auto simp: text_items_def split: if_splits)
  have "map_result (\<lambda>(k, v). bind_result (text_key k) (\<lambda>s. bind_result (canonicalize ft v) (\<lambda>c. Inr (s, c)))) kvs
      = canonical_items ft (map (\<lambda>(k, x). (key_text k, x)) kvs)"
    unfolding canonical_items_def using keyed
    by (induction kvs) (auto simp: text_key_def key_text_def cong del: sum.case_cong_weak)
  then show ?thesis using PDict d by simp
qed (use assms in \<open>simp_all add: text_items_def canonical_items_def\<close>)

lemma map_result_Inr_map:
  "map_result f xs = Inr ys \<longleftrightarrow> (\<forall>x. x \<in> set xs \<longrightarrow> (\<exists>y. f x = Inr y)) \<and> ys = map (\<lambda>x. projr (f x)) xs"
proof (induction xs arbitrary: ys)
  case (Cons x xs)
  show ?case
  proof (cases "f x"; cases "map_result f xs")
    fix y zs assume "f x = Inr y" "map_result f xs = Inr zs"
    then show ?thesis using Cons [of zs] by auto
  next
    fix y e assume "f x = Inr y" "map_result f xs = Inl e"
    then show ?thesis using Cons [of "map (\<lambda>x. projr (f x)) xs"] by auto
  qed auto
qed auto

lemma canonical_items_Inr:
  "canonical_items ft d = Inr items \<longleftrightarrow>
     (\<forall>k x. (k, x) \<in> set d \<longrightarrow> (\<exists>c. canonicalize ft x = Inr c)) \<and> items = map (\<lambda>(k, x). (k, projr (canonicalize ft x))) d"
proof -
  have "(\<lambda>(s, x). bind_result (canonicalize ft x) (\<lambda>c. Inr (s, c))) p = Inr y \<longleftrightarrow>
      (\<exists>c. canonicalize ft (snd p) = Inr c \<and> y = (fst p, c))" for p and y :: "string \<times> pvalue"
    by (cases p) (auto simp: bind_result_eq_Inr)
  then have "canonical_items ft d = Inr items \<longleftrightarrow> list_all2 (\<lambda>p y. \<exists>c. canonicalize ft (snd p) = Inr c \<and> y = (fst p, c)) d items"
    by (simp add: canonical_items_def map_result_Inr)
  also have "... \<longleftrightarrow> (\<forall>k x. (k, x) \<in> set d \<longrightarrow> (\<exists>c. canonicalize ft x = Inr c)) \<and> items = map (\<lambda>(k, x). (k, projr (canonicalize ft x))) d"
  proof (induction d arbitrary: items)
    case (Cons p d)
    then show ?case by (cases p; cases "canonicalize ft (snd p)") (auto simp: list_all2_Cons1)
  qed auto
  finally show ?thesis .
qed

lemma distinct_unmap: "distinct (map f xs) \<Longrightarrow> distinct xs"
  by (simp add: distinct_map)

lemma canonical_mapping_agrees:
  assumes "wf_dict d" "wf_dict e" "set (map fst d) = set (map fst e)"
    and "\<And>k x y. map_of d k = Some x \<Longrightarrow> map_of e k = Some y \<Longrightarrow> same_outcome (canonicalize ft x) (canonicalize ft y)"
    and "canonical_items ft d = Inr items"
  shows "\<exists>items'. canonical_items ft e = Inr items' \<and> sorted_mapping items' = sorted_mapping items"
proof -
  let ?c = "\<lambda>(k, x). (k, projr (canonicalize ft x))"
  have d: "\<And>k x. (k, x) \<in> set d \<Longrightarrow> \<exists>c. canonicalize ft x = Inr c" and items: "items = map ?c d"
    using assms(5) by (auto simp: canonical_items_Inr)
  have partner: "\<exists>x. (k, x) \<in> set d \<and> canonicalize ft x = canonicalize ft y" if "(k, y) \<in> set e" for k y
  proof -
    have "k \<in> set (map fst d)" using that assms(3) by force
    then obtain x where x: "map_of d k = Some x" using map_of_eq_None_iff [of d k] by (cases "map_of d k") auto
    have "map_of e k = Some y" using that assms(2) by (simp add: wf_dict_map_of [symmetric])
    then have "same_outcome (canonicalize ft x) (canonicalize ft y)" by (rule assms(4) [OF x])
    then show ?thesis using map_of_SomeD [OF x] d unfolding same_outcome_def by metis
  qed
  have "(\<lambda>(k, x). (k, projr (canonicalize ft x))) ` set e \<subseteq> ?c ` set d"
    using partner by force
  moreover have "distinct (map fst (map ?c d))" "distinct (map fst (map ?c e))"
    using assms(1,2) by (simp_all add: wf_dict_def comp_def case_prod_beta')
  moreover have "fst ` set (map ?c e) = fst ` set (map ?c d)"
    using assms(3) by (simp add: image_image case_prod_beta')
  ultimately have "set (map ?c e) = set (map ?c d)"
    by (smt (verit) distinct_map eq_fst_iff image_iff inj_on_def list.set_map subset_antisym subset_iff)
  then have "mset (map ?c e) = mset (map ?c d)"
    using \<open>distinct (map fst (map ?c d))\<close> \<open>distinct (map fst (map ?c e))\<close> by (metis distinct_unmap set_eq_iff_mset_eq_distinct)
  moreover have "inj_on fst (set (map ?c e))" using \<open>distinct (map fst (map ?c e))\<close> by (simp only: distinct_map)
  ultimately have "sort_key fst (map ?c e) = sort_key fst (map ?c d)" by (rule sort_key_canonical)
  then have "sorted_mapping (map ?c e) = sorted_mapping (map ?c d)" by (simp only: sorted_mapping_def)
  moreover have "canonical_items ft e = Inr (map ?c e)" using partner d unfolding canonical_items_Inr by metis
  ultimately show ?thesis using items by blast
qed

lemma canonicalize_same_data: "same_data ft v w \<Longrightarrow> same_outcome (canonicalize ft v) (canonicalize ft w)"
proof (induction rule: same_data.induct)
  case (sd_symmetric w v)
  then show ?case by (simp add: same_outcome_def)
next
  case (sd_integral i)
  have "\<bar>of_int i :: rat\<bar> < 2 ^ 53" using sd_integral by (metis of_int_abs of_int_less_iff of_int_numeral of_int_power)
  then show ?case by (simp add: canonical_float_def)
next
  case (sd_sequence v vs w ws)
  have "map_result (canonicalize ft) vs = Inr cs \<longleftrightarrow> map_result (canonicalize ft) ws = Inr cs" for cs
    using sd_sequence(3)
  proof (induction vs ws arbitrary: cs rule: list_all2_induct)
    case (Cons x xs y ys)
    then show ?case unfolding map_result_Inr same_outcome_def by (auto simp: list_all2_Cons1)
  qed simp
  then show ?case
    by (simp add: canonicalize_sequence [OF sd_sequence(1)] canonicalize_sequence [OF sd_sequence(2)] same_outcome_def bind_result_eq_Inr)
next
  case (sd_mapping v d w e)
  have w: "wf_dict e" using sd_mapping(3,4) unfolding wf_dict_def by (metis mset_eq_imp_distinct_iff)
  have keys: "set (map fst d) = set (map fst e)" using sd_mapping(4) mset_eq_setD by blast
  have "\<exists>items'. canonical_items ft e = Inr items' \<and> sorted_mapping items' = sorted_mapping items"
    if "canonical_items ft d = Inr items" for items
    by (rule canonical_mapping_agrees [OF sd_mapping(3) w keys _ that]) (use sd_mapping.IH in blast)
  moreover have "\<exists>items'. canonical_items ft d = Inr items' \<and> sorted_mapping items' = sorted_mapping items"
    if "canonical_items ft e = Inr items" for items
    by (rule canonical_mapping_agrees [OF w sd_mapping(3) keys [symmetric] _ that])
       (use sd_mapping.IH in \<open>auto simp: same_outcome_def\<close>)
  ultimately show ?case
    unfolding same_outcome_def canonicalize_mapping [OF sd_mapping(1)] canonicalize_mapping [OF sd_mapping(2)] bind_result_eq_Inr
    by (metis sum.inject(2))
next
  case (sd_set v xs w ys)
  have "sort_key (order_text ft) (map (\<lambda>x. projr (canonicalize ft x)) xs) = sort_key (order_text ft) (map (\<lambda>x. projr (canonicalize ft x)) ys)"
    if ok: "\<forall>x. x \<in> set xs \<longrightarrow> (\<exists>y. canonicalize ft x = Inr y)"
  proof (rule sort_key_canonical)
    show "mset (map (\<lambda>x. projr (canonicalize ft x)) xs) = mset (map (\<lambda>x. projr (canonicalize ft x)) ys)"
      using sd_set(3) by (metis mset_map)
    show "inj_on (order_text ft) (set (map (\<lambda>x. projr (canonicalize ft x)) xs))"
      using sd_set(4) ok unfolding told_apart_def inj_on_def by (auto, metis sum.sel(2))
  qed
  moreover have "set xs = set ys" using sd_set(3) mset_eq_setD by blast
  ultimately show ?case
    unfolding same_outcome_def canonicalize_set [OF sd_set(1)] canonicalize_set [OF sd_set(2)] bind_result_eq_Inr map_result_Inr_map
    by auto
qed simp

text \<open>
  A stable hash does not depend on the representation of the data: integral floats and integers,
  lists and tuples, plain and frozen containers, and any order of mapping keys or set elements hash
  alike, for every digest; and a value one of whose representations cannot be serialised is refused in
  all. Sets may be listed in any order as long as the text their elements are sorted by tells different
  elements apart, which it does for sets of texts.
\<close>

theorem stable_hash_representation_independent:
  assumes "same_data ft v w"
  shows "stable_hash digest ft limit v = Inr h \<longleftrightarrow> stable_hash digest ft limit w = Inr h"
  using canonicalize_same_data [OF assms]
  by (simp add: stable_hash_def canonical_json_def same_outcome_def bind_result_eq_Inr)

end
