(* ===== verification/Replay.thy ===== *)
theory Replay
  imports Redaction Formats Hashing
begin

text \<open>
  Record and replay of the boundaries the harness controls: the records (\<open>replay/models.py\<close>) and
  the session (\<open>replay/session.py\<close>) that appends them, answers from them and reads and writes them
  as a document. The redactor a session holds is shared with its owner and may have learned more
  values by the time the session is exported. Reading and writing files is not modelled.
\<close>

section \<open>Records\<close>

datatype replay_mode = MODE_LIVE | MODE_RECORD | MODE_REPLAY

datatype boundary_kind = KIND_TOOL | KIND_MODEL | KIND_INTERRUPT | KIND_SNAPSHOT | KIND_LIFECYCLE

datatype replay_fallback = FALLBACK_ERROR | FALLBACK_LIVE

definition mode_value :: "replay_mode \<Rightarrow> string" where
  "mode_value m = (case m of MODE_LIVE \<Rightarrow> ''live'' | MODE_RECORD \<Rightarrow> ''record'' | MODE_REPLAY \<Rightarrow> ''replay'')"

definition kind_value :: "boundary_kind \<Rightarrow> string" where
  "kind_value k = (case k of KIND_TOOL \<Rightarrow> ''tool'' | KIND_MODEL \<Rightarrow> ''model'' | KIND_INTERRUPT \<Rightarrow> ''interrupt''
     | KIND_SNAPSHOT \<Rightarrow> ''snapshot'' | KIND_LIFECYCLE \<Rightarrow> ''lifecycle'')"

definition fallback_value :: "replay_fallback \<Rightarrow> string" where
  "fallback_value f = (case f of FALLBACK_ERROR \<Rightarrow> ''error'' | FALLBACK_LIVE \<Rightarrow> ''live'')"

definition kinds :: "boundary_kind list" where
  "kinds = [KIND_TOOL, KIND_MODEL, KIND_INTERRUPT, KIND_SNAPSHOT, KIND_LIFECYCLE]"

text \<open>The member of an enumeration with a given value; anything else raises \<open>ValueError\<close>.\<close>

definition enum_member :: "('a \<Rightarrow> string) \<Rightarrow> 'a list \<Rightarrow> pvalue \<Rightarrow> 'a result" where
  "enum_member value members v =
     (case find (\<lambda>m. v = PText (value m)) members of
        Some m \<Rightarrow> Inr m | None \<Rightarrow> Inl (PyException ''ValueError'' ''not a valid member''))"

record replay_record =
  re_kind :: boundary_kind
  re_sequence :: int
  re_key :: string
  re_request :: payload
  re_response :: pvalue
  re_generation_id :: "string option"
  re_run_id :: "string option"
  re_created_at :: pfloat

definition optional_text :: "string option \<Rightarrow> pvalue" where
  "optional_text t = (case t of None \<Rightarrow> PNone | Some s \<Rightarrow> PText s)"

definition as_dict :: "payload \<Rightarrow> pvalue" where
  "as_dict d = PDict (map (\<lambda>(k, v). (KText k, v)) d)"

definition record_to_dict :: "replay_record \<Rightarrow> payload" where
  "record_to_dict r =
     [(''kind'', PText (kind_value (re_kind r))), (''sequence'', PInt (re_sequence r)), (''key'', PText (re_key r)),
      (''request'', as_dict (re_request r)), (''response'', re_response r),
      (''generation_id'', optional_text (re_generation_id r)), (''run_id'', optional_text (re_run_id r)),
      (''created_at'', PFloat (re_created_at r))]"

text \<open>A mapping with text keys, as in JSON; \<open>None\<close> for anything else. The code takes any mapping: one with
  other keys cannot come from a JSON document.\<close>

definition text_mapping :: "pvalue \<Rightarrow> payload option" where
  "text_mapping v = (case v of
       PDict kvs \<Rightarrow> if list_all (\<lambda>(k, x). k = KText (key_text k)) kvs then Some (map (\<lambda>(k, x). (key_text k, x)) kvs) else None
     | PFrozenDict kvs \<Rightarrow> Some kvs | _ \<Rightarrow> None)"

definition type_error :: "string \<Rightarrow> 'a result" where
  "type_error message = Inl (PyException ''TypeError'' message)"

definition read_key :: "string \<Rightarrow> payload \<Rightarrow> pvalue result" where
  "read_key k d = (case map_of d k of None \<Rightarrow> Inl (PyException ''KeyError'' (py_repr k)) | Some v \<Rightarrow> Inr v)"

definition read_optional_text :: "string \<Rightarrow> payload \<Rightarrow> string option result" where
  "read_optional_text k d =
     (case map_of d k of None \<Rightarrow> Inr None | Some PNone \<Rightarrow> Inr None | Some (PText s) \<Rightarrow> Inr (Some s)
      | _ \<Rightarrow> type_error (''record '' @ k @ '' is not a string''))"

text \<open>\<open>float(x)\<close>: an integer beyond the largest float overflows.\<close>

definition float_limit :: int where
  "float_limit = 2 ^ 1024 - 2 ^ 970"

definition to_float :: "pvalue \<Rightarrow> pfloat result" where
  "to_float v = (case v of
       PInt i \<Rightarrow> if \<bar>i\<bar> < float_limit then Inr (Fin (of_int i)) else Inl (PyException ''OverflowError'' ''int too large to convert to float'')
     | PFloat f \<Rightarrow> Inr f
     | _ \<Rightarrow> type_error ''record created_at is not a number'')"

definition is_real_number :: "pvalue \<Rightarrow> bool" where
  "is_real_number v = (case v of PInt _ \<Rightarrow> True | PFloat _ \<Rightarrow> True | _ \<Rightarrow> False)"

definition record_from_dict :: "payload \<Rightarrow> replay_record result" where
  "record_from_dict d =
     bind_result (read_key ''sequence'' d) (\<lambda>sequence.
     bind_result (read_key ''key'' d) (\<lambda>key.
     bind_result (case sequence of PInt i \<Rightarrow> Inr i | _ \<Rightarrow> type_error ''record sequence is not an integer'') (\<lambda>seq.
     bind_result (case key of PText s \<Rightarrow> Inr s | _ \<Rightarrow> type_error ''record key is not a string'') (\<lambda>key_string.
     bind_result (case map_of d ''request'' of None \<Rightarrow> Inr [] | Some PNone \<Rightarrow> Inr []
                  | Some v \<Rightarrow> (case text_mapping v of None \<Rightarrow> type_error ''record request is not a mapping'' | Some m \<Rightarrow> Inr m)) (\<lambda>request.
     bind_result (read_optional_text ''generation_id'' d) (\<lambda>generation_id.
     bind_result (read_optional_text ''run_id'' d) (\<lambda>run_id.
     bind_result (case map_of d ''created_at'' of None \<Rightarrow> Inr (PFloat (Fin 0))
                  | Some v \<Rightarrow> if is_real_number v then Inr v else type_error ''record created_at is not a number'') (\<lambda>created_at.
     bind_result (bind_result (read_key ''kind'' d) (enum_member kind_value kinds)) (\<lambda>kind.
     bind_result (to_float created_at) (\<lambda>created.
       Inr \<lparr>re_kind = kind, re_sequence = seq, re_key = key_string, re_request = request,
            re_response = (case map_of d ''response'' of None \<Rightarrow> PNone | Some v \<Rightarrow> v),
            re_generation_id = generation_id, re_run_id = run_id, re_created_at = created\<rparr>))))))))))"

section \<open>Sessions\<close>

record replay_session =
  ss_mode :: replay_mode
  ss_fallback :: replay_fallback
  ss_redactor :: redactor
  ss_metadata :: payload
  ss_records :: "replay_record list"
  ss_cursor :: "(string, nat) dict"

definition new_session :: "replay_mode \<Rightarrow> replay_fallback \<Rightarrow> redactor \<Rightarrow> payload \<Rightarrow> replay_session" where
  "new_session mode fallback rd metadata =
     \<lparr>ss_mode = mode, ss_fallback = fallback, ss_redactor = rd, ss_metadata = metadata, ss_records = [], ss_cursor = []\<rparr>"

definition boundary_key :: "(string \<Rightarrow> string) \<Rightarrow> (rat \<Rightarrow> string) \<Rightarrow> pvalue list \<Rightarrow> string result" where
  "boundary_key digest ft parts = stable_hash digest ft (Some 32) (PList parts)"

definition is_recording :: "replay_session \<Rightarrow> bool" where
  "is_recording s \<longleftrightarrow> ss_mode s = MODE_RECORD"

definition is_replaying :: "replay_session \<Rightarrow> bool" where
  "is_replaying s \<longleftrightarrow> ss_mode s = MODE_REPLAY"

record boundary_call =
  bc_kind :: boundary_kind
  bc_key :: string
  bc_request :: payload
  bc_response :: pvalue
  bc_generation_id :: "string option"
  bc_run_id :: "string option"

definition record_of :: "rat \<Rightarrow> boundary_call \<Rightarrow> replay_session \<Rightarrow> replay_record" where
  "record_of now c s =
     \<lparr>re_kind = bc_kind c, re_sequence = int (length (ss_records s)), re_key = bc_key c,
      re_request = redact_payload (ss_redactor s) (bc_request c), re_response = redact_value (ss_redactor s) None (bc_response c),
      re_generation_id = bc_generation_id c, re_run_id = bc_run_id c, re_created_at = Fin now\<rparr>"

definition session_record :: "rat \<Rightarrow> boundary_call \<Rightarrow> replay_session \<Rightarrow> replay_record option \<times> replay_session" where
  "session_record now c s =
     (if \<not> is_recording s then (None, s)
      else let r = record_of now c s in (Some r, s\<lparr>ss_records := ss_records s @ [r]\<rparr>))"

definition cursor_key :: "boundary_kind \<Rightarrow> string \<Rightarrow> string" where
  "cursor_key kind key = kind_value kind @ '':'' @ key"

definition matching :: "boundary_kind \<Rightarrow> string \<Rightarrow> replay_record list \<Rightarrow> replay_record list" where
  "matching kind key rs = filter (\<lambda>r. re_kind r = kind \<and> re_key r = key) rs"

definition record_fallback :: "rat \<Rightarrow> boundary_call \<Rightarrow> replay_session \<Rightarrow> replay_record result \<times> replay_session" where
  "record_fallback now c s =
     (if \<not> is_replaying s \<or> ss_fallback s \<noteq> FALLBACK_LIVE then
        (Inl (PyException ''RuntimeError'' ''fallback capture requires replay mode with LIVE fallback''), s)
      else if bc_kind c \<noteq> KIND_TOOL \<and> bc_kind c \<noteq> KIND_MODEL then
        (Inl (PyException ''ValueError'' ''fallback capture is supported only for tool and model boundaries''), s)
      else
        let r = record_of now c s;
            rs = ss_records s @ [r]
        in (Inr r, s\<lparr>ss_records := rs,
                     ss_cursor := dict_set (cursor_key (bc_kind c) (bc_key c)) (length (matching (bc_kind c) (bc_key c) rs)) (ss_cursor s)\<rparr>))"

definition bind_redactor :: "redactor \<Rightarrow> replay_session \<Rightarrow> replay_session" where
  "bind_redactor rd s =
     s\<lparr>ss_redactor := rd, ss_metadata := redact_payload rd (ss_metadata s),
       ss_records := map (\<lambda>r. r\<lparr>re_request := redact_payload rd (re_request r), re_response := redact_value rd None (re_response r)\<rparr>) (ss_records s)\<rparr>"

definition record_lifecycle ::
  "(string \<Rightarrow> string) \<Rightarrow> (rat \<Rightarrow> string) \<Rightarrow> rat \<Rightarrow> string \<Rightarrow> payload \<Rightarrow> replay_session \<Rightarrow> unit result \<times> replay_session" where
  "record_lifecycle digest ft now event p s =
     (case boundary_key digest ft [PText ''lifecycle'', PText event] of
        Inl e \<Rightarrow> (Inl e, s)
      | Inr key \<Rightarrow>
          (Inr (), snd (session_record now
             \<lparr>bc_kind = KIND_LIFECYCLE, bc_key = key, bc_request = fold (\<lambda>(k, v) d. dict_set k v d) p [(''event'', PText event)],
              bc_response = PNone, bc_generation_id = None, bc_run_id = None\<rparr> s)))"

definition record_snapshot ::
  "(string \<Rightarrow> string) \<Rightarrow> (rat \<Rightarrow> string) \<Rightarrow> rat \<Rightarrow> payload \<Rightarrow> replay_session \<Rightarrow> unit result \<times> replay_session" where
  "record_snapshot digest ft now sn s =
     (case boundary_key digest ft [PText ''snapshot'', case map_of sn ''generation_id'' of None \<Rightarrow> PNone | Some v \<Rightarrow> v] of
        Inl e \<Rightarrow> (Inl e, s)
      | Inr key \<Rightarrow>
          (Inr (), snd (session_record now
             \<lparr>bc_kind = KIND_SNAPSHOT, bc_key = key, bc_request = [], bc_response = as_dict sn,
              bc_generation_id = None, bc_run_id = None\<rparr> s)))"

section \<open>Answering\<close>

definition consumed :: "boundary_kind \<Rightarrow> string \<Rightarrow> replay_session \<Rightarrow> nat" where
  "consumed kind key s = dict_get_or (ss_cursor s) (cursor_key kind key) 0"

definition mismatch :: "boundary_kind \<Rightarrow> bool \<Rightarrow> py_exn" where
  "mismatch kind recorded =
     ReplayMismatch (if \<not> recorded then ''no recorded '' @ kind_value kind @ '' interaction matches this operation''
                     else ''recorded '' @ kind_value kind @ '' interactions for this key are exhausted'')"

definition session_replay :: "boundary_kind \<Rightarrow> string \<Rightarrow> replay_session \<Rightarrow> replay_record result \<times> replay_session" where
  "session_replay kind key s =
     (let matches = matching kind key (ss_records s);
          n = consumed kind key s
      in if n \<ge> length matches then (Inl (mismatch kind (matches \<noteq> [])), s)
         else (Inr (matches ! n), s\<lparr>ss_cursor := dict_set (cursor_key kind key) (n + 1) (ss_cursor s)\<rparr>))"

definition session_has :: "boundary_kind \<Rightarrow> string \<Rightarrow> replay_session \<Rightarrow> bool" where
  "session_has kind key s = list_ex (\<lambda>r. re_kind r = kind \<and> re_key r = key) (ss_records s)"

definition session_peek :: "boundary_kind \<Rightarrow> string \<Rightarrow> replay_session \<Rightarrow> replay_record option" where
  "session_peek kind key s =
     (let matches = matching kind key (ss_records s);
          n = consumed kind key s
      in if n < length matches then Some (matches ! n) else None)"

definition has_remaining :: "boundary_kind \<Rightarrow> string \<Rightarrow> replay_session \<Rightarrow> bool" where
  "has_remaining kind key s \<longleftrightarrow> session_peek kind key s \<noteq> None"

definition session_counts :: "replay_session \<Rightarrow> (string, nat) dict" where
  "session_counts s =
     sort_key fst (fold (\<lambda>r d. dict_set (kind_value (re_kind r)) (dict_get_or d (kind_value (re_kind r)) 0 + 1) d) (ss_records s) [])"

section \<open>Documents\<close>

definition session_to_dict :: "replay_session \<Rightarrow> payload" where
  "session_to_dict s =
     [(''format_version'', PInt 1), (''mode'', PText (mode_value (ss_mode s))), (''fallback'', PText (fallback_value (ss_fallback s))),
      (''metadata'', as_dict (redact_payload (ss_redactor s) (ss_metadata s))),
      (''records'', PList (map (\<lambda>r. as_dict (redact_payload (ss_redactor s) (record_to_dict r))) (ss_records s)))]"

definition corrupt :: "string \<Rightarrow> py_exn" where
  "corrupt detail = format_error (''replay recording is corrupted: '' @ detail) ''corrupted''"

definition replay_migrations :: "(int, migration) dict" where
  "replay_migrations = [(0, \<lambda>doc. Inr doc)]"

text \<open>\<open>except (KeyError, TypeError, ValueError)\<close>.\<close>

definition is_shape_error :: "py_exn \<Rightarrow> bool" where
  "is_shape_error e = (case e of PyException t _ \<Rightarrow> t \<in> {''KeyError'', ''TypeError'', ''ValueError''} | _ \<Rightarrow> False)"

definition error_text :: "py_exn \<Rightarrow> string" where
  "error_text e = (case e of PyException _ m \<Rightarrow> m | _ \<Rightarrow> [])"

definition read_record :: "pvalue \<Rightarrow> nat \<Rightarrow> replay_record result" where
  "read_record entry index =
     (case text_mapping entry of
        None \<Rightarrow> Inl (corrupt (''record '' @ show_nat index @ '' is not a document''))
      | Some d \<Rightarrow>
          (case record_from_dict d of
             Inr r \<Rightarrow> Inr r
           | Inl e \<Rightarrow> if is_shape_error e then Inl (corrupt (''record '' @ show_nat index @ '' is malformed ('' @ error_text e @ '')''))
                     else Inl e))"

definition read_enum :: "('a \<Rightarrow> string) \<Rightarrow> 'a list \<Rightarrow> pvalue \<Rightarrow> 'a result" where
  "read_enum value members v =
     (case enum_member value members v of
        Inr m \<Rightarrow> Inr m | Inl e \<Rightarrow> Inl (corrupt (''unknown mode or fallback: '' @ error_text e)))"

definition required_field :: "payload \<Rightarrow> string \<Rightarrow> unit result" where
  "required_field doc k = (if map_of doc k = None then Inl (corrupt (''missing '' @ py_repr k)) else Inr ())"

definition field :: "payload \<Rightarrow> string \<Rightarrow> pvalue" where
  "field doc k = (case map_of doc k of None \<Rightarrow> PNone | Some v \<Rightarrow> v)"

text \<open>The overrides a caller may pass replace what the document says.\<close>

record session_overrides =
  ov_mode :: "replay_mode option"
  ov_fallback :: "replay_fallback option"
  ov_redactor :: "redactor option"
  ov_metadata :: "payload option"

definition no_overrides :: session_overrides where
  "no_overrides = \<lparr>ov_mode = None, ov_fallback = None, ov_redactor = None, ov_metadata = None\<rparr>"

definition or_else :: "'a option \<Rightarrow> 'a \<Rightarrow> 'a" where
  "or_else x y = (case x of None \<Rightarrow> y | Some v \<Rightarrow> v)"

definition session_from_dict :: "session_overrides \<Rightarrow> pvalue \<Rightarrow> replay_session result" where
  "session_from_dict ov v =
     (case text_mapping v of
        None \<Rightarrow> Inl (corrupt ''not a document'')
      | Some d \<Rightarrow>
          bind_result (migrate_payload ''replay'' 1 replay_migrations d) (\<lambda>doc.
          bind_result (map_result (required_field doc) [''mode'', ''fallback'', ''metadata'', ''records'']) (\<lambda>_.
          bind_result (read_enum mode_value [MODE_LIVE, MODE_RECORD, MODE_REPLAY] (field doc ''mode'')) (\<lambda>mode.
          bind_result (read_enum fallback_value [FALLBACK_ERROR, FALLBACK_LIVE] (field doc ''fallback'')) (\<lambda>fallback.
          bind_result (case text_mapping (field doc ''metadata'') of None \<Rightarrow> Inl (corrupt (py_repr ''metadata'' @ '' is not a mapping'')) | Some m \<Rightarrow> Inr m) (\<lambda>metadata.
          bind_result (case field doc ''records'' of PList vs \<Rightarrow> Inr vs | _ \<Rightarrow> Inl (corrupt (py_repr ''records'' @ '' is not a list''))) (\<lambda>raw.
          bind_result (map_result (\<lambda>(i, entry). read_record entry i) (enumerate 0 raw)) (\<lambda>records.
            Inr ((new_session (or_else (ov_mode ov) mode) (or_else (ov_fallback ov) fallback) (or_else (ov_redactor ov) new_redactor)
                    (or_else (ov_metadata ov) metadata))\<lparr>ss_records := records\<rparr>)))))))))"

end
