(* ===== verification/Executor.thy ===== *)
theory Executor
  imports Hooks Tools Budget Policy Replay
begin

text \<open>
  The tool execution boundary (\<open>tools/executor.py\<close>): hooks, policy, approval, budget, replay, the
  call itself, and the normalised result. Policy engines, approval gates, hook handlers and tools
  are code the executor calls: they act on the state of the outside world and may raise. Telemetry
  is not modelled. The log is a ghost: it lists the decisions and the invocations in order.
\<close>

section \<open>Requests and results\<close>

record exec_request =
  xr_name :: string
  xr_args :: pvalue
  xr_tool_call_id :: "string option"
  xr_generation_id :: "string option"
  xr_run_id :: "string option"
  xr_user_id :: "string option"
  xr_tenant_id :: "string option"
  xr_metadata :: payload

record exec_result =
  xt_name :: string
  xt_status :: pvalue
  xt_content :: pvalue
  xt_artifact :: pvalue
  xt_error :: pvalue
  xt_duration :: rat
  xt_tool_call_id :: "string option"
  xt_generation_id :: "string option"
  xt_run_id :: "string option"
  xt_redacted :: bool

definition xt_ok :: "exec_result \<Rightarrow> bool" where
  "xt_ok r \<longleftrightarrow> xt_status r = PText ''ok''"

definition to_payload :: "exec_result \<Rightarrow> payload" where
  "to_payload r =
     [(''name'', PText (xt_name r)), (''status'', xt_status r), (''content'', xt_content r), (''artifact'', xt_artifact r),
      (''error'', xt_error r), (''duration_seconds'', PFloat (Fin (xt_duration r))),
      (''tool_call_id'', optional_text (xt_tool_call_id r)), (''generation_id'', optional_text (xt_generation_id r)),
      (''run_id'', optional_text (xt_run_id r)), (''redacted'', PBool (xt_redacted r))]"

text \<open>
  The part of \<open>from_payload\<close> a replayed call uses: the semantic result. The duration is converted,
  and the conversion may raise.
\<close>

record prior_result =
  pv_status :: pvalue
  pv_content :: pvalue
  pv_artifact :: pvalue
  pv_error :: pvalue
  pv_redacted :: bool

definition item_get :: "(pkey \<times> pvalue) list \<Rightarrow> string \<Rightarrow> pvalue \<Rightarrow> pvalue" where
  "item_get d k default_value = (case map_of d (KText k) of None \<Rightarrow> default_value | Some v \<Rightarrow> v)"

text \<open>The texts \<open>float\<close> reads: digits may be grouped by single underscores.\<close>

definition digit_part :: "string \<Rightarrow> bool" where
  "digit_part s \<longleftrightarrow> list_all (\<lambda>p. p \<noteq> [] \<and> list_all (\<lambda>c. c \<in> set ''0123456789'') p) (split_on (CHR ''_'') s)"

definition unsigned :: "string \<Rightarrow> string" where
  "unsigned s = (case s of [] \<Rightarrow> [] | c # cs \<Rightarrow> if c = CHR ''+'' \<or> c = CHR ''-'' then cs else s)"

definition reads_as_float :: "string \<Rightarrow> bool" where
  "reads_as_float s =
     (let u = unsigned (map lower_char (strip s)); (mantissa, exponent) = partition_on (CHR ''e'') u
      in u \<in> {''inf'', ''infinity'', ''nan''}
         \<or> (case exponent of None \<Rightarrow> True | Some x \<Rightarrow> digit_part (unsigned x))
            \<and> (case partition_on (CHR ''.'') mantissa of
                  (a, None) \<Rightarrow> digit_part a
                | (a, Some b) \<Rightarrow> (a = [] \<or> digit_part a) \<and> (b = [] \<or> digit_part b) \<and> (a \<noteq> [] \<or> b \<noteq> [])))"

definition check_duration :: "pvalue \<Rightarrow> unit result" where
  "check_duration v =
     (if \<not> truthy v then Inr ()
      else case v of
             PBool b \<Rightarrow> Inr ()
           | PText s \<Rightarrow> if reads_as_float s then Inr ()
                        else Inl (PyException ''ValueError'' (''could not convert string to float: '' @ py_repr s))
           | _ \<Rightarrow> if is_real_number v then map_sum id (\<lambda>_. ()) (to_float v)
                  else Inl (PyException ''TypeError'' ''float() argument must be a string or a real number''))"

definition from_payload :: "pvalue \<Rightarrow> prior_result result" where
  "from_payload v =
     (case mapping_items v of
        None \<Rightarrow> Inl (PyException ''AttributeError'' ''get'')
      | Some d \<Rightarrow>
          bind_result (check_duration (item_get d ''duration_seconds'' PNone)) (\<lambda>_.
            Inr \<lparr>pv_status = item_get d ''status'' (PText ''ok''), pv_content = item_get d ''content'' PNone,
                 pv_artifact = item_get d ''artifact'' PNone, pv_error = item_get d ''error'' PNone,
                 pv_redacted = truthy (item_get d ''redacted'' (PBool False))\<rparr>))"

record approval_request =
  aq_tool :: string
  aq_args :: pvalue
  aq_permissions :: "string list"
  aq_side_effects :: "string list"
  aq_generation_id :: "string option"
  aq_run_id :: "string option"
  aq_metadata :: payload

section \<open>The world around the executor\<close>

type_synonym 'w policy_engine = "policy_request \<Rightarrow> 'w \<Rightarrow> policy_result result \<times> 'w"

type_synonym 'w approval_gate = "approval_request \<Rightarrow> 'w \<Rightarrow> bool result \<times> 'w"

text \<open>What a tool gives back, seen through the attributes \<open>_split_output\<close> reads.\<close>

record tool_output =
  to_value :: pvalue
  to_content :: "pvalue option"
  to_artifact :: "pvalue option"

datatype tool_run = NotAwaitable | Raised py_exn | Returned tool_output

type_synonym ('x, 'w) tool_code = "'x tool \<Rightarrow> pvalue \<Rightarrow> payload \<Rightarrow> rat option \<Rightarrow> 'w \<Rightarrow> tool_run \<times> 'w"

definition deny_approvals :: "'w approval_gate" where
  "deny_approvals q w = (Inr False, w)"

definition auto_approve :: "'w approval_gate" where
  "auto_approve q w = (Inr True, w)"

record ('h, 'x, 'w) executor =
  xc_policy :: "'w policy_engine option"
  xc_approvals :: "'w approval_gate"
  xc_hooks :: "'h hook_registry option"
  xc_invoke :: "('h, 'w) invoke"
  xc_tools :: "('x, 'w) tool_code"
  xc_redactor :: redactor
  xc_default_timeout :: "rat option"
  xc_digest :: "string \<Rightarrow> string"
  xc_float_text :: "rat \<Rightarrow> string"

datatype exec_event =
    PolicyAsked permission bool bool
  | PolicyFailed permission
  | ApprovalAsked bool
  | BudgetCharged
  | ReplayAnswered
  | ToolInvoked pvalue

record 'w exec_state =
  xs_world :: 'w
  xs_budget :: budget_store
  xs_replay :: "replay_session option"
  xs_log :: "exec_event list"

definition log_event :: "exec_event \<Rightarrow> 'w exec_state \<Rightarrow> 'w exec_state" where
  "log_event e st = st\<lparr>xs_log := xs_log st @ [e]\<rparr>"

type_synonym ('a, 'w) exec = "'w exec_state \<Rightarrow> 'a result \<times> 'w exec_state"

definition exec_bind :: "('a, 'w) exec \<Rightarrow> ('a \<Rightarrow> ('b, 'w) exec) \<Rightarrow> ('b, 'w) exec" where
  "exec_bind m f st = (case m st of (Inl e, st') \<Rightarrow> (Inl e, st') | (Inr x, st') \<Rightarrow> f x st')"

definition exec_return :: "'a \<Rightarrow> ('a, 'w) exec" where
  "exec_return x st = (Inr x, st)"

definition exec_raise :: "py_exn \<Rightarrow> ('a, 'w) exec" where
  "exec_raise e st = (Inl e, st)"

definition exec_lift :: "'a result \<Rightarrow> ('a, 'w) exec" where
  "exec_lift r st = (r, st)"

lemmas exec_defs = exec_bind_def exec_return_def exec_raise_def exec_lift_def

section \<open>Hooks\<close>

definition exec_dispatch ::
  "('h, 'x, 'w) executor \<Rightarrow> hook_event \<Rightarrow> payload \<Rightarrow> 'h hook_snapshot option \<Rightarrow> (hook_result, 'w) exec" where
  "exec_dispatch cfg event p hooks st =
     (case xc_hooks cfg of
        None \<Rightarrow> (Inr \<lparr>hres_event = event, hres_payload = p, hres_stopped = False, hres_failures = []\<rparr>, st)
      | Some reg \<Rightarrow>
          (case hook_dispatch (xc_invoke cfg) event p hooks reg (xs_world st) of (r, w) \<Rightarrow> (r, st\<lparr>xs_world := w\<rparr>)))"

section \<open>Authorization\<close>

definition denied :: "string \<Rightarrow> string \<Rightarrow> py_exn" where
  "denied name what = PolicyDenied (''tool '' @ py_repr name @ what)"

definition decision_payload :: "'x tool_entry \<Rightarrow> exec_request \<Rightarrow> payload \<Rightarrow> payload" where
  "decision_payload entry request details =
     [(''tool'', PText (te_name entry)), (''owner'', PText (te_owner_name entry))] @ details
     @ [(''generation_id'', optional_text (xr_generation_id request)), (''run_id'', optional_text (xr_run_id request))]"

definition policy_question :: "'x tool_entry \<Rightarrow> exec_request \<Rightarrow> permission \<Rightarrow> policy_request" where
  "policy_question entry request p =
     \<lparr>pq_permission = p, pq_subject = ''tool:'' @ te_name entry, pq_resource = pm_resource p,
      pq_context = [(''owner'', PText (te_owner_name entry)), (''generation_id'', optional_text (xr_generation_id request))]\<rparr>"

fun ask_permissions ::
  "('h, 'x, 'w) executor \<Rightarrow> 'w policy_engine \<Rightarrow> 'x tool_entry \<Rightarrow> exec_request \<Rightarrow> 'h hook_snapshot option
     \<Rightarrow> permission list \<Rightarrow> bool \<Rightarrow> (bool, 'w) exec" where
  "ask_permissions cfg engine entry request hooks [] approval st = (Inr approval, st)"
| "ask_permissions cfg engine entry request hooks (p # ps) approval st =
     (case engine (policy_question entry request p) (xs_world st) of
        (Inl e, w) \<Rightarrow>
          (let st1 = log_event (PolicyFailed p) (st\<lparr>xs_world := w\<rparr>)
           in if \<not> is_exception e then (Inl e, st1)
              else exec_bind (exec_dispatch cfg POLICY_DECISION
                     (decision_payload entry request [(''permission'', PText (show_permission p)), (''allowed'', PBool False),
                        (''reason'', PText ''policy provider failure'')]) hooks)
                   (\<lambda>_. exec_raise (denied (te_name entry) '' was denied: the policy provider failed'')) st1)
      | (Inr a, w) \<Rightarrow>
          exec_bind (exec_dispatch cfg POLICY_DECISION
              (decision_payload entry request [(''permission'', PText (show_permission p)), (''allowed'', PBool (pa_allowed a)),
                 (''reason'', PText (redact_text (xc_redactor cfg) (pa_reason a)))]) hooks)
            (\<lambda>_. if \<not> pa_allowed a
                 then exec_raise (denied (te_name entry) ('' requires '' @ show_permission p @ '': '' @ redact_text (xc_redactor cfg) (pa_reason a)))
                 else ask_permissions cfg engine entry request hooks ps (approval \<or> pa_approval_required a))
            (log_event (PolicyAsked p (pa_allowed a) (pa_approval_required a)) (st\<lparr>xs_world := w\<rparr>)))"

definition ask_approval ::
  "('h, 'x, 'w) executor \<Rightarrow> 'x tool_entry \<Rightarrow> exec_request \<Rightarrow> pvalue \<Rightarrow> 'h hook_snapshot option \<Rightarrow> (unit, 'w) exec" where
  "ask_approval cfg entry request args hooks st =
     (case xc_approvals cfg \<lparr>aq_tool = te_name entry, aq_args = args, aq_permissions = tp_permissions (te_policy entry),
             aq_side_effects = tp_side_effects (te_policy entry), aq_generation_id = xr_generation_id request,
             aq_run_id = xr_run_id request, aq_metadata = xr_metadata request\<rparr> (xs_world st) of
        (Inl e, w) \<Rightarrow> (Inl e, st\<lparr>xs_world := w\<rparr>)
      | (Inr approved, w) \<Rightarrow>
          (let st1 = log_event (ApprovalAsked approved) (st\<lparr>xs_world := w\<rparr>)
           in if approved then (Inr (), st1)
              else exec_bind (exec_dispatch cfg POLICY_DECISION
                     (decision_payload entry request [(''allowed'', PBool False), (''reason'', PText ''approval'')]) hooks)
                   (\<lambda>_. exec_raise (denied (te_name entry) '' requires approval that was not granted'')) st1))"

definition authorize ::
  "('h, 'x, 'w) executor \<Rightarrow> 'x tool_entry \<Rightarrow> exec_request \<Rightarrow> pvalue \<Rightarrow> 'w policy_engine option \<Rightarrow> 'h hook_snapshot option
     \<Rightarrow> (unit, 'w) exec" where
  "authorize cfg entry request args engine hooks =
     exec_bind
       (case engine of
          None \<Rightarrow> exec_return (tp_approval_required (te_policy entry))
        | Some evaluate \<Rightarrow>
            exec_bind (exec_lift (map_result parse_permission (tp_permissions (te_policy entry)))) (\<lambda>ps.
            exec_bind (ask_permissions cfg evaluate entry request hooks ps (tp_approval_required (te_policy entry))) (\<lambda>approval.
            exec_bind (exec_dispatch cfg POLICY_DECISION
                (decision_payload entry request [(''allowed'', PBool True),
                   (''permissions'', PList (map PText (tp_permissions (te_policy entry))))]) hooks) (\<lambda>_.
              exec_return approval))))
       (\<lambda>approval. if approval then ask_approval cfg entry request args hooks else exec_return ())"

section \<open>Budget\<close>

text \<open>Both amounts are the default of \<open>consume\<close> and \<open>check\<close>.\<close>

definition default_amount :: pnumber where
  "default_amount = NFloat (Fin 1)"

definition charge :: "rat \<Rightarrow> rat \<Rightarrow> nat option \<Rightarrow> (unit, 'w) exec" where
  "charge now now' budget st =
     (case budget of
        None \<Rightarrow> (Inr (), st)
      | Some g \<Rightarrow>
          (case gov_consume now g TOOL_CALLS default_amount (xs_budget st) of
             (Inl e, b) \<Rightarrow> (Inl e, st\<lparr>xs_budget := b\<rparr>)
           | (Inr _, b) \<Rightarrow>
               (let st1 = log_event BudgetCharged (st\<lparr>xs_budget := b\<rparr>)
                in (gov_check now' b g WALL_CLOCK_SECONDS default_amount, st1))))"

section \<open>The call\<close>

definition timeout_for :: "('h, 'x, 'w) executor \<Rightarrow> 'x tool_entry \<Rightarrow> rat option" where
  "timeout_for cfg entry = (case tp_timeout (te_policy entry) of Some t \<Rightarrow> Some t | None \<Rightarrow> xc_default_timeout cfg)"

definition runnable_config :: "redactor \<Rightarrow> 'x tool_entry \<Rightarrow> exec_request \<Rightarrow> payload" where
  "runnable_config rd entry request =
     (let metadata = redact_payload rd (filter (\<lambda>(k, v). truthy v)
            [(''chassis_tool'', PText (te_name entry)), (''chassis_tool_owner'', PText (te_owner_name entry)),
             (''chassis_cost_class'', optional_text (tp_cost_class (te_policy entry))),
             (''chassis_generation_id'', optional_text (xr_generation_id request)),
             (''chassis_run_id'', optional_text (xr_run_id request))]);
          stamped = (case xr_tool_call_id request of
              None \<Rightarrow> metadata
            | Some i \<Rightarrow> if i = [] then metadata else dict_set ''chassis_tool_call_id'' (PText i) metadata)
      in [(''tags'', PList [PText (''chassis:tool:'' @ te_name entry)]), (''metadata'', as_dict stamped)])"

text \<open>
  A text is passed on as it is; anything else goes through \<open>dict\<close>, which accepts a mapping or a
  sequence of pairs. (Floats and tuples are hashable in Python; as keys they are not modelled.)
\<close>

definition as_key :: "pvalue \<Rightarrow> pkey option" where
  "as_key v = (case v of PText s \<Rightarrow> Some (KText s) | PInt i \<Rightarrow> Some (KInt i) | PBool b \<Rightarrow> Some (KBool b) | PNone \<Rightarrow> Some KNone | _ \<Rightarrow> None)"

definition as_pair :: "pvalue \<Rightarrow> (pkey \<times> pvalue) result" where
  "as_pair v =
     (let pair = (case v of PList [k, x] \<Rightarrow> Some (k, x) | PTuple [k, x] \<Rightarrow> Some (k, x)
                  | PText [a, b] \<Rightarrow> Some (PText [a], PText [b]) | _ \<Rightarrow> None)
      in case pair of
           None \<Rightarrow> Inl (PyException ''ValueError'' ''dictionary update sequence element is not a pair'')
         | Some (k, x) \<Rightarrow> (case as_key k of None \<Rightarrow> type_error ''unhashable type'' | Some key \<Rightarrow> Inr (key, x)))"

definition tool_input :: "pvalue \<Rightarrow> pvalue result" where
  "tool_input args =
     (case args of
        PText s \<Rightarrow> Inr args
      | PDict d \<Rightarrow> Inr args
      | PFrozenDict d \<Rightarrow> Inr (as_dict d)
      | _ \<Rightarrow> (case (case args of PList vs \<Rightarrow> Some vs | PTuple vs \<Rightarrow> Some vs | _ \<Rightarrow> set_items args) of
                None \<Rightarrow> type_error ''object is not iterable''
              | Some vs \<Rightarrow> bind_result (map_result as_pair vs) (\<lambda>kvs. Inr (PDict (fold (\<lambda>(k, x) d. dict_set k x d) kvs [])))))"

definition split_output :: "tool_output \<Rightarrow> pvalue \<times> pvalue" where
  "split_output output =
     (case to_value output of
        PTuple [content, artifact] \<Rightarrow> (content, artifact)
      | v \<Rightarrow> (or_else (to_content output) v, or_else (to_artifact output) PNone))"

definition invoke_tool ::
  "('h, 'x, 'w) executor \<Rightarrow> 'x tool_entry \<Rightarrow> pvalue \<Rightarrow> exec_request \<Rightarrow> (pvalue \<times> pvalue, 'w) exec" where
  "invoke_tool cfg entry args request st =
     (case tool_input args of
        Inl e \<Rightarrow> (Inl e, st)
      | Inr input \<Rightarrow>
          (case xc_tools cfg (te_tool entry) input (runnable_config (xc_redactor cfg) entry request) (timeout_for cfg entry) (xs_world st) of
             (run, w) \<Rightarrow>
               (let st1 = log_event (ToolInvoked input) (st\<lparr>xs_world := w\<rparr>)
                in case run of
                     NotAwaitable \<Rightarrow> (Inl (ToolExecutionError (''tool '' @ py_repr (te_name entry) @ '' did not return an awaitable result'')), st1)
                   | Raised e \<Rightarrow> (Inl e, st1)
                   | Returned output \<Rightarrow> (Inr (split_output output), st1))))"

text \<open>The type name and the message a failure is reported with.\<close>

fun exn_label :: "py_exn \<Rightarrow> string \<times> string" where
  "exn_label (PyException t m) = (t, m)"
| "exn_label PyCancelled = (''CancelledError'', [])"
| "exn_label (PyBaseException t m) = (t, m)"
| "exn_label (ScopeClosedError m) = (''ScopeClosedError'', m)"
| "exn_label (EffectCleanupError m fs) = (''EffectCleanupError'', m)"
| "exn_label (PluginLoadError m) = (''PluginLoadError'', m)"
| "exn_label (PluginSetupError m fs) = (''PluginSetupError'', m)"
| "exn_label (PluginContractError m) = (''PluginContractError'', m)"
| "exn_label (PluginCycleError m) = (''PluginCycleError'', m)"
| "exn_label (CapabilityAmbiguous m) = (''CapabilityAmbiguous'', m)"
| "exn_label (CapabilityNotFound m) = (''CapabilityNotFound'', m)"
| "exn_label (CapabilityVersionMismatch m) = (''CapabilityVersionMismatch'', m)"
| "exn_label (HarnessStateError m) = (''HarnessStateError'', m)"
| "exn_label (ConfigurationError m) = (''ConfigurationError'', m)"
| "exn_label (HookExecutionError m) = (''HookExecutionError'', m)"
| "exn_label (PolicyDenied m) = (''PolicyDenied'', m)"
| "exn_label (BudgetExceeded m) = (''BudgetExceeded'', m)"
| "exn_label (ToolNotFound m) = (''ToolNotFound'', m)"
| "exn_label (ToolExecutionError m) = (''ToolExecutionError'', m)"
| "exn_label (AgentNotFound m) = (''AgentNotFound'', m)"
| "exn_label (AgentRetired m) = (''AgentRetired'', m)"
| "exn_label (GenerationConflictError m) = (''GenerationConflictError'', m)"
| "exn_label (UnknownLeaseError m) = (''UnknownLeaseError'', m)"
| "exn_label (ReplayMismatch m) = (''ReplayMismatch'', m)"
| "exn_label (FormatError m reason) = (''FormatError'', m)"

definition normalize_error :: "redactor \<Rightarrow> 'x tool_entry \<Rightarrow> py_exn \<Rightarrow> string \<times> bool" where
  "normalize_error rd entry e =
     (case exn_label e of (t, m) \<Rightarrow>
        redact_and_report rd (''tool '' @ py_repr (te_name entry) @ '' failed: '' @ t @ '': '' @ m))"

section \<open>Recording and replay\<close>

text \<open>The readings of the clock: \<open>consume\<close>, \<open>check\<close>, the duration of the call and the time of its record.\<close>

record readings =
  ck_consume :: rat
  ck_check :: rat
  ck_duration :: rat
  ck_record :: rat

definition recorded ::
  "readings \<Rightarrow> exec_result \<Rightarrow> string \<Rightarrow> 'x tool_entry \<Rightarrow> pvalue \<Rightarrow> exec_request \<Rightarrow> (exec_result, 'w) exec" where
  "recorded clock result key entry args request st =
     (case xs_replay st of
        None \<Rightarrow> (Inr result, st)
      | Some s \<Rightarrow>
          (let call = \<lparr>bc_kind = KIND_TOOL, bc_key = key, bc_request = [(''tool'', PText (te_name entry)), (''args'', args)],
                       bc_response = as_dict (to_payload result), bc_generation_id = xr_generation_id request, bc_run_id = xr_run_id request\<rparr>
           in if is_recording s then
                (case session_record (ck_record clock) call s of (_, s') \<Rightarrow> (Inr result, st\<lparr>xs_replay := Some s'\<rparr>))
              else if is_replaying s \<and> ss_fallback s = FALLBACK_LIVE then
                (case record_fallback (ck_record clock) call s of
                   (Inl e, s') \<Rightarrow> (Inl e, st\<lparr>xs_replay := Some s'\<rparr>)
                 | (Inr _, s') \<Rightarrow> (Inr result, st\<lparr>xs_replay := Some s'\<rparr>))
              else (Inr result, st)))"

text \<open>The recorded response of the call, or \<open>PNone\<close> when it runs live.\<close>

definition ask_recording :: "string \<Rightarrow> (pvalue, 'w) exec" where
  "ask_recording key st =
     (case xs_replay st of
        None \<Rightarrow> (Inr PNone, st)
      | Some s \<Rightarrow>
          if \<not> is_replaying s then (Inr PNone, st)
          else if has_remaining KIND_TOOL key s then
            (case session_replay KIND_TOOL key s of
               (Inl e, s') \<Rightarrow> (Inl e, st\<lparr>xs_replay := Some s'\<rparr>)
             | (Inr r, s') \<Rightarrow> (Inr (re_response r), log_event ReplayAnswered (st\<lparr>xs_replay := Some s'\<rparr>)))
          else if ss_fallback s = FALLBACK_ERROR then
            (Inl (ReplayMismatch (if session_has KIND_TOOL key s then ''recorded tool interactions for this key are exhausted''
                    else ''tool call was not recorded and replay does not fall back to live execution'')), st)
          else (Inr PNone, st))"

section \<open>Results\<close>

definition stamp_generation :: "exec_request \<Rightarrow> 'x tool_snapshot \<Rightarrow> string option" where
  "stamp_generation request sn =
     (case xr_generation_id request of None \<Rightarrow> Some (ts_generation_id sn)
      | Some g \<Rightarrow> if g = [] then Some (ts_generation_id sn) else Some g)"

definition result_of ::
  "readings \<Rightarrow> 'x tool_entry \<Rightarrow> exec_request \<Rightarrow> 'x tool_snapshot \<Rightarrow> prior_result \<Rightarrow> exec_result" where
  "result_of clock entry request sn p =
     \<lparr>xt_name = te_name entry, xt_status = pv_status p, xt_content = pv_content p, xt_artifact = pv_artifact p,
      xt_error = pv_error p, xt_duration = ck_duration clock, xt_tool_call_id = xr_tool_call_id request,
      xt_generation_id = stamp_generation request sn, xt_run_id = xr_run_id request, xt_redacted = pv_redacted p\<rparr>"

definition failure_of :: "string \<Rightarrow> string \<times> bool \<Rightarrow> prior_result" where
  "failure_of status m =
     \<lparr>pv_status = PText status, pv_content = PNone, pv_artifact = PNone, pv_error = PText (fst m), pv_redacted = snd m\<rparr>"

definition success_of :: "pvalue \<times> pvalue \<Rightarrow> prior_result" where
  "success_of out =
     \<lparr>pv_status = PText ''ok'', pv_content = fst out, pv_artifact = snd out, pv_error = PNone, pv_redacted = False\<rparr>"

definition dispatch_failure ::
  "('h, 'x, 'w) executor \<Rightarrow> 'x tool_entry \<Rightarrow> exec_request \<Rightarrow> 'h hook_snapshot option \<Rightarrow> pvalue \<Rightarrow> (hook_result, 'w) exec" where
  "dispatch_failure cfg entry request hooks message =
     exec_dispatch cfg TOOL_ERROR
       [(''tool'', PText (te_name entry)), (''error'', message), (''run_id'', optional_text (xr_run_id request))] hooks"

definition dispatch_after ::
  "('h, 'x, 'w) executor \<Rightarrow> 'x tool_entry \<Rightarrow> exec_request \<Rightarrow> 'h hook_snapshot option \<Rightarrow> exec_result \<Rightarrow> (hook_result, 'w) exec" where
  "dispatch_after cfg entry request hooks result =
     exec_dispatch cfg AFTER_TOOL_EXECUTE
       [(''tool'', PText (te_name entry)), (''status'', xt_status result), (''duration_seconds'', PFloat (Fin (xt_duration result))),
        (''run_id'', optional_text (xr_run_id request))] hooks"

text \<open>A recorded failure follows the shape of a live one: the error hook, and no after hook.\<close>

definition replayed_call ::
  "('h, 'x, 'w) executor \<Rightarrow> readings \<Rightarrow> 'x tool_entry \<Rightarrow> exec_request \<Rightarrow> 'x tool_snapshot \<Rightarrow> 'h hook_snapshot option
     \<Rightarrow> bool \<Rightarrow> pvalue \<Rightarrow> (exec_result, 'w) exec" where
  "replayed_call cfg clock entry request sn hooks raise_on_error response =
     exec_bind (exec_lift (from_payload response)) (\<lambda>p.
       (let result = result_of clock entry request sn p
        in if xt_status result \<noteq> PText ''ok'' then
             (let message = (if truthy (xt_error result) then xt_error result else PText [])
              in exec_bind (dispatch_failure cfg entry request hooks message) (\<lambda>_.
                   if raise_on_error then
                     exec_raise (ToolExecutionError (case message of PText m \<Rightarrow> m | _ \<Rightarrow> []))
                   else exec_return result))
           else exec_bind (dispatch_after cfg entry request hooks result) (\<lambda>_. exec_return result)))"

definition failed_call ::
  "('h, 'x, 'w) executor \<Rightarrow> readings \<Rightarrow> 'x tool_entry \<Rightarrow> exec_request \<Rightarrow> 'x tool_snapshot \<Rightarrow> 'h hook_snapshot option
     \<Rightarrow> bool \<Rightarrow> string \<Rightarrow> pvalue \<Rightarrow> string \<Rightarrow> string \<times> bool \<Rightarrow> (exec_result, 'w) exec" where
  "failed_call cfg clock entry request sn hooks raise_on_error key args status m =
     exec_bind (dispatch_failure cfg entry request hooks (PText (fst m))) (\<lambda>_.
       if raise_on_error then exec_raise (ToolExecutionError (fst m))
       else recorded clock (result_of clock entry request sn (failure_of status m)) key entry args request)"

definition deadline_message :: "('h, 'x, 'w) executor \<Rightarrow> 'x tool_entry \<Rightarrow> string \<times> bool" where
  "deadline_message cfg entry =
     redact_and_report (xc_redactor cfg) (''tool '' @ py_repr (te_name entry) @ '' exceeded its ''
       @ (case timeout_for cfg entry of None \<Rightarrow> ''None'' | Some t \<Rightarrow> xc_float_text cfg t) @ ''s deadline'')"

definition is_timeout :: "py_exn \<Rightarrow> bool" where
  "is_timeout e = (case e of PyException t m \<Rightarrow> t = ''TimeoutError'' | _ \<Rightarrow> False)"

definition live_call ::
  "('h, 'x, 'w) executor \<Rightarrow> readings \<Rightarrow> 'x tool_entry \<Rightarrow> exec_request \<Rightarrow> 'x tool_snapshot \<Rightarrow> 'h hook_snapshot option
     \<Rightarrow> bool \<Rightarrow> string \<Rightarrow> pvalue \<Rightarrow> (exec_result, 'w) exec" where
  "live_call cfg clock entry request sn hooks raise_on_error key args st =
     (case invoke_tool cfg entry args request st of
        (Inl e, st1) \<Rightarrow>
          if is_timeout e then
            failed_call cfg clock entry request sn hooks raise_on_error key args ''timeout'' (deadline_message cfg entry) st1
          else if \<not> is_exception e then (Inl e, st1)
          else failed_call cfg clock entry request sn hooks raise_on_error key args ''error''
                 (normalize_error (xc_redactor cfg) entry e) st1
      | (Inr out, st1) \<Rightarrow>
          exec_bind (recorded clock (result_of clock entry request sn (success_of out)) key entry args request) (\<lambda>result.
          exec_bind (dispatch_after cfg entry request hooks result) (\<lambda>_. exec_return result)) st1)"

section \<open>The whole call\<close>

definition before_hooks ::
  "('h, 'x, 'w) executor \<Rightarrow> 'x tool_entry \<Rightarrow> exec_request \<Rightarrow> 'x tool_snapshot \<Rightarrow> 'h hook_snapshot option \<Rightarrow> (pvalue, 'w) exec" where
  "before_hooks cfg entry request sn hooks =
     exec_bind (exec_dispatch cfg BEFORE_TOOL_EXECUTE
         [(''tool'', PText (te_name entry)), (''owner'', PText (te_owner_name entry)), (''args'', xr_args request),
          (''generation_id'', optional_text (stamp_generation request sn)), (''run_id'', optional_text (xr_run_id request))] hooks)
       (\<lambda>transformed.
          if hres_stopped transformed then exec_raise (denied (te_name entry) '' was refused by a hook'')
          else exec_return (case map_of (hres_payload transformed) ''args'' of None \<Rightarrow> xr_args request | Some v \<Rightarrow> v))"

definition tool_execute ::
  "('h, 'x, 'w) executor \<Rightarrow> readings \<Rightarrow> exec_request \<Rightarrow> 'x tool_snapshot \<Rightarrow> nat option \<Rightarrow> 'h hook_snapshot option
     \<Rightarrow> 'w policy_engine option \<Rightarrow> bool \<Rightarrow> (exec_result, 'w) exec" where
  "tool_execute cfg clock request sn budget hooks policy raise_on_error =
     exec_bind (exec_lift (ts_require (xr_name request) sn)) (\<lambda>entry.
     exec_bind (before_hooks cfg entry request sn hooks) (\<lambda>args.
     exec_bind (authorize cfg entry request args (case policy of Some engine \<Rightarrow> Some engine | None \<Rightarrow> xc_policy cfg) hooks) (\<lambda>_.
     exec_bind (charge (ck_consume clock) (ck_check clock) budget) (\<lambda>_.
     exec_bind (exec_lift (boundary_key (xc_digest cfg) (xc_float_text cfg) [PText (kind_value KIND_TOOL), PText (te_name entry), args])) (\<lambda>key.
     exec_bind (ask_recording key) (\<lambda>response.
       if response \<noteq> PNone then replayed_call cfg clock entry request sn hooks raise_on_error response
       else live_call cfg clock entry request sn hooks raise_on_error key args))))))"

end
