(* ===== verification/Replay_Props.thy ===== *)
theory Replay_Props
  imports Replay
begin

text \<open>
  Properties of replay sessions: records answer in recording order and once each, whatever other
  calls come in between; an export carries no tracked value; a document is read back as it was
  written, and every other document is refused with a format error.
\<close>

section \<open>Order of answers\<close>

lemma kind_value_no_colon: "CHR '':'' \<notin> set (kind_value k)"
  by (cases k) (simp_all add: kind_value_def)

lemma kind_value_inj: "kind_value k = kind_value l \<longleftrightarrow> k = l"
  by (cases k; cases l) (simp_all add: kind_value_def)

lemma cursor_key_inj: "cursor_key k key = cursor_key l key' \<longleftrightarrow> k = l \<and> key = key'"
proof
  assume eq: "cursor_key k key = cursor_key l key'"
  have "partition_on (CHR '':'') (cursor_key i s) = (kind_value i, Some s)" for i s
    using partition_on_Some [OF kind_value_no_colon [of i], of s] by (simp add: cursor_key_def)
  from this [of k key] this [of l key'] show "k = l \<and> key = key'" unfolding eq by (simp add: kind_value_inj)
qed simp

text \<open>A run of replays, one result per call.\<close>

fun replay_calls :: "(boundary_kind \<times> string) list \<Rightarrow> replay_session \<Rightarrow> replay_record result list \<times> replay_session" where
  "replay_calls [] s = ([], s)"
| "replay_calls ((kind, key) # calls) s =
     (case session_replay kind key s of (r, s1) \<Rightarrow> (case replay_calls calls s1 of (rs, s2) \<Rightarrow> (r # rs, s2)))"

definition answers_to :: "boundary_kind \<times> string \<Rightarrow> (boundary_kind \<times> string) list \<Rightarrow> 'r list \<Rightarrow> 'r list" where
  "answers_to c calls results = map snd (filter (\<lambda>p. fst p = c) (zip calls results))"

lemma answers_to_simps [simp]:
  "answers_to c [] rs = []"
  "answers_to c (d # ds) (r # rs) = (if d = c then [r] else []) @ answers_to c ds rs"
  by (simp_all add: answers_to_def)

lemma session_replay_other:
  assumes "session_replay kind key s = (r, s1)" "(kind, key) \<noteq> (kind', key')"
  shows "consumed kind' key' s1 = consumed kind' key' s" "ss_records s1 = ss_records s"
  using assms by (auto simp: session_replay_def Let_def consumed_def dict_get_or_def dict_simps cursor_key_inj split: if_splits)

lemma session_replay_same:
  fixes kind key s
  defines "m \<equiv> matching kind key (ss_records s)"
  assumes "session_replay kind key s = (r, s1)"
  shows "ss_records s1 = ss_records s"
    and "consumed kind key s < length m \<Longrightarrow> r = Inr (m ! consumed kind key s) \<and> consumed kind key s1 = consumed kind key s + 1"
    and "\<not> consumed kind key s < length m \<Longrightarrow> r = Inl (mismatch kind (m \<noteq> [])) \<and> consumed kind key s1 = consumed kind key s"
  using assms by (auto simp: session_replay_def Let_def consumed_def dict_get_or_def dict_simps split: if_splits)

lemma replay_calls_from:
  assumes "consumed kind key s \<le> length (matching kind key (ss_records s))" "replay_calls calls s = (results, s')"
  shows "answers_to (kind, key) calls results =
     map Inr (take (count_list calls (kind, key)) (drop (consumed kind key s) (matching kind key (ss_records s))))
     @ replicate (count_list calls (kind, key) - (length (matching kind key (ss_records s)) - consumed kind key s))
         (Inl (mismatch kind (matching kind key (ss_records s) \<noteq> [])))"
  using assms
proof (induction calls arbitrary: s results)
  case (Cons c calls)
  obtain kind' key' where c: "c = (kind', key')" by (cases c)
  obtain r s1 where one: "session_replay kind' key' s = (r, s1)" by fastforce
  obtain rs where rest: "replay_calls calls s1 = (rs, s')" and results: "results = r # rs"
    using Cons.prems(2) c one by (auto split: prod.splits)
  let ?m = "matching kind key (ss_records s)" and ?n = "consumed kind key s"
  show ?case
  proof (cases "c = (kind, key)")
    case False
    then have "consumed kind key s1 = ?n" "ss_records s1 = ss_records s"
      using session_replay_other [OF one, of kind key] c by auto
    then show ?thesis using Cons.IH [of s1 rs] Cons.prems(1) rest False by (simp add: results)
  next
    case True
    then have one': "session_replay kind key s = (r, s1)" using one c by simp
    note same = session_replay_same [OF one']
    show ?thesis
    proof (cases "?n < length ?m")
      case less: True
      then have r: "r = Inr (?m ! ?n)" and n1: "consumed kind key s1 = ?n + 1" using same(2) by simp_all
      have "drop ?n ?m = ?m ! ?n # drop (?n + 1) ?m" using less by (simp add: Cons_nth_drop_Suc)
      moreover have "length ?m - ?n = Suc (length ?m - (?n + 1))" using less by simp
      ultimately show ?thesis
        using Cons.IH [of s1 rs] rest True less by (simp add: results r n1 same(1))
    next
      case over: False
      then have r: "r = Inl (mismatch kind (?m \<noteq> []))" and n1: "consumed kind key s1 = ?n" using same(3) by simp_all
      have "drop ?n ?m = []" "length ?m - ?n = 0" using over by simp_all
      then show ?thesis
        using Cons.IH [of s1 rs] rest True Cons.prems(1) by (simp add: results r n1 same(1))
    qed
  qed
qed simp

text \<open>
  C36: A recording answers each boundary in recording order, every record exactly once, and with a
  mismatch from then on, whatever calls for other boundaries come in between: no interleaving skips
  or repeats a record, and no call is answered by the record of another boundary.
\<close>

theorem replay_in_recording_order:
  assumes "ss_cursor s = []" "replay_calls calls s = (results, s')"
  shows "answers_to (kind, key) calls results =
     map Inr (take (count_list calls (kind, key)) (matching kind key (ss_records s)))
     @ replicate (count_list calls (kind, key) - length (matching kind key (ss_records s)))
         (Inl (mismatch kind (matching kind key (ss_records s) \<noteq> [])))"
proof -
  have "consumed kind key s = 0" using assms(1) by (simp add: consumed_def dict_get_or_def)
  then show ?thesis using replay_calls_from [of kind key s calls results s'] assms(2) by simp
qed

definition demo_record :: "string \<Rightarrow> int \<Rightarrow> replay_record" where
  "demo_record key n = \<lparr>re_kind = KIND_TOOL, re_sequence = n, re_key = key, re_request = [], re_response = PInt n,
     re_generation_id = None, re_run_id = None, re_created_at = Fin 0\<rparr>"

definition demo_session :: replay_session where
  "demo_session = (new_session MODE_REPLAY FALLBACK_ERROR new_redactor [])
     \<lparr>ss_records := [demo_record ''a'' 0, demo_record ''b'' 1, demo_record ''a'' 2]\<rparr>"

theorem replay_in_recording_order_witness:
  "answers_to (KIND_TOOL, ''a'') [(KIND_TOOL, ''a''), (KIND_TOOL, ''b''), (KIND_TOOL, ''a''), (KIND_TOOL, ''a'')]
     (fst (replay_calls [(KIND_TOOL, ''a''), (KIND_TOOL, ''b''), (KIND_TOOL, ''a''), (KIND_TOOL, ''a'')] demo_session))
   = [Inr (demo_record ''a'' 0), Inr (demo_record ''a'' 2), Inl (mismatch KIND_TOOL True)]"
proof -
  have fresh: "ss_cursor demo_session = []" by (simp add: demo_session_def new_session_def)
  have "matching KIND_TOOL ''a'' (ss_records demo_session) = [demo_record ''a'' 0, demo_record ''a'' 2]"
    by (simp add: demo_session_def new_session_def matching_def demo_record_def)
  then show ?thesis
    using replay_in_recording_order [OF fresh surjective_pairing, of KIND_TOOL "''a''"
        "[(KIND_TOOL, ''a''), (KIND_TOOL, ''b''), (KIND_TOOL, ''a''), (KIND_TOOL, ''a'')]"] by simp
qed

section \<open>Exports carry no tracked value\<close>

text \<open>
  C38: An exported recording carries none of the values its redactor tracks at that moment, also when
  they became known after the records were made: no key and no text at any depth of the metadata or
  of a record contains a tracked value. It holds as long as every tracked value is apart from the
  inserted marker \<open><redacted>\<close>: it is not a part of the marker (as the one-letter value \<open>e\<close> is, which
  every replacement brings back), does not contain it, and does not begin or end with an end or a
  beginning of it.
\<close>

theorem export_scrubbed:
  assumes "scrubbable (ss_redactor s)" "(part, v) \<in> set (session_to_dict s)" "part \<in> {''metadata'', ''records''}"
    "t \<in> texts_in v" "secret \<in> set (rd_values (ss_redactor s))"
  shows "\<not> sublist secret t"
proof -
  let ?rd = "ss_redactor s"
  have dict: "clean ?rd t" if "t \<in> texts_in (as_dict (redact_payload ?rd d))" for d
    using that redact_payload_clean [OF assms(1)] by (fastforce simp: as_dict_def key_texts_def)
  have "clean ?rd t" using assms(2-4) dict by (auto simp: session_to_dict_def)
  then show ?thesis using assms(5) by (simp add: clean_def)
qed

text \<open>A tool call whose response carries two tokens, and a note that quotes one of them.\<close>

definition leaky_session :: replay_session where
  "leaky_session = (new_session MODE_RECORD FALLBACK_ERROR (make_redactor [''sk-secret'', ''credential-7''])
      [(''note'', PText ''uses sk-secret'')])
     \<lparr>ss_records := [(demo_record ''k'' 0)\<lparr>re_response := PList [PText ''a=sk-secret;b=credential-7'']\<rparr>]\<rparr>"

theorem export_scrubbed_witness:
  "''uses <redacted>'' \<in> texts_in (the (map_of (session_to_dict leaky_session) ''metadata''))
   \<and> ''a=<redacted>;b=<redacted>'' \<in> texts_in (the (map_of (session_to_dict leaky_session) ''records''))
   \<and> \<not> sublist ''sk-secret'' ''uses <redacted>'' \<and> \<not> sublist ''credential-7'' ''a=<redacted>;b=<redacted>''"
proof -
  have present: "map_of (session_to_dict leaky_session) ''metadata'' \<noteq> None" "map_of (session_to_dict leaky_session) ''records'' \<noteq> None"
    by code_simp+
  then obtain m r where parts: "map_of (session_to_dict leaky_session) ''metadata'' = Some m"
    "map_of (session_to_dict leaky_session) ''records'' = Some r" by blast
  have "''uses <redacted>'' \<in> texts_in (the (map_of (session_to_dict leaky_session) ''metadata''))"
    "''a=<redacted>;b=<redacted>'' \<in> texts_in (the (map_of (session_to_dict leaky_session) ''records''))"
    by code_simp+
  then have texts: "''uses <redacted>'' \<in> texts_in m" "''a=<redacted>;b=<redacted>'' \<in> texts_in r"
    by (simp_all add: parts)
  have ok: "scrubbable (ss_redactor leaky_session)" by code_simp
  have tracked: "''sk-secret'' \<in> set (rd_values (ss_redactor leaky_session))"
    "''credential-7'' \<in> set (rd_values (ss_redactor leaky_session))"
    by (simp_all add: leaky_session_def new_session_def make_redactor_def redactor_add_def new_redactor_def)
  have "\<not> sublist ''sk-secret'' ''uses <redacted>''"
    using export_scrubbed [OF ok map_of_SomeD [OF parts(1)] _ texts(1) tracked(1)] by simp
  moreover have "\<not> sublist ''credential-7'' ''a=<redacted>;b=<redacted>''"
    using export_scrubbed [OF ok map_of_SomeD [OF parts(2)] _ texts(2) tracked(2)] by simp
  ultimately show ?thesis using texts by (simp add: parts)
qed

section \<open>Documents\<close>

lemma text_mapping_as_dict [simp]: "text_mapping (as_dict d) = Some d"
  by (simp add: text_mapping_def as_dict_def list_all_iff case_prod_beta' comp_def key_text_def)

lemma find_value:
  assumes "inj value" "m \<in> set members"
  shows "enum_member value members (PText (value m)) = Inr m"
proof -
  have "find (\<lambda>k. PText (value m) = PText (value k)) members = Some m"
    using assms by (induction members) (auto dest: injD)
  then show ?thesis by (simp add: enum_member_def)
qed

lemma inj_values: "inj kind_value" "inj mode_value" "inj fallback_value"
proof -
  show "inj kind_value" by (rule injI) (simp add: kind_value_inj)
  show "inj mode_value" by (rule injI) (simp add: mode_value_def split: replay_mode.splits)
  show "inj fallback_value" by (rule injI) (simp add: fallback_value_def split: replay_fallback.splits)
qed

lemma record_roundtrip: "record_from_dict (record_to_dict r) = Inr r"
proof -
  have k: "enum_member kind_value kinds (PText (kind_value (re_kind r))) = Inr (re_kind r)"
    by (rule find_value [OF inj_values(1)]) (cases "re_kind r"; simp add: kinds_def)
  have opt: "read_optional_text n d = Inr x" if "map_of d n = Some (optional_text x)" for n d x
    using that by (cases x) (simp_all add: read_optional_text_def optional_text_def)
  have fields: "read_optional_text ''generation_id'' (record_to_dict r) = Inr (re_generation_id r)"
    "read_optional_text ''run_id'' (record_to_dict r) = Inr (re_run_id r)"
    by (rule opt, simp add: record_to_dict_def)+
  have req: "(case as_dict (re_request r) of PNone \<Rightarrow> Inr [] | v \<Rightarrow> (case text_mapping (as_dict (re_request r)) of None \<Rightarrow> x | Some m \<Rightarrow> Inr m))
      = Inr (re_request r)" for x :: "payload result"
    by (simp add: as_dict_def text_mapping_def list_all_iff case_prod_beta' comp_def key_text_def)
  have keys: "read_key ''sequence'' (record_to_dict r) = Inr (PInt (re_sequence r))" "read_key ''key'' (record_to_dict r) = Inr (PText (re_key r))"
    "read_key ''kind'' (record_to_dict r) = Inr (PText (kind_value (re_kind r)))"
    "map_of (record_to_dict r) ''request'' = Some (as_dict (re_request r))"
    "map_of (record_to_dict r) ''created_at'' = Some (PFloat (re_created_at r))"
    "map_of (record_to_dict r) ''response'' = Some (re_response r)"
    by (simp_all add: read_key_def record_to_dict_def)
  have dict: "as_dict (re_request r) = PDict (map (\<lambda>(k, v). (KText k, v)) (re_request r))" by (simp add: as_dict_def)
  show ?thesis
    using req by (simp add: record_from_dict_def keys fields k to_float_def is_real_number_def dict)
qed

text \<open>What an export makes of a record whose field names and kind no tracked value occurs in.\<close>

definition scrubbed_record :: "redactor \<Rightarrow> replay_record \<Rightarrow> replay_record" where
  "scrubbed_record rd r = r\<lparr>re_key := redact_text rd (re_key r), re_request := redact_payload rd (re_request r),
     re_response := redact_value rd None (re_response r), re_generation_id := map_option (redact_text rd) (re_generation_id r),
     re_run_id := map_option (redact_text rd) (re_run_id r)\<rparr>"

definition record_fields :: "string list" where
  "record_fields = [''kind'', ''sequence'', ''key'', ''request'', ''response'', ''generation_id'', ''run_id'', ''created_at'']"

definition fields_untouched :: "redactor \<Rightarrow> bool" where
  "fields_untouched rd \<longleftrightarrow> list_all (\<lambda>t. redact_text rd t = t) (record_fields @ map kind_value kinds)"

lemma record_fields_public: "list_all (\<lambda>t. \<not> secret_key t) record_fields"
  by code_simp

lemma redact_value_public: "\<not> sensitive key \<Longrightarrow> redact_value rd key v = redact_value rd None v"
  by (simp add: redact_value.simps [of rd key] redact_value.simps [of rd None])

lemma text_keyed_set:
  "dict_set (KText k) x (map (\<lambda>(k, v). (KText k, v)) d) = map (\<lambda>(k, v). (KText k, v)) (dict_set k x d)"
  by (induction d) auto

lemma text_keyed_fold:
  "fold (\<lambda>(k, x) d. dict_set k x d) (map (\<lambda>(k, v). (KText k, v)) items) (map (\<lambda>(k, v). (KText k, v)) d)
     = map (\<lambda>(k, v). (KText k, v)) (fold (\<lambda>(k, x) d. dict_set k x d) items d)"
  by (induction items arbitrary: d) (auto simp: text_keyed_set)

lemma redact_as_dict: "redact_value rd None (as_dict d) = as_dict (redact_payload rd d)"
proof -
  have same: "map (\<lambda>(k, x). (redact_key rd k, redact_value rd (Some (key_text k)) x)) (map (\<lambda>(k, v). (KText k, v)) d)
      = map (\<lambda>(k, v). (KText k, v)) (map (\<lambda>(k, x). (redact_text rd k, redact_value rd (Some k) x)) d)"
    by (induction d) (auto simp: redact_key_def key_text_def)
  have "redact_value rd None (PDict kvs) = PDict (fold (\<lambda>(k, x) d. dict_set k x d)
      (map (\<lambda>(k, x). (redact_key rd k, redact_value rd (Some (key_text k)) x)) kvs) [])" for kvs
    by (simp add: redact_value.simps)
  then show ?thesis
    unfolding as_dict_def redact_payload_def by (simp only: same text_keyed_fold [where d = "[]", unfolded list.map])
qed

lemma redact_optional_text: "redact_value rd None (optional_text t) = optional_text (map_option (redact_text rd) t)"
  by (cases t) (simp_all add: optional_text_def redact_value.simps)

lemma redact_record:
  assumes "fields_untouched rd"
  shows "redact_payload rd (record_to_dict r) = record_to_dict (scrubbed_record rd r)"
proof -
  have same: "redact_text rd t = t" if "t \<in> set record_fields" for t
    using assms that by (simp add: fields_untouched_def list_all_iff)
  have names: "redact_text rd ''kind'' = ''kind''" "redact_text rd ''sequence'' = ''sequence''" "redact_text rd ''key'' = ''key''"
    "redact_text rd ''request'' = ''request''" "redact_text rd ''response'' = ''response''"
    "redact_text rd ''generation_id'' = ''generation_id''" "redact_text rd ''run_id'' = ''run_id''"
    "redact_text rd ''created_at'' = ''created_at''"
    by (rule same, simp add: record_fields_def)+
  have kind: "redact_text rd (kind_value (re_kind r)) = kind_value (re_kind r)"
    using assms by (cases "re_kind r") (simp_all add: fields_untouched_def kinds_def)
  have public: "redact_value rd (Some t) v = redact_value rd None v" if "t \<in> set record_fields" for t v
    using that record_fields_public by (intro redact_value_public) (simp add: list_all_iff)
  have vals: "redact_value rd (Some ''kind'') v = redact_value rd None v" "redact_value rd (Some ''sequence'') v = redact_value rd None v"
    "redact_value rd (Some ''key'') v = redact_value rd None v" "redact_value rd (Some ''request'') v = redact_value rd None v"
    "redact_value rd (Some ''response'') v = redact_value rd None v" "redact_value rd (Some ''generation_id'') v = redact_value rd None v"
    "redact_value rd (Some ''run_id'') v = redact_value rd None v" "redact_value rd (Some ''created_at'') v = redact_value rd None v" for v
    by (rule public, simp add: record_fields_def)+
  have leaf: "redact_value rd None (PText t) = PText (redact_text rd t)" "redact_value rd None (PInt i) = PInt i"
    "redact_value rd None (PFloat f) = PFloat f" for t i f
    by (simp_all add: redact_value.simps)
  show ?thesis
    unfolding redact_payload_def record_to_dict_def list.map case_prod_conv names vals leaf kind redact_as_dict redact_optional_text
    by (simp add: scrubbed_record_def redact_payload_def)
qed

lemma read_records:
  "map_result (\<lambda>(i, entry). read_record entry i) (enumerate n (map (\<lambda>r. as_dict (record_to_dict r)) rs)) = Inr rs"
  by (induction rs arbitrary: n) (simp_all add: read_record_def record_roundtrip)

lemma session_document:
  assumes "fields_untouched (ss_redactor s)"
  shows "session_to_dict s = [(''format_version'', PInt 1), (''mode'', PText (mode_value (ss_mode s))),
     (''fallback'', PText (fallback_value (ss_fallback s))), (''metadata'', as_dict (redact_payload (ss_redactor s) (ss_metadata s))),
     (''records'', PList (map (\<lambda>r. as_dict (record_to_dict r)) (map (scrubbed_record (ss_redactor s)) (ss_records s))))]"
  by (simp add: session_to_dict_def redact_record [OF assms])

text \<open>
  C37: A recording survives export and import: the exported document of a session reads back as the
  session with the same mode and fallback and nothing consumed, whose metadata and records are the
  original ones, in order and field by field, with the tracked values scrubbed from the key, request,
  response and ids of each record (so exactly the original ones when nothing is tracked in them). It
  holds as long as no tracked value occurs in the field names of a record or the names of the kinds
  of boundary; \<open>export_unreadable\<close> is what happens otherwise.
\<close>

theorem session_roundtrip:
  assumes "fields_untouched (ss_redactor s)"
  shows "session_from_dict no_overrides (as_dict (session_to_dict s)) =
     Inr (s\<lparr>ss_redactor := new_redactor, ss_metadata := redact_payload (ss_redactor s) (ss_metadata s),
            ss_records := map (scrubbed_record (ss_redactor s)) (ss_records s), ss_cursor := []\<rparr>)"
proof -
  let ?doc = "session_to_dict s"
  let ?metadata = "redact_payload (ss_redactor s) (ss_metadata s)" and ?records = "map (scrubbed_record (ss_redactor s)) (ss_records s)"
  have mode: "enum_member mode_value [MODE_LIVE, MODE_RECORD, MODE_REPLAY] (PText (mode_value (ss_mode s))) = Inr (ss_mode s)"
    by (rule find_value [OF inj_values(2)]) (cases "ss_mode s"; simp)
  have fallback: "enum_member fallback_value [FALLBACK_ERROR, FALLBACK_LIVE] (PText (fallback_value (ss_fallback s))) = Inr (ss_fallback s)"
    by (rule find_value [OF inj_values(3)]) (cases "ss_fallback s"; simp)
  have fields: "field ?doc ''mode'' = PText (mode_value (ss_mode s))" "field ?doc ''fallback'' = PText (fallback_value (ss_fallback s))"
    "field ?doc ''metadata'' = as_dict ?metadata" "field ?doc ''records'' = PList (map (\<lambda>r. as_dict (record_to_dict r)) ?records)"
    "required_field ?doc ''mode'' = Inr ()" "required_field ?doc ''fallback'' = Inr ()" "required_field ?doc ''metadata'' = Inr ()"
    "required_field ?doc ''records'' = Inr ()"
    by (simp_all add: session_document [OF assms] field_def required_field_def)
  have "migrate_payload ''replay'' 1 replay_migrations ?doc = Inr ?doc"
    by (rule migrate_current) (simp_all add: session_document [OF assms])
  moreover have "s\<lparr>ss_redactor := new_redactor, ss_metadata := ?metadata, ss_records := ?records, ss_cursor := []\<rparr>
      = (new_session (ss_mode s) (ss_fallback s) new_redactor ?metadata)\<lparr>ss_records := ?records\<rparr>"
    by (cases s) (simp add: new_session_def)
  ultimately show ?thesis
    unfolding session_from_dict_def text_mapping_as_dict option.case bind_result_simps
    by (simp add: fields read_enum_def mode fallback read_records new_session_def no_overrides_def or_else_def del: map_map)
qed

theorem session_roundtrip_witness:
  "session_from_dict no_overrides (as_dict (session_to_dict demo_session)) = Inr demo_session
   \<and> map_sum id ss_records (session_from_dict no_overrides (as_dict (session_to_dict leaky_session)))
     = Inr [(demo_record ''k'' 0)\<lparr>re_response := PList [PText ''a=<redacted>;b=<redacted>'']\<rparr>]"
proof
  have "fields_untouched (ss_redactor demo_session)" by code_simp
  moreover have "redact_payload (ss_redactor demo_session) (ss_metadata demo_session) = ss_metadata demo_session"
    "map (scrubbed_record (ss_redactor demo_session)) (ss_records demo_session) = ss_records demo_session"
    by code_simp+
  ultimately show "session_from_dict no_overrides (as_dict (session_to_dict demo_session)) = Inr demo_session"
    using session_roundtrip [of demo_session] by (simp add: demo_session_def new_session_def)
  have "fields_untouched (ss_redactor leaky_session)" by code_simp
  moreover have "map (scrubbed_record (ss_redactor leaky_session)) (ss_records leaky_session)
      = [(demo_record ''k'' 0)\<lparr>re_response := PList [PText ''a=<redacted>;b=<redacted>'']\<rparr>]"
    by code_simp
  ultimately show "map_sum id ss_records (session_from_dict no_overrides (as_dict (session_to_dict leaky_session)))
     = Inr [(demo_record ''k'' 0)\<lparr>re_response := PList [PText ''a=<redacted>;b=<redacted>'']\<rparr>]"
    using session_roundtrip [of leaky_session] by simp
qed

text \<open>
  Redaction covers the fields that identify a record, too: a tracked value that occurs in the name of
  the boundary makes the exported recording unreadable.
\<close>

theorem export_unreadable:
  "session_from_dict no_overrides (as_dict (session_to_dict (demo_session\<lparr>ss_redactor := make_redactor [''l'']\<rparr>)))
     = Inl (corrupt ''record 0 is malformed (not a valid member)'')"
  by code_simp

section \<open>Refusals\<close>

definition is_format_error :: "py_exn \<Rightarrow> bool" where
  "is_format_error e \<longleftrightarrow> (\<exists>m reason. e = FormatError m reason)"

text \<open>A creation time written as an integer no float can hold.\<close>

definition oversized :: "pvalue \<Rightarrow> bool" where
  "oversized v \<longleftrightarrow> (\<exists>d i. text_mapping v = Some d \<and> map_of d ''created_at'' = Some (PInt i) \<and> float_limit \<le> \<bar>i\<bar>)"

definition raises_only :: "(py_exn \<Rightarrow> bool) \<Rightarrow> 'a result \<Rightarrow> bool" where
  "raises_only P r \<longleftrightarrow> (case r of Inl e \<Rightarrow> P e | Inr _ \<Rightarrow> True)"

lemma raises_only_simps [simp]: "raises_only P (Inr x)" "raises_only P (Inl e) = P e"
  by (simp_all add: raises_only_def)

lemma raises_only_bind:
  "raises_only P r \<Longrightarrow> (\<And>x. r = Inr x \<Longrightarrow> raises_only P (f x)) \<Longrightarrow> raises_only P (bind_result r f)"
  by (cases r) simp_all

lemma raises_only_map:
  "(\<And>x. x \<in> set xs \<Longrightarrow> raises_only P (f x)) \<Longrightarrow> raises_only P (map_result f xs)"
proof (induction xs)
  case (Cons x xs)
  then show ?case by (cases "f x"; cases "map_result f xs") force+
qed simp

lemma record_from_dict_errors:
  assumes "\<not> (\<exists>i. map_of d ''created_at'' = Some (PInt i) \<and> float_limit \<le> \<bar>i\<bar>)"
  shows "raises_only is_shape_error (record_from_dict d)"
  unfolding record_from_dict_def
proof (intro raises_only_bind)
  fix created_at
  assume "(case map_of d ''created_at'' of None \<Rightarrow> Inr (PFloat (Fin 0))
      | Some v \<Rightarrow> if is_real_number v then Inr v else type_error ''record created_at is not a number'') = Inr created_at"
  then show "raises_only is_shape_error (to_float created_at)"
    using assms by (auto simp: to_float_def is_real_number_def type_error_def split: option.splits pvalue.splits if_splits)
qed (auto simp: read_key_def type_error_def is_shape_error_def read_optional_text_def enum_member_def
      split: option.splits pvalue.splits)

lemma read_record_errors:
  assumes "\<not> oversized entry"
  shows "raises_only is_format_error (read_record entry i)"
proof (cases "text_mapping entry")
  case (Some d)
  then have "raises_only is_shape_error (record_from_dict d)"
    using assms by (intro record_from_dict_errors) (auto simp: oversized_def)
  then show ?thesis
    using Some by (auto simp: read_record_def is_format_error_def corrupt_def format_error_def raises_only_def split: sum.splits)
qed (simp add: read_record_def is_format_error_def corrupt_def format_error_def)

text \<open>
  Reading a recording never fails in any other way than with a format error, whatever the
  document: a wrong version, a missing or wrongly typed field, a malformed record. The exception is a
  creation time written as an integer too large for a float, which escapes as an overflow.
\<close>

theorem session_from_dict_refuses:
  assumes "session_from_dict ov v = Inl e" "\<And>d rs r. text_mapping v = Some d \<Longrightarrow> map_of d ''records'' = Some (PList rs) \<Longrightarrow> r \<in> set rs \<Longrightarrow> \<not> oversized r"
  shows "\<exists>message reason. e = FormatError message reason"
proof -
  have fe: "is_format_error (corrupt m)" "is_format_error (malformed n)" "is_format_error (format_error m n)" for m n
    by (simp_all add: is_format_error_def corrupt_def malformed_def format_error_def)
  have enum: "raises_only is_format_error (read_enum f members x)" for f and members :: "'a list" and x
    by (simp add: read_enum_def fe split: sum.split)
  have "raises_only is_format_error (session_from_dict ov v)"
  proof (cases "text_mapping v")
    case (Some d)
    have declared: "raises_only is_format_error (declared_format_version ''replay'' 1 d)"
      by (auto simp: declared_format_version_def fe split: option.splits pvalue.splits)
    have zero: "migrate_from ''replay'' 1 replay_migrations n d = Inr d" if "declared_format_version ''replay'' 1 d = Inr n" for n
      using that
      by (auto simp: declared_format_version_def migrate_from.simps [of "''replay''"] replay_migrations_def
          split: option.splits pvalue.splits if_splits)
    have migrated: "raises_only is_format_error (migrate_payload ''replay'' 1 replay_migrations d)"
      unfolding migrate_payload_def using declared zero by (intro raises_only_bind) auto
    have doc: "doc = dict_set ''format_version'' (PInt 1) d" if "migrate_payload ''replay'' 1 replay_migrations d = Inr doc" for doc
      using that zero by (auto simp: migrate_payload_def bind_result_eq_Inr)
    show ?thesis unfolding session_from_dict_def Some option.case
    proof (intro raises_only_bind raises_only_map migrated enum)
      fix doc :: payload and u k
      show "raises_only is_format_error (required_field doc k)" by (simp add: required_field_def fe)
    next
      fix doc assume "migrate_payload ''replay'' 1 replay_migrations d = Inr doc"
      note same = doc [OF this]
      fix raw p
      assume "(case field doc ''records'' of PList vs \<Rightarrow> Inr vs | _ \<Rightarrow> Inl (corrupt (py_repr ''records'' @ '' is not a list''))) = Inr raw"
        and p: "p \<in> set (enumerate 0 raw)"
      then have "map_of doc ''records'' = Some (PList raw)" by (auto simp: field_def split: option.splits pvalue.splits)
      then have raw: "map_of d ''records'' = Some (PList raw)" by (simp add: same dict_simps)
      obtain i entry where ie: "p = (i, entry)" by (cases p)
      then have "entry \<in> set raw" using p by (auto simp: in_set_enumerate_eq)
      then show "raises_only is_format_error (case p of (i, entry) \<Rightarrow> read_record entry i)"
        using read_record_errors assms(2) [OF Some raw] ie by simp
    qed (auto simp: fe split: option.splits pvalue.splits)
  qed (simp add: session_from_dict_def fe)
  then show ?thesis using assms(1) by (simp add: is_format_error_def)
qed

text \<open>A truncated document, and one whose record has a creation time beyond every float.\<close>

theorem session_from_dict_refuses_witness:
  "\<exists>message reason. corrupt (''missing '' @ py_repr ''metadata'') = FormatError message reason"
proof (rule session_from_dict_refuses)
  show "session_from_dict no_overrides (PDict [(KText ''mode'', PText ''live''), (KText ''fallback'', PText ''error''), (KText ''records'', PList [])])
      = Inl (corrupt (''missing '' @ py_repr ''metadata''))"
    by code_simp
qed (auto simp: text_mapping_def key_text_def split: if_splits)

theorem oversized_time_escapes:
  "read_record (PDict [(KText ''kind'', PText ''tool''), (KText ''sequence'', PInt 0), (KText ''key'', PText ''k''),
       (KText ''created_at'', PInt (2 ^ 1024))]) 0
     = Inl (PyException ''OverflowError'' ''int too large to convert to float'')"
  by (simp add: read_record_def text_mapping_def key_text_def record_from_dict_def read_key_def read_optional_text_def enum_member_def
      kinds_def kind_value_def to_float_def is_real_number_def is_shape_error_def float_limit_def)

end
