(* ===== verification/Executor_Props.thy ===== *)
theory Executor_Props
  imports Executor Replay_Props
begin

text \<open>
  What holds of every call through the execution boundary: which events precede an invocation, what
  a refusal leaves untouched, and what a recording answers.
\<close>

section \<open>Steps that only talk to the outside\<close>

definition same_books :: "'w exec_state \<Rightarrow> 'w exec_state \<Rightarrow> bool" where
  "same_books st st' \<longleftrightarrow> xs_budget st' = xs_budget st \<and> xs_replay st' = xs_replay st"

definition quiet :: "'w exec_state \<Rightarrow> 'w exec_state \<Rightarrow> bool" where
  "quiet st st' \<longleftrightarrow> same_books st st' \<and> xs_log st' = xs_log st"

lemma quietI: "st' = st\<lparr>xs_world := w\<rparr> \<Longrightarrow> quiet st st'"
  by (simp add: quiet_def same_books_def)

lemma quiet_refl [simp]: "quiet st st"
  by (simp add: quiet_def same_books_def)

lemma exec_bind_cases:
  assumes "exec_bind m f st = (r, st')"
  obtains (failed) e where "m st = (Inl e, st')" "r = Inl e"
    | (returned) x st1 where "m st = (Inr x, st1)" "f x st1 = (r, st')"
  using assms by (auto simp: exec_bind_def split: prod.splits sum.splits)

lemma exec_bind_Inr:
  assumes "exec_bind m f st = (Inr y, st')"
  obtains x st1 where "m st = (Inr x, st1)" "f x st1 = (Inr y, st')"
  using assms by (rule exec_bind_cases) auto

lemma exec_return_iff [simp]: "exec_return x st = (r, st') \<longleftrightarrow> r = Inr x \<and> st' = st"
  by (auto simp: exec_return_def)

lemma exec_raise_iff [simp]: "exec_raise e st = (r, st') \<longleftrightarrow> r = Inl e \<and> st' = st"
  by (auto simp: exec_raise_def)

lemma exec_lift_iff [simp]: "exec_lift x st = (r, st') \<longleftrightarrow> x = r \<and> st' = st"
  by (auto simp: exec_lift_def)

lemma dispatch_quiet: "exec_dispatch cfg event p hooks st = (r, st') \<Longrightarrow> quiet st st'"
  by (auto simp: exec_dispatch_def intro: quietI split: option.splits prod.splits)

lemma before_hooks_quiet: "before_hooks cfg entry request sn hooks st = (r, st') \<Longrightarrow> quiet st st'"
  unfolding before_hooks_def
  by (erule exec_bind_cases) (auto dest: dispatch_quiet split: if_splits)

section \<open>Authorization\<close>

fun decision :: "exec_event \<Rightarrow> bool" where
  "decision (PolicyAsked p allowed approval) = True"
| "decision (PolicyFailed p) = True"
| "decision (ApprovalAsked granted) = True"
| "decision _ = False"

fun refusal :: "exec_event \<Rightarrow> bool" where
  "refusal (PolicyAsked p allowed approval) = (\<not> allowed)"
| "refusal (PolicyFailed p) = True"
| "refusal (ApprovalAsked granted) = (\<not> granted)"
| "refusal _ = False"

definition decides :: "'w exec_state \<Rightarrow> 'w exec_state \<Rightarrow> bool" where
  "decides st st' \<longleftrightarrow> same_books st st' \<and> (\<exists>evs. xs_log st' = xs_log st @ evs \<and> list_all decision evs)"

lemma decides_refl [simp]: "decides st st"
  by (simp add: decides_def same_books_def)

lemma decides_trans: "decides a b \<Longrightarrow> decides b c \<Longrightarrow> decides a c"
  by (auto simp: decides_def same_books_def)

lemma quiet_decides: "quiet a b \<Longrightarrow> decides a b"
  by (auto simp: decides_def quiet_def)

lemma log_decides: "decision e \<Longrightarrow> decides st (log_event e (st\<lparr>xs_world := w\<rparr>))"
  by (simp add: decides_def same_books_def log_event_def)

lemma dispatch_decides: "exec_dispatch cfg event p hooks st = (r, st') \<Longrightarrow> decides st st'"
  by (rule quiet_decides [OF dispatch_quiet])

definition granted_log :: "permission list \<Rightarrow> bool list \<Rightarrow> exec_event list" where
  "granted_log ps answers = map2 (\<lambda>p a. PolicyAsked p True a) ps answers"

lemma ask_permissions_decides:
  "ask_permissions cfg engine entry request hooks ps approval st = (r, st') \<Longrightarrow> decides st st'"
proof (induction ps arbitrary: approval st r st')
  case (Cons p ps)
  show ?case
  proof (cases "engine (policy_question entry request p) (xs_world st)")
    case (Pair answer w)
    show ?thesis
    proof (cases answer)
      case (Inl e)
      let ?st1 = "log_event (PolicyFailed p) (st\<lparr>xs_world := w\<rparr>)"
      have "decides st ?st1" by (rule log_decides) simp
      moreover have "decides ?st1 st'"
        using Cons.prems Pair Inl
        by (auto simp: Let_def split: if_splits elim!: exec_bind_cases dest: dispatch_decides)
      ultimately show ?thesis by (rule decides_trans)
    next
      case (Inr a)
      let ?st1 = "log_event (PolicyAsked p (pa_allowed a) (pa_approval_required a)) (st\<lparr>xs_world := w\<rparr>)"
      have first: "decides st ?st1" by (rule log_decides) simp
      have "decides ?st1 st'"
        using Cons.prems Pair Inr
        by (auto split: if_splits elim!: exec_bind_cases dest: dispatch_decides intro: decides_trans Cons.IH)
      with first show ?thesis by (rule decides_trans)
    qed
  qed
qed simp

lemma ask_permissions_granted:
  "ask_permissions cfg engine entry request hooks ps approval st = (Inr b, st') \<Longrightarrow>
   \<exists>answers. length answers = length ps \<and> xs_log st' = xs_log st @ granted_log ps answers
     \<and> b = (approval \<or> True \<in> set answers)"
proof (induction ps arbitrary: approval st)
  case (Cons p ps)
  obtain answer w where ask: "engine (policy_question entry request p) (xs_world st) = (answer, w)" by fastforce
  show ?case
  proof (cases answer)
    case (Inl e)
    then show ?thesis using Cons.prems ask by (auto simp: Let_def split: if_splits elim!: exec_bind_cases)
  next
    case (Inr a)
    let ?st1 = "log_event (PolicyAsked p (pa_allowed a) (pa_approval_required a)) (st\<lparr>xs_world := w\<rparr>)"
    obtain d st2 where step: "quiet ?st1 st2" "pa_allowed a"
        and rest: "ask_permissions cfg engine entry request hooks ps (approval \<or> pa_approval_required a) st2 = (Inr b, st')"
      using Cons.prems ask Inr by (auto split: if_splits elim!: exec_bind_cases dest: dispatch_quiet)
    obtain answers where "length answers = length ps" "xs_log st' = xs_log st2 @ granted_log ps answers"
        "b = ((approval \<or> pa_approval_required a) \<or> True \<in> set answers)"
      using Cons.IH [OF rest] by blast
    then show ?thesis using step
      by (intro exI [of _ "pa_approval_required a # answers"]) (auto simp: quiet_def log_event_def granted_log_def)
  qed
qed (simp add: granted_log_def)

lemma ask_approval_decides: "ask_approval cfg entry request args hooks st = (r, st') \<Longrightarrow> decides st st'"
  by (auto simp: ask_approval_def Let_def decides_def same_books_def quiet_def log_event_def
      split: prod.splits sum.splits if_splits elim!: exec_bind_cases dest!: dispatch_quiet)

lemma ask_approval_granted:
  "ask_approval cfg entry request args hooks st = (Inr u, st') \<Longrightarrow> xs_log st' = xs_log st @ [ApprovalAsked True]"
  by (auto simp: ask_approval_def Let_def log_event_def split: prod.splits sum.splits if_splits elim!: exec_bind_cases)

lemma authorize_decides:
  assumes "authorize cfg entry request args engine hooks st = (r, st')"
  shows "decides st st'"
proof -
  have approval: "decides a b" if "(if x then ask_approval cfg entry request args hooks else exec_return ()) a = (q, b)" for x a b q
    using that by (auto split: if_splits dest: ask_approval_decides)
  show ?thesis
    using assms unfolding authorize_def
    by (cases engine)
      (auto elim!: exec_bind_cases dest!: approval ask_permissions_decides dispatch_decides
        elim: decides_trans [THEN decides_trans] decides_trans)
qed

text \<open>The decisions that precede a call that is let through.\<close>

definition clearance :: "'x tool_entry \<Rightarrow> bool \<Rightarrow> exec_event list \<Rightarrow> bool" where
  "clearance entry consulted evs \<longleftrightarrow>
     (\<exists>ps answers.
        (if consulted then map_result parse_permission (tp_permissions (te_policy entry)) = Inr ps else ps = [])
        \<and> length answers = length ps
        \<and> evs = granted_log ps answers
                @ (if tp_approval_required (te_policy entry) \<or> True \<in> set answers then [ApprovalAsked True] else []))"

lemma authorize_granted:
  assumes "authorize cfg entry request args engine hooks st = (Inr u, st')"
  shows "\<exists>evs. xs_log st' = xs_log st @ evs \<and> clearance entry (engine \<noteq> None) evs"
proof -
  have approval: "xs_log b = xs_log a @ (if x then [ApprovalAsked True] else [])"
    if "(if x then ask_approval cfg entry request args hooks else exec_return ()) a = (Inr v, b)" for x a b v
    using that by (auto split: if_splits dest: ask_approval_granted)
  show ?thesis
  proof (cases engine)
    case None
    then show ?thesis
      using assms unfolding authorize_def clearance_def
      by (auto simp: granted_log_def elim!: exec_bind_Inr dest!: approval)
  next
    case (Some evaluate)
    obtain ps b st1 st2 where steps: "map_result parse_permission (tp_permissions (te_policy entry)) = Inr ps"
        "ask_permissions cfg evaluate entry request hooks ps (tp_approval_required (te_policy entry)) st = (Inr b, st1)"
        "quiet st1 st2" "(if b then ask_approval cfg entry request args hooks else exec_return ()) st2 = (Inr u, st')"
      using assms Some unfolding authorize_def
      by (auto elim!: exec_bind_Inr dest!: dispatch_quiet intro: that)
    obtain answers where "length answers = length ps" "xs_log st1 = xs_log st @ granted_log ps answers"
        "b = (tp_approval_required (te_policy entry) \<or> True \<in> set answers)"
      using ask_permissions_granted [OF steps(2)] by blast
    then show ?thesis using steps(1,3) approval [OF steps(4)] Some
      by (auto simp: clearance_def quiet_def)
  qed
qed

lemma clearance_no_refusal: "clearance entry consulted evs \<Longrightarrow> list_all (\<lambda>e. \<not> refusal e \<and> decision e) evs"
  by (auto simp: clearance_def granted_log_def list_all_iff in_set_zip)

section \<open>The phases of a call\<close>

definition charge_log :: "nat option \<Rightarrow> exec_event list" where
  "charge_log budget = (if budget = None then [] else [BudgetCharged])"

lemma charge_outcome:
  assumes "charge now now' budget st = (r, st')"
  shows "xs_replay st' = xs_replay st" "xs_world st' = xs_world st"
    and "xs_log st' = xs_log st @ charge_log budget \<or> (\<exists>e. r = Inl e) \<and> xs_log st' = xs_log st"
  using assms by (auto simp: charge_def charge_log_def log_event_def Let_def split: option.splits prod.splits sum.splits)

definition replay_phase ::
  "('h, 'x, 'w) executor \<Rightarrow> readings \<Rightarrow> 'x tool_entry \<Rightarrow> exec_request \<Rightarrow> 'x tool_snapshot \<Rightarrow> 'h hook_snapshot option
     \<Rightarrow> bool \<Rightarrow> pvalue \<Rightarrow> (exec_result, 'w) exec" where
  "replay_phase cfg clock entry request sn hooks roe args =
     exec_bind (exec_lift (boundary_key (xc_digest cfg) (xc_float_text cfg) [PText (kind_value KIND_TOOL), PText (te_name entry), args])) (\<lambda>key.
     exec_bind (ask_recording key) (\<lambda>response.
       if response \<noteq> PNone then replayed_call cfg clock entry request sn hooks roe response
       else live_call cfg clock entry request sn hooks roe key args))"

abbreviation engine_of :: "('h, 'x, 'w) executor \<Rightarrow> 'w policy_engine option \<Rightarrow> 'w policy_engine option" where
  "engine_of cfg policy \<equiv> (case policy of Some engine \<Rightarrow> Some engine | None \<Rightarrow> xc_policy cfg)"

lemma engine_of_None [simp]: "engine_of cfg policy \<noteq> None \<longleftrightarrow> policy \<noteq> None \<or> xc_policy cfg \<noteq> None"
  by (cases policy) auto

lemma tool_execute_cases:
  assumes "tool_execute cfg clock request sn budget hooks policy roe st = (r, st')"
  obtains (unknown) e where "ts_require (xr_name request) sn = Inl e" "r = Inl e" "st' = st"
    | (hooked) entry e where "ts_require (xr_name request) sn = Inr entry"
        "before_hooks cfg entry request sn hooks st = (Inl e, st')" "r = Inl e"
    | (refused) entry args st1 e where "ts_require (xr_name request) sn = Inr entry"
        "before_hooks cfg entry request sn hooks st = (Inr args, st1)"
        "authorize cfg entry request args (engine_of cfg policy) hooks st1 = (Inl e, st')" "r = Inl e"
    | (unaffordable) entry args st1 st2 e where "ts_require (xr_name request) sn = Inr entry"
        "before_hooks cfg entry request sn hooks st = (Inr args, st1)"
        "authorize cfg entry request args (engine_of cfg policy) hooks st1 = (Inr (), st2)"
        "charge (ck_consume clock) (ck_check clock) budget st2 = (Inl e, st')" "r = Inl e"
    | (cleared) entry args st1 st2 st3 where "ts_require (xr_name request) sn = Inr entry"
        "before_hooks cfg entry request sn hooks st = (Inr args, st1)"
        "authorize cfg entry request args (engine_of cfg policy) hooks st1 = (Inr (), st2)"
        "charge (ck_consume clock) (ck_check clock) budget st2 = (Inr (), st3)"
        "replay_phase cfg clock entry request sn hooks roe args st3 = (r, st')"
  using assms unfolding tool_execute_def replay_phase_def [symmetric]
  by (elim exec_bind_cases) (simp_all add: that)

lemma recorded_outcome:
  assumes "recorded clock result key entry args request st = (r, st')"
  shows "xs_log st' = xs_log st" "xs_world st' = xs_world st" "xs_budget st' = xs_budget st" "r = Inr x \<Longrightarrow> x = result"
  using assms by (auto simp: recorded_def Let_def split: option.splits if_splits prod.splits sum.splits)

lemma failed_call_log:
  "failed_call cfg clock entry request sn hooks roe key args status m st = (r, st') \<Longrightarrow> xs_log st' = xs_log st"
  unfolding failed_call_def dispatch_failure_def
  by (erule exec_bind_cases) (auto dest!: dispatch_quiet recorded_outcome(1) simp: quiet_def split: if_splits)

lemma replayed_call_quiet:
  "replayed_call cfg clock entry request sn hooks roe response st = (r, st') \<Longrightarrow> quiet st st'"
  unfolding replayed_call_def dispatch_failure_def dispatch_after_def
  by (erule exec_bind_cases) (auto elim!: exec_bind_cases dest!: dispatch_quiet simp: Let_def split: if_splits)

lemma invoke_tool_log:
  "invoke_tool cfg entry args request st = (r, st') \<Longrightarrow> xs_log st' = xs_log st \<or> (\<exists>input. xs_log st' = xs_log st @ [ToolInvoked input])"
  by (auto simp: invoke_tool_def Let_def log_event_def split: sum.splits prod.splits tool_run.splits)

lemma live_call_log:
  assumes "live_call cfg clock entry request sn hooks roe key args st = (r, st')"
  shows "xs_log st' = xs_log st \<or> (\<exists>input. xs_log st' = xs_log st @ [ToolInvoked input])"
proof -
  obtain out st1 where run: "invoke_tool cfg entry args request st = (out, st1)" by fastforce
  have "xs_log st' = xs_log st1"
    using assms run unfolding live_call_def dispatch_after_def
    by (cases out) (auto split: if_splits elim!: exec_bind_cases dest!: failed_call_log recorded_outcome(1) dispatch_quiet simp: quiet_def)
  then show ?thesis using invoke_tool_log [OF run] by simp
qed

lemma ask_recording_outcome:
  assumes "ask_recording key st = (r, st')"
  shows "xs_log st' = xs_log st \<or> xs_log st' = xs_log st @ [ReplayAnswered]"
  using assms by (auto simp: ask_recording_def log_event_def split: option.splits if_splits prod.splits sum.splits)

lemma replay_phase_cases:
  assumes "replay_phase cfg clock entry request sn hooks roe args st = (r, st')"
  obtains (stopped) e where "r = Inl e" "xs_log st' = xs_log st \<or> xs_log st' = xs_log st @ [ReplayAnswered]"
    | (replayed) key response st1 where
        "boundary_key (xc_digest cfg) (xc_float_text cfg) [PText (kind_value KIND_TOOL), PText (te_name entry), args] = Inr key"
        "ask_recording key st = (Inr response, st1)" "response \<noteq> PNone"
        "replayed_call cfg clock entry request sn hooks roe response st1 = (r, st')"
    | (live) key st1 where
        "boundary_key (xc_digest cfg) (xc_float_text cfg) [PText (kind_value KIND_TOOL), PText (te_name entry), args] = Inr key"
        "ask_recording key st = (Inr PNone, st1)" "live_call cfg clock entry request sn hooks roe key args st1 = (r, st')"
  using assms unfolding replay_phase_def
proof (cases rule: exec_bind_cases)
  case (returned key st1)
  then have key: "st1 = st" "boundary_key (xc_digest cfg) (xc_float_text cfg) [PText (kind_value KIND_TOOL), PText (te_name entry), args] = Inr key"
    by simp_all
  from returned(2) show ?thesis
  proof (cases rule: exec_bind_cases)
    case (failed e)
    then show ?thesis using ask_recording_outcome [OF failed(1)] key(1) stopped by simp
  next
    case (returned response st2)
    then show ?thesis using replayed live key by (cases "response = PNone") simp_all
  qed
qed (simp add: stopped)

lemma replay_phase_log:
  assumes "replay_phase cfg clock entry request sn hooks roe args st = (r, st')"
  shows "\<exists>answer. (answer = [] \<or> answer = [ReplayAnswered])
    \<and> (xs_log st' = xs_log st @ answer \<or> (\<exists>input. xs_log st' = xs_log st @ answer @ [ToolInvoked input]))"
  using assms
proof (cases rule: replay_phase_cases)
  case (stopped e)
  then show ?thesis by (metis append_Nil2)
next
  case (replayed key response st1)
  then show ?thesis using ask_recording_outcome [OF replayed(2)] replayed_call_quiet [OF replayed(4)]
    unfolding quiet_def by (metis append_Nil2)
next
  case (live key st1)
  then show ?thesis using ask_recording_outcome [OF live(2)] live_call_log [OF live(3)]
    by (metis append_Nil append_Nil2 append.assoc)
qed

definition answer_tail :: "nat option \<Rightarrow> exec_event list \<Rightarrow> bool" where
  "answer_tail budget tail \<longleftrightarrow> tail = []
     \<or> (\<exists>answer. (answer = [] \<or> answer = [ReplayAnswered])
          \<and> (tail = charge_log budget @ answer \<or> (\<exists>input. tail = charge_log budget @ answer @ [ToolInvoked input])))"

lemma answer_tail_undecided: "answer_tail budget tail \<Longrightarrow> e \<in> set tail \<Longrightarrow> \<not> decision e"
  by (auto simp: answer_tail_def charge_log_def split: if_splits)

lemma answer_tail_invoked:
  assumes "answer_tail budget tail" "ToolInvoked input \<in> set tail"
  shows "\<exists>answer. (answer = [] \<or> answer = [ReplayAnswered]) \<and> tail = charge_log budget @ answer @ [ToolInvoked input]"
proof -
  have "ToolInvoked input \<notin> set (charge_log budget)" by (simp add: charge_log_def)
  then show ?thesis using assms unfolding answer_tail_def by (elim disjE exE conjE) auto
qed

lemma refusal_decision: "refusal e \<Longrightarrow> decision e"
  by (cases e) auto

lemma cleared_unrefused:
  "clearance entry consulted evs \<Longrightarrow> answer_tail budget tail \<Longrightarrow> refusal e \<Longrightarrow> e \<notin> set (evs @ tail)"
  using clearance_no_refusal [of entry consulted evs] answer_tail_undecided [of budget tail e] refusal_decision [of e]
  by (auto simp: list_all_iff)

text \<open>What the log of a call may be: decisions alone, or a clearance, the charge and the answer.\<close>

lemma tool_execute_log:
  assumes "tool_execute cfg clock request sn budget hooks policy roe st = (r, st')" "xs_log st = []"
  shows "(\<exists>e. r = Inl e) \<and> xs_budget st' = xs_budget st \<and> xs_replay st' = xs_replay st \<and> list_all decision (xs_log st')
    \<or> (\<exists>entry evs tail. ts_require (xr_name request) sn = Inr entry
         \<and> clearance entry (policy \<noteq> None \<or> xc_policy cfg \<noteq> None) evs
         \<and> xs_log st' = evs @ tail \<and> answer_tail budget tail)"
  using assms(1)
proof (cases rule: tool_execute_cases)
  case (unknown e)
  then show ?thesis using assms(2) by simp
next
  case (hooked entry e)
  then show ?thesis using assms(2) by (auto dest!: before_hooks_quiet simp: quiet_def same_books_def)
next
  case (refused entry args st1 e)
  then show ?thesis using assms(2)
    by (auto dest!: before_hooks_quiet authorize_decides simp: quiet_def same_books_def decides_def)
next
  case (unaffordable entry args st1 st2 e)
  obtain evs where "xs_log st2 = evs" "clearance entry (policy \<noteq> None \<or> xc_policy cfg \<noteq> None) evs"
    using authorize_granted [OF unaffordable(3)] before_hooks_quiet [OF unaffordable(2)] assms(2) unfolding engine_of_None
    by (auto simp: quiet_def)
  moreover have "\<exists>tail. xs_log st' = xs_log st2 @ tail \<and> answer_tail budget tail"
    using charge_outcome(3) [OF unaffordable(4)] by (auto simp: answer_tail_def)
  ultimately show ?thesis using unaffordable(1) by blast
next
  case (cleared entry args st1 st2 st3)
  obtain evs where "xs_log st2 = evs" "clearance entry (policy \<noteq> None \<or> xc_policy cfg \<noteq> None) evs"
    using authorize_granted [OF cleared(3)] before_hooks_quiet [OF cleared(2)] assms(2) unfolding engine_of_None
    by (auto simp: quiet_def)
  moreover have "\<exists>tail. xs_log st' = xs_log st2 @ tail \<and> answer_tail budget tail"
    using charge_outcome(3) [OF cleared(4)] replay_phase_log [OF cleared(5)] by (auto simp: answer_tail_def)
  ultimately show ?thesis using cleared(1) by blast
qed

lemma tool_execute_log_cases:
  assumes "tool_execute cfg clock request sn budget hooks policy roe st = (r, st')" "xs_log st = []"
  obtains (stopped) e where "r = Inl e" "xs_budget st' = xs_budget st" "xs_replay st' = xs_replay st" "list_all decision (xs_log st')"
    | (through) entry evs tail where "ts_require (xr_name request) sn = Inr entry"
        "clearance entry (policy \<noteq> None \<or> xc_policy cfg \<noteq> None) evs" "xs_log st' = evs @ tail" "answer_tail budget tail"
  using tool_execute_log [OF assms] by blast

section \<open>An executor to evaluate on\<close>

definition demo_entry :: "string list \<Rightarrow> unit tool_entry" where
  "demo_entry permissions =
     \<lparr>te_id = ''t1'', te_tool = \<lparr>tl_name = Some ''search'', tl_description = Some '''', tl_callable = True, tl_async = True, tl_body = ()\<rparr>,
      te_policy = default_tool_policy\<lparr>tp_permissions := permissions\<rparr>, te_owner_id = ''p'', te_owner_name = ''p'', te_scope_id = 0,
      te_name = ''search'', te_description = '''', te_metadata = []\<rparr>"

definition demo_tools :: "string list \<Rightarrow> unit tool_snapshot" where
  "demo_tools permissions = \<lparr>ts_generation_id = ''g1'', ts_entries = [demo_entry permissions]\<rparr>"

definition demo_tool_request :: exec_request where
  "demo_tool_request = \<lparr>xr_name = ''search'', xr_args = PText ''q'', xr_tool_call_id = None, xr_generation_id = None,
     xr_run_id = Some ''r'', xr_user_id = None, xr_tenant_id = None, xr_metadata = []\<rparr>"

definition demo_executor :: "tool_run \<Rightarrow> (unit, unit, unit) executor" where
  "demo_executor run =
     \<lparr>xc_policy = None, xc_approvals = deny_approvals, xc_hooks = None, xc_invoke = (\<lambda>h p w. (Inr PNone, w)),
      xc_tools = (\<lambda>t input config timeout w. (run, w)), xc_redactor = new_redactor, xc_default_timeout = None,
      xc_digest = (\<lambda>s. ''k''), xc_float_text = (\<lambda>r. ''1.0'')\<rparr>"

definition demo_clock :: readings where
  "demo_clock = \<lparr>ck_consume = 0, ck_check = 0, ck_duration = 0, ck_record = 0\<rparr>"

definition demo_state :: "replay_session option \<Rightarrow> unit exec_state" where
  "demo_state s = \<lparr>xs_world = (), xs_budget = [], xs_replay = s, xs_log = []\<rparr>"

definition demo_output :: tool_run where
  "demo_output = Returned \<lparr>to_value = PText ''found'', to_content = None, to_artifact = None\<rparr>"

lemmas demo_exec_defs = demo_entry_def demo_tools_def demo_tool_request_def demo_executor_def demo_clock_def demo_state_def demo_output_def

lemma dispatch_no_hooks [simp]: "exec_dispatch cfg e p hooks st = (Inr \<lparr>hres_event = e, hres_payload = p, hres_stopped = False, hres_failures = []\<rparr>, st)"
  if "xc_hooks cfg = None"
  using that by (simp add: exec_dispatch_def)

text \<open>Without hooks, engine, approval and budget the call goes straight to its answer.\<close>

lemma open_call:
  assumes "ts_require (xr_name request) sn = Inr entry" "xc_hooks cfg = None" "xc_policy cfg = None"
    and "\<not> tp_approval_required (te_policy entry)"
  shows "tool_execute cfg clock request sn None hooks None roe st = replay_phase cfg clock entry request sn hooks roe (xr_args request) st"
  using assms
  by (simp add: tool_execute_def before_hooks_def authorize_def charge_def replay_phase_def exec_defs)

lemma engine_call:
  assumes "ts_require (xr_name request) sn = Inr entry" "xc_hooks cfg = None"
  shows "tool_execute cfg clock request sn None hooks (Some engine) roe st =
    (case authorize cfg entry request (xr_args request) (Some engine) hooks st of
       (Inl e, st1) \<Rightarrow> (Inl e, st1)
     | (Inr u, st1) \<Rightarrow> replay_phase cfg clock entry request sn hooks roe (xr_args request) st1)"
  using assms
  by (simp add: tool_execute_def before_hooks_def charge_def replay_phase_def exec_defs split: prod.split sum.split)

lemma demo_require [simp]: "ts_require (xr_name demo_tool_request) (demo_tools ps) = Inr (demo_entry ps)"
  by (simp add: demo_tool_request_def demo_tools_def demo_entry_def ts_require_def ts_get_def)

lemma demo_key [simp]:
  "boundary_key (xc_digest (demo_executor run)) ft [PText (kind_value KIND_TOOL), PText ''search'', xr_args demo_tool_request] = Inr ''k''"
  by (simp add: boundary_key_def stable_hash_def canonical_json_def demo_exec_defs kind_value_def)

lemma demo_open [simp]:
  "xc_hooks (demo_executor run) = None" "xc_policy (demo_executor run) = None" "tp_approval_required (te_policy (demo_entry ps)) = False"
  "tp_permissions (te_policy (demo_entry ps)) = ps"
  by (simp_all add: demo_executor_def demo_entry_def default_tool_policy_def)

lemma demo_names [simp]:
  "te_name (demo_entry ps) = ''search''" "stamp_generation demo_tool_request (demo_tools ps) = Some ''g1''"
  "xr_run_id demo_tool_request = Some ''r''"
  by (simp_all add: demo_exec_defs stamp_generation_def)

lemma demo_permission [simp]: "parse_permission ''net:read'' = Inr \<lparr>pm_name = ''net'', pm_resource = Some ''read''\<rparr>"
  by (simp add: parse_permission_def make_permission_def strip_def lstrip_def is_space_def)

lemmas answer_defs = replay_phase_def ask_recording_def live_call_def invoke_tool_def failed_call_def replayed_call_def
  dispatch_failure_def dispatch_after_def recorded_def exec_defs log_event_def Let_def

lemma demo_allowed:
  "tool_execute (demo_executor demo_output) demo_clock demo_tool_request (demo_tools [''net:read'']) None None
     (Some (\<lambda>q w. (Inr (allow_all_evaluate q), w))) False (demo_state None) =
   (Inr (result_of demo_clock (demo_entry [''net:read'']) demo_tool_request (demo_tools [''net:read'']) (success_of (PText ''found'', PNone))),
    demo_state None\<lparr>xs_log := [PolicyAsked \<lparr>pm_name = ''net'', pm_resource = Some ''read''\<rparr> True False, ToolInvoked (PText ''q'')]\<rparr>)"
  by (simp add: engine_call authorize_def allow_all_evaluate_def policy_answer_def answer_defs)
     (simp add: answer_defs demo_exec_defs tool_input_def split_output_def or_else_def)

lemma demo_denied:
  "tool_execute (demo_executor demo_output) demo_clock demo_tool_request (demo_tools [''net:read'']) None None
     (Some (\<lambda>q w. (Inr (deny_all_evaluate q), w))) False (demo_state None) = (r, st) \<Longrightarrow>
   xs_log st = [PolicyAsked \<lparr>pm_name = ''net'', pm_resource = Some ''read''\<rparr> False False]"
  by (auto simp: engine_call authorize_def deny_all_evaluate_def policy_answer_def exec_defs log_event_def demo_state_def)

section \<open>Properties\<close>

text \<open>C10: a tool is invoked at most once per call, and only after every permission its policy names was
  put to the policy engine and allowed, the approval gate has granted the call wherever the policy or
  an answer of the engine asks for approval, and the budget was charged, in that order.\<close>

theorem invocation_cleared:
  assumes "tool_execute cfg clock request sn budget hooks policy roe st = (r, st')" "xs_log st = []"
    and "ToolInvoked input \<in> set (xs_log st')"
  shows "\<exists>entry evs answer. ts_require (xr_name request) sn = Inr entry
    \<and> clearance entry (policy \<noteq> None \<or> xc_policy cfg \<noteq> None) evs
    \<and> (answer = [] \<or> answer = [ReplayAnswered])
    \<and> xs_log st' = evs @ (if budget = None then [] else [BudgetCharged]) @ answer @ [ToolInvoked input]"
  using assms(1,2)
proof (cases rule: tool_execute_log_cases)
  case (stopped e)
  then show ?thesis using assms(3) by (auto simp: list_all_iff)
next
  case (through entry evs tail)
  then have "ToolInvoked input \<in> set tail"
    using assms(3) clearance_no_refusal [OF through(2)] by (auto simp: list_all_iff)
  then show ?thesis using answer_tail_invoked [OF through(4)] through unfolding charge_log_def by metis
qed

theorem invocation_cleared_witness:
  "\<exists>entry evs answer. ts_require (xr_name demo_tool_request) (demo_tools [''net:read'']) = Inr entry
    \<and> clearance entry True evs \<and> (answer = [] \<or> answer = [ReplayAnswered])
    \<and> [PolicyAsked \<lparr>pm_name = ''net'', pm_resource = Some ''read''\<rparr> True False, ToolInvoked (PText ''q'')]
        = evs @ answer @ [ToolInvoked (PText ''q'')]"
  using invocation_cleared [OF demo_allowed, of "PText ''q''"] by (simp add: demo_state_def)

text \<open>C11: a refusal is final: when the engine denies a permission or fails to decide, or the gate does not
  grant the approval asked for, the call ends in an error, no tool is invoked, nothing is charged, and
  neither the budget nor the recording has changed.\<close>

theorem refusal_is_final:
  assumes "tool_execute cfg clock request sn budget hooks policy roe st = (r, st')" "xs_log st = []"
    and "refused \<in> set (xs_log st')" "refusal refused"
  shows "(\<exists>e. r = Inl e) \<and> xs_budget st' = xs_budget st \<and> xs_replay st' = xs_replay st
    \<and> BudgetCharged \<notin> set (xs_log st') \<and> (\<forall>input. ToolInvoked input \<notin> set (xs_log st'))"
  using assms(1,2)
proof (cases rule: tool_execute_log_cases)
  case (stopped e)
  then show ?thesis by (auto simp: list_all_iff)
next
  case (through entry evs tail)
  then show ?thesis using cleared_unrefused [OF through(2,4) assms(4)] assms(3) by simp
qed

theorem refusal_is_final_witness:
  "\<exists>r st. tool_execute (demo_executor demo_output) demo_clock demo_tool_request (demo_tools [''net:read'']) None None
      (Some (\<lambda>q w. (Inr (deny_all_evaluate q), w))) False (demo_state None) = (r, st)
    \<and> (\<exists>e. r = Inl e) \<and> xs_replay st = None"
proof -
  obtain r st where call: "tool_execute (demo_executor demo_output) demo_clock demo_tool_request (demo_tools [''net:read'']) None None
      (Some (\<lambda>q w. (Inr (deny_all_evaluate q), w))) False (demo_state None) = (r, st)" by fastforce
  show ?thesis
    using refusal_is_final [OF call, of "PolicyAsked \<lparr>pm_name = ''net'', pm_resource = Some ''read''\<rparr> False False"] demo_denied [OF call] call
    by (auto simp: demo_state_def)
qed

section \<open>Results\<close>

lemma failed_call_result:
  assumes "failed_call cfg clock entry request sn hooks roe key args status m st = (Inr result, st')"
  shows "result = result_of clock entry request sn (failure_of status m) \<and> \<not> roe"
  using assms unfolding failed_call_def by (auto split: if_splits elim!: exec_bind_Inr dest: recorded_outcome(4))

lemma live_call_result:
  assumes "live_call cfg clock entry request sn hooks roe key args st = (Inr result, st')"
  shows "\<exists>p. result = result_of clock entry request sn p \<and> (roe \<longrightarrow> pv_status p = PText ''ok'')"
proof -
  obtain out st1 where run: "invoke_tool cfg entry args request st = (out, st1)" by fastforce
  show ?thesis
  proof (cases out)
    case (Inl e)
    then obtain status m where "failed_call cfg clock entry request sn hooks roe key args status m st1 = (Inr result, st')"
      using assms run unfolding live_call_def by (auto split: if_splits)
    from failed_call_result [OF this] show ?thesis by blast
  next
    case (Inr content)
    then obtain st2 where "recorded clock (result_of clock entry request sn (success_of content)) key entry args request st1 = (Inr result, st2)"
      using assms run unfolding live_call_def by (auto elim!: exec_bind_Inr)
    from recorded_outcome(4) [OF this] have "result = result_of clock entry request sn (success_of content)" by simp
    then show ?thesis by (auto simp: success_of_def)
  qed
qed

lemma replayed_call_result:
  assumes "replayed_call cfg clock entry request sn hooks roe response st = (Inr result, st')"
  shows "\<exists>p. from_payload response = Inr p \<and> result = result_of clock entry request sn p \<and> (roe \<longrightarrow> pv_status p = PText ''ok'')"
  using assms unfolding replayed_call_def
  by (auto simp: Let_def result_of_def split: if_splits elim!: exec_bind_Inr)

text \<open>C35: whatever answers a call, the result carries the name of the registered tool, the identifiers of the
  request (the generation of the snapshot when the request names none) and the measured duration; and
  a caller that asks for exceptions only ever gets results whose status is ok.\<close>

theorem result_attributed:
  assumes "tool_execute cfg clock request sn budget hooks policy roe st = (Inr result, st')"
  shows "\<exists>entry. ts_require (xr_name request) sn = Inr entry \<and> xt_name result = te_name entry
    \<and> xt_tool_call_id result = xr_tool_call_id request \<and> xt_generation_id result = stamp_generation request sn
    \<and> xt_run_id result = xr_run_id request \<and> xt_duration result = ck_duration clock \<and> (roe \<longrightarrow> xt_ok result)"
  using assms
proof (cases rule: tool_execute_cases)
  case (cleared entry args st1 st2 st3)
  have "\<exists>p. result = result_of clock entry request sn p \<and> (roe \<longrightarrow> pv_status p = PText ''ok'')"
    using cleared(5) by (cases rule: replay_phase_cases) (blast dest: replayed_call_result live_call_result)+
  then show ?thesis using cleared(1) by (auto simp: result_of_def xt_ok_def)
qed auto

theorem result_attributed_witness:
  "let result = result_of demo_clock (demo_entry [''net:read'']) demo_tool_request (demo_tools [''net:read'']) (success_of (PText ''found'', PNone))
   in xt_name result = ''search'' \<and> xt_generation_id result = Some ''g1'' \<and> xt_run_id result = Some ''r''"
  using result_attributed [OF demo_allowed] by (simp add: Let_def)

section \<open>Replay\<close>

lemma authorize_books: "authorize cfg entry request args engine hooks st = (r, st') \<Longrightarrow> xs_replay st' = xs_replay st"
  using authorize_decides unfolding decides_def same_books_def by metis

lemma session_peek_member: "session_peek kind key s = Some rec \<Longrightarrow> rec \<in> set (ss_records s)"
  unfolding session_peek_def matching_def Let_def
  by (metis (no_types, lifting) filter_is_subset nth_mem option.inject option.distinct(1) subsetD)

lemma ask_recording_strict:
  assumes "ask_recording key st = (Inr response, st')" "xs_replay st = Some s" "is_replaying s" "ss_fallback s = FALLBACK_ERROR"
  shows "\<exists>rec. session_peek KIND_TOOL key s = Some rec \<and> response = re_response rec
    \<and> xs_replay st' = Some (s\<lparr>ss_cursor := dict_set (cursor_key KIND_TOOL key) (consumed KIND_TOOL key s + 1) (ss_cursor s)\<rparr>)
    \<and> xs_log st' = xs_log st @ [ReplayAnswered]"
  using assms
  by (auto simp: ask_recording_def has_remaining_def session_peek_def session_replay_def log_event_def Let_def split: if_splits)

text \<open>What a call has logged when it comes to its answer: decisions and at most the charge.\<close>

lemma before_answer_log:
  assumes "before_hooks cfg entry request sn hooks st = (Inr args, st1)" "xs_log st = []"
    and "authorize cfg entry request args engine hooks st1 = (Inr (), st2)"
    and "charge now now' budget st2 = (r, st3)"
  shows "ToolInvoked input \<notin> set (xs_log st3)" "ReplayAnswered \<notin> set (xs_log st3)"
proof -
  have "list_all (\<lambda>e. \<not> refusal e \<and> decision e) (xs_log st2)"
    using authorize_granted [OF assms(3)] before_hooks_quiet [OF assms(1)] assms(2) clearance_no_refusal
    by (auto simp: quiet_def)
  then have "e \<notin> set (xs_log st2)" if "\<not> decision e" for e
    using that by (auto simp: list_all_iff)
  moreover have "set (charge_log budget) \<subseteq> {BudgetCharged}" by (simp add: charge_log_def)
  ultimately show "ToolInvoked input \<notin> set (xs_log st3)" "ReplayAnswered \<notin> set (xs_log st3)"
    using charge_outcome(3) [OF assms(4)] by force+
qed

text \<open>A call that ends before its answer has logged decisions alone, and at most the charge.\<close>

lemma stopped_early_log:
  assumes "tool_execute cfg clock request sn budget hooks policy roe st = (r, st')" "xs_log st = []"
  obtains (early) e where "r = Inl e" "\<forall>input. ToolInvoked input \<notin> set (xs_log st')" "ReplayAnswered \<notin> set (xs_log st')"
    | (answered) entry args st1 st3 where "ts_require (xr_name request) sn = Inr entry"
        "before_hooks cfg entry request sn hooks st = (Inr args, st1)" "xs_replay st3 = xs_replay st"
        "\<forall>input. ToolInvoked input \<notin> set (xs_log st3)" "ReplayAnswered \<notin> set (xs_log st3)"
        "replay_phase cfg clock entry request sn hooks roe args st3 = (r, st')"
  using assms(1)
proof (cases rule: tool_execute_cases)
  case (unknown e)
  then show ?thesis using early assms(2) by simp
next
  case (hooked entry e)
  then show ?thesis using early before_hooks_quiet [OF hooked(2)] assms(2) by (simp add: quiet_def)
next
  case (refused entry args st1 e)
  obtain evs where "xs_log st' = evs" "list_all decision evs"
    using authorize_decides [OF refused(3)] before_hooks_quiet [OF refused(2)] assms(2)
    by (auto simp: decides_def quiet_def)
  then show ?thesis using early refused(4) by (fastforce simp: list_all_iff)
next
  case (unaffordable entry args st1 st2 e)
  then show ?thesis
    using early before_answer_log [OF unaffordable(2) assms(2) unaffordable(3,4)] by blast
next
  case (cleared entry args st1 st2 st3)
  have "xs_replay st3 = xs_replay st"
    using before_hooks_quiet [OF cleared(2)] authorize_books [OF cleared(3)] charge_outcome(1) [OF cleared(4)]
    by (simp add: quiet_def same_books_def)
  then show ?thesis
    using answered [OF cleared(1,2) _ _ _ cleared(5)] before_answer_log [OF cleared(2) assms(2) cleared(3,4)] by blast
qed

text \<open>C15: a replay that does not fall back to live execution runs no tool, whether the call returns or raises,
  provided that every record has a response other than null (a null response does run the tool, see
  \<open>empty_response_runs_tool\<close>). Each call that returns is answered by the next unconsumed record of its
  key, with the recorded status, content, artifact and error, and consumes exactly that record.\<close>

theorem strict_replay_answers:
  assumes "tool_execute cfg clock request sn budget hooks policy roe st = (r, st')" "xs_log st = []"
    and "xs_replay st = Some s" "is_replaying s" "ss_fallback s = FALLBACK_ERROR"
    and "list_all (\<lambda>rec. re_response rec \<noteq> PNone) (ss_records s)"
  shows "(\<forall>input. ToolInvoked input \<notin> set (xs_log st'))
    \<and> (\<forall>result. r = Inr result \<longrightarrow> (\<exists>entry args st1 key rec p. ts_require (xr_name request) sn = Inr entry
        \<and> before_hooks cfg entry request sn hooks st = (Inr args, st1)
        \<and> boundary_key (xc_digest cfg) (xc_float_text cfg) [PText ''tool'', PText (te_name entry), args] = Inr key
        \<and> session_peek KIND_TOOL key s = Some rec \<and> from_payload (re_response rec) = Inr p
        \<and> result = result_of clock entry request sn p
        \<and> xs_replay st' = Some (s\<lparr>ss_cursor := dict_set (cursor_key KIND_TOOL key) (consumed KIND_TOOL key s + 1) (ss_cursor s)\<rparr>)))"
  using assms(1,2)
proof (cases rule: stopped_early_log)
  case (answered entry args st1 st3)
  have st3: "xs_replay st3 = Some s" using answered(3) assms(3) by simp
  from answered(6) show ?thesis
  proof (cases rule: replay_phase_cases)
    case (stopped e)
    then show ?thesis using answered(4) by auto
  next
    case (replayed key response st4)
    obtain rec where rec: "session_peek KIND_TOOL key s = Some rec" "response = re_response rec"
      "xs_replay st4 = Some (s\<lparr>ss_cursor := dict_set (cursor_key KIND_TOOL key) (consumed KIND_TOOL key s + 1) (ss_cursor s)\<rparr>)"
      "xs_log st4 = xs_log st3 @ [ReplayAnswered]"
      using ask_recording_strict [OF replayed(2) st3 assms(4,5)] by blast
    have quiet: "quiet st4 st'" by (rule replayed_call_quiet [OF replayed(4)])
    then have none: "\<forall>input. ToolInvoked input \<notin> set (xs_log st')"
      using answered(4) rec(4) by (simp add: quiet_def)
    have replay: "xs_replay st' = xs_replay st4" using quiet by (simp add: quiet_def same_books_def)
    have "\<exists>p. from_payload (re_response rec) = Inr p \<and> result = result_of clock entry request sn p"
      if "r = Inr result" for result
      using replayed_call_result [OF replayed(4) [unfolded that]] rec(2) by blast
    then show ?thesis
      using none replay rec(1,3) answered(1,2) replayed(1) by (simp add: kind_value_def)
  next
    case (live key st4)
    obtain rec where "session_peek KIND_TOOL key s = Some rec" "PNone = re_response rec"
      using ask_recording_strict [OF live(2) st3 assms(4,5)] by blast
    then show ?thesis using assms(6) session_peek_member by (force simp: list_all_iff)
  qed
qed auto

definition demo_recording :: "pvalue \<Rightarrow> replay_session" where
  "demo_recording response = (new_session MODE_REPLAY FALLBACK_ERROR new_redactor [])
     \<lparr>ss_records := [\<lparr>re_kind = KIND_TOOL, re_sequence = 0, re_key = ''k'', re_request = [], re_response = response,
        re_generation_id = None, re_run_id = None, re_created_at = Fin 0\<rparr>]\<rparr>"

definition demo_response :: pvalue where
  "demo_response = PDict [(KText ''status'', PText ''ok''), (KText ''content'', PText ''then'')]"

lemma demo_from_payload: "from_payload demo_response =
    Inr \<lparr>pv_status = PText ''ok'', pv_content = PText ''then'', pv_artifact = PNone, pv_error = PNone, pv_redacted = False\<rparr>"
  by (simp add: from_payload_def demo_response_def mapping_items_def key_class_def item_get_def check_duration_def)

lemma demo_peek:
  "session_peek KIND_TOOL ''k'' (demo_recording response) = Some (ss_records (demo_recording response) ! 0)"
  "consumed KIND_TOOL ''k'' (demo_recording response) = 0"
  by (simp_all add: session_peek_def demo_recording_def new_session_def matching_def consumed_def dict_get_or_def)

lemma demo_session_replay:
  "session_replay KIND_TOOL ''k'' (demo_recording response) = (Inr (ss_records (demo_recording response) ! 0),
     (demo_recording response)\<lparr>ss_cursor := dict_set (cursor_key KIND_TOOL ''k'') 1 (ss_cursor (demo_recording response))\<rparr>)"
  by (simp add: session_replay_def demo_recording_def new_session_def matching_def consumed_def dict_get_or_def)

lemma demo_replayed:
  "\<exists>st'. tool_execute (demo_executor demo_output) demo_clock demo_tool_request (demo_tools []) None None None False
      (demo_state (Some (demo_recording demo_response)))
    = (Inr (result_of demo_clock (demo_entry []) demo_tool_request (demo_tools [])
        \<lparr>pv_status = PText ''ok'', pv_content = PText ''then'', pv_artifact = PNone, pv_error = PNone, pv_redacted = False\<rparr>), st')"
proof -
  have replaying: "is_replaying (demo_recording demo_response)" "ss_fallback (demo_recording demo_response) = FALLBACK_ERROR"
    "re_response (ss_records (demo_recording demo_response) ! 0) = demo_response"
    by (simp_all add: is_replaying_def demo_recording_def new_session_def)
  show ?thesis
    using demo_peek [of demo_response] demo_session_replay [of demo_response] demo_from_payload replaying
    by (simp add: open_call replay_phase_def replayed_call_def ask_recording_def has_remaining_def dispatch_after_def log_event_def result_of_def exec_defs demo_state_def)
       (simp add: demo_response_def result_of_def)
qed

text \<open>A key the recording does not hold: the call raises, and no tool runs either.\<close>

definition other_recording :: replay_session where
  "other_recording = (demo_recording demo_response)
     \<lparr>ss_records := map (\<lambda>r. r\<lparr>re_key := ''other''\<rparr>) (ss_records (demo_recording demo_response))\<rparr>"

lemma demo_missed:
  "\<exists>m st'. tool_execute (demo_executor demo_output) demo_clock demo_tool_request (demo_tools []) None None None False
      (demo_state (Some other_recording)) = (Inl (ReplayMismatch m), st')"
  by (simp add: open_call replay_phase_def ask_recording_def has_remaining_def exec_defs demo_state_def session_peek_def
      other_recording_def demo_recording_def new_session_def matching_def consumed_def dict_get_or_def is_replaying_def)

theorem strict_replay_answers_witness:
  "(\<exists>result st'. tool_execute (demo_executor demo_output) demo_clock demo_tool_request (demo_tools []) None None None False
      (demo_state (Some (demo_recording demo_response))) = (Inr result, st')
      \<and> xt_content result = PText ''then'' \<and> (\<forall>input. ToolInvoked input \<notin> set (xs_log st')))
   \<and> (\<exists>m st'. tool_execute (demo_executor demo_output) demo_clock demo_tool_request (demo_tools []) None None None False
      (demo_state (Some other_recording)) = (Inl (ReplayMismatch m), st') \<and> (\<forall>input. ToolInvoked input \<notin> set (xs_log st')))"
proof -
  obtain st' where hit: "tool_execute (demo_executor demo_output) demo_clock demo_tool_request (demo_tools []) None None None False
      (demo_state (Some (demo_recording demo_response)))
    = (Inr (result_of demo_clock (demo_entry []) demo_tool_request (demo_tools [])
        \<lparr>pv_status = PText ''ok'', pv_content = PText ''then'', pv_artifact = PNone, pv_error = PNone, pv_redacted = False\<rparr>), st')"
    using demo_replayed by blast
  obtain m st2 where miss: "tool_execute (demo_executor demo_output) demo_clock demo_tool_request (demo_tools []) None None None False
      (demo_state (Some other_recording)) = (Inl (ReplayMismatch m), st2)" using demo_missed by blast
  have strict: "is_replaying (demo_recording demo_response)" "ss_fallback (demo_recording demo_response) = FALLBACK_ERROR"
    "list_all (\<lambda>rec. re_response rec \<noteq> PNone) (ss_records (demo_recording demo_response))"
    "is_replaying other_recording" "ss_fallback other_recording = FALLBACK_ERROR"
    "list_all (\<lambda>rec. re_response rec \<noteq> PNone) (ss_records other_recording)"
    by (simp_all add: demo_recording_def other_recording_def new_session_def is_replaying_def demo_response_def)
  have "\<forall>input. ToolInvoked input \<notin> set (xs_log st')"
    using strict_replay_answers [OF hit _ _ strict(1-3)] by (simp add: demo_state_def)
  moreover have "\<forall>input. ToolInvoked input \<notin> set (xs_log st2)"
    using strict_replay_answers [OF miss _ _ strict(4-6)] by (simp add: demo_state_def)
  ultimately show ?thesis using hit miss by (auto simp: result_of_def)
qed

section \<open>What was recorded live is what a replay answers\<close>

lemma from_payload_to_payload:
  "from_payload (as_dict (to_payload result)) =
     Inr \<lparr>pv_status = xt_status result, pv_content = xt_content result, pv_artifact = xt_artifact result,
          pv_error = xt_error result, pv_redacted = xt_redacted result\<rparr>"
  by (simp add: from_payload_def as_dict_def to_payload_def mapping_items_def key_class_def item_get_def check_duration_def
      is_real_number_def to_float_def)

lemma result_of_again:
  "result = result_of clock entry request sn p \<Longrightarrow>
   result_of clock' entry request sn \<lparr>pv_status = xt_status result, pv_content = xt_content result, pv_artifact = xt_artifact result,
     pv_error = xt_error result, pv_redacted = xt_redacted result\<rparr> = result\<lparr>xt_duration := ck_duration clock'\<rparr>"
  by (simp add: result_of_def)

definition recorded_call :: "readings \<Rightarrow> string \<Rightarrow> 'x tool_entry \<Rightarrow> pvalue \<Rightarrow> exec_request \<Rightarrow> exec_result \<Rightarrow> replay_session \<Rightarrow> replay_record" where
  "recorded_call clock key entry args request result s = record_of (ck_record clock)
     \<lparr>bc_kind = KIND_TOOL, bc_key = key, bc_request = [(''tool'', PText (te_name entry)), (''args'', args)],
      bc_response = as_dict (to_payload result), bc_generation_id = xr_generation_id request, bc_run_id = xr_run_id request\<rparr> s"

lemma recorded_recording:
  assumes "xs_replay st = Some s" "is_recording s"
  shows "recorded clock result key entry args request st =
    (Inr result, st\<lparr>xs_replay := Some (s\<lparr>ss_records := ss_records s @ [recorded_call clock key entry args request result s]\<rparr>)\<rparr>)"
  using assms by (simp add: recorded_def recorded_call_def session_record_def Let_def)

lemma live_call_records:
  assumes "live_call cfg clock entry request sn hooks roe key args st = (Inr result, st')"
    and "xs_replay st = Some s" "is_recording s"
  shows "xs_replay st' = Some (s\<lparr>ss_records := ss_records s @ [recorded_call clock key entry args request result s]\<rparr>)"
proof -
  obtain out st1 where run: "invoke_tool cfg entry args request st = (out, st1)" by fastforce
  then have st1: "xs_replay st1 = Some s"
    using assms(2) by (auto simp: invoke_tool_def log_event_def Let_def split: sum.splits prod.splits tool_run.splits)
  have rec: "xs_replay b = Some (s\<lparr>ss_records := ss_records s @ [recorded_call clock key entry args request x s]\<rparr>)"
    if "recorded clock q key entry args request a = (Inr x, b)" "xs_replay a = Some s" for a b q x
    using that(1) by (auto simp: recorded_recording [OF that(2) assms(3)])
  show ?thesis
  proof (cases out)
    case (Inl e)
    then obtain status m where "failed_call cfg clock entry request sn hooks roe key args status m st1 = (Inr result, st')"
      using assms(1) run unfolding live_call_def by (auto split: if_splits)
    then obtain hr st2 where f: "dispatch_failure cfg entry request hooks (PText (fst m)) st1 = (Inr hr, st2)"
      "recorded clock (result_of clock entry request sn (failure_of status m)) key entry args request st2 = (Inr result, st')"
      unfolding failed_call_def by (auto elim!: exec_bind_Inr split: if_splits)
    have "xs_replay st2 = Some s"
      using dispatch_quiet [OF f(1) [unfolded dispatch_failure_def]] st1 by (simp add: quiet_def same_books_def)
    with f(2) show ?thesis by (rule rec)
  next
    case (Inr out')
    then obtain hr st2 where f: "recorded clock (result_of clock entry request sn (success_of out')) key entry args request st1 = (Inr result, st2)"
      "dispatch_after cfg entry request hooks result st2 = (Inr hr, st')"
      using assms(1) run unfolding live_call_def by (auto elim!: exec_bind_Inr)
    have "xs_replay st' = xs_replay st2"
      using dispatch_quiet [OF f(2) [unfolded dispatch_after_def]] by (simp add: quiet_def same_books_def)
    with rec [OF f(1) st1] show ?thesis by simp
  qed
qed

text \<open>A replayed result is returned, unless the hook dispatched after it raises.\<close>

lemma replayed_call_returns:
  assumes "replayed_call cfg clock entry request sn hooks False response st = (r, st')" "from_payload response = Inr p"
  obtains "r = Inr (result_of clock entry request sn p)" "quiet st st'"
    | e event q where "r = Inl e" "event \<in> {AFTER_TOOL_EXECUTE, TOOL_ERROR}" "exec_dispatch cfg event q hooks st = (Inl e, st')"
proof (cases r)
  case (Inl e)
  then have "\<exists>event q. event \<in> {AFTER_TOOL_EXECUTE, TOOL_ERROR} \<and> exec_dispatch cfg event q hooks st = (Inl e, st')"
    using assms unfolding replayed_call_def dispatch_failure_def dispatch_after_def
    by (elim exec_bind_cases; simp add: Let_def split: if_splits; elim exec_bind_cases; simp; blast)
  then show ?thesis using that(2) [OF Inl] by blast
next
  case (Inr x)
  then show ?thesis
    using replayed_call_result [OF assms(1) [unfolded Inr]] replayed_call_quiet [OF assms(1)] assms(2) that(1) by auto
qed

text \<open>The session in replay mode, with the calls of one key in \<open>rs\<close> consumed.\<close>

definition answering :: "string \<Rightarrow> replay_record list \<Rightarrow> replay_session \<Rightarrow> replay_session" where
  "answering key rs s = s\<lparr>ss_mode := MODE_REPLAY, ss_cursor := [(cursor_key KIND_TOOL key, length (matching KIND_TOOL key rs))]\<rparr>"

lemma answering_step:
  assumes "re_kind rec = KIND_TOOL" "re_key rec = key" "re_response rec \<noteq> PNone"
  shows "ask_recording key (other\<lparr>xs_replay := Some (answering key rs (s\<lparr>ss_records := rs @ [rec]\<rparr>))\<rparr>)
    = (Inr (re_response rec), other\<lparr>xs_replay := Some (answering key (rs @ [rec]) (s\<lparr>ss_records := rs @ [rec]\<rparr>)),
         xs_log := xs_log other @ [ReplayAnswered]\<rparr>)"
  using assms
  by (simp add: ask_recording_def has_remaining_def session_peek_def session_replay_def consumed_def answering_def
      dict_get_or_def is_replaying_def matching_def log_event_def Let_def)

lemma answering_ask:
  assumes "xs_replay st = Some (answering key rs (s\<lparr>ss_records := rs @ [rec]\<rparr>))"
    and "re_kind rec = KIND_TOOL" "re_key rec = key" "re_response rec \<noteq> PNone"
  shows "ask_recording key st = (Inr (re_response rec),
     st\<lparr>xs_replay := Some (answering key (rs @ [rec]) (s\<lparr>ss_records := rs @ [rec]\<rparr>)), xs_log := xs_log st @ [ReplayAnswered]\<rparr>)"
proof -
  have "st\<lparr>xs_replay := Some (answering key rs (s\<lparr>ss_records := rs @ [rec]\<rparr>))\<rparr> = st" using assms(1) by simp
  with answering_step [OF assms(2-4), where other = st and rs = rs and s = s] show ?thesis by simp
qed


definition demo_empty_session :: replay_session where
  "demo_empty_session = new_session MODE_RECORD FALLBACK_ERROR new_redactor []"

lemma demo_live:
  "tool_execute (demo_executor run) demo_clock demo_tool_request (demo_tools []) None None None roe (demo_state (Some demo_empty_session)) =
   live_call (demo_executor run) demo_clock (demo_entry []) demo_tool_request (demo_tools []) None roe ''k'' (PText ''q'') (demo_state (Some demo_empty_session))"
proof -
  have "\<not> is_replaying demo_empty_session" by (simp add: demo_empty_session_def new_session_def is_replaying_def)
  moreover have "xr_args demo_tool_request = PText ''q''" by (simp add: demo_tool_request_def)
  ultimately show ?thesis using demo_key [of run] by (simp add: open_call replay_phase_def ask_recording_def exec_defs demo_state_def)
qed

lemma redact_none [simp]: "redact_text new_redactor s = s"
  by (simp add: redact_text_def new_redactor_def)

lemma result_names_public:
  "\<not> secret_key ''name''" "\<not> secret_key ''status''" "\<not> secret_key ''content''" "\<not> secret_key ''artifact''" "\<not> secret_key ''error''"
  "\<not> secret_key ''duration_seconds''" "\<not> secret_key ''tool_call_id''" "\<not> secret_key ''generation_id''" "\<not> secret_key ''run_id''"
  "\<not> secret_key ''redacted''"
  by code_simp+

text \<open>An executor with a hook that rewrites the arguments, and a policy engine.\<close>

definition guard_hooks :: "unit hook_registry" where
  "guard_hooks = snd (hook_insert ''1'' 0
     \<lparr>hq_event = BEFORE_TOOL_EXECUTE, hq_handler = (), hq_handler_name = ''trim'', hq_mode = TRANSFORM, hq_priority = 0,
      hq_error_policy = RAISE_ERROR, hq_owner_id = ''p''\<rparr> new_hook_registry)"

definition guarded_executor :: "tool_run \<Rightarrow> (unit, unit, unit) executor" where
  "guarded_executor run = (demo_executor run)
     \<lparr>xc_policy := Some (\<lambda>q w. (Inr (allow_all_evaluate q), w)), xc_hooks := Some guard_hooks,
      xc_invoke := (\<lambda>h p w. (Inr (PDict [(KText ''args'', PText ''trimmed'')]), w))\<rparr>"

lemmas guard_defs = guarded_executor_def guard_hooks_def hook_insert_def new_hook_registry_def hook_dispatch_def hook_handlers_def

lemma guarded_before:
  "before_hooks (guarded_executor run) (demo_entry ps) demo_tool_request (demo_tools ps) None (demo_state x)
     = (Inr (PText ''trimmed''), demo_state x)"
  by (simp add: before_hooks_def exec_dispatch_def guard_defs exec_defs mapping_payload_def demo_state_def key_text_def Let_def)

lemma guarded_dispatch [simp]:
  "exec_dispatch (guarded_executor run) event p None st =
     (Inr \<lparr>hres_event = event, hres_payload = frozen_mapping p, hres_stopped = False, hres_failures = []\<rparr>, st)"
  if "event \<noteq> BEFORE_TOOL_EXECUTE"
  using that by (simp add: exec_dispatch_def guard_defs Let_def)

definition guarded_log :: "replay_session \<Rightarrow> unit exec_state" where
  "guarded_log s = (demo_state (Some s))\<lparr>xs_log := [PolicyAsked \<lparr>pm_name = ''net'', pm_resource = Some ''read''\<rparr> True False]\<rparr>"

lemma guarded_authorize:
  "authorize (guarded_executor run) (demo_entry [''net:read'']) demo_tool_request args
     (Some (\<lambda>q w. (Inr (allow_all_evaluate q), w))) None (demo_state (Some s)) = (Inr (), guarded_log s)"
  by (simp add: authorize_def allow_all_evaluate_def policy_answer_def exec_defs log_event_def demo_state_def guarded_log_def)

lemma guarded_key:
  "boundary_key (xc_digest (guarded_executor run)) (xc_float_text (guarded_executor run))
     [PText ''tool'', PText ''search'', PText ''trimmed''] = Inr ''k''"
  by (simp add: boundary_key_def stable_hash_def canonical_json_def guarded_executor_def demo_executor_def)

abbreviation guarded_call :: "tool_run \<Rightarrow> replay_session \<Rightarrow> exec_result result \<times> unit exec_state" where
  "guarded_call run s \<equiv> tool_execute (guarded_executor run) demo_clock demo_tool_request (demo_tools [''net:read''])
     None None None False (demo_state (Some s))"

lemma guarded_call_phase:
  "guarded_call run s = exec_bind (ask_recording ''k'') (\<lambda>response.
       if response \<noteq> PNone then replayed_call (guarded_executor run) demo_clock (demo_entry [''net:read'']) demo_tool_request
         (demo_tools [''net:read'']) None False response
       else live_call (guarded_executor run) demo_clock (demo_entry [''net:read'']) demo_tool_request
         (demo_tools [''net:read'']) None False ''k'' (PText ''trimmed'')) (guarded_log s)"
proof -
  have "xc_policy (guarded_executor run) = Some (\<lambda>q w. (Inr (allow_all_evaluate q), w))"
    by (simp add: guarded_executor_def)
  then show ?thesis
    using guarded_key [of run]
    by (simp add: tool_execute_def guarded_before guarded_authorize charge_def exec_defs kind_value_def)
qed

lemma guarded_fields [simp]:
  "xc_tools (guarded_executor run) t input config timeout w = (run, w)"
  by (simp add: guarded_executor_def demo_executor_def)

definition guarded_result :: exec_result where
  "guarded_result = result_of demo_clock (demo_entry [''net:read'']) demo_tool_request (demo_tools [''net:read''])
     (success_of (PText ''found'', PNone))"

definition guarded_record :: replay_record where
  "guarded_record = recorded_call demo_clock ''k'' (demo_entry [''net:read'']) (PText ''trimmed'') demo_tool_request
     guarded_result demo_empty_session"

definition guarded_session :: replay_session where
  "guarded_session = demo_empty_session\<lparr>ss_records := [guarded_record]\<rparr>"

lemma empty_session:
  "ss_records demo_empty_session = []" "is_recording demo_empty_session" "\<not> is_replaying demo_empty_session"
  "ss_redactor demo_empty_session = new_redactor"
  by (simp_all add: demo_empty_session_def new_session_def is_recording_def is_replaying_def)

lemma guarded_live:
  "\<exists>st. guarded_call demo_output demo_empty_session = (Inr guarded_result, st) \<and> xs_replay st = Some guarded_session"
proof -
  have "xs_replay (guarded_log demo_empty_session) = Some demo_empty_session" by (simp add: guarded_log_def demo_state_def)
  then have "\<exists>st. live_call (guarded_executor demo_output) demo_clock (demo_entry [''net:read'']) demo_tool_request
      (demo_tools [''net:read'']) None False ''k'' (PText ''trimmed'') (guarded_log demo_empty_session) = (Inr guarded_result, st)
      \<and> xs_replay st = Some guarded_session"
    by (simp add: live_call_def invoke_tool_def tool_input_def demo_output_def split_output_def or_else_def log_event_def
        recorded_recording empty_session dispatch_after_def exec_defs Let_def guarded_result_def guarded_record_def guarded_session_def)
  moreover have "ask_recording ''k'' (guarded_log demo_empty_session) = (Inr PNone, guarded_log demo_empty_session)"
    by (simp add: ask_recording_def empty_session guarded_log_def demo_state_def)
  ultimately show ?thesis unfolding guarded_call_phase by (simp add: exec_bind_def)
qed

lemma guarded_clean:
  "redact_value new_redactor None (as_dict (to_payload guarded_result)) = as_dict (to_payload guarded_result)"
  using result_names_public
  by (simp add: guarded_result_def as_dict_def to_payload_def redact_value.simps redact_key_def key_text_def
      optional_text_def result_of_def success_of_def demo_exec_defs stamp_generation_def)

lemma guarded_replayed:
  "\<exists>st again. guarded_call NotAwaitable (answering ''k'' [] guarded_session) = (Inr again, st)"
proof -
  have "re_response guarded_record = as_dict (to_payload guarded_result)"
    by (simp add: guarded_record_def recorded_call_def record_of_def empty_session guarded_clean)
  moreover have "ask_recording ''k'' (guarded_log (answering ''k'' [] guarded_session)) = (Inr (re_response guarded_record),
      (guarded_log (answering ''k'' [] guarded_session))\<lparr>xs_replay := Some (answering ''k'' [guarded_record] guarded_session),
         xs_log := xs_log (guarded_log (answering ''k'' [] guarded_session)) @ [ReplayAnswered]\<rparr>)"
    unfolding guarded_session_def
    by (rule answering_ask [where rs = "[]", simplified])
       (simp_all add: guarded_log_def demo_state_def guarded_record_def recorded_call_def record_of_def as_dict_def redact_value.simps)
  ultimately show ?thesis
    unfolding guarded_call_phase
    by (simp add: exec_defs as_dict_def)
       (simp add: replayed_call_def from_payload_to_payload [unfolded as_dict_def] exec_defs Let_def dispatch_failure_def
          dispatch_after_def guarded_result_def result_of_def success_of_def)
qed


section \<open>Corners of the boundary\<close>

text \<open>A call of a tool costs a second of wall clock that it may not need: with less left it is refused, and charged.\<close>

theorem last_second_refused:
  "charge 0 0 (Some 0) (st\<lparr>xs_budget := snd (new_governor (Some (no_limits\<lparr>bl_wall_clock_seconds := Some (1 / 2)\<rparr>)) None 0 [])\<rparr>)
   = (Inl (BudgetExceeded ''budget exceeded for wall_clock_seconds''),
      log_event BudgetCharged (st\<lparr>xs_budget := [\<lparr>gv_limits = no_limits\<lparr>bl_wall_clock_seconds := Some (1 / 2)\<rparr>, gv_parent = None,
        gv_usage = (new_usage 0)\<lparr>bu_tool_calls := 1\<rparr>\<rparr>]\<rparr>))"
  by (simp add: charge_def new_governor_def gov_consume_def gov_check_def lineage_def default_amount_def validate_amount_def
      is_number_def number_value_def is_count_def gov_limit_def limit_for_def no_limits_def gov_consumed_def usage_consumed_def
      new_usage_def gov_record_up_def add_usage_def usage_add_def dimension_value_def Let_def)

text \<open>A recorded call without a response is consumed, and then the tool runs, although the replay must not fall back.\<close>

theorem empty_response_runs_tool:
  "ToolInvoked (PText ''q'') \<in> set (xs_log (snd (tool_execute (demo_executor demo_output) demo_clock demo_tool_request (demo_tools [])
     None None None False (demo_state (Some (demo_recording PNone))))))"
proof -
  have "is_replaying (demo_recording PNone)" "re_response (ss_records (demo_recording PNone) ! 0) = PNone"
    by (simp_all add: is_replaying_def demo_recording_def new_session_def)
  then show ?thesis
    using demo_session_replay [of PNone] demo_peek(1) [of PNone]
    by (simp add: open_call replay_phase_def ask_recording_def has_remaining_def exec_defs demo_state_def)
       (simp add: answer_defs demo_exec_defs tool_input_def demo_recording_def new_session_def
          is_recording_def is_replaying_def)
qed

text \<open>A failure that is raised to the caller is not recorded.\<close>

theorem raised_failure_unrecorded:
  "\<exists>m st'. tool_execute (demo_executor (Raised (PyException ''ValueError'' ''boom''))) demo_clock demo_tool_request (demo_tools [])
     None None None True (demo_state (Some demo_empty_session)) = (Inl (ToolExecutionError m), st') \<and> xs_replay st' = Some demo_empty_session"
  unfolding demo_live
  by (simp add: live_call_def invoke_tool_def demo_executor_def tool_input_def failed_call_def dispatch_failure_def exec_defs Let_def
      demo_state_def log_event_def is_timeout_def)

end
