(* ===== verification/Composition.thy ===== *)
theory Composition
  imports Plugins "HOL-Library.Sublist"
begin

text \<open>
  Composition scopes as desired state (\<open>composition.py\<close>, first part, and \<open>core/paths.py\<close>). A scope
  object is an index into the list of all scope objects ever created: a handle to a scope that was
  removed stays usable, as in the code. The tree is the dictionary from paths to objects together
  with the links between parents and children. Its owner, the harness, is present as the plugin
  registry the tree uninstalls from and as the flag \<open>invalidate\<close> sets.
\<close>

section \<open>Paths\<close>

definition slash :: char where
  "slash = CHR ''/''"

definition reserved_segment :: "string \<Rightarrow> bool" where
  "reserved_segment s \<longleftrightarrow> s = ''.'' \<or> s = ''..''"

definition check_segment :: "string \<Rightarrow> unit result" where
  "check_segment segment =
     (if segment = [] \<or> segment \<noteq> strip segment then
        Inl (ConfigurationError ''scope path segments must be non-empty and trimmed'')
      else if reserved_segment segment then Inl (ConfigurationError ''scope path segment is reserved'')
      else Inr ())"

definition canonical_scope_path :: "string \<Rightarrow> string result" where
  "canonical_scope_path path =
     (if path = [] \<or> hd path \<noteq> slash then Inl (ConfigurationError ''scope path must be an absolute path'')
      else if path = root_scope then Inr path
      else if last path = slash then Inl (ConfigurationError (''scope path must not end with '' @ py_repr [slash]))
      else bind_result (map_result check_segment (split_on slash (tl path))) (\<lambda>_. Inr path))"

definition join_path :: "string \<Rightarrow> string \<Rightarrow> string" where
  "join_path parent name = (if parent = root_scope then root_scope @ name else parent @ slash # name)"

definition validate_name :: "string \<Rightarrow> string result" where
  "validate_name name =
     (if name = [] \<or> name \<noteq> strip name then Inl (ConfigurationError ''composition scope name must not be empty'')
      else if slash \<in> set name then Inl (ConfigurationError (''composition scope name must not contain '' @ py_repr [slash]))
      else if reserved_segment name then Inl (ConfigurationError ''composition scope name is reserved'')
      else Inr name)"

text \<open>\<open>path.rpartition("/")\<close>: the text before and after the last separator.\<close>

definition before_last_slash :: "string \<Rightarrow> string" where
  "before_last_slash path = rev (tl (dropWhile (\<lambda>c. c \<noteq> slash) (rev path)))"

definition after_last_slash :: "string \<Rightarrow> string" where
  "after_last_slash path = rev (takeWhile (\<lambda>c. c \<noteq> slash) (rev path))"

definition is_within :: "string \<Rightarrow> string \<Rightarrow> bool" where
  "is_within path ancestor \<longleftrightarrow>
     (if ancestor = root_scope then True else path = ancestor \<or> prefix (ancestor @ [slash]) path)"

section \<open>Scope objects\<close>

record 'x comp_node =
  cn_name :: string
  cn_parent :: "nat option"
  cn_children :: "nat list"
  cn_capabilities :: "string list option"
  cn_tools :: "string list option"
  cn_metadata :: payload
  cn_requirements :: "(string, 'x requirement) dict"

record ('v, 'x, 'o, 'p) control =
  ct_registry :: "('v, 'x, 'o, 'p) plugin_registry"
  ct_nodes :: "'x comp_node list"
  ct_scopes :: "(string, nat) dict"
  ct_dirty :: bool

definition new_node :: "string \<Rightarrow> nat option \<Rightarrow> string list option \<Rightarrow> string list option \<Rightarrow> payload \<Rightarrow> 'x comp_node" where
  "new_node name parent capabilities tools metadata =
     \<lparr>cn_name = name, cn_parent = parent, cn_children = [], cn_capabilities = capabilities, cn_tools = tools,
      cn_metadata = frozen_mapping metadata, cn_requirements = []\<rparr>"

definition new_control :: "('v, 'x, 'o, 'p) control" where
  "new_control = \<lparr>ct_registry = new_plugin_registry, ct_nodes = [new_node ''root'' None None None []],
     ct_scopes = [(root_scope, 0)], ct_dirty = False\<rparr>"

text \<open>A parent is created before its children, so the index of a scope is enough fuel for its path.\<close>

fun path_upto :: "nat \<Rightarrow> 'x comp_node list \<Rightarrow> nat \<Rightarrow> string" where
  "path_upto 0 nodes i = root_scope"
| "path_upto (Suc n) nodes i =
     (case cn_parent (nodes ! i) of
        None \<Rightarrow> root_scope
      | Some p \<Rightarrow> join_path (path_upto n nodes p) (cn_name (nodes ! i)))"

definition node_path :: "'x comp_node list \<Rightarrow> nat \<Rightarrow> string" where
  "node_path nodes i = path_upto i nodes i"

definition update_node :: "nat \<Rightarrow> ('x comp_node \<Rightarrow> 'x comp_node) \<Rightarrow> ('v, 'x, 'o, 'p, 'm) control_scheme \<Rightarrow> ('v, 'x, 'o, 'p, 'm) control_scheme" where
  "update_node i f ct = ct\<lparr>ct_nodes := (ct_nodes ct)[i := f (ct_nodes ct ! i)]\<rparr>"

definition invalidate :: "('v, 'x, 'o, 'p, 'm) control_scheme \<Rightarrow> ('v, 'x, 'o, 'p, 'm) control_scheme" where
  "invalidate ct = ct\<lparr>ct_dirty := True\<rparr>"

definition set_metadata :: "nat \<Rightarrow> payload \<Rightarrow> ('v, 'x, 'o, 'p, 'm) control_scheme \<Rightarrow> ('v, 'x, 'o, 'p, 'm) control_scheme" where
  "set_metadata i metadata ct = invalidate (update_node i (\<lambda>n. n\<lparr>cn_metadata := frozen_mapping metadata\<rparr>) ct)"

definition scope_require ::
  "('v, 'x) packaging \<Rightarrow> nat \<Rightarrow> string \<Rightarrow> string \<Rightarrow> bool \<Rightarrow> ('v, 'x, 'o, 'p, 'm) control_scheme
     \<Rightarrow> 'x requirement result \<times> ('v, 'x, 'o, 'p, 'm) control_scheme" where
  "scope_require pk i name specifier optional ct =
     (case parse_requirement pk name (Inl specifier) optional None of
        Inl e \<Rightarrow> (Inl e, ct)
      | Inr req \<Rightarrow> (Inr req, invalidate (update_node i (\<lambda>n. n\<lparr>cn_requirements := dict_set name req (cn_requirements n)\<rparr>) ct)))"

definition drop_requirement :: "nat \<Rightarrow> string \<Rightarrow> ('v, 'x, 'o, 'p, 'm) control_scheme \<Rightarrow> bool \<times> ('v, 'x, 'o, 'p, 'm) control_scheme" where
  "drop_requirement i name ct =
     (if map_of (cn_requirements (ct_nodes ct ! i)) name = None then (False, ct)
      else (True, invalidate (update_node i (\<lambda>n. n\<lparr>cn_requirements := dict_pop name (cn_requirements n)\<rparr>) ct)))"

definition restrict_scope :: "nat \<Rightarrow> string list option \<Rightarrow> ('v, 'x, 'o, 'p, 'm) control_scheme \<Rightarrow> ('v, 'x, 'o, 'p, 'm) control_scheme" where
  "restrict_scope i view ct = invalidate (update_node i (\<lambda>n. n\<lparr>cn_capabilities := view\<rparr>) ct)"

definition scope_allows :: "nat \<Rightarrow> string \<Rightarrow> ('v, 'x, 'o, 'p, 'm) control_scheme \<Rightarrow> bool" where
  "scope_allows i name ct = (case cn_capabilities (ct_nodes ct ! i) of None \<Rightarrow> True | Some view \<Rightarrow> name \<in> set view)"

definition select_tools :: "nat \<Rightarrow> string list option \<Rightarrow> ('v, 'x, 'o, 'p, 'm) control_scheme \<Rightarrow> ('v, 'x, 'o, 'p, 'm) control_scheme" where
  "select_tools i view ct = invalidate (update_node i (\<lambda>n. n\<lparr>cn_tools := view\<rparr>) ct)"

definition exposes_tool :: "nat \<Rightarrow> string \<Rightarrow> ('v, 'x, 'o, 'p, 'm) control_scheme \<Rightarrow> bool" where
  "exposes_tool i name ct = (case cn_tools (ct_nodes ct ! i) of None \<Rightarrow> True | Some view \<Rightarrow> name \<in> set view)"

definition node_spec :: "'x comp_node list \<Rightarrow> nat \<Rightarrow> ('x, payload) scope_spec" where
  "node_spec nodes i =
     (let n = nodes ! i
      in \<lparr>ss_path = node_path nodes i, ss_name = cn_name n, ss_parent = map_option (node_path nodes) (cn_parent n),
          ss_capabilities = cn_capabilities n, ss_tools = cn_tools n,
          ss_requirements = map snd (sort_key fst (cn_requirements n)), ss_metadata = cn_metadata n\<rparr>)"

section \<open>The tree\<close>

text \<open>An object that is refused is not kept: it has no index.\<close>

definition tree_attach :: "'x comp_node \<Rightarrow> ('v, 'x, 'o, 'p, 'm) control_scheme \<Rightarrow> nat result \<times> ('v, 'x, 'o, 'p, 'm) control_scheme" where
  "tree_attach n ct =
     (let i = length (ct_nodes ct);
          nodes = ct_nodes ct @ [n];
          path = node_path nodes i
      in if map_of (ct_scopes ct) path \<noteq> None then (Inl (ConfigurationError ''duplicate composition scope path''), ct)
         else (case cn_parent n of
                 None \<Rightarrow> (Inl (PyException ''AssertionError'' []), ct)
               | Some parent \<Rightarrow> (Inr i, invalidate (ct\<lparr>
                   ct_nodes := nodes[parent := (nodes ! parent)\<lparr>cn_children := cn_children (nodes ! parent) @ [i]\<rparr>],
                   ct_scopes := dict_set path i (ct_scopes ct)\<rparr>))))"

definition comp_child ::
  "nat \<Rightarrow> string \<Rightarrow> string list option \<Rightarrow> string list option \<Rightarrow> payload \<Rightarrow> ('v, 'x, 'o, 'p, 'm) control_scheme
     \<Rightarrow> nat result \<times> ('v, 'x, 'o, 'p, 'm) control_scheme" where
  "comp_child parent name capabilities tools metadata ct =
     (case validate_name name of
        Inl e \<Rightarrow> (Inl e, ct)
      | Inr _ \<Rightarrow> tree_attach (new_node name (Some parent) capabilities tools metadata) ct)"

definition tree_get :: "string \<Rightarrow> ('v, 'x, 'o, 'p, 'm) control_scheme \<Rightarrow> nat option result" where
  "tree_get path ct = bind_result (canonical_scope_path path) (\<lambda>p. Inr (map_of (ct_scopes ct) p))"

lemma before_last_slash_shorter: "path \<noteq> [] \<Longrightarrow> length (before_last_slash path) < length path"
proof -
  assume "path \<noteq> []"
  then obtain c cs where path: "rev path = c # cs" by (metis list.exhaust rev_is_Nil_conv)
  have "length (tl (dropWhile P (c # cs))) < length (c # cs)" for P :: "char \<Rightarrow> bool"
    using length_dropWhile_le [of P "c # cs"] by (cases "dropWhile P (c # cs)") auto
  then show ?thesis using path by (metis before_last_slash_def length_rev)
qed

lemma canonical_ensure_shorter:
  assumes "canonical_scope_path path = Inr p" "p \<noteq> root_scope"
  shows "length (if before_last_slash p = [] then root_scope else before_last_slash p) < length path"
proof -
  have p: "path = p" "p \<noteq> []" "hd p = slash"
    using assms(1) by (auto simp: canonical_scope_path_def bind_result_eq_Inr split: if_splits)
  then have "length p > 1" using assms(2) by (cases p) (auto simp: root_scope_def slash_def)
  then show ?thesis using p before_last_slash_shorter [of p] by (simp add: root_scope_def)
qed

function tree_ensure ::
  "string \<Rightarrow> ('v, 'x, 'o, 'p, 'm) control_scheme \<Rightarrow> nat result \<times> ('v, 'x, 'o, 'p, 'm) control_scheme" where
  "tree_ensure path ct =
     (case canonical_scope_path path of
        Inl e \<Rightarrow> (Inl e, ct)
      | Inr p \<Rightarrow>
          (case map_of (ct_scopes ct) p of
             Some i \<Rightarrow> (Inr i, ct)
           | None \<Rightarrow>
               if p = root_scope then (Inr 0, ct)
               else (case tree_ensure (if before_last_slash p = [] then root_scope else before_last_slash p) ct of
                       (Inl e, ct') \<Rightarrow> (Inl e, ct')
                     | (Inr parent, ct') \<Rightarrow> comp_child parent (after_last_slash p) None None [] ct')))"
  by pat_completeness auto

termination
  by (relation "measure (\<lambda>(path, ct). length path)") (simp, simp only: in_measure prod.case, erule (1) canonical_ensure_shorter)

declare tree_ensure.simps [simp del]

datatype parent_ref = NoParent | ParentPath string | ParentScope nat

definition tree_child ::
  "string \<Rightarrow> parent_ref \<Rightarrow> string list option \<Rightarrow> string list option \<Rightarrow> payload \<Rightarrow> bool \<Rightarrow> ('v, 'x, 'o, 'p, 'm) control_scheme
     \<Rightarrow> nat result \<times> ('v, 'x, 'o, 'p, 'm) control_scheme" where
  "tree_child name parent capabilities tools metadata create_parents ct =
     (case (case parent of
              NoParent \<Rightarrow> (Inr 0, ct)
            | ParentScope i \<Rightarrow> (Inr i, ct)
            | ParentPath path \<Rightarrow>
                if create_parents then tree_ensure path ct
                else (case tree_get path ct of
                        Inl e \<Rightarrow> (Inl e, ct)
                      | Inr None \<Rightarrow> (Inl (ConfigurationError ''composition scope parent does not exist''), ct)
                      | Inr (Some i) \<Rightarrow> (Inr i, ct))) of
        (Inl e, ct') \<Rightarrow> (Inl e, ct')
      | (Inr i, ct') \<Rightarrow> comp_child i name capabilities tools metadata ct')"

text \<open>The pre-order walk from the root, children by name; children are younger than their parent.\<close>

fun walk_nodes :: "nat \<Rightarrow> 'x comp_node list \<Rightarrow> nat \<Rightarrow> nat list" where
  "walk_nodes 0 nodes i = [i]"
| "walk_nodes (Suc n) nodes i =
     i # concat (map (walk_nodes n nodes) (sort_key (\<lambda>j. cn_name (nodes ! j)) (cn_children (nodes ! i))))"

definition tree_ordered :: "('v, 'x, 'o, 'p, 'm) control_scheme \<Rightarrow> nat list" where
  "tree_ordered ct = walk_nodes (length (ct_nodes ct)) (ct_nodes ct) 0"

definition tree_paths :: "('v, 'x, 'o, 'p, 'm) control_scheme \<Rightarrow> string list" where
  "tree_paths ct = map (node_path (ct_nodes ct)) (tree_ordered ct)"

definition tree_specs :: "('v, 'x, 'o, 'p, 'm) control_scheme \<Rightarrow> ('x, payload) scope_spec list" where
  "tree_specs ct = map (node_spec (ct_nodes ct)) (tree_ordered ct)"

definition owner_uninstall :: "string \<Rightarrow> ('v, 'x, 'o, 'p, 'm) control_scheme \<Rightarrow> bool \<times> ('v, 'x, 'o, 'p, 'm) control_scheme" where
  "owner_uninstall entry ct =
     (case plugin_uninstall entry (ct_registry ct) of
        (removed, reg) \<Rightarrow> (removed, ct\<lparr>ct_registry := reg, ct_dirty := ct_dirty ct \<or> removed\<rparr>))"

definition remove_entries :: "string list \<Rightarrow> string list \<times> ('v, 'x, 'o, 'p, 'm) control_scheme \<Rightarrow> string list \<times> ('v, 'x, 'o, 'p, 'm) control_scheme" where
  "remove_entries entries start =
     fold (\<lambda>entry (removed, ct). case owner_uninstall entry ct of (gone, ct') \<Rightarrow> (if gone then removed @ [entry] else removed, ct'))
       entries start"

definition remove_node :: "nat \<Rightarrow> string list \<times> ('v, 'x, 'o, 'p, 'm) control_scheme \<Rightarrow> string list \<times> ('v, 'x, 'o, 'p, 'm) control_scheme" where
  "remove_node i start =
     (let path = node_path (ct_nodes (snd start)) i;
          (removed, ct) = remove_entries (entries_for_scope path (ct_registry (snd start))) start
      in (removed, ct\<lparr>ct_scopes := dict_pop path (ct_scopes ct)\<rparr>))"

definition remove_child :: "nat \<Rightarrow> nat \<Rightarrow> ('v, 'x, 'o, 'p, 'm) control_scheme \<Rightarrow> unit result \<times> ('v, 'x, 'o, 'p, 'm) control_scheme" where
  "remove_child p i ct =
     (if i \<in> set (cn_children (ct_nodes ct ! p)) then
        (Inr (), update_node p (\<lambda>n. n\<lparr>cn_children := remove1 i (cn_children n)\<rparr>) ct)
      else (Inl (PyException ''ValueError'' ''list.remove(x): x not in list''), ct))"

definition tree_remove :: "string \<Rightarrow> ('v, 'x, 'o, 'p, 'm) control_scheme \<Rightarrow> string list result \<times> ('v, 'x, 'o, 'p, 'm) control_scheme" where
  "tree_remove path ct =
     (if path = root_scope then (Inl (ConfigurationError ''the root composition scope cannot be removed''), ct)
      else (case canonical_scope_path path of
              Inl e \<Rightarrow> (Inl e, ct)
            | Inr p \<Rightarrow>
                (case map_of (ct_scopes ct) p of
                   None \<Rightarrow> (Inr [], ct)
                 | Some i \<Rightarrow>
                     (let nodes = ct_nodes ct;
                          inside = filter (\<lambda>j. is_within (node_path nodes j) p) (tree_ordered ct);
                          deepest_first = sort_key (\<lambda>j. - int (count_list (node_path nodes j) slash)) inside;
                          (removed, ct1) = fold remove_node deepest_first ([], ct)
                      in case cn_parent (nodes ! i) of
                           None \<Rightarrow> (Inr (sort removed), invalidate ct1)
                         | Some parent \<Rightarrow>
                             (case remove_child parent i ct1 of
                                (Inl e, ct2) \<Rightarrow> (Inl e, ct2)
                              | (Inr _, ct2) \<Rightarrow> (Inr (sort removed), invalidate ct2))))))"

section \<open>The life of a tree\<close>

text \<open>Any operation on any scope object ever created, removed or not; entries may come and go in between.\<close>

inductive tree_step :: "('v, 'x) packaging \<Rightarrow> ('v, 'x, 'o, 'p, 'm) control_scheme \<Rightarrow> ('v, 'x, 'o, 'p, 'm) control_scheme \<Rightarrow> bool" for pk where
  ts_child: "i < length (ct_nodes ct) \<Longrightarrow> comp_child i name capabilities tools metadata ct = (r, ct') \<Longrightarrow> tree_step pk ct ct'"
| ts_ensure: "tree_ensure path ct = (r, ct') \<Longrightarrow> tree_step pk ct ct'"
| ts_remove: "tree_remove path ct = (r, ct') \<Longrightarrow> tree_step pk ct ct'"
| ts_metadata: "tree_step pk ct (set_metadata i metadata ct)"
| ts_require: "scope_require pk i name specifier optional ct = (r, ct') \<Longrightarrow> tree_step pk ct ct'"
| ts_drop: "drop_requirement i name ct = (b, ct') \<Longrightarrow> tree_step pk ct ct'"
| ts_restrict: "tree_step pk ct (restrict_scope i view ct)"
| ts_select: "tree_step pk ct (select_tools i view ct)"
| ts_entries: "tree_step pk ct (ct\<lparr>ct_registry := reg, ct_dirty := dirty\<rparr>)"

end
