(* ===== verification/Composition_Props.thy ===== *)
theory Composition_Props
  imports Composition Resolver_Props
begin

text \<open>
  The shape of the composition tree in every reachable state: the scopes the walk from the root
  visits form a tree, each under its own path, whatever was done with handles to removed scopes. The
  resolver accepts the specifications of such a tree, and removing a scope removes its subtree.
\<close>

section \<open>Ancestors and attachment\<close>

inductive under :: "'x comp_node list \<Rightarrow> nat \<Rightarrow> nat \<Rightarrow> bool" for ns i where
  under_refl: "under ns i i"
| under_step: "under ns i k \<Longrightarrow> cn_parent (ns ! j) = Some k \<Longrightarrow> under ns i j"

inductive attached :: "'x comp_node list \<Rightarrow> nat \<Rightarrow> bool" for ns where
  attached_root: "attached ns 0"
| attached_child: "attached ns i \<Longrightarrow> j \<in> set (cn_children (ns ! i)) \<Longrightarrow> attached ns j"

definition nodes_ok :: "'x comp_node list \<Rightarrow> bool" where
  "nodes_ok ns \<longleftrightarrow> ns \<noteq> [] \<and> cn_parent (ns ! 0) = None
     \<and> (\<forall>i<length ns. 0 < i \<longrightarrow> validate_name (cn_name (ns ! i)) = Inr (cn_name (ns ! i)) \<and> (\<exists>p. cn_parent (ns ! i) = Some p \<and> p < i))
     \<and> (\<forall>i<length ns. distinct (cn_children (ns ! i)))
     \<and> (\<forall>i<length ns. \<forall>j\<in>set (cn_children (ns ! i)). j < length ns \<and> cn_parent (ns ! j) = Some i)"

lemma validate_name_ok:
  "validate_name name = Inr n \<Longrightarrow> n = name \<and> name \<noteq> [] \<and> slash \<notin> set name \<and> check_segment name = Inr ()"
  by (auto simp: validate_name_def check_segment_def split: if_splits)

lemma nodes_ok_parent:
  assumes "nodes_ok ns" "cn_parent (ns ! i) = Some p" "i < length ns"
  shows "p < i" "0 < i" "validate_name (cn_name (ns ! i)) = Inr (cn_name (ns ! i))" "slash \<notin> set (cn_name (ns ! i))" "cn_name (ns ! i) \<noteq> []"
proof -
  have "i \<noteq> 0" using assms by (metis nodes_ok_def option.distinct(1))
  then show "0 < i" by simp
  then show "p < i" "validate_name (cn_name (ns ! i)) = Inr (cn_name (ns ! i))"
    using assms unfolding nodes_ok_def by force+
  then show "slash \<notin> set (cn_name (ns ! i))" "cn_name (ns ! i) \<noteq> []" using validate_name_ok by blast+
qed

lemma nodes_ok_child:
  assumes "nodes_ok ns" "j \<in> set (cn_children (ns ! i))" "i < length ns"
  shows "j < length ns" "cn_parent (ns ! j) = Some i" "i < j"
proof -
  show "j < length ns" "cn_parent (ns ! j) = Some i" using assms by (auto simp: nodes_ok_def)
  then show "i < j" by (rule nodes_ok_parent(1) [OF assms(1), rotated])
qed

lemma attached_bound:
  assumes "nodes_ok ns" "attached ns i"
  shows "i < length ns"
  using assms(2)
proof (induction rule: attached.induct)
  case attached_root
  then show ?case using assms(1) by (simp add: nodes_ok_def)
next
  case (attached_child i j)
  then show ?case using nodes_ok_child(1) [OF assms(1)] by blast
qed

lemma attached_parent:
  assumes "nodes_ok ns" "attached ns j" "cn_parent (ns ! j) = Some p"
  shows "attached ns p \<and> j \<in> set (cn_children (ns ! p))"
  using assms(2)
proof cases
  case attached_root
  then show ?thesis using assms(1,3) by (simp add: nodes_ok_def)
next
  case (attached_child i)
  then show ?thesis using nodes_ok_child(2) [OF assms(1)] attached_bound [OF assms(1)] assms(3) by fastforce
qed

lemma under_le:
  assumes "nodes_ok ns" "under ns a b" "b < length ns"
  shows "a \<le> b"
  using assms(2,3)
proof (induction rule: under.induct)
  case (under_step k j)
  then show ?case using nodes_ok_parent(1) [OF assms(1)] by (metis dual_order.strict_trans less_imp_le order.strict_trans1 order_le_less_trans)
qed simp

lemma under_linear:
  assumes "under ns a j" "under ns b j"
  shows "under ns a b \<or> under ns b a"
  using assms
proof (induction rule: under.induct)
  case (under_step k j)
  from under_step.prems show ?case
  proof cases
    case under_refl
    then show ?thesis using under_step.hyps by (blast intro: under.under_step)
  next
    case (under_step k')
    then show ?thesis using \<open>cn_parent (ns ! j) = Some k\<close> \<open>under ns b k \<Longrightarrow> _\<close> by simp
  qed
qed simp

lemma siblings_apart:
  assumes "nodes_ok ns" "a \<in> set (cn_children (ns ! i))" "b \<in> set (cn_children (ns ! i))" "i < length ns" "under ns a b"
  shows "a = b"
  using assms(5)
proof cases
  case (under_step k)
  have b: "cn_parent (ns ! b) = Some i" using nodes_ok_child [OF assms(1,3,4)] by simp
  then have "under ns a i" using under_step by simp
  then have "a \<le> i" using under_le assms(1,4) by blast
  then show ?thesis using nodes_ok_child(3) [OF assms(1,2,4)] by simp
qed simp

section \<open>Paths\<close>

lemma path_upto_enough:
  assumes "nodes_ok ns"
  shows "i < length ns \<Longrightarrow> i \<le> n \<Longrightarrow> path_upto n ns i = node_path ns i"
proof (induction i arbitrary: n rule: less_induct)
  case (less i)
  show ?case
  proof (cases "cn_parent (ns ! i)")
    case None
    then have "i = 0" using assms less.prems by (auto simp: nodes_ok_def)
    then show ?thesis using None by (cases n) (simp_all add: node_path_def)
  next
    case (Some p)
    then have p: "p < i" "0 < i" using nodes_ok_parent [OF assms Some less.prems(1)] by auto
    obtain m k where m: "n = Suc m" and k: "i = Suc k" using p less.prems by (metis Suc_le_D gr0_conv_Suc)
    have "path_upto m ns p = node_path ns p" "path_upto k ns p = node_path ns p"
      using less.IH [of p] p less.prems m k by auto
    then show ?thesis using Some m k by (simp add: node_path_def)
  qed
qed

lemma node_path_0 [simp]: "node_path ns 0 = root_scope"
  by (simp add: node_path_def)

lemma node_path_child:
  assumes "nodes_ok ns" "cn_parent (ns ! i) = Some p" "i < length ns"
  shows "node_path ns i = join_path (node_path ns p) (cn_name (ns ! i))"
proof -
  have p: "p < i" "0 < i" using nodes_ok_parent [OF assms] by auto
  then obtain k where "i = Suc k" by (metis gr0_conv_Suc)
  then show ?thesis using path_upto_enough [OF assms(1), of p k] assms p by (simp add: node_path_def)
qed

lemma node_path_cong:
  assumes "nodes_ok ns" "nodes_ok ns'" "\<And>k. k \<le> i \<Longrightarrow> cn_parent (ns' ! k) = cn_parent (ns ! k) \<and> cn_name (ns' ! k) = cn_name (ns ! k)"
    and "i < length ns" "i < length ns'"
  shows "node_path ns' i = node_path ns i"
  using assms(3-5)
proof (induction i rule: less_induct)
  case (less i)
  show ?case
  proof (cases "cn_parent (ns ! i)")
    case None
    then have "i = 0" using assms(1) less.prems by (auto simp: nodes_ok_def)
    then show ?thesis by simp
  next
    case (Some p)
    then have p: "p < i" using nodes_ok_parent [OF assms(1) Some] less.prems by auto
    have "node_path ns' p = node_path ns p" using less.IH [OF p] less.prems p by (meson dual_order.strict_trans less_imp_le order_trans)
    moreover have "cn_parent (ns' ! i) = Some p" "cn_name (ns' ! i) = cn_name (ns ! i)" using less.prems(1) [of i] Some by auto
    ultimately show ?thesis
      using node_path_child [OF assms(1) Some] node_path_child [OF assms(2)] less.prems by simp
  qed
qed

lemma node_path_absolute:
  assumes "nodes_ok ns" "i < length ns"
  shows "\<exists>t. node_path ns i = slash # t \<and> (0 < i \<longrightarrow> t \<noteq> [])"
  using assms(2)
proof (induction i rule: less_induct)
  case (less i)
  show ?case
  proof (cases "cn_parent (ns ! i)")
    case None
    then have "i = 0" using assms(1) less.prems by (auto simp: nodes_ok_def)
    then show ?thesis by (simp add: root_scope_def slash_def)
  next
    case (Some p)
    then have p: "p < i" "cn_name (ns ! i) \<noteq> []" using nodes_ok_parent [OF assms(1) Some] less.prems by auto
    obtain t where "node_path ns p = slash # t" using less.IH [OF p(1)] p less.prems by auto
    then show ?thesis using node_path_child [OF assms(1) Some less.prems] p(2) by (auto simp: join_path_def root_scope_def slash_def)
  qed
qed

text \<open>A path within another one belongs to a scope under one with that path.\<close>

lemma within_join:
  assumes "is_within (join_path q name) p" "slash \<notin> set name" "p \<noteq> root_scope" "p = slash # t" "join_path q name \<noteq> p"
  shows "is_within q p"
proof -
  have pre: "prefix (p @ [slash]) (join_path q name)" using assms(1,3,5) by (simp add: is_within_def)
  show ?thesis
  proof (cases "q = root_scope")
    case True
    then have "prefix (t @ [slash]) name" using pre assms(4) by (simp add: join_path_def root_scope_def slash_def)
    then show ?thesis using assms(2) by (auto simp: prefix_def)
  next
    case False
    then have "prefix (p @ [slash]) (q @ slash # name)" using pre by (simp add: join_path_def)
    then obtain zs where zs: "(p @ [slash]) @ zs = q @ slash # name" by (auto simp: prefix_def)
    have "length p \<le> length q"
    proof (rule ccontr)
      assume "\<not> length p \<le> length q"
      then obtain ys where "p @ [slash] = q @ slash # ys @ [slash]" "name = ys @ slash # zs"
        using zs by (auto simp: append_eq_append_conv2 append_eq_Cons_conv Cons_eq_append_conv)
      then show False using assms(2) by simp
    qed
    then have "p = q \<or> prefix (p @ [slash]) q"
      using zs by (auto simp: append_eq_append_conv2 append_eq_Cons_conv Cons_eq_append_conv prefix_def)
    then show ?thesis using assms(3) by (auto simp: is_within_def)
  qed
qed

lemma within_under:
  assumes "nodes_ok ns" "attached ns j" "is_within (node_path ns j) p" "p \<noteq> root_scope" "p = slash # t"
  shows "\<exists>a. attached ns a \<and> node_path ns a = p \<and> under ns a j"
  using assms(2,3)
proof (induction j rule: less_induct)
  case (less j)
  have bound: "j < length ns" by (rule attached_bound [OF assms(1) less.prems(1)])
  show ?case
  proof (cases "node_path ns j = p")
    case True
    then show ?thesis using less.prems(1) under_refl by blast
  next
    case False
    show ?thesis
    proof (cases "cn_parent (ns ! j)")
      case None
      then have "j = 0" using assms(1) bound by (auto simp: nodes_ok_def)
      then have "prefix (p @ [slash]) root_scope" using less.prems(2) False assms(4) by (simp add: is_within_def)
      then show ?thesis using assms(5) by (simp add: root_scope_def)
    next
      case (Some q)
      have q: "q < j" "slash \<notin> set (cn_name (ns ! j))" "attached ns q"
        using nodes_ok_parent [OF assms(1) Some bound] attached_parent [OF assms(1) less.prems(1) Some] by auto
      have "is_within (node_path ns q) p"
        using within_join [OF _ q(2) assms(4,5)] less.prems(2) False node_path_child [OF assms(1) Some bound] by metis
      then show ?thesis using less.IH [OF q(1,3)] under_step [OF _ Some] by blast
    qed
  qed
qed

lemma under_within:
  assumes "nodes_ok ns" "under ns a j" "j < length ns" "node_path ns a \<noteq> root_scope"
  shows "is_within (node_path ns j) (node_path ns a)"
  using assms(2,3)
proof (induction rule: under.induct)
  case under_refl
  then show ?case by (simp add: is_within_def)
next
  case (under_step k j)
  have "k < length ns" using nodes_ok_parent(1) [OF assms(1) under_step.hyps(2) under_step.prems] under_step.prems by simp
  then have within: "node_path ns k = node_path ns a \<or> prefix (node_path ns a @ [slash]) (node_path ns k)"
    using under_step.IH assms(4) by (simp add: is_within_def)
  moreover have "node_path ns a \<noteq> []"
    using node_path_absolute [OF assms(1), of a] under_le [OF assms(1) under_step.hyps(1) \<open>k < length ns\<close>] \<open>k < length ns\<close> by auto
  ultimately have "node_path ns k \<noteq> root_scope" using assms(4) by (auto simp: prefix_def root_scope_def Cons_eq_append_conv append_eq_Cons_conv)
  then have "node_path ns j = node_path ns k @ slash # cn_name (ns ! j)"
    using node_path_child [OF assms(1) under_step.hyps(2) under_step.prems] by (simp add: join_path_def)
  then show ?case using within assms(4) by (auto simp: is_within_def prefix_def)
qed

section \<open>The walk\<close>

inductive below :: "'x comp_node list \<Rightarrow> nat \<Rightarrow> nat \<Rightarrow> bool" for ns i where
  below_refl: "below ns i i"
| below_child: "below ns i k \<Longrightarrow> j \<in> set (cn_children (ns ! k)) \<Longrightarrow> below ns i j"

lemma below_trans: "below ns b c \<Longrightarrow> below ns a b \<Longrightarrow> below ns a c"
  by (induction rule: below.induct) (auto intro: below.intros)

lemma attached_below: "attached ns j \<longleftrightarrow> below ns 0 j"
proof
  show "attached ns j \<Longrightarrow> below ns 0 j" by (induction rule: attached.induct) (auto intro: below.intros)
  show "below ns 0 j \<Longrightarrow> attached ns j" by (induction rule: below.induct) (auto intro: attached.intros)
qed

lemma below_bound:
  assumes "nodes_ok ns" "i < length ns" "below ns i j"
  shows "j < length ns \<and> under ns i j"
  using assms(3)
proof (induction rule: below.induct)
  case (below_child k j)
  then show ?case using nodes_ok_child [OF assms(1)] by (blast intro: under.intros)
qed (simp add: assms(2) under_refl)

lemma walk_nodes_set:
  assumes "nodes_ok ns"
  shows "i < length ns \<Longrightarrow> length ns \<le> n + i \<Longrightarrow> set (walk_nodes n ns i) = {j. below ns i j}"
proof (induction n arbitrary: i)
  case (Suc n)
  have "set (walk_nodes n ns c) = {j. below ns c j}" if "c \<in> set (cn_children (ns ! i))" for c
    using Suc.IH [of c] nodes_ok_child [OF assms that Suc.prems(1)] Suc.prems by linarith
  then have "set (walk_nodes (Suc n) ns i) = insert i (\<Union>c\<in>set (cn_children (ns ! i)). {j. below ns c j})" by auto
  also have "... = {j. below ns i j}"
  proof (intro equalityI subsetI; clarsimp)
    fix j assume "j = i \<or> (\<exists>c\<in>set (cn_children (ns ! i)). below ns c j)"
    then show "below ns i j" using below_trans [OF _ below_child [OF below_refl]] by (blast intro: below_refl)
  next
    fix j assume "below ns i j" "\<forall>c\<in>set (cn_children (ns ! i)). \<not> below ns c j"
    then show "j = i" by (induction rule: below.induct) (auto intro: below.intros)
  qed
  finally show ?case .
qed simp

lemma walk_nodes_distinct:
  assumes "nodes_ok ns"
  shows "i < length ns \<Longrightarrow> length ns \<le> n + i \<Longrightarrow> distinct (walk_nodes n ns i)"
proof (induction n arbitrary: i)
  case (Suc n)
  let ?cs = "sort_key (\<lambda>j. cn_name (ns ! j)) (cn_children (ns ! i))"
  have child: "c < length ns" "i < c" "set (walk_nodes n ns c) = {j. below ns c j}" "distinct (walk_nodes n ns c)"
    if "c \<in> set ?cs" for c
    using that nodes_ok_child [OF assms, of c i] Suc.IH [of c] Suc.prems walk_nodes_set [OF assms, of c n] by auto
  have apart: "set (walk_nodes n ns a) \<inter> set (walk_nodes n ns b) = {}" if "a \<in> set ?cs" "b \<in> set ?cs" "a \<noteq> b" for a b
  proof (rule ccontr)
    assume "\<not> ?thesis"
    then obtain j where "j \<in> set (walk_nodes n ns a)" "j \<in> set (walk_nodes n ns b)" by blast
    then have "below ns a j" "below ns b j" using child(3) [OF that(1)] child(3) [OF that(2)] by simp_all
    then have "under ns a j" "under ns b j" using below_bound [OF assms] child(1) that by blast+
    then have "under ns a b \<or> under ns b a" by (rule under_linear)
    then show False using siblings_apart [OF assms, of _ i] that Suc.prems(1) by (metis set_sort)
  qed
  have "distinct ?cs" using assms Suc.prems(1) by (simp add: nodes_ok_def)
  then have "distinct (concat (map (walk_nodes n ns) ?cs))"
    by (rule distinct_concat_map [OF _ child(4) apart])
  moreover have "i \<notin> set (concat (map (walk_nodes n ns) ?cs))"
  proof
    assume "i \<in> set (concat (map (walk_nodes n ns) ?cs))"
    then obtain c where c: "c \<in> set ?cs" "below ns c i" using child(3) by auto
    then have "c \<le> i" using below_bound [OF assms child(1) [OF c(1)] c(2)] under_le [OF assms] by blast
    then show False using child(2) [OF c(1)] by simp
  qed
  ultimately show ?case by simp
qed simp

section \<open>The invariant\<close>

definition tree_ok :: "('v, 'x, 'o, 'p, 'm) control_scheme \<Rightarrow> bool" where
  "tree_ok ct \<longleftrightarrow> nodes_ok (ct_nodes ct) \<and> wf_dict (ct_scopes ct)
     \<and> (\<forall>p i. map_of (ct_scopes ct) p = Some i \<longrightarrow> i < length (ct_nodes ct) \<and> node_path (ct_nodes ct) i = p)
     \<and> (\<forall>i. attached (ct_nodes ct) i \<longrightarrow> map_of (ct_scopes ct) (node_path (ct_nodes ct) i) = Some i)"

lemma tree_okD:
  assumes "tree_ok ct"
  shows "nodes_ok (ct_nodes ct)" "wf_dict (ct_scopes ct)"
    and "map_of (ct_scopes ct) p = Some i \<Longrightarrow> i < length (ct_nodes ct) \<and> node_path (ct_nodes ct) i = p"
    and "attached (ct_nodes ct) i \<Longrightarrow> map_of (ct_scopes ct) (node_path (ct_nodes ct) i) = Some i"
  using assms unfolding tree_ok_def by blast+

lemma attached_path_inj:
  "tree_ok ct \<Longrightarrow> attached (ct_nodes ct) i \<Longrightarrow> attached (ct_nodes ct) j \<Longrightarrow>
   node_path (ct_nodes ct) i = node_path (ct_nodes ct) j \<Longrightarrow> i = j"
  using tree_okD(4) by (metis option.inject)

lemma tree_ordered_set: "nodes_ok (ct_nodes ct) \<Longrightarrow> set (tree_ordered ct) = {i. attached (ct_nodes ct) i}"
  using walk_nodes_set [of "ct_nodes ct" 0 "length (ct_nodes ct)"]
  by (auto simp: tree_ordered_def attached_below nodes_ok_def)

lemma tree_ordered_distinct: "nodes_ok (ct_nodes ct) \<Longrightarrow> distinct (tree_ordered ct)"
  using walk_nodes_distinct [of "ct_nodes ct" 0 "length (ct_nodes ct)"] by (auto simp: tree_ordered_def nodes_ok_def)

lemma tree_paths_distinct:
  assumes "tree_ok ct"
  shows "distinct (tree_paths ct)"
proof -
  have "inj_on (node_path (ct_nodes ct)) (set (tree_ordered ct))"
    using attached_path_inj [OF assms] tree_ordered_set [OF tree_okD(1) [OF assms]] by (auto intro: inj_onI)
  then show ?thesis using tree_ordered_distinct [OF tree_okD(1) [OF assms]] by (simp add: tree_paths_def distinct_map)
qed

lemma new_node_simps [simp]:
  "cn_name (new_node name p caps tools md) = name" "cn_parent (new_node name p caps tools md) = p"
  "cn_children (new_node name p caps tools md) = []"
  by (simp_all add: new_node_def)

lemma tree_ok_new: "tree_ok new_control"
proof -
  have only: "attached [new_node ''root'' None None None [] :: 'x comp_node] i \<Longrightarrow> i = 0" for i
    by (induction rule: attached.induct) simp_all
  then show ?thesis unfolding tree_ok_def
    by (auto simp: new_control_def nodes_ok_def wf_dict_def dest!: only)
qed

text \<open>Operations that leave names and links alone.\<close>

definition same_shape :: "'x comp_node list \<Rightarrow> 'x comp_node list \<Rightarrow> bool" where
  "same_shape ns ns' \<longleftrightarrow> length ns' = length ns
     \<and> (\<forall>i<length ns. cn_name (ns' ! i) = cn_name (ns ! i) \<and> cn_parent (ns' ! i) = cn_parent (ns ! i) \<and> cn_children (ns' ! i) = cn_children (ns ! i))"

lemma same_shape_nodes_ok: "same_shape ns ns' \<Longrightarrow> nodes_ok ns \<Longrightarrow> nodes_ok ns'"
  by (auto simp: nodes_ok_def same_shape_def)

lemma same_shape_attached:
  assumes "same_shape ns ns'" "nodes_ok ns"
  shows "attached ns' i \<Longrightarrow> attached ns i"
proof (induction rule: attached.induct)
  case (attached_child i j)
  then have "i < length ns" using attached_bound [OF assms(2)] by blast
  then show ?case using attached_child assms(1) by (auto simp: same_shape_def intro: attached.intros)
qed (rule attached_root)

lemma same_shape_path:
  assumes "same_shape ns ns'" "nodes_ok ns" "i < length ns"
  shows "node_path ns' i = node_path ns i"
  by (rule node_path_cong [OF assms(2) same_shape_nodes_ok [OF assms(1,2)]]) (use assms(1,3) in \<open>auto simp: same_shape_def\<close>)

lemma tree_ok_shape:
  assumes "tree_ok ct" "same_shape (ct_nodes ct) (ct_nodes ct')" "ct_scopes ct' = ct_scopes ct"
  shows "tree_ok ct'"
proof -
  have ok: "nodes_ok (ct_nodes ct)" by (rule tree_okD(1) [OF assms(1)])
  have len: "length (ct_nodes ct') = length (ct_nodes ct)" using assms(2) by (simp add: same_shape_def)
  show ?thesis
    unfolding tree_ok_def
    using assms(3) len same_shape_nodes_ok [OF assms(2) ok] tree_okD(2) [OF assms(1)] tree_okD(3) [OF assms(1)] tree_okD(4) [OF assms(1)]
      same_shape_path [OF assms(2) ok] same_shape_attached [OF assms(2) ok] attached_bound [OF ok]
    by metis
qed

lemma update_node_shape:
  assumes "\<And>n. cn_name (f n) = cn_name n \<and> cn_parent (f n) = cn_parent n \<and> cn_children (f n) = cn_children n"
  shows "same_shape (ct_nodes ct) (ct_nodes (update_node i f ct))"
  unfolding same_shape_def update_node_def
proof (intro conjI allI impI)
  fix j assume "j < length (ct_nodes ct)"
  then have "(ct_nodes ct)[i := f (ct_nodes ct ! i)] ! j = (if i = j then f (ct_nodes ct ! j) else ct_nodes ct ! j)"
    by simp
  then show "cn_name (ct_nodes (ct\<lparr>ct_nodes := (ct_nodes ct)[i := f (ct_nodes ct ! i)]\<rparr>) ! j) = cn_name (ct_nodes ct ! j)"
      "cn_parent (ct_nodes (ct\<lparr>ct_nodes := (ct_nodes ct)[i := f (ct_nodes ct ! i)]\<rparr>) ! j) = cn_parent (ct_nodes ct ! j)"
      "cn_children (ct_nodes (ct\<lparr>ct_nodes := (ct_nodes ct)[i := f (ct_nodes ct ! i)]\<rparr>) ! j) = cn_children (ct_nodes ct ! j)"
    using assms by auto
qed simp

lemma tree_ok_update:
  assumes "tree_ok ct" "\<And>n. cn_name (f n) = cn_name n \<and> cn_parent (f n) = cn_parent n \<and> cn_children (f n) = cn_children n"
  shows "tree_ok (invalidate (update_node i f ct))"
  by (rule tree_ok_shape [OF assms(1)])
    (use update_node_shape [of f ct i] assms(2) in \<open>simp_all add: invalidate_def update_node_def\<close>)

section \<open>Adding a scope\<close>

definition link_child :: "nat \<Rightarrow> 'x comp_node \<Rightarrow> 'x comp_node list \<Rightarrow> 'x comp_node list" where
  "link_child p n ns = (let ns1 = ns @ [n] in ns1[p := (ns1 ! p)\<lparr>cn_children := cn_children (ns1 ! p) @ [length ns]\<rparr>])"

lemma link_child_nth:
  assumes "p < length ns"
  shows "length (link_child p n ns) = Suc (length ns)"
    and "i < length ns \<Longrightarrow> cn_name (link_child p n ns ! i) = cn_name (ns ! i) \<and> cn_parent (link_child p n ns ! i) = cn_parent (ns ! i)
       \<and> cn_children (link_child p n ns ! i) = (if i = p then cn_children (ns ! i) @ [length ns] else cn_children (ns ! i))"
    and "link_child p n ns ! length ns = n"
  using assms by (simp_all add: link_child_def Let_def nth_append)

lemma link_child_cases:
  assumes "p < length ns" "i < length (link_child p n ns)"
  obtains (new) "i = length ns" "link_child p n ns ! i = n"
    | (old) "i < length ns" "cn_name (link_child p n ns ! i) = cn_name (ns ! i)" "cn_parent (link_child p n ns ! i) = cn_parent (ns ! i)"
        "cn_children (link_child p n ns ! i) = (if i = p then cn_children (ns ! i) @ [length ns] else cn_children (ns ! i))"
  using assms link_child_nth [OF assms(1)] by (metis less_SucE)

lemma link_child_ok:
  assumes "nodes_ok ns" "p < length ns" "cn_parent n = Some p" "cn_children n = []" "validate_name (cn_name n) = Inr (cn_name n)"
  shows "nodes_ok (link_child p n ns)"
proof -
  let ?ns = "link_child p n ns"
  have len: "length ?ns = Suc (length ns)" by (rule link_child_nth(1) [OF assms(2)])
  have "0 < length ns" using assms(2) by linarith
  then have root: "cn_parent (?ns ! 0) = None" using link_child_nth(2) [OF assms(2), of 0] assms(1) unfolding nodes_ok_def by metis
  have named: "validate_name (cn_name (?ns ! i)) = Inr (cn_name (?ns ! i)) \<and> (\<exists>q. cn_parent (?ns ! i) = Some q \<and> q < i)"
    if "i < length ?ns" "0 < i" for i
    by (rule link_child_cases [OF assms(2) that(1)]) (use assms that(2) in \<open>simp_all add: nodes_ok_def\<close>)
  have fresh: "length ns \<notin> set (cn_children (ns ! i))" if "i < length ns" for i
    using nodes_ok_child(1) [OF assms(1) _ that] by blast
  have distinct: "distinct (cn_children (?ns ! i))" if "i < length ?ns" for i
    by (rule link_child_cases [OF assms(2) that]) (use assms fresh in \<open>simp_all add: nodes_ok_def\<close>)
  have linked: "j < length ?ns \<and> cn_parent (?ns ! j) = Some i" if "i < length ?ns" "j \<in> set (cn_children (?ns ! i))" for i j
  proof (rule link_child_cases [OF assms(2) that(1)])
    assume "i = length ns" "?ns ! i = n"
    then show ?thesis using that(2) assms(4) by simp
  next
    assume i: "i < length ns" and children: "cn_children (?ns ! i) = (if i = p then cn_children (ns ! i) @ [length ns] else cn_children (ns ! i))"
    show ?thesis
    proof (cases "j \<in> set (cn_children (ns ! i))")
      case True
      then show ?thesis using nodes_ok_child(1,2) [OF assms(1) True i] link_child_nth(2) [OF assms(2), of j n] len by simp
    next
      case False
      then have "i = p" "j = length ns" using that(2) children by (auto split: if_splits)
      then show ?thesis using link_child_nth(3) [OF assms(2), of n] assms(3) len by simp
    qed
  qed
  show ?thesis
    unfolding nodes_ok_def using root named distinct linked len by fastforce
qed

lemma link_child_path:
  assumes "nodes_ok ns" "nodes_ok (link_child p n ns)" "p < length ns" "i < length ns"
  shows "node_path (link_child p n ns) i = node_path ns i"
  by (rule node_path_cong [OF assms(1,2)]) (use assms link_child_nth [OF assms(3)] in auto)

lemma link_child_attached:
  assumes "nodes_ok ns" "p < length ns" "cn_children n = []"
  shows "attached (link_child p n ns) i \<Longrightarrow> if i = length ns then attached ns p else attached ns i"
proof (induction rule: attached.induct)
  case attached_root
  then show ?case using assms(1) by (auto simp: nodes_ok_def intro: attached.intros)
next
  case (attached_child i j)
  show ?case
  proof (cases "i = length ns")
    case True
    then show ?thesis using attached_child link_child_nth(3) [OF assms(2)] assms(3) by simp
  next
    case False
    then have i: "attached ns i" "i < length ns" using attached_child.IH attached_bound [OF assms(1)] by auto
    have "j \<in> set (cn_children (ns ! i)) \<or> i = p \<and> j = length ns"
      using attached_child.hyps(2) link_child_nth(2) [OF assms(2) i(2), of n] by (auto split: if_splits)
    then show ?thesis
    proof
      assume "j \<in> set (cn_children (ns ! i))"
      then show ?thesis using i nodes_ok_child(1) [OF assms(1) _ i(2)] by (auto intro: attached.intros)
    qed (use i in simp)
  qed
qed

lemma comp_child_cases:
  assumes "comp_child p name caps tools md ct = (r, ct')"
  obtains (refused) e where "r = Inl e" "ct' = ct"
    | (added) n where "r = Inr (length (ct_nodes ct))" "cn_parent n = Some p" "cn_children n = []" "cn_name n = name"
        "validate_name name = Inr name" "ct_nodes ct' = link_child p n (ct_nodes ct)" "ct_registry ct' = ct_registry ct"
        "map_of (ct_scopes ct) (node_path (ct_nodes ct @ [n]) (length (ct_nodes ct))) = None"
        "ct_scopes ct' = dict_set (node_path (ct_nodes ct @ [n]) (length (ct_nodes ct))) (length (ct_nodes ct)) (ct_scopes ct)"
proof (cases "validate_name name")
  case (Inl e)
  then show ?thesis using assms refused [of e] by (auto simp: comp_child_def)
next
  case (Inr m)
  let ?n = "new_node name (Some p) caps tools md"
  show ?thesis
  proof (cases "map_of (ct_scopes ct) (node_path (ct_nodes ct @ [?n]) (length (ct_nodes ct)))")
    case (Some i)
    then show ?thesis using assms Inr refused by (auto simp: comp_child_def tree_attach_def Let_def)
  next
    case None
    then show ?thesis using assms Inr validate_name_ok [OF Inr] added [of ?n]
      by (auto simp: comp_child_def tree_attach_def Let_def invalidate_def link_child_def)
  qed
qed

lemma tree_ok_child:
  assumes "tree_ok ct" "p < length (ct_nodes ct)" "comp_child p name caps tools md ct = (r, ct')"
  shows "tree_ok ct' \<and> (\<forall>i. r = Inr i \<longrightarrow> i < length (ct_nodes ct'))"
  using assms(3)
proof (cases rule: comp_child_cases)
  case (refused e)
  then show ?thesis using assms(1) by simp
next
  case (added n)
  let ?ns = "ct_nodes ct" and ?new = "length (ct_nodes ct)"
  have ok: "nodes_ok ?ns" by (rule tree_okD(1) [OF assms(1)])
  have ok': "nodes_ok (ct_nodes ct')" using link_child_ok [OF ok assms(2) added(2,3)] added by simp
  have path: "node_path (ct_nodes ct') i = node_path ?ns i" if "i < ?new" for i
    using link_child_path [OF ok _ assms(2) that, of n] ok' added(6) by simp
  have len: "length (ct_nodes ct') = Suc ?new" using added(6) link_child_nth(1) [OF assms(2)] by simp
  have "cn_parent (ct_nodes ct' ! ?new) = Some p" "cn_name (ct_nodes ct' ! ?new) = name"
    using added(2,4,6) link_child_nth(3) [OF assms(2), of n] by simp_all
  then have fresh: "node_path (ct_nodes ct') ?new = join_path (node_path ?ns p) name"
    using node_path_child [OF ok'] path [OF assms(2)] len by simp
  obtain k where k: "?new = Suc k" "p \<le> k" using assms(2) by (metis less_imp_Suc_add le_add1)
  have prefix: "path_upto k (ns @ [n]) i = path_upto k ns i" if "i < length ns" "nodes_ok ns" for i and ns :: "'b comp_node list"
    using that
  proof (induction k arbitrary: i)
    case (Suc k)
    then show ?case using nodes_ok_parent(1) [OF Suc.prems(2) _ Suc.prems(1)]
      by (cases "cn_parent (ns ! i)") (auto simp: nth_append dest: order.strict_trans)
  qed simp
  have "node_path (?ns @ [n]) ?new = join_path (node_path ?ns p) name"
    using prefix [OF assms(2) ok] path_upto_enough [OF ok assms(2) k(2)] added(2,4) nth_append_length [of ?ns n "[]"] unfolding node_path_def k(1) by simp
  then have same: "node_path (?ns @ [n]) ?new = node_path (ct_nodes ct') ?new" using fresh by simp
  have att: "if i = ?new then attached ?ns p else attached ?ns i" if "attached (ct_nodes ct') i" for i
    using that link_child_attached [OF ok assms(2) added(3)] added(6) by simp
  have "tree_ok ct'"
    unfolding tree_ok_def
  proof (intro conjI allI impI)
    show "nodes_ok (ct_nodes ct')" by (rule ok')
    show "wf_dict (ct_scopes ct')" using added(9) tree_okD(2) [OF assms(1)] by simp
  next
    fix q i assume "map_of (ct_scopes ct') q = Some i"
    then show "i < length (ct_nodes ct')" "node_path (ct_nodes ct') i = q"
      using added(9) same tree_okD(3) [OF assms(1), of q i] path len by (auto simp: dict_simps split: if_splits)
  next
    fix i assume i: "attached (ct_nodes ct') i"
    show "map_of (ct_scopes ct') (node_path (ct_nodes ct') i) = Some i"
    proof (cases "i = ?new")
      case True
      then show ?thesis using added(9) same by (simp add: dict_simps)
    next
      case False
      then have "attached ?ns i" using att [OF i] by simp
      then have "map_of (ct_scopes ct) (node_path ?ns i) = Some i" "i < ?new"
        using tree_okD(4) [OF assms(1)] attached_bound [OF ok] by simp_all
      then show ?thesis using added(8,9) path by (auto simp: dict_simps)
    qed
  qed
  then show ?thesis using added(1) len by simp
qed

lemma tree_ok_ensure:
  assumes "tree_ok ct" "tree_ensure path ct = (r, ct')"
  shows "tree_ok ct' \<and> (\<forall>i. r = Inr i \<longrightarrow> i < length (ct_nodes ct'))"
  using assms
proof (induction path ct arbitrary: r ct' rule: tree_ensure.induct)
  case (1 path ct)
  show ?case
  proof (cases "canonical_scope_path path")
    case (Inl e)
    then show ?thesis using "1.prems" by (auto simp: tree_ensure.simps [of path])
  next
    case (Inr p)
    show ?thesis
    proof (cases "map_of (ct_scopes ct) p")
      case (Some i)
      then show ?thesis using "1.prems" Inr tree_okD(3) by (fastforce simp: tree_ensure.simps [of path])
    next
      case None
      have root: "0 < length (ct_nodes ct)" using tree_okD(1) [OF "1.prems"(1)] by (simp add: nodes_ok_def)
      show ?thesis
      proof (cases "p = root_scope")
        case True
        then show ?thesis using "1.prems" Inr None root by (auto simp: tree_ensure.simps [of path])
      next
        case False
        obtain q ct1 where rec: "tree_ensure (if before_last_slash p = [] then root_scope else before_last_slash p) ct = (q, ct1)"
          by fastforce
        have ih: "tree_ok ct1 \<and> (\<forall>i. q = Inr i \<longrightarrow> i < length (ct_nodes ct1))"
          by (rule "1.IH" [OF Inr None False "1.prems"(1) rec])
        show ?thesis
        proof (cases q)
          case (Inl e)
          then show ?thesis using "1.prems"(2) Inr None False rec ih by (auto simp: tree_ensure.simps [of path])
        next
          fix parent assume q: "q = Inr parent"
          then have "comp_child parent (after_last_slash p) None None [] ct1 = (r, ct')"
            using "1.prems"(2) Inr None False rec by (simp add: tree_ensure.simps [of path])
          then show ?thesis using tree_ok_child ih q by blast
        qed
      qed
    qed
  qed
qed

section \<open>Removing a subtree\<close>

definition unlink_child :: "nat \<Rightarrow> nat \<Rightarrow> 'x comp_node list \<Rightarrow> 'x comp_node list" where
  "unlink_child p i ns = ns[p := (ns ! p)\<lparr>cn_children := remove1 i (cn_children (ns ! p))\<rparr>]"

lemma unlink_child_nth:
  assumes "j < length ns"
  shows "cn_name (unlink_child p i ns ! j) = cn_name (ns ! j)" "cn_parent (unlink_child p i ns ! j) = cn_parent (ns ! j)"
    and "cn_children (unlink_child p i ns ! j) = (if j = p then remove1 i (cn_children (ns ! j)) else cn_children (ns ! j))"
  using assms by (cases "j = p"; simp add: unlink_child_def)+

lemma length_unlink [simp]: "length (unlink_child p i ns) = length ns"
  by (simp add: unlink_child_def)

lemma unlink_children: "j < length ns \<Longrightarrow> set (cn_children (unlink_child p i ns ! j)) \<subseteq> set (cn_children (ns ! j))"
  using unlink_child_nth(3) [of j ns p i] set_remove1_subset [of i "cn_children (ns ! j)"] by auto

lemma unlink_ok:
  assumes "nodes_ok ns"
  shows "nodes_ok (unlink_child p i ns)"
proof -
  have "0 < length ns" using assms by (simp add: nodes_ok_def)
  moreover have "distinct (cn_children (unlink_child p i ns ! j))" if "j < length ns" for j
    using that assms unlink_child_nth(3) [OF that] by (simp add: nodes_ok_def)
  moreover have "k < length ns \<and> cn_parent (unlink_child p i ns ! k) = Some j"
    if "j < length ns" "k \<in> set (cn_children (unlink_child p i ns ! j))" for j k
    using unlink_children [OF that(1)] that nodes_ok_child(1,2) [OF assms] unlink_child_nth(2) by (metis subsetD)
  moreover have "validate_name (cn_name (unlink_child p i ns ! j)) = Inr (cn_name (unlink_child p i ns ! j))
      \<and> (\<exists>q. cn_parent (unlink_child p i ns ! j) = Some q \<and> q < j)" if "j < length ns" "0 < j" for j
    using that assms unlink_child_nth(1,2) [OF that(1), of p i] by (simp add: nodes_ok_def)
  moreover have "cn_parent (unlink_child p i ns ! 0) = None"
    using \<open>0 < length ns\<close> assms unlink_child_nth(2) [of 0 ns p i] by (simp add: nodes_ok_def)
  moreover have "unlink_child p i ns \<noteq> []" using \<open>0 < length ns\<close> length_unlink [of p i ns] by (metis length_greater_0_conv)
  ultimately show ?thesis unfolding nodes_ok_def length_unlink by (intro conjI allI impI ballI) blast+
qed

lemma unlink_path:
  assumes "nodes_ok ns" "j < length ns"
  shows "node_path (unlink_child p i ns) j = node_path ns j"
  by (rule node_path_cong [OF assms(1) unlink_ok [OF assms(1)]])
    (use assms(2) unlink_child_nth(1,2) [of _ ns p i] in simp_all)

lemma unlink_attached:
  assumes "nodes_ok ns"
  shows "attached (unlink_child p i ns) j \<Longrightarrow> attached ns j"
proof (induction rule: attached.induct)
  case (attached_child k j)
  then show ?case using unlink_children attached_bound [OF assms] by (blast intro: attached.intros)
qed (rule attached_root)

lemma unlink_detaches:
  assumes "nodes_ok ns" "cn_parent (ns ! i) = Some p" "i < length ns"
  shows "attached (unlink_child p i ns) j \<Longrightarrow> \<not> under ns i j"
proof (induction rule: attached.induct)
  case attached_root
  then show ?case using under_le [OF assms(1), of i 0] nodes_ok_parent(2) [OF assms] assms(1) by (auto simp: nodes_ok_def)
next
  case (attached_child k j)
  have k: "k < length ns" using attached_bound [OF unlink_ok [OF assms(1)] attached_child.hyps(1)] by simp
  then have parent: "cn_parent (ns ! j) = Some k" "j \<in> set (cn_children (ns ! k))"
    using unlink_children [OF k] attached_child.hyps(2) nodes_ok_child(2) [OF assms(1)] by blast+
  show ?case
  proof
    assume "under ns i j"
    then show False
    proof cases
      case under_refl
      then have "k = p" using parent assms(2) by simp
      then have "j \<in> set (remove1 i (cn_children (ns ! p)))" using attached_child.hyps(2) unlink_child_nth(3) [OF k, of p i] by simp
      then show False using under_refl k \<open>k = p\<close> assms(1) by (simp add: nodes_ok_def)
    next
      case (under_step q)
      then show False using parent attached_child.IH by simp
    qed
  qed
qed

lemma unlink_keeps:
  assumes "nodes_ok ns"
  shows "attached ns j \<Longrightarrow> \<not> under ns i j \<Longrightarrow> attached (unlink_child p i ns) j"
proof (induction rule: attached.induct)
  case (attached_child k j)
  have k: "k < length ns" by (rule attached_bound [OF assms attached_child.hyps(1)])
  have parent: "cn_parent (ns ! j) = Some k" using nodes_ok_child(2) [OF assms attached_child.hyps(2) k] .
  then have "\<not> under ns i k" "j \<noteq> i" using attached_child.prems by (auto intro: under.intros)
  moreover have "j \<in> set (cn_children (unlink_child p i ns ! k))"
    using attached_child.hyps(2) \<open>j \<noteq> i\<close> unlink_child_nth(3) [OF k, of p i] by auto
  ultimately show ?case using attached_child.IH by (blast intro: attached.intros)
qed (rule attached_root)

lemma remove_entries_frame:
  assumes "remove_entries es (removed, ct) = (removed', ct')"
  shows "ct_nodes ct' = ct_nodes ct" "ct_scopes ct' = ct_scopes ct"
  using assms
  by (induction es arbitrary: removed ct) (auto simp: remove_entries_def owner_uninstall_def split: prod.splits if_splits)

lemma remove_node_frame:
  assumes "remove_node i (removed, ct) = (removed', ct')"
  shows "ct_nodes ct' = ct_nodes ct" "ct_scopes ct' = dict_pop (node_path (ct_nodes ct) i) (ct_scopes ct)"
proof -
  obtain removed1 ct1 where entries: "remove_entries (entries_for_scope (node_path (ct_nodes ct) i) (ct_registry ct)) (removed, ct) = (removed1, ct1)"
    by fastforce
  then have "ct' = ct1\<lparr>ct_scopes := dict_pop (node_path (ct_nodes ct) i) (ct_scopes ct1)\<rparr>"
    using assms by (simp add: remove_node_def)
  then show "ct_nodes ct' = ct_nodes ct" "ct_scopes ct' = dict_pop (node_path (ct_nodes ct) i) (ct_scopes ct)"
    using remove_entries_frame [OF entries] by simp_all
qed

lemma remove_nodes_frame:
  assumes "fold remove_node is (removed, ct) = (removed', ct')"
  shows "ct_nodes ct' = ct_nodes ct
    \<and> (\<forall>q. map_of (ct_scopes ct') q = (if q \<in> node_path (ct_nodes ct) ` set is then None else map_of (ct_scopes ct) q))
    \<and> (wf_dict (ct_scopes ct) \<longrightarrow> wf_dict (ct_scopes ct'))"
  using assms
proof (induction "is" arbitrary: removed ct)
  case (Cons i "is")
  obtain removed1 ct1 where step: "remove_node i (removed, ct) = (removed1, ct1)" by fastforce
  then have "fold remove_node is (removed1, ct1) = (removed', ct')" using Cons.prems by simp
  from Cons.IH [OF this] remove_node_frame [OF step] show ?case by (auto simp: dict_simps)
qed simp

lemma canonical_same: "canonical_scope_path path = Inr p \<Longrightarrow> p = path \<and> (\<exists>t. p = slash # t)"
  by (cases path) (auto simp: canonical_scope_path_def bind_result_eq_Inr root_scope_def slash_def split: if_splits)

lemma split_on_snoc: "c \<notin> set t \<Longrightarrow> split_on c (s @ c # t) = split_on c s @ [t]"
  by (induction s) (auto simp: split_on_single split: list.splits)

lemma map_result_snoc: "map_result f (xs @ [x]) = Inr ys' \<longleftrightarrow> (\<exists>ys y. map_result f xs = Inr ys \<and> f x = Inr y \<and> ys' = ys @ [y])"
proof -
  have "map_result f (xs @ [x]) = bind_result (map_result f xs) (\<lambda>ys. bind_result (f x) (\<lambda>y. Inr (ys @ [y])))"
    by (induction xs; cases "f x") (auto split: sum.splits)
  then show ?thesis by (auto simp: bind_result_eq_Inr)
qed

lemma node_path_canonical:
  assumes "nodes_ok ns" "i < length ns"
  shows "canonical_scope_path (node_path ns i) = Inr (node_path ns i)"
  using assms(2)
proof (induction i rule: less_induct)
  case (less i)
  show ?case
  proof (cases "cn_parent (ns ! i)")
    case None
    then have "i = 0" using assms(1) less.prems by (auto simp: nodes_ok_def)
    then show ?thesis by (simp add: canonical_scope_path_def root_scope_def slash_def)
  next
    case (Some p)
    let ?name = "cn_name (ns ! i)"
    have p: "p < i" and name: "?name \<noteq> []" "slash \<notin> set ?name" "check_segment ?name = Inr ()"
      using nodes_ok_parent [OF assms(1) Some less.prems] validate_name_ok by blast+
    have ih: "canonical_scope_path (node_path ns p) = Inr (node_path ns p)" using less.IH [OF p] p less.prems by simp
    have path: "node_path ns i = join_path (node_path ns p) ?name" by (rule node_path_child [OF assms(1) Some less.prems])
    obtain us where segments: "map_result check_segment (split_on slash (tl (node_path ns i))) = Inr us"
    proof (cases "node_path ns p = root_scope")
      case True
      then have "tl (node_path ns i) = ?name" using path by (simp add: join_path_def root_scope_def)
      then show ?thesis using name that by (simp add: split_on_single)
    next
      case False
      obtain t where t: "node_path ns p = slash # t" "t \<noteq> []"
        using node_path_absolute [OF assms(1), of p] p less.prems False by (cases "p = 0") auto
      then have "tl (node_path ns i) = t @ slash # ?name" using path False by (simp add: join_path_def)
      moreover obtain vs where "map_result check_segment (split_on slash t) = Inr vs"
        using ih False t by (auto simp: canonical_scope_path_def bind_result_eq_Inr split: if_splits)
      ultimately show ?thesis using that name by (simp add: split_on_snoc map_result_snoc)
    qed
    have "last (node_path ns i) = last ?name" using path name(1) by (simp add: join_path_def root_scope_def)
    then have "last (node_path ns i) \<noteq> slash" using name(1,2) by (metis last_in_set)
    moreover obtain t where "node_path ns i = slash # t" using node_path_absolute [OF assms(1) less.prems] by blast
    ultimately show ?thesis using segments by (simp add: canonical_scope_path_def)
  qed
qed

text \<open>What a removal does to the tree: nothing, or the subtree at the path is gone.\<close>

lemma tree_remove_cases:
  assumes "tree_ok ct" "tree_remove path ct = (r, ct')"
  obtains (same) "ct' = ct" "path = root_scope \<or> path \<notin> set (tree_paths ct)"
    | (stale) i p where "map_of (ct_scopes ct) path = Some i" "\<not> attached (ct_nodes ct) i" "ct_scopes ct' = ct_scopes ct"
        "ct_nodes ct' = ct_nodes ct \<or> ct_nodes ct' = unlink_child p i (ct_nodes ct)"
    | (removed) i p gone ct1 where "map_of (ct_scopes ct) path = Some i" "attached (ct_nodes ct) i" "cn_parent (ct_nodes ct ! i) = Some p"
        "ct_nodes ct' = unlink_child p i (ct_nodes ct)"
        "fold remove_node (sort_key (\<lambda>j. - int (count_list (node_path (ct_nodes ct) j) slash))
           (filter (\<lambda>j. is_within (node_path (ct_nodes ct) j) path) (tree_ordered ct))) ([], ct) = (gone, ct1)"
        "r = Inr (sort gone)" "ct_registry ct' = ct_registry ct1" "ct_scopes ct' = ct_scopes ct1" "path \<noteq> root_scope"
proof -
  let ?ns = "ct_nodes ct"
  have ok: "nodes_ok ?ns" by (rule tree_okD(1) [OF assms(1)])
  have paths: "set (tree_paths ct) = node_path ?ns ` {i. attached ?ns i}" by (simp add: tree_paths_def tree_ordered_set [OF ok])
  have canonical: "canonical_scope_path path = Inr path" "map_of (ct_scopes ct) path \<noteq> None" if "path \<in> set (tree_paths ct)"
    using that paths tree_okD(4) [OF assms(1)] node_path_canonical [OF ok] attached_bound [OF ok] by auto
  consider (trivial) "ct' = ct" "path = root_scope \<or> map_of (ct_scopes ct) path = None \<or> (\<exists>e. canonical_scope_path path = Inl e)"
    | (found) i where "path \<noteq> root_scope" "canonical_scope_path path = Inr path" "map_of (ct_scopes ct) path = Some i"
    using assms(2) canonical_same [of path]
    by (auto simp: tree_remove_def split: if_splits sum.splits option.splits)
  then show ?thesis
  proof cases
    case trivial
    then show ?thesis using same canonical by (metis sum.distinct(1))
  next
    case (found i)
    have i: "i < length ?ns" "node_path ?ns i = path" using tree_okD(3) [OF assms(1) found(3)] by simp_all
    let ?inside = "sort_key (\<lambda>j. - int (count_list (node_path ?ns j) slash)) (filter (\<lambda>j. is_within (node_path ?ns j) path) (tree_ordered ct))"
    obtain gone ct1 where run: "fold remove_node ?inside ([], ct) = (gone, ct1)" by fastforce
    have ct1: "ct_nodes ct1 = ?ns" using remove_nodes_frame [OF run] by blast
    have "0 < i" using i found(1) by (cases i) auto
    then obtain p where p: "cn_parent (?ns ! i) = Some p" using ok i(1) by (auto simp: nodes_ok_def)
    have result: "tree_remove path ct = (case remove_child p i ct1 of (Inl e, ct2) \<Rightarrow> (Inl e, ct2) | (Inr _, ct2) \<Rightarrow> (Inr (sort gone), invalidate ct2))"
      using found p run by (simp add: tree_remove_def Let_def)
    have child: "remove_child p i ct1 = (if i \<in> set (cn_children (?ns ! p)) then (Inr (), ct1\<lparr>ct_nodes := unlink_child p i ?ns\<rparr>)
        else (Inl (PyException ''ValueError'' ''list.remove(x): x not in list''), ct1))"
      by (simp add: remove_child_def ct1 update_node_def unlink_child_def)
    show ?thesis
    proof (cases "attached ?ns i")
      case True
      then have "i \<in> set (cn_children (?ns ! p))" using attached_parent [OF ok True p] by simp
      then have "r = Inr (sort gone) \<and> ct' = invalidate (ct1\<lparr>ct_nodes := unlink_child p i ?ns\<rparr>)"
        using assms(2) result child by simp
      then show ?thesis using removed [OF found(3) True p _ run] found(1) by (simp add: invalidate_def)
    next
      case False
      have "\<not> is_within (node_path ?ns j) path" if att: "attached ?ns j" for j
      proof
        assume "is_within (node_path ?ns j) path"
        then obtain a where "attached ?ns a" "node_path ?ns a = path"
          using within_under [OF ok att _ found(1)] canonical_same [OF found(2)] by blast
        then show False using tree_okD(4) [OF assms(1)] found(3) False by fastforce
      qed
      then have "?inside = []" using tree_ordered_set [OF ok] by simp
      then have "ct1 = ct" using run by simp
      then have "ct_scopes ct' = ct_scopes ct" "ct_nodes ct' = ?ns \<or> ct_nodes ct' = unlink_child p i ?ns"
        using assms(2) result child by (auto simp: invalidate_def split: if_splits)
      then show ?thesis by (rule stale [OF found(3) False])
    qed
  qed
qed

lemma tree_ok_unlink:
  assumes "tree_ok ct" "ct_nodes ct' = unlink_child p i (ct_nodes ct)" "ct_scopes ct' = ct_scopes ct"
  shows "tree_ok ct'"
proof -
  have ok: "nodes_ok (ct_nodes ct)" by (rule tree_okD(1) [OF assms(1)])
  show ?thesis
    unfolding tree_ok_def assms(2,3) length_unlink
  proof (intro conjI allI impI)
    show "nodes_ok (unlink_child p i (ct_nodes ct))" by (rule unlink_ok [OF ok])
    show "wf_dict (ct_scopes ct)" by (rule tree_okD(2) [OF assms(1)])
  next
    fix q j assume "map_of (ct_scopes ct) q = Some j"
    then show "j < length (ct_nodes ct)" "node_path (unlink_child p i (ct_nodes ct)) j = q"
      using tree_okD(3) [OF assms(1)] unlink_path [OF ok] by auto
  next
    fix j assume "attached (unlink_child p i (ct_nodes ct)) j"
    then have "attached (ct_nodes ct) j" by (rule unlink_attached [OF ok])
    then show "map_of (ct_scopes ct) (node_path (unlink_child p i (ct_nodes ct)) j) = Some j"
      using tree_okD(4) [OF assms(1)] attached_bound [OF ok] unlink_path [OF ok] by auto
  qed
qed

text \<open>The scopes that stay attached when the scope at a path is removed.\<close>

lemma unlinked_attached:
  assumes "tree_ok ct" "attached (ct_nodes ct) i" "cn_parent (ct_nodes ct ! i) = Some p" "node_path (ct_nodes ct) i \<noteq> root_scope"
  shows "attached (unlink_child p i (ct_nodes ct)) j \<longleftrightarrow>
    attached (ct_nodes ct) j \<and> \<not> is_within (node_path (ct_nodes ct) j) (node_path (ct_nodes ct) i)"
proof -
  let ?ns = "ct_nodes ct"
  have ok: "nodes_ok ?ns" and bound: "i < length ?ns"
    using tree_okD(1) [OF assms(1)] attached_bound assms(2) by blast+
  obtain t where t: "node_path ?ns i = slash # t" using node_path_absolute [OF ok bound] by blast
  have "under ?ns i j \<longleftrightarrow> is_within (node_path ?ns j) (node_path ?ns i)" if att: "attached ?ns j"
  proof
    show "under ?ns i j \<Longrightarrow> is_within (node_path ?ns j) (node_path ?ns i)"
      using under_within [OF ok _ attached_bound [OF ok att] assms(4)] .
    assume "is_within (node_path ?ns j) (node_path ?ns i)"
    then obtain a where "attached ?ns a" "node_path ?ns a = node_path ?ns i" "under ?ns a j"
      using within_under [OF ok att _ assms(4) t] by blast
    then show "under ?ns i j" using attached_path_inj [OF assms(1) _ assms(2)] by blast
  qed
  then show ?thesis
    using unlink_attached [OF ok] unlink_detaches [OF ok assms(3) bound] unlink_keeps [OF ok] by blast
qed

lemma tree_ok_remove:
  assumes "tree_ok ct" "tree_remove path ct = (r, ct')"
  shows "tree_ok ct'"
  using assms
proof (cases rule: tree_remove_cases)
  case same
  then show ?thesis using assms(1) by simp
next
  case (stale i p)
  then show ?thesis
    using tree_ok_unlink [OF assms(1)] tree_ok_shape [OF assms(1), of ct'] by (auto simp: same_shape_def)
next
  case (removed i p gone ct1)
  let ?ns = "ct_nodes ct"
  have ok: "nodes_ok ?ns" by (rule tree_okD(1) [OF assms(1)])
  have path: "node_path ?ns i = path" using tree_okD(3) [OF assms(1) removed(1)] by simp
  let ?gone = "node_path ?ns ` {j. attached ?ns j \<and> is_within (node_path ?ns j) path}"
  have frame: "map_of (ct_scopes ct') q = (if q \<in> ?gone then None else map_of (ct_scopes ct) q)" for q
    using remove_nodes_frame [OF removed(5)] removed(8) tree_ordered_set [OF ok] by simp
  have wf: "wf_dict (ct_scopes ct')"
    using remove_nodes_frame [OF removed(5)] removed(8) tree_okD(2) [OF assms(1)] by simp
  have keep: "attached (ct_nodes ct') j \<longleftrightarrow> attached ?ns j \<and> \<not> is_within (node_path ?ns j) path" for j
    using unlinked_attached [OF assms(1) removed(2,3)] path removed(4,9) by simp
  show ?thesis
    unfolding tree_ok_def
  proof (intro conjI allI impI)
    show "nodes_ok (ct_nodes ct')" using unlink_ok [OF ok] removed(4) by simp
    show "wf_dict (ct_scopes ct')" by (rule wf)
  next
    fix q j assume "map_of (ct_scopes ct') q = Some j"
    then have "map_of (ct_scopes ct) q = Some j" using frame by (simp split: if_splits)
    then show "j < length (ct_nodes ct')" "node_path (ct_nodes ct') j = q"
      using tree_okD(3) [OF assms(1)] unlink_path [OF ok] removed(4) by auto
  next
    fix j assume att: "attached (ct_nodes ct') j"
    then have j: "attached ?ns j" "\<not> is_within (node_path ?ns j) path" using keep by simp_all
    have "node_path ?ns j \<notin> ?gone" using j(2) by auto
    then show "map_of (ct_scopes ct') (node_path (ct_nodes ct') j) = Some j"
      using frame tree_okD(4) [OF assms(1) j(1)] unlink_path [OF ok attached_bound [OF ok j(1)]] removed(4) by simp
  qed
qed

lemma tree_ok_step:
  assumes "tree_step pk ct ct'" "tree_ok ct"
  shows "tree_ok ct'"
  using assms
proof (induction rule: tree_step.induct)
  case (ts_require i name specifier optional ct r ct')
  then show ?case using tree_ok_update [OF ts_require.prems] by (auto simp: scope_require_def split: sum.splits)
next
  case (ts_drop i name ct b ct')
  then show ?case using tree_ok_update [OF ts_drop.prems] by (auto simp: drop_requirement_def split: if_splits)
next
  case (ts_entries ct reg dirty)
  then show ?case by (rule tree_ok_shape) (simp_all add: same_shape_def)
qed (auto simp: set_metadata_def restrict_scope_def select_tools_def intro: tree_ok_update
  dest: tree_ok_child tree_ok_ensure tree_ok_remove)

lemma tree_ok_reachable: "(tree_step pk)\<^sup>*\<^sup>* new_control ct \<Longrightarrow> tree_ok ct"
  by (induction rule: rtranclp_induct) (auto intro: tree_ok_new tree_ok_step)

section \<open>What the resolver is given\<close>

lemma index_specs_distinct:
  assumes "distinct (dict_keys d @ map ss_path ss)"
  shows "index_specs ss d = Inr (d @ map (\<lambda>s. (ss_path s, s)) ss)"
  using assms
proof (induction ss arbitrary: d)
  case (Cons s ss)
  have fresh: "map_of d (ss_path s) = None" using Cons.prems by (auto simp: map_of_eq_None_iff)
  then have "dict_set (ss_path s) s d = d @ [(ss_path s, s)]" by (induction d) auto
  then show ?case using Cons.IH [of "d @ [(ss_path s, s)]"] Cons.prems fresh by simp
qed simp

lemma node_spec_simps [simp]:
  "ss_path (node_spec ns i) = node_path ns i" "ss_parent (node_spec ns i) = map_option (node_path ns) (cn_parent (ns ! i))"
  by (simp_all add: node_spec_def Let_def)

lemma attached_within:
  assumes "tree_ok ct" "attached (ct_nodes ct) i" "attached (ct_nodes ct) j"
  shows "under (ct_nodes ct) i j \<longleftrightarrow> is_within (node_path (ct_nodes ct) j) (node_path (ct_nodes ct) i)"
proof -
  let ?ns = "ct_nodes ct"
  have ok: "nodes_ok ?ns" by (rule tree_okD(1) [OF assms(1)])
  have bound: "i < length ?ns" "j < length ?ns" using attached_bound [OF ok] assms(2,3) by blast+
  show ?thesis
  proof (cases "node_path ?ns i = root_scope")
    case True
    then have "node_path ?ns i = node_path ?ns 0" by simp
    then have "i = 0" using attached_path_inj [OF assms(1,2) attached_root] by simp
    moreover have "under ?ns 0 j" using assms(3) below_bound [OF ok] ok by (simp add: attached_below nodes_ok_def)
    ultimately show ?thesis using True by (simp add: is_within_def)
  next
    case False
    obtain t where t: "node_path ?ns i = slash # t" using node_path_absolute [OF ok bound(1)] by blast
    show ?thesis
      using under_within [OF ok _ bound(2) False] within_under [OF ok assms(3) _ False t] attached_path_inj [OF assms(1) _ assms(2)]
      by blast
  qed
qed

lemma under_attached:
  assumes "nodes_ok ns" "under ns i j"
  shows "attached ns j \<Longrightarrow> attached ns i"
  using assms(2) by (induction rule: under.induct) (use attached_parent [OF assms(1)] in blast)+

lemma lineage_climbs:
  assumes "tree_ok ct" "\<And>i. attached (ct_nodes ct) i \<Longrightarrow> map_of d (node_path (ct_nodes ct) i) = Some (node_spec (ct_nodes ct) i)"
  shows "attached (ct_nodes ct) i \<Longrightarrow> \<forall>q\<in>set seen. \<exists>k>i. attached (ct_nodes ct) k \<and> node_path (ct_nodes ct) k = q \<Longrightarrow>
    \<exists>chain. lineage_up d seen (node_path (ct_nodes ct) i) = Inr chain
      \<and> set chain = set seen \<union> node_path (ct_nodes ct) ` {k. under (ct_nodes ct) k i}"
proof (induction i arbitrary: seen rule: less_induct)
  case (less i)
  let ?ns = "ct_nodes ct"
  have ok: "nodes_ok ?ns" and bound: "i < length ?ns" using tree_okD(1) [OF assms(1)] attached_bound less.prems(1) by blast+
  have fresh: "node_path ?ns i \<notin> set seen"
    using less.prems attached_path_inj [OF assms(1)] by (metis less_irrefl)
  show ?case
  proof (cases "cn_parent (?ns ! i)")
    case None
    have "under ?ns k i \<longleftrightarrow> k = i" for k using None by (auto intro: under_refl elim: under.cases)
    then show ?thesis using None fresh assms(2) [OF less.prems(1)] lineage_up.simps [of d seen "node_path ?ns i"] by simp
  next
    case (Some p)
    have p: "p < i" "attached ?ns p"
      using nodes_ok_parent(1) [OF ok Some bound] attached_parent [OF ok less.prems(1) Some] by simp_all
    have "\<forall>q\<in>set (node_path ?ns i # seen). \<exists>k>p. attached ?ns k \<and> node_path ?ns k = q"
      using less.prems p(1) by (metis order.strict_trans set_ConsD)
    then obtain chain where "lineage_up d (node_path ?ns i # seen) (node_path ?ns p) = Inr chain"
        "set chain = set (node_path ?ns i # seen) \<union> node_path ?ns ` {k. under ?ns k p}"
      using less.IH [OF p] by blast
    moreover have "under ?ns k i \<longleftrightarrow> k = i \<or> under ?ns k p" for k using Some by (auto intro: under.intros elim: under.cases)
    then have "{k. under ?ns k i} = insert i {k. under ?ns k p}" by auto
    ultimately show ?thesis
      using Some fresh assms(2) [OF less.prems(1)] lineage_up.simps [of d seen "node_path ?ns i"] by simp
  qed
qed

lemma specs_index:
  assumes "tree_ok ct"
  obtains g where "\<And>md. build_index md (Some (tree_specs ct)) = Inr
      \<lparr>si_specs = map (\<lambda>s. (ss_path s, s)) (tree_specs ct), si_lineages = zip (tree_paths ct) (map g (tree_paths ct)),
       si_allowed = map (\<lambda>(path, lineage). (path, allowed_for (map (\<lambda>s. (ss_path s, s)) (tree_specs ct)) lineage))
         (zip (tree_paths ct) (map g (tree_paths ct)))\<rparr>"
    and "\<And>path. path \<in> set (tree_paths ct) \<Longrightarrow> set (g path) = {q \<in> set (tree_paths ct). is_within path q}"
proof -
  let ?ns = "ct_nodes ct" and ?d = "map (\<lambda>s. (ss_path s, s)) (tree_specs ct)"
  have ok: "nodes_ok ?ns" by (rule tree_okD(1) [OF assms])
  have keys: "map fst ?d = tree_paths ct" by (simp add: tree_specs_def tree_paths_def)
  have indexed: "index_specs (tree_specs ct) [] = Inr ?d"
    using index_specs_distinct [of "[]" "tree_specs ct"] tree_paths_distinct [OF assms] keys by (simp add: comp_def)
  have members: "set (tree_ordered ct) = {i. attached ?ns i}" by (rule tree_ordered_set [OF ok])
  have found: "map_of ?d (node_path ?ns i) = Some (node_spec ?ns i)" if "attached ?ns i" for i
  proof (rule map_of_is_SomeI)
    show "distinct (map fst ?d)" using tree_paths_distinct [OF assms] keys by simp
    show "(node_path ?ns i, node_spec ?ns i) \<in> set ?d"
      using that members by (auto simp: tree_specs_def image_iff)
  qed
  have root: "map_of ?d root_scope \<noteq> None" using found [OF attached_root] by simp
  have parents: "\<not> list_ex (\<lambda>s. case ss_parent s of None \<Rightarrow> False | Some p \<Rightarrow> map_of ?d p = None) (dict_values ?d)"
  proof -
    have "map_of ?d (node_path ?ns p) \<noteq> None" if "attached ?ns i" "cn_parent (?ns ! i) = Some p" for i p
      using found [of p] attached_parent [OF ok that] by simp
    then show ?thesis using members by (auto simp: list_ex_iff tree_specs_def split: option.splits)
  qed
  have climbs: "\<exists>chain. lineage_up ?d [] path = Inr chain \<and> set chain = {q \<in> set (tree_paths ct). is_within path q}"
    if path: "path \<in> set (tree_paths ct)" for path
  proof -
    obtain i where i: "attached ?ns i" "path = node_path ?ns i" using path members by (auto simp: tree_paths_def)
    have "node_path ?ns ` {k. under ?ns k i} = {q \<in> set (tree_paths ct). is_within path q}"
      using attached_within [OF assms _ i(1)] under_attached [OF ok _ i(1)] members i(2) by (auto simp: tree_paths_def)
    then show ?thesis using lineage_climbs [OF assms found i(1), of "[]"] i(2) by simp
  qed
  then have "\<forall>path \<in> set (tree_paths ct). \<exists>chain. lineage_up ?d [] path = Inr chain \<and> set chain = {q \<in> set (tree_paths ct). is_within path q}"
    by blast
  then obtain g where g: "\<forall>path \<in> set (tree_paths ct). lineage_up ?d [] path = Inr (g path) \<and> set (g path) = {q \<in> set (tree_paths ct). is_within path q}"
    by (rule bchoice [THEN exE])
  then have "map_result (\<lambda>path. lineage_up ?d [] path) (tree_paths ct) = Inr (map g (tree_paths ct))"
    by (auto simp: map_result_Inr list_all2_map2 intro!: list.rel_refl_strong)
  then have "build_index md (Some (tree_specs ct)) = Inr
      \<lparr>si_specs = ?d, si_lineages = zip (tree_paths ct) (map g (tree_paths ct)),
       si_allowed = map (\<lambda>(path, lineage). (path, allowed_for ?d lineage)) (zip (tree_paths ct) (map g (tree_paths ct)))\<rparr>" for md
    unfolding build_index_def using indexed root parents keys by (simp add: Let_def del: map_map)
  then show ?thesis using that g by blast
qed

text \<open>C18: whatever was done to a composition tree, with scopes that are still in it or were removed, its
  specifications are accepted by the resolver: no path is declared twice, the root and every parent are
  declared and no lineage is a cycle. The lineage the resolver climbs is the ancestors the paths spell.\<close>

theorem specs_accepted:
  assumes "(tree_step pk)\<^sup>*\<^sup>* new_control ct"
  shows "\<exists>ix. build_index md (Some (tree_specs ct)) = Inr ix \<and> si_paths ix = tree_paths ct
    \<and> (\<forall>path \<in> set (tree_paths ct). set (si_lineage ix path) = {q \<in> set (tree_paths ct). is_within path q})"
proof (rule specs_index [OF tree_ok_reachable [OF assms]])
  fix g
  assume built: "\<And>md. build_index md (Some (tree_specs ct)) = Inr
      \<lparr>si_specs = map (\<lambda>s. (ss_path s, s)) (tree_specs ct), si_lineages = zip (tree_paths ct) (map g (tree_paths ct)),
       si_allowed = map (\<lambda>(path, lineage). (path, allowed_for (map (\<lambda>s. (ss_path s, s)) (tree_specs ct)) lineage))
         (zip (tree_paths ct) (map g (tree_paths ct)))\<rparr>"
    and g: "\<And>path. path \<in> set (tree_paths ct) \<Longrightarrow> set (g path) = {q \<in> set (tree_paths ct). is_within path q}"
  have "map fst (map (\<lambda>s. (ss_path s, s)) (tree_specs ct)) = tree_paths ct"
    by (simp add: tree_specs_def tree_paths_def)
  then show ?thesis
    unfolding built by (simp add: si_paths_def si_lineage_def dict_get_or_def map_of_zip_map g del: map_map)
qed

definition demo_scopes :: "(nat, nat, nat, nat) control" where
  "demo_scopes = snd (comp_child 1 ''b'' None None [] (snd (comp_child 0 ''a'' None None [] new_control)))"

lemma demo_scopes_value:
  "demo_scopes = \<lparr>ct_registry = new_plugin_registry,
     ct_nodes = [(new_node ''root'' None None None [])\<lparr>cn_children := [1]\<rparr>, (new_node ''a'' (Some 0) None None [])\<lparr>cn_children := [2]\<rparr>,
       new_node ''b'' (Some 1) None None []],
     ct_scopes = [(root_scope, 0), (''/a'', 1), (''/a/b'', 2)], ct_dirty = True\<rparr>"
  by code_simp

lemma demo_scopes_reached: "(tree_step pk)\<^sup>*\<^sup>* new_control demo_scopes"
proof -
  let ?one = "snd (comp_child 0 ''a'' None None [] new_control) :: (nat, nat, nat, nat) control"
  have "length (ct_nodes ?one) = 2" by code_simp
  then have "tree_step pk ?one demo_scopes"
    unfolding demo_scopes_def by (intro ts_child [OF _ surjective_pairing]) simp
  moreover have "tree_step pk new_control ?one"
    by (intro ts_child [OF _ surjective_pairing]) (simp add: new_control_def)
  ultimately show ?thesis by (meson rtranclp.rtrancl_refl rtranclp.rtrancl_into_rtrancl)
qed

lemma demo_scopes_paths: "tree_paths demo_scopes = [''/'', ''/a'', ''/a/b'']"
  unfolding demo_scopes_value by code_simp

theorem specs_accepted_witness:
  "\<exists>ix. build_index [] (Some (tree_specs demo_scopes)) = Inr ix \<and> si_paths ix = [''/'', ''/a'', ''/a/b'']"
  using specs_accepted [OF demo_scopes_reached, of "[]"] by (metis demo_scopes_paths)

section \<open>Removal exactly\<close>

text \<open>The registry files every entry under its own id.\<close>

definition filed_entries :: "('v, 'x, 'o, 'p) plugin_registry \<Rightarrow> bool" where
  "filed_entries reg \<longleftrightarrow> (\<forall>i e. map_of (pr_entries reg) i = Some e \<longrightarrow> pe_entry_id e = i)"

lemma entries_for_scope_set:
  assumes "filed_entries reg"
  shows "set (entries_for_scope path reg) = {i. \<exists>e. map_of (pr_entries reg) i = Some e \<and> pe_scope e = path}"
proof -
  have keys: "set (dict_keys (pr_entries reg)) = {i. \<exists>e. map_of (pr_entries reg) i = Some e}"
    using dom_map_of_conv_image_fst [of "pr_entries reg"] by auto
  have ids: "pe_entry_id (the (map_of (pr_entries reg) i)) = i" if "i \<in> set (dict_keys (pr_entries reg))" for i
    using that assms unfolding keys filed_entries_def by auto
  have "set (entries_for_scope path reg) = pe_entry_id ` (\<lambda>i. the (map_of (pr_entries reg) i)) `
      {i \<in> set (dict_keys (pr_entries reg)). pe_scope (the (map_of (pr_entries reg) i)) = path}"
    by (auto simp: entries_for_scope_def plugin_entries_def)
  also have "... = {i \<in> set (dict_keys (pr_entries reg)). pe_scope (the (map_of (pr_entries reg) i)) = path}"
    using ids by (simp add: image_image)
  also have "... = {i. \<exists>e. map_of (pr_entries reg) i = Some e \<and> pe_scope e = path}" unfolding keys by auto
  finally show ?thesis .
qed

lemma remove_entries_effect:
  assumes "remove_entries es (gone, ct) = (gone', ct')"
  shows "map_of (pr_entries (ct_registry ct')) i = (if i \<in> set es then None else map_of (pr_entries (ct_registry ct)) i)"
    and "set gone' = set gone \<union> {i \<in> set es. map_of (pr_entries (ct_registry ct)) i \<noteq> None}"
proof -
  have "map_of (pr_entries (ct_registry ct')) i = (if i \<in> set es then None else map_of (pr_entries (ct_registry ct)) i)
    \<and> set gone' = set gone \<union> {i \<in> set es. map_of (pr_entries (ct_registry ct)) i \<noteq> None}"
    using assms
  proof (induction es arbitrary: gone ct)
    case Nil
    then show ?case by (simp add: remove_entries_def)
  next
    case (Cons e es)
    let ?there = "map_of (pr_entries (ct_registry ct)) e \<noteq> None"
    obtain ct1 where step: "owner_uninstall e ct = (?there, ct1)" "ct_registry ct1 = (ct_registry ct)\<lparr>pr_entries := dict_pop e (pr_entries (ct_registry ct))\<rparr>"
      by (simp add: owner_uninstall_def plugin_uninstall_def)
    then have rest: "remove_entries es (if ?there then gone @ [e] else gone, ct1) = (gone', ct')"
      using Cons.prems by (simp add: remove_entries_def)
    have "map_of (pr_entries (ct_registry ct1)) j = (if j = e then None else map_of (pr_entries (ct_registry ct)) j)" for j
      using step(2) by (simp add: dict_simps)
    then show ?case using Cons.IH [OF rest] by auto
  qed
  then show "map_of (pr_entries (ct_registry ct')) i = (if i \<in> set es then None else map_of (pr_entries (ct_registry ct)) i)"
    "set gone' = set gone \<union> {i \<in> set es. map_of (pr_entries (ct_registry ct)) i \<noteq> None}" by blast+
qed

text \<open>The entries a set of scopes owns.\<close>

definition entries_owned :: "string set \<Rightarrow> ('v, 'x, 'o, 'p) plugin_registry \<Rightarrow> string set" where
  "entries_owned paths reg = {i. \<exists>e. map_of (pr_entries reg) i = Some e \<and> pe_scope e \<in> paths}"

lemma remove_nodes_effect:
  assumes "fold remove_node is (gone, ct) = (gone', ct')" "filed_entries (ct_registry ct)"
  shows "(\<forall>i. map_of (pr_entries (ct_registry ct')) i =
      (if i \<in> entries_owned (node_path (ct_nodes ct) ` set is) (ct_registry ct) then None else map_of (pr_entries (ct_registry ct)) i))
    \<and> set gone' = set gone \<union> entries_owned (node_path (ct_nodes ct) ` set is) (ct_registry ct)"
  using assms
proof (induction "is" arbitrary: gone ct)
  case Nil
  then show ?case by (simp add: entries_owned_def)
next
  case (Cons n "is")
  let ?path = "node_path (ct_nodes ct) n"
  obtain gone1 ct1 where step: "remove_node n (gone, ct) = (gone1, ct1)" by fastforce
  then obtain ct0 where entries: "remove_entries (entries_for_scope ?path (ct_registry ct)) (gone, ct) = (gone1, ct0)"
      "ct1 = ct0\<lparr>ct_scopes := dict_pop ?path (ct_scopes ct0)\<rparr>"
    by (auto simp: remove_node_def Let_def split: prod.splits)
  have own: "set (entries_for_scope ?path (ct_registry ct)) = entries_owned {?path} (ct_registry ct)"
    using entries_for_scope_set [OF Cons.prems(2)] by (simp add: entries_owned_def)
  have left: "map_of (pr_entries (ct_registry ct1)) i = (if i \<in> entries_owned {?path} (ct_registry ct) then None else map_of (pr_entries (ct_registry ct)) i)" for i
    using remove_entries_effect(1) [OF entries(1)] entries(2) own by simp
  have out: "set gone1 = set gone \<union> entries_owned {?path} (ct_registry ct)"
    using remove_entries_effect(2) [OF entries(1)] own by (auto simp: entries_owned_def)
  have "filed_entries (ct_registry ct1)" using Cons.prems(2) left by (simp add: filed_entries_def split: if_splits)
  moreover have "fold remove_node is (gone1, ct1) = (gone', ct')" using Cons.prems(1) step by simp
  moreover have "ct_nodes ct1 = ct_nodes ct" by (rule remove_node_frame(1) [OF step])
  ultimately have ih: "map_of (pr_entries (ct_registry ct')) i =
      (if i \<in> entries_owned (node_path (ct_nodes ct) ` set is) (ct_registry ct1) then None else map_of (pr_entries (ct_registry ct1)) i)"
      "set gone' = set gone1 \<union> entries_owned (node_path (ct_nodes ct) ` set is) (ct_registry ct1)" for i
    using Cons.IH by metis+
  have split: "entries_owned (node_path (ct_nodes ct) ` set (n # is)) (ct_registry ct)
      = entries_owned {?path} (ct_registry ct) \<union> entries_owned (node_path (ct_nodes ct) ` set is) (ct_registry ct1)"
    using left by (auto simp: entries_owned_def split: if_splits)
  show ?case unfolding split using ih left out by auto
qed

text \<open>C19: removing a scope of the tree removes exactly the scopes within its path, uninstalls exactly the
  entries those scopes own, reports their ids in order, and leaves every other scope and entry alone.\<close>

theorem tree_remove_exact:
  assumes "(tree_step pk)\<^sup>*\<^sup>* new_control ct" "filed_entries (ct_registry ct)"
    and "path \<in> set (tree_paths ct)" "path \<noteq> root_scope" "tree_remove path ct = (r, ct')"
  shows "set (tree_paths ct') = {q \<in> set (tree_paths ct). \<not> is_within q path}
    \<and> (\<exists>gone. r = Inr gone \<and> sorted gone \<and> set gone = entries_owned {q \<in> set (tree_paths ct). is_within q path} (ct_registry ct))
    \<and> (\<forall>i. map_of (pr_entries (ct_registry ct')) i =
        (if i \<in> entries_owned {q \<in> set (tree_paths ct). is_within q path} (ct_registry ct) then None else map_of (pr_entries (ct_registry ct)) i))"
proof -
  have tree: "tree_ok ct" by (rule tree_ok_reachable [OF assms(1)])
  let ?ns = "ct_nodes ct"
  have ok: "nodes_ok ?ns" by (rule tree_okD(1) [OF tree])
  have members: "set (tree_ordered ct) = {j. attached ?ns j}" by (rule tree_ordered_set [OF ok])
  from tree assms(5) show ?thesis
  proof (cases rule: tree_remove_cases)
    case same
    then show ?thesis using assms(3,4) by blast
  next
    case (stale i p)
    then show ?thesis using assms(3) members tree_okD(4) [OF tree] by (fastforce simp: tree_paths_def)
  next
    case (removed i p gone ct1)
    have path: "node_path ?ns i = path" using tree_okD(3) [OF tree removed(1)] by simp
    have inside: "node_path ?ns ` set (sort_key (\<lambda>j. - int (count_list (node_path ?ns j) slash))
        (filter (\<lambda>j. is_within (node_path ?ns j) path) (tree_ordered ct))) = {q \<in> set (tree_paths ct). is_within q path}"
      by (auto simp: tree_paths_def)
    have ok': "nodes_ok (ct_nodes ct')" using unlink_ok [OF ok] removed(4) by simp
    have "set (tree_paths ct') = node_path (ct_nodes ct') ` {j. attached ?ns j \<and> \<not> is_within (node_path ?ns j) path}"
      using tree_ordered_set [OF ok'] unlinked_attached [OF tree removed(2,3)] path removed(4,9) by (simp add: tree_paths_def)
    also have "... = node_path ?ns ` {j. attached ?ns j \<and> \<not> is_within (node_path ?ns j) path}"
      using unlink_path [OF ok attached_bound [OF ok]] removed(4) by (intro image_cong) auto
    also have "... = {q \<in> set (tree_paths ct). \<not> is_within q path}" using members by (auto simp: tree_paths_def)
    finally show ?thesis
      using remove_nodes_effect [OF removed(5) assms(2)] removed(6,7) unfolding inside by simp
  qed
qed

theorem tree_remove_exact_witness:
  "set (tree_paths (snd (tree_remove ''/a'' demo_scopes))) = {''/''}"
proof -
  have filed: "filed_entries (ct_registry demo_scopes)" by (simp add: demo_scopes_value filed_entries_def new_plugin_registry_def)
  have path: "''/a'' \<in> set (tree_paths demo_scopes)" "''/a'' \<noteq> root_scope" by (simp_all add: demo_scopes_paths root_scope_def)
  have "set (tree_paths (snd (tree_remove ''/a'' demo_scopes))) = {q \<in> set (tree_paths demo_scopes). \<not> is_within q ''/a''}"
    by (rule tree_remove_exact [OF demo_scopes_reached filed path surjective_pairing, THEN conjunct1])
  moreover have "filter (\<lambda>q. \<not> is_within q ''/a'') (tree_paths demo_scopes) = [''/'']"
    unfolding demo_scopes_paths by code_simp
  then have "{q \<in> set (tree_paths demo_scopes). \<not> is_within q ''/a''} = {''/''}"
    by (metis empty_set list.simps(15) set_filter)
  ultimately show ?thesis by (rule trans)
qed

text \<open>
  A handle to a removed scope still attaches children: the child is filed under its path but is not in
  the tree, creating its path again is refused as a duplicate, and removing the path does not free it.
\<close>

definition stale_tree :: "(nat, nat, nat, nat) control" where
  "stale_tree = snd (comp_child 1 ''b'' None None [] (snd (tree_remove ''/a'' demo_scopes)))"

lemma stale_tree_value:
  "ct_scopes stale_tree = [(root_scope, 0), (''/a/b'', 3)]" "tree_paths stale_tree = [''/'']"
  "fst (tree_child ''b'' (ParentPath ''/a'') None None [] True stale_tree)
     = Inl (ConfigurationError ''duplicate composition scope path'')"
  "fst (tree_remove ''/a/b'' stale_tree) = Inr []"
  "map_of (ct_scopes (snd (tree_remove ''/a/b'' stale_tree))) ''/a/b'' = Some 3"
  "fst (tree_remove ''/a/b'' (snd (tree_remove ''/a/b'' stale_tree)))
     = Inl (PyException ''ValueError'' ''list.remove(x): x not in list'')"
  unfolding stale_tree_def demo_scopes_value by code_simp+

end
