(* ===== verification/Published.thy ===== *)
theory Published
  imports Plugins Resolver_Plan
begin

text \<open>
  The published scope tree (\<open>composition.py\<close>, second part): the scopes of a resolution plan bound to
  the instances, registrations and tools that were mounted. The climbs from a scope to the root are
  loops over the parents the plan records; one that does not end is \<open>None\<close>.
\<close>

record 'x resolved_scope =
  rv_path :: string
  rv_name :: string
  rv_parent :: "string option"
  rv_children :: "string list"
  rv_capabilities :: "string list option"
  rv_entries :: "string list"
  rv_instances :: "string list"
  rv_providers :: "(string, string list) dict"
  rv_inherited :: "(string, string list) dict"
  rv_visible :: "(string, string list) dict"
  rv_requirements :: "'x req_resolution list"
  rv_provenance :: "'x req_resolution list"
  rv_metadata :: payload
  rv_tools :: "string list option"
  rv_local_tools :: "string list"
  rv_inherited_tools :: "string list"
  rv_visible_tools :: "string list"

definition rv_is_local :: "string \<Rightarrow> 'x resolved_scope \<Rightarrow> bool" where
  "rv_is_local entry rv \<longleftrightarrow> entry \<in> set (rv_entries rv)"

definition rv_exposes_tool :: "string \<Rightarrow> 'x resolved_scope \<Rightarrow> bool" where
  "rv_exposes_tool name rv \<longleftrightarrow> (case rv_tools rv of None \<Rightarrow> True | Some view \<Rightarrow> name \<in> set view)"

record 'x scope_tree =
  st_root :: string
  st_scopes :: "'x resolved_scope list"

definition flat_root :: "'x resolved_scope" where
  "flat_root = \<lparr>rv_path = root_scope, rv_name = ''root'', rv_parent = None, rv_children = [], rv_capabilities = None,
     rv_entries = [], rv_instances = [], rv_providers = [], rv_inherited = [], rv_visible = [], rv_requirements = [],
     rv_provenance = [], rv_metadata = [], rv_tools = None, rv_local_tools = [], rv_inherited_tools = [], rv_visible_tools = []\<rparr>"

definition root_only :: "'x scope_tree" where
  "root_only = \<lparr>st_root = root_scope, st_scopes = [flat_root]\<rparr>"

definition st_get :: "string \<Rightarrow> 'x scope_tree \<Rightarrow> 'x resolved_scope option" where
  "st_get path tree = find (\<lambda>rv. rv_path rv = path) (st_scopes tree)"

definition st_paths :: "'x scope_tree \<Rightarrow> string list" where
  "st_paths tree = map rv_path (st_scopes tree)"

definition st_root_scope :: "'x scope_tree \<Rightarrow> 'x resolved_scope" where
  "st_root_scope tree = (case st_get (st_root tree) tree of None \<Rightarrow> flat_root | Some rv \<Rightarrow> rv)"

definition providers_of :: "string \<Rightarrow> string \<Rightarrow> 'x scope_tree \<Rightarrow> string list result" where
  "providers_of path capability tree =
     (case st_get path tree of
        None \<Rightarrow> Inl (ConfigurationError ''unknown composition scope in this generation'')
      | Some rv \<Rightarrow> Inr (dict_get_or (rv_visible rv) capability []))"

text \<open>The canonical payload of a tree; mappings in it are read in sorted order.\<close>

type_synonym selection_print = "string \<times> string \<times> requirement_status \<times> string option \<times> string option"

type_synonym scope_print =
  "string \<times> string option \<times> string list \<times> string list option \<times> string list option \<times> string list
     \<times> (string, string list) dict \<times> string list \<times> selection_print list"

definition scope_fingerprint :: "('v, 'x) packaging \<Rightarrow> 'x resolved_scope \<Rightarrow> scope_print" where
  "scope_fingerprint pk rv =
     (rv_path rv, rv_parent rv, rv_children rv, rv_capabilities rv, rv_tools rv, rv_entries rv,
      sort_key fst (rv_providers rv), rv_visible_tools rv,
      map (\<lambda>r. (rr_consumer r, show_requirement pk (rr_requirement r), rr_status r, rr_provider_entry_id r, rr_provider_scope r))
        (rv_provenance rv))"

definition tree_fingerprint :: "('v, 'x) packaging \<Rightarrow> 'x scope_tree \<Rightarrow> string \<times> scope_print list" where
  "tree_fingerprint pk tree = (st_root tree, map (scope_fingerprint pk) (st_scopes tree))"

definition same_observable_composition :: "('v, 'x) packaging \<Rightarrow> 'x scope_tree \<Rightarrow> 'x scope_tree \<Rightarrow> bool" where
  "same_observable_composition pk a b \<longleftrightarrow>
     tree_fingerprint pk a = tree_fingerprint pk b
     \<and> map (\<lambda>rv. (rv_path rv, map_of (rv_metadata rv))) (st_scopes a) = map (\<lambda>rv. (rv_path rv, map_of (rv_metadata rv))) (st_scopes b)"

section \<open>Building it\<close>

text \<open>\<open>d.setdefault(k, v)\<close>.\<close>

definition dict_setdefault :: "'k \<Rightarrow> 'v \<Rightarrow> ('k, 'v) dict \<Rightarrow> ('k, 'v) dict" where
  "dict_setdefault k v d = (if map_of d k = None then d @ [(k, v)] else d)"

definition instance_by_entry :: "('v, 'x, 'o, 'p) plugin_instance list \<Rightarrow> (string, string) dict" where
  "instance_by_entry instances = fold (\<lambda>inst. dict_setdefault (pi_entry_id inst) (pi_instance_id inst)) instances []"

type_synonym ('x, 'm) scope_plans = "(string, ('x, 'm) scope_plan) dict"

definition plans_by_path :: "('x, 'm) scope_plan list \<Rightarrow> ('x, 'm) scope_plans" where
  "plans_by_path scopes = fold (\<lambda>s. dict_set (sp_path s) s) scopes []"

definition tool_scope_by_instance :: "(string, string) dict \<Rightarrow> ('x, 'm) scope_plan list \<Rightarrow> (string, string) dict" where
  "tool_scope_by_instance by_entry scopes =
     fold (\<lambda>s. fold (\<lambda>entry d. case map_of by_entry entry of None \<Rightarrow> d | Some i \<Rightarrow> dict_set i (sp_path s) d) (sp_entries s)) scopes []"

definition tool_names_by_scope :: "(string, string) dict \<Rightarrow> (string \<times> string) list \<Rightarrow> (string, string list) dict" where
  "tool_names_by_scope owners tools =
     fold (\<lambda>(owner, name) d. case map_of owners owner of None \<Rightarrow> d | Some path \<Rightarrow> dict_append path name d) tools []"

definition bind_instance :: "(string, string) dict \<Rightarrow> string option \<Rightarrow> string option \<Rightarrow> string option" where
  "bind_instance by_entry entry inst =
     (case entry of
        None \<Rightarrow> inst
      | Some e \<Rightarrow> (case map_of by_entry e of None \<Rightarrow> inst | Some i \<Rightarrow> Some i))"

definition bound_provenance :: "(string, string) dict \<Rightarrow> 'x req_resolution list \<Rightarrow> 'x req_resolution list" where
  "bound_provenance by_entry = map (\<lambda>item. item\<lparr>
     rr_provider_instance_id := bind_instance by_entry (rr_provider_entry_id item) (rr_provider_instance_id item),
     rr_assessments := map (\<lambda>a. a\<lparr>as_instance_id := bind_instance by_entry (Some (as_entry_id a)) (as_instance_id a)\<rparr>) (rr_assessments item)\<rparr>)"

definition local_instance_ids :: "(string, string) dict \<Rightarrow> ('x, 'm) scope_plans \<Rightarrow> string \<Rightarrow> string list" where
  "local_instance_ids by_entry plans path =
     (case map_of plans path of
        None \<Rightarrow> []
      | Some s \<Rightarrow> sort (map (\<lambda>e. the (map_of by_entry e)) (filter (\<lambda>e. map_of by_entry e \<noteq> None) (sp_entries s))))"

definition local_providers ::
  "(string, string) dict \<Rightarrow> (string, string list) dict \<Rightarrow> ('x, 'm) scope_plans \<Rightarrow> string \<Rightarrow> (string, string list) dict" where
  "local_providers by_entry names_by_instance plans path =
     (let collected = group_by fst (concat (map (\<lambda>i. map (\<lambda>name. (name, i)) (dict_get_or names_by_instance i []))
                        (local_instance_ids by_entry plans path)))
      in map (\<lambda>(name, ids). (name, sorted_set (map snd ids))) (sort_key fst collected))"

text \<open>
  The climb shared by \<open>effective_view\<close> and \<open>effective_tool_view\<close>, which differ in the view they read,
  and the climb of \<open>ancestors_of\<close>, which raises where the other two stop.
\<close>

partial_function (option) view_along ::
  "(('x, 'm) scope_plan \<Rightarrow> string list option) \<Rightarrow> ('x, 'm) scope_plans \<Rightarrow> string list option \<Rightarrow> string option \<Rightarrow> string list option option" where
  "view_along view plans acc current =
     (case current of
        None \<Rightarrow> Some acc
      | Some path \<Rightarrow>
          (case map_of plans path of
             None \<Rightarrow> Some acc
           | Some s \<Rightarrow>
               view_along view plans
                 (case view s of
                    None \<Rightarrow> acc
                  | Some names \<Rightarrow> Some (case acc of None \<Rightarrow> names | Some a \<Rightarrow> filter (\<lambda>c. c \<in> set names) a))
                 (sp_parent s)))"

definition effective_view :: "('x, 'm) scope_plans \<Rightarrow> string \<Rightarrow> string list option option" where
  "effective_view plans path = view_along sp_capabilities plans None (Some path)"

definition effective_tool_view :: "('x, 'm) scope_plans \<Rightarrow> string \<Rightarrow> string list option option" where
  "effective_tool_view plans path = view_along sp_tools plans None (Some path)"

partial_function (option) climb :: "('x, 'm) scope_plans \<Rightarrow> string list \<Rightarrow> string \<Rightarrow> string list result option" where
  "climb plans chain path =
     (case map_of plans path of
        None \<Rightarrow> Some (Inl (PyException ''KeyError'' path))
      | Some s \<Rightarrow>
          (case sp_parent s of
             None \<Rightarrow> Some (Inr chain)
           | Some p \<Rightarrow> climb plans (chain @ [p]) p))"

definition ancestors_of :: "('x, 'm) scope_plans \<Rightarrow> string \<Rightarrow> string list result option" where
  "ancestors_of plans path = climb plans [] path"

definition within_view :: "string list option \<Rightarrow> string \<Rightarrow> bool" where
  "within_view view name \<longleftrightarrow> (case view of None \<Rightarrow> True | Some names \<Rightarrow> name \<in> set names)"

definition merge_providers :: "(string, string list) dict \<Rightarrow> (string, string list) dict \<Rightarrow> (string, string list) dict" where
  "merge_providers found inherited = fold (\<lambda>(name, ids) d. dict_set name (sorted_set (dict_get_or d name [] @ ids)) d) found inherited"

record ('x, 'm) tree_inputs =
  ti_by_entry :: "(string, string) dict"
  ti_names_by_instance :: "(string, string list) dict"
  ti_plans :: "('x, 'm) scope_plans"
  ti_tool_names :: "(string, string list) dict"

definition resolve_scope :: "('x, payload) tree_inputs \<Rightarrow> ('x, payload) scope_plan \<Rightarrow> 'x resolved_scope result option" where
  "resolve_scope ti s =
     (case (effective_view (ti_plans ti) (sp_path s), effective_tool_view (ti_plans ti) (sp_path s), ancestors_of (ti_plans ti) (sp_path s)) of
        (Some view, Some tool_view, Some (Inr ancestors)) \<Rightarrow>
          (let providers_at = local_providers (ti_by_entry ti) (ti_names_by_instance ti) (ti_plans ti);
               tools_at = (\<lambda>path. dict_get_or (ti_tool_names ti) path []);
               mine = filter (\<lambda>(name, ids). within_view view name) (providers_at (sp_path s));
               inherited = filter (\<lambda>(name, ids). within_view view name)
                 (fold (\<lambda>ancestor. merge_providers (providers_at ancestor)) ancestors []);
               visible = map (\<lambda>name. (name, sorted_set (dict_get_or mine name [] @ dict_get_or inherited name [])))
                 (sorted_set (dict_keys mine @ dict_keys inherited));
               owned_tools = filter (within_view tool_view) (tools_at (sp_path s));
               inherited_tools = filter (within_view tool_view) (concat (map tools_at ancestors))
           in Some (Inr \<lparr>rv_path = sp_path s, rv_name = sp_name s, rv_parent = sp_parent s, rv_children = sp_children s,
                rv_capabilities = sp_capabilities s, rv_entries = sp_entries s,
                rv_instances = local_instance_ids (ti_by_entry ti) (ti_plans ti) (sp_path s),
                rv_providers = mine, rv_inherited = inherited, rv_visible = visible,
                rv_requirements = sp_requirements s, rv_provenance = bound_provenance (ti_by_entry ti) (sp_provenance s),
                rv_metadata = frozen_mapping (sp_metadata s), rv_tools = sp_tools s,
                rv_local_tools = sorted_set owned_tools, rv_inherited_tools = sorted_set inherited_tools,
                rv_visible_tools = sorted_set (owned_tools @ inherited_tools)\<rparr>))
      | (Some view, Some tool_view, Some (Inl e)) \<Rightarrow> Some (Inl e)
      | _ \<Rightarrow> None)"

fun resolve_scopes :: "('x, payload) tree_inputs \<Rightarrow> ('x, payload) scope_plan list \<Rightarrow> 'x resolved_scope list result option" where
  "resolve_scopes ti [] = Some (Inr [])"
| "resolve_scopes ti (s # ss) =
     (case resolve_scope ti s of
        None \<Rightarrow> None
      | Some (Inl e) \<Rightarrow> Some (Inl e)
      | Some (Inr rv) \<Rightarrow>
          (case resolve_scopes ti ss of
             None \<Rightarrow> None
           | Some (Inl e) \<Rightarrow> Some (Inl e)
           | Some (Inr rvs) \<Rightarrow> Some (Inr (rv # rvs))))"

definition tree_inputs_of ::
  "('v, 'x, payload) resolution_plan \<Rightarrow> ('v, 'x, 'o, 'p) plugin_instance list \<Rightarrow> ('v, 'o) registration list \<Rightarrow> 't registered_tool list
     \<Rightarrow> ('x, payload) tree_inputs" where
  "tree_inputs_of plan instances registrations tools =
     (let by_entry = instance_by_entry instances
      in \<lparr>ti_by_entry = by_entry,
          ti_names_by_instance = map (\<lambda>(i, rs). (i, map (\<lambda>r. ck_name (cr_key r)) rs)) (group_by cr_provider_id registrations),
          ti_plans = plans_by_path (rp_scopes plan),
          ti_tool_names = tool_names_by_scope (tool_scope_by_instance by_entry (rp_scopes plan))
            (map (\<lambda>t. (te_owner_id (rt_data t), rt_name t)) tools)\<rparr>)"

definition build_scope_tree ::
  "('v, 'x, payload) resolution_plan \<Rightarrow> ('v, 'x, 'o, 'p) plugin_instance list \<Rightarrow> ('v, 'o) registration list \<Rightarrow> 't registered_tool list
     \<Rightarrow> 'x scope_tree result option" where
  "build_scope_tree plan instances registrations tools =
     (case rp_scopes plan of
        [] \<Rightarrow> Some (Inr root_only)
      | first # _ \<Rightarrow>
          (case resolve_scopes (tree_inputs_of plan instances registrations tools) (rp_scopes plan) of
             None \<Rightarrow> None
           | Some (Inl e) \<Rightarrow> Some (Inl e)
           | Some (Inr scopes) \<Rightarrow> Some (Inr \<lparr>st_root = sp_path first, st_scopes = scopes\<rparr>)))"

end
