(* ===== verification/Published_Props.thy ===== *)
theory Published_Props
  imports Published Resolver_Props "HOL-Library.Sublist"
begin

text \<open>
  What a run can see through the published scope tree: exactly what the scopes on its lineage provide,
  as far as every scope on that lineage lets it through.
\<close>

section \<open>Lineages\<close>

lemma index_specs_Inr:
  "index_specs ss d = Inr d' \<Longrightarrow> distinct (dict_keys d) \<Longrightarrow>
     d' = d @ map (\<lambda>s. (ss_path s, s)) ss \<and> distinct (dict_keys d')"
proof (induction ss arbitrary: d)
  case (Cons s ss)
  then have fresh: "map_of d (ss_path s) = None" by (cases "map_of d (ss_path s)") simp_all
  then have "index_specs ss (d @ [(ss_path s, s)]) = Inr d'" using Cons.prems by (simp add: dict_set_fresh)
  moreover have "distinct (dict_keys (d @ [(ss_path s, s)]))" using Cons.prems fresh by (simp add: map_of_eq_None_iff)
  ultimately show ?case using Cons.IH by fastforce
qed simp

lemma lineage_up_split:
  "lineage_up d seen path = Inr chain \<Longrightarrow>
     \<exists>pre. chain = pre @ seen \<and> path \<in> set pre \<and> set pre \<inter> set seen = {}
       \<and> (\<forall>seen'. set pre \<inter> set seen' = {} \<longrightarrow> lineage_up d seen' path = Inr (pre @ seen'))"
proof (induction d seen path arbitrary: chain rule: lineage_up.induct)
  case (1 d seen path)
  have fresh: "path \<notin> set seen" using "1.prems" by (auto simp: lineage_up.simps [of d seen] split: if_splits)
  obtain s where s: "map_of d path = Some s" using "1.prems" fresh by (auto simp: lineage_up.simps [of d seen] split: option.splits)
  show ?case
  proof (cases "ss_parent s")
    case None
    then have "chain = [path] @ seen" using "1.prems" fresh s by (simp add: lineage_up.simps [of d seen])
    moreover have "lineage_up d seen' path = Inr ([path] @ seen')" if "path \<notin> set seen'" for seen'
      using None s that by (simp add: lineage_up.simps [of d seen'])
    ultimately show ?thesis using fresh by (intro exI [of _ "[path]"]) simp
  next
    case (Some p)
    then have "lineage_up d (path # seen) p = Inr chain" using "1.prems" fresh s by (simp add: lineage_up.simps [of d seen])
    from "1.IH" [OF fresh s Some this] obtain pre where pre: "chain = pre @ path # seen" "p \<in> set pre"
        "set pre \<inter> set (path # seen) = {}" "\<And>seen'. set pre \<inter> set seen' = {} \<Longrightarrow> lineage_up d seen' p = Inr (pre @ seen')"
      by auto
    have "lineage_up d seen' path = Inr ((pre @ [path]) @ seen')" if "set (pre @ [path]) \<inter> set seen' = {}" for seen'
      using Some s that pre(4) [of "path # seen'"] pre(3) by (auto simp: lineage_up.simps [of d seen'])
    then show ?thesis using pre(1,3) fresh by (intro exI [of _ "pre @ [path]"]) auto
  qed
qed

lemma lineage_up_parent:
  assumes "lineage_up d [] path = Inr chain" "map_of d path = Some s" "ss_parent s = Some p"
  shows "\<exists>pre. lineage_up d [] p = Inr pre \<and> chain = pre @ [path] \<and> path \<notin> set pre"
proof -
  have "lineage_up d [path] p = Inr chain" using assms by (simp add: lineage_up.simps [of d "[]"])
  from lineage_up_split [OF this] obtain pre where pre: "chain = pre @ [path]" "set pre \<inter> set [path] = {}"
      "\<And>seen'. set pre \<inter> set seen' = {} \<Longrightarrow> lineage_up d seen' p = Inr (pre @ seen')" by auto
  show ?thesis using pre(1,2) pre(3) [of "[]"] by auto
qed

lemma build_index_specs:
  assumes "build_index md scopes = Inr ix"
  shows "wf_dict (si_specs ix)" "map_of (si_specs ix) root_scope \<noteq> None"
    and "map_of (si_specs ix) path = Some s \<Longrightarrow> ss_path s = path"
    and "map_of (si_specs ix) path = Some s \<Longrightarrow> ss_parent s = Some p \<Longrightarrow> map_of (si_specs ix) p \<noteq> None"
    and "map_of (si_specs ix) path = Some s \<Longrightarrow> lineage_up (si_specs ix) [] path = Inr (si_lineage ix path)"
    and "map_of (si_specs ix) path = Some s \<Longrightarrow> si_allow ix path = allowed_for (si_specs ix) (si_lineage ix path)"
proof -
  obtain entries d chains where d: "index_specs entries [] = Inr d" "map_of d root_scope \<noteq> None"
    and parents: "\<not> list_ex (\<lambda>s. case ss_parent s of None \<Rightarrow> False | Some p \<Rightarrow> map_of d p = None) (dict_values d)"
    and chains: "map_result (\<lambda>path. lineage_up d [] path) (dict_keys d) = Inr chains"
    and ix: "ix = \<lparr>si_specs = d, si_lineages = zip (dict_keys d) chains,
        si_allowed = map (\<lambda>(path, lineage). (path, allowed_for d lineage)) (zip (dict_keys d) chains)\<rparr>"
    using assms unfolding build_index_def
    by (auto simp: Let_def bind_result_eq_Inr simp del: map_map split: if_splits)
  have "d = map (\<lambda>s. (ss_path s, s)) entries" "distinct (dict_keys d)" using index_specs_Inr [OF d(1)] by auto
  then show wf: "wf_dict (si_specs ix)" and "map_of (si_specs ix) path = Some s \<Longrightarrow> ss_path s = path"
    using ix by (auto simp: wf_dict_def dest: map_of_SomeD)
  show "map_of (si_specs ix) root_scope \<noteq> None" using d(2) ix by simp
  show "map_of (si_specs ix) p \<noteq> None" if "map_of (si_specs ix) path = Some s" "ss_parent s = Some p"
    using parents that ix by (force simp: list_ex_iff dest: map_of_SomeD)
  assume s: "map_of (si_specs ix) path = Some s"
  then have key: "path \<in> set (dict_keys d)" using ix by (force dest: map_of_SomeD)
  have len: "length chains = length (dict_keys d)" and
    each: "\<forall>i<length (dict_keys d). lineage_up d [] (dict_keys d ! i) = Inr (chains ! i)"
    using chains by (auto simp: map_result_Inr list_all2_conv_all_nth)
  obtain i where i: "i < length (dict_keys d)" "dict_keys d ! i = path" using key by (metis in_set_conv_nth)
  have "map_of (zip (dict_keys d) chains) path = Some (chains ! i)"
    using i len \<open>distinct (dict_keys d)\<close> by (metis map_of_zip_nth)
  then have lineage: "si_lineage ix path = chains ! i" and
    allow: "si_allow ix path = allowed_for d (chains ! i)"
    using ix map_of_map [of "allowed_for d" "zip (dict_keys d) chains"]
    by (simp_all add: si_lineage_def si_allow_def dict_get_or_def map_of_map)
  show "lineage_up (si_specs ix) [] path = Inr (si_lineage ix path)" using each i lineage ix by auto
  show "si_allow ix path = allowed_for (si_specs ix) (si_lineage ix path)" using allow lineage ix by simp
qed

lemma si_lineage_root:
  assumes "build_index md scopes = Inr ix" "map_of (si_specs ix) path = Some s" "ss_parent s = None"
  shows "si_lineage ix path = [path]"
  using build_index_specs(5) [OF assms(1,2)] assms(2,3) by (simp add: lineage_up.simps [of _ "[]"])

lemma si_lineage_parent:
  assumes "build_index md scopes = Inr ix" "map_of (si_specs ix) path = Some s" "ss_parent s = Some p"
  shows "si_lineage ix path = si_lineage ix p @ [path]" "path \<notin> set (si_lineage ix p)"
proof -
  obtain s' where s': "map_of (si_specs ix) p = Some s'" using build_index_specs(4) [OF assms] by blast
  show "si_lineage ix path = si_lineage ix p @ [path]" "path \<notin> set (si_lineage ix p)"
    using lineage_up_parent [OF build_index_specs(5) [OF assms(1,2)] assms(2,3)] build_index_specs(5) [OF assms(1) s']
    by auto
qed

section \<open>The walk over the declared scopes\<close>

lemma si_walk_below:
  assumes "build_index md scopes = Inr ix"
  shows "s \<in> set (si_walk fuel ix path) \<Longrightarrow> map_of (si_specs ix) path = Some s0 \<Longrightarrow>
    map_of (si_specs ix) (ss_path s) = Some s \<and> prefix (si_lineage ix path) (si_lineage ix (ss_path s))
    \<and> (ss_path s = path \<or> (\<exists>p s'. ss_parent s = Some p \<and> s' \<in> set (si_walk fuel ix path) \<and> ss_path s' = p))"
proof (induction fuel arbitrary: path s0)
  case (Suc fuel)
  show ?case
  proof (cases "ss_path s = path")
    case True
    have "s = s0"
    proof (rule ccontr)
      assume "s \<noteq> s0"
      then obtain c where c: "c \<in> set (si_children ix path)" "s \<in> set (si_walk fuel ix c)" using Suc.prems by auto
      then obtain sc where sc: "(c, sc) \<in> set (si_specs ix)" "ss_path sc = c" "ss_parent sc = Some path"
        using build_index_specs(1,3) [OF assms] by (auto simp: si_children_def wf_dict_map_of)
      then have found: "map_of (si_specs ix) c = Some sc" using build_index_specs(1) [OF assms] by (simp add: wf_dict_map_of)
      then have "prefix (si_lineage ix c) (si_lineage ix path)" using Suc.IH [OF c(2)] True by simp
      then show False using si_lineage_parent(1) [OF assms found sc(3)] by (auto simp: prefix_def)
    qed
    then show ?thesis using True Suc.prems(2) by simp
  next
    case False
    then have "s \<noteq> s0" using Suc.prems(2) build_index_specs(3) [OF assms] by blast
    then obtain c where c: "c \<in> set (si_children ix path)" "s \<in> set (si_walk fuel ix c)" using Suc.prems by auto
    then obtain sc where sc: "(c, sc) \<in> set (si_specs ix)" "ss_path sc = c" "ss_parent sc = Some path"
      using build_index_specs(1,3) [OF assms] by (auto simp: si_children_def wf_dict_map_of)
    then have found: "map_of (si_specs ix) c = Some sc" using build_index_specs(1) [OF assms] by (simp add: wf_dict_map_of)
    have ih: "map_of (si_specs ix) (ss_path s) = Some s" "prefix (si_lineage ix c) (si_lineage ix (ss_path s))"
        "ss_path s = c \<or> (\<exists>p s'. ss_parent s = Some p \<and> s' \<in> set (si_walk fuel ix c) \<and> ss_path s' = p)"
      using Suc.IH [OF c(2) found] by auto
    have "prefix (si_lineage ix path) (si_lineage ix (ss_path s))"
      using ih(2) si_lineage_parent(1) [OF assms found sc(3)] by (auto simp: prefix_def)
    moreover have "\<exists>p s'. ss_parent s = Some p \<and> s' \<in> set (si_walk (Suc fuel) ix path) \<and> ss_path s' = p"
    proof (cases "ss_path s = c")
      case True
      then have "s = sc" using ih(1) found by simp
      then show ?thesis using sc(3) Suc.prems(2) build_index_specs(3) [OF assms Suc.prems(2)] by auto
    next
      case False
      then show ?thesis using ih(3) c(1) Suc.prems(2) by auto
    qed
    ultimately show ?thesis using ih(1) by blast
  qed
qed simp

lemma si_children_distinct:
  assumes "build_index md scopes = Inr ix"
  shows "distinct (si_children ix path)"
proof -
  have "map ss_path (dict_values (si_specs ix)) = dict_keys (si_specs ix)"
    using build_index_specs(1,3) [OF assms] by (auto simp: wf_dict_map_of)
  then have "distinct (map ss_path (dict_values (si_specs ix)))"
    using build_index_specs(1) [OF assms] by (simp add: wf_dict_def del: map_map)
  then show ?thesis by (simp add: si_children_def distinct_map_filter)
qed

lemma si_walk_distinct:
  assumes "build_index md scopes = Inr ix"
  shows "map_of (si_specs ix) path = Some s0 \<Longrightarrow> distinct (map ss_path (si_walk fuel ix path))"
proof (induction fuel arbitrary: path s0)
  case (Suc fuel)
  let ?cs = "si_children ix path"
  have child: "\<exists>sc. map_of (si_specs ix) c = Some sc \<and> ss_parent sc = Some path" if "c \<in> set ?cs" for c
    using that build_index_specs(1,3) [OF assms] by (auto simp: si_children_def wf_dict_map_of)
  have under: "prefix (si_lineage ix path @ [c]) (si_lineage ix (ss_path s))" if "c \<in> set ?cs" "s \<in> set (si_walk fuel ix c)" for c s
    using child [OF that(1)] si_walk_below [OF assms that(2)] si_lineage_parent(1) [OF assms] by metis
  have apart: "set (map ss_path (si_walk fuel ix a)) \<inter> set (map ss_path (si_walk fuel ix b)) = {}"
    if "a \<in> set ?cs" "b \<in> set ?cs" "a \<noteq> b" for a b
  proof -
    have False if "sa \<in> set (si_walk fuel ix a)" "sb \<in> set (si_walk fuel ix b)" "ss_path sa = ss_path sb" for sa sb
      using under [OF \<open>a \<in> set ?cs\<close> that(1)] under [OF \<open>b \<in> set ?cs\<close> that(2)] that(3) \<open>a \<noteq> b\<close>
      by (auto simp: prefix_def)
    then show ?thesis by force
  qed
  have "distinct (concat (map (\<lambda>c. map ss_path (si_walk fuel ix c)) ?cs))"
    by (rule distinct_concat_map [OF si_children_distinct [OF assms] _ apart]) (use Suc.IH child in blast)
  moreover have "path \<notin> set (map ss_path (si_walk fuel ix c))" if c: "c \<in> set ?cs" for c
  proof
    assume "path \<in> set (map ss_path (si_walk fuel ix c))"
    then obtain s where "s \<in> set (si_walk fuel ix c)" "ss_path s = path" by auto
    then show False using under [OF c] by (auto simp: prefix_def)
  qed
  ultimately show ?case using Suc.prems build_index_specs(3) [OF assms Suc.prems] by (simp add: map_concat comp_def)
qed simp

section \<open>The scopes of a plan\<close>

text \<open>The scope plans of a resolver run: one per declared scope it walks, under the same path and parent.\<close>

definition plan_walks :: "('x, 'm) scope_index \<Rightarrow> ('x, 'm) scope_plan list \<Rightarrow> bool" where
  "plan_walks ix sps \<longleftrightarrow> list_all2 (\<lambda>s sp. sp_path sp = ss_path s \<and> sp_parent sp = ss_parent s
     \<and> sp_capabilities sp = map_option sorted_set (si_allow ix (ss_path s)) \<and> sp_tools sp = map_option sorted_set (ss_tools s))
     (si_ordered ix) sps"

lemma build_scope_plan_fields:
  "sp_path (build_scope_plan pk ix cs plans view order pending sel options s) = ss_path s"
  "sp_parent (build_scope_plan pk ix cs plans view order pending sel options s) = ss_parent s"
  "sp_capabilities (build_scope_plan pk ix cs plans view order pending sel options s) = map_option sorted_set (sv_allowed view)"
  "sp_tools (build_scope_plan pk ix cs plans view order pending sel options s) = map_option sorted_set (ss_tools s)"
  "sp_entries (build_scope_plan pk ix cs plans view order pending sel options s) = sort (map pc_entry_id (dict_get_or (group_by pc_scope cs) (ss_path s) []))"
  by (simp_all only: build_scope_plan_def Let_def scope_plan.select_convs)

lemma build_view_allowed: "sv_allowed (build_view pk ix cs by_entry eligible path) = si_allow ix path"
  by (simp only: build_view_def Let_def scope_view.select_convs)

lemma resolve_plan_walks:
  "plan_walks ix (rp_scopes (resolve_plan pk selection ordered ix))"
  unfolding plan_walks_def resolve_plan_def
  by (simp only: Let_def split_def resolution_plan.select_convs list_all2_map2 list_all2_same build_scope_plan_fields build_view_allowed) simp

lemma plan_walks_paths:
  assumes "plan_walks ix sps" "build_index md scopes = Inr ix"
  shows "map sp_path sps = map ss_path (si_ordered ix)" "distinct (map sp_path sps)" "sps \<noteq> []"
proof -
  show paths: "map sp_path sps = map ss_path (si_ordered ix)"
    using assms(1) by (auto simp: plan_walks_def list_all2_conv_all_nth intro!: nth_equalityI)
  obtain s0 where s0: "map_of (si_specs ix) root_scope = Some s0" using build_index_specs(2) [OF assms(2)] by blast
  then show "distinct (map sp_path sps)"
    using si_walk_distinct [OF assms(2)] paths by (simp add: si_ordered_def)
  have "si_specs ix \<noteq> []" using s0 by auto
  then obtain n where "length (si_specs ix) = Suc n" by (metis length_0_conv not0_implies_Suc)
  then show "sps \<noteq> []" using s0 paths by (auto simp: si_ordered_def)
qed

definition root_without_parent :: "('x, 'm) scope_index \<Rightarrow> bool" where
  "root_without_parent ix \<longleftrightarrow> (case map_of (si_specs ix) root_scope of None \<Rightarrow> False | Some s \<Rightarrow> ss_parent s = None)"

lemma plan_walks_mem:
  assumes "plan_walks ix sps" "build_index md scopes = Inr ix" "root_without_parent ix" "sp \<in> set sps"
  obtains s where "map_of (si_specs ix) (sp_path sp) = Some s" "sp_parent sp = ss_parent s"
    "sp_capabilities sp = map_option sorted_set (si_allow ix (sp_path sp))" "sp_tools sp = map_option sorted_set (ss_tools s)"
    "\<And>p. sp_parent sp = Some p \<Longrightarrow> \<exists>sq \<in> set sps. sp_path sq = p"
proof -
  obtain s0 where s0: "map_of (si_specs ix) root_scope = Some s0" "ss_parent s0 = None"
    using assms(3) by (auto simp: root_without_parent_def split: option.splits)
  obtain s where s: "s \<in> set (si_ordered ix)" "sp_path sp = ss_path s" "sp_parent sp = ss_parent s"
      "sp_capabilities sp = map_option sorted_set (si_allow ix (ss_path s))" "sp_tools sp = map_option sorted_set (ss_tools s)"
    using assms(1,4) unfolding plan_walks_def list_all2_conv_all_nth in_set_conv_nth by metis
  have found: "map_of (si_specs ix) (ss_path s) = Some s" and
    up: "ss_path s = root_scope \<or> (\<exists>p s'. ss_parent s = Some p \<and> s' \<in> set (si_ordered ix) \<and> ss_path s' = p)"
    using si_walk_below [OF assms(2) s(1) [unfolded si_ordered_def] s0(1)] by (auto simp: si_ordered_def)
  have "\<exists>sq \<in> set sps. sp_path sq = p" if "sp_parent sp = Some p" for p
  proof -
    have "p \<in> ss_path ` set (si_ordered ix)" using up that s(3) found s0 by auto
    then have "p \<in> set (map sp_path sps)" using plan_walks_paths(1) [OF assms(1,2)] by simp
    then show ?thesis by auto
  qed
  then show ?thesis using that [of s] found s by simp
qed

section \<open>The climbs\<close>

lemma plans_by_path_get:
  assumes "distinct (map sp_path sps)"
  shows "map_of (plans_by_path sps) p = Some sp \<longleftrightarrow> sp \<in> set sps \<and> sp_path sp = p"
  unfolding plans_by_path_def by (rule fold_dict_set_get [OF assms])

lemma within_view_None [simp]: "within_view None name"
  by (simp add: within_view_def)

text \<open>Every scope of a lineage lets a name through the views \<open>f\<close> reads.\<close>

definition lineage_lets :: "(('x, 'm) scope_plan \<Rightarrow> string list option) \<Rightarrow> ('x, 'm) scope_plan list \<Rightarrow> string list \<Rightarrow> string \<Rightarrow> bool" where
  "lineage_lets f sps lineage name \<longleftrightarrow> (\<forall>sq\<in>set sps. sp_path sq \<in> set lineage \<longrightarrow> within_view (f sq) name)"

lemma lineage_lets_snoc:
  assumes "sp \<in> set sps" "distinct (map sp_path sps)"
  shows "lineage_lets f sps (lineage @ [sp_path sp]) name \<longleftrightarrow> lineage_lets f sps lineage name \<and> within_view (f sp) name"
proof -
  have "sq = sp" if "sq \<in> set sps" "sp_path sq = sp_path sp" for sq
    using that assms by (simp add: distinct_map inj_on_def)
  then show ?thesis using assms(1) unfolding lineage_lets_def by auto
qed

lemma lineage_lets_Nil [simp]: "lineage_lets f sps [] name"
  by (simp add: lineage_lets_def)

lemma view_step:
  "within_view (case v of None \<Rightarrow> acc | Some names \<Rightarrow> Some (case acc of None \<Rightarrow> names | Some a \<Rightarrow> filter (\<lambda>c. c \<in> set names) a)) name
     \<longleftrightarrow> within_view acc name \<and> within_view v name"
  by (cases v; cases acc) (auto simp: within_view_def)

text \<open>On the plans of a resolver run the climbs end at the root: they follow the lineage.\<close>

lemma view_along_returns:
  assumes "plan_walks ix sps" "build_index md scopes = Inr ix" "root_without_parent ix"
  shows "sp \<in> set sps \<Longrightarrow> \<exists>v. view_along f (plans_by_path sps) acc (Some (sp_path sp)) = Some v
      \<and> (\<forall>name. within_view v name \<longleftrightarrow> within_view acc name \<and> lineage_lets f sps (si_lineage ix (sp_path sp)) name)"
proof (induction "length (si_lineage ix (sp_path sp))" arbitrary: sp acc rule: less_induct)
  case less
  have distinct: "distinct (map sp_path sps)" by (rule plan_walks_paths(2) [OF assms(1,2)])
  have get: "map_of (plans_by_path sps) (sp_path sp) = Some sp" using plans_by_path_get [OF distinct] less.prems by blast
  obtain s where s: "map_of (si_specs ix) (sp_path sp) = Some s" "sp_parent sp = ss_parent s"
      "\<And>p. sp_parent sp = Some p \<Longrightarrow> \<exists>sq \<in> set sps. sp_path sq = p"
    by (rule plan_walks_mem [OF assms less.prems]) blast
  let ?acc = "case f sp of None \<Rightarrow> acc | Some names \<Rightarrow> Some (case acc of None \<Rightarrow> names | Some a \<Rightarrow> filter (\<lambda>c. c \<in> set names) a)"
  show ?case
  proof (cases "sp_parent sp")
    case None
    then have "si_lineage ix (sp_path sp) = [] @ [sp_path sp]" using si_lineage_root [OF assms(2) s(1)] s(2) by simp
    then have "lineage_lets f sps (si_lineage ix (sp_path sp)) name \<longleftrightarrow> within_view (f sp) name" for name
      using lineage_lets_snoc [OF less.prems distinct, of f "[]"] by simp
    moreover have "view_along f (plans_by_path sps) acc (Some (sp_path sp)) = Some ?acc"
      using None get by (simp add: view_along.simps)
    ultimately show ?thesis using view_step [of acc "f sp"] by simp
  next
    case (Some p)
    then obtain sq where sq: "sq \<in> set sps" "sp_path sq = p" using s(3) by blast
    have lin: "si_lineage ix (sp_path sp) = si_lineage ix p @ [sp_path sp]"
      using si_lineage_parent(1) [OF assms(2) s(1)] s(2) Some by simp
    then have shorter: "length (si_lineage ix (sp_path sq)) < length (si_lineage ix (sp_path sp))" using sq(2) by simp
    have "view_along f (plans_by_path sps) acc (Some (sp_path sp)) = view_along f (plans_by_path sps) ?acc (Some (sp_path sq))"
      using Some get sq(2) by (subst view_along.simps) simp
    moreover obtain v where "view_along f (plans_by_path sps) ?acc (Some (sp_path sq)) = Some v"
        "\<And>name. within_view v name \<longleftrightarrow> within_view ?acc name \<and> lineage_lets f sps (si_lineage ix (sp_path sq)) name"
      using less.hyps [OF shorter sq(1)] by blast
    moreover have "lineage_lets f sps (si_lineage ix (sp_path sp)) name
        \<longleftrightarrow> lineage_lets f sps (si_lineage ix (sp_path sq)) name \<and> within_view (f sp) name" for name
      using lineage_lets_snoc [OF less.prems distinct] lin sq(2) by simp
    ultimately show ?thesis using view_step [of acc "f sp"] by auto
  qed
qed

lemma climb_returns:
  assumes "plan_walks ix sps" "build_index md scopes = Inr ix" "root_without_parent ix"
  shows "sp \<in> set sps \<Longrightarrow> \<exists>up. climb (plans_by_path sps) chain (sp_path sp) = Some (Inr (chain @ up))
      \<and> insert (sp_path sp) (set up) = set (si_lineage ix (sp_path sp))"
proof (induction "length (si_lineage ix (sp_path sp))" arbitrary: sp chain rule: less_induct)
  case less
  have distinct: "distinct (map sp_path sps)" by (rule plan_walks_paths(2) [OF assms(1,2)])
  have get: "map_of (plans_by_path sps) (sp_path sp) = Some sp" using plans_by_path_get [OF distinct] less.prems by blast
  obtain s where s: "map_of (si_specs ix) (sp_path sp) = Some s" "sp_parent sp = ss_parent s"
      "\<And>p. sp_parent sp = Some p \<Longrightarrow> \<exists>sq \<in> set sps. sp_path sq = p"
    by (rule plan_walks_mem [OF assms less.prems]) blast
  show ?case
  proof (cases "sp_parent sp")
    case None
    then have "si_lineage ix (sp_path sp) = [sp_path sp]" using si_lineage_root [OF assms(2) s(1)] s(2) by simp
    then show ?thesis using None get by (intro exI [of _ "[]"]) (simp add: climb.simps)
  next
    case (Some p)
    then obtain sq where sq: "sq \<in> set sps" "sp_path sq = p" using s(3) by blast
    have lin: "si_lineage ix (sp_path sp) = si_lineage ix p @ [sp_path sp]"
      using si_lineage_parent(1) [OF assms(2) s(1)] s(2) Some by simp
    then have shorter: "length (si_lineage ix (sp_path sq)) < length (si_lineage ix (sp_path sp))" using sq(2) by simp
    obtain up where up: "climb (plans_by_path sps) (chain @ [p]) (sp_path sq) = Some (Inr ((chain @ [p]) @ up))"
        "insert (sp_path sq) (set up) = set (si_lineage ix (sp_path sq))"
      using less.hyps [OF shorter sq(1)] by blast
    have "climb (plans_by_path sps) chain (sp_path sp) = climb (plans_by_path sps) (chain @ [p]) (sp_path sq)"
      using Some get sq(2) by (subst climb.simps) simp
    then have "climb (plans_by_path sps) chain (sp_path sp) = Some (Inr (chain @ (p # up)))" using up(1) by simp
    moreover have "insert (sp_path sp) (set (p # up)) = set (si_lineage ix (sp_path sp))" using up(2) lin sq(2) by auto
    ultimately show ?thesis by blast
  qed
qed

section \<open>What is mounted where\<close>

lemma dict_get_setdefault [dict_simps]:
  "map_of (dict_setdefault k v d) k' = (if k' = k \<and> map_of d k = None then Some v else map_of d k')"
  by (simp add: dict_setdefault_def map_add_def split: option.splits)

lemma instance_by_entry_get:
  "map_of (instance_by_entry instances) e = map_option pi_instance_id (find (\<lambda>i. pi_entry_id i = e) instances)"
proof -
  have "map_of (fold (\<lambda>inst. dict_setdefault (pi_entry_id inst) (pi_instance_id inst)) instances d) e
      = (case map_of d e of None \<Rightarrow> map_option pi_instance_id (find (\<lambda>i. pi_entry_id i = e) instances) | Some i \<Rightarrow> Some i)" for d
    by (induction instances arbitrary: d) (auto simp: dict_simps split: option.splits)
  then show ?thesis by (simp add: instance_by_entry_def)
qed

text \<open>The instance that backs an entry of a scope.\<close>

definition mounted_at :: "(string, string) dict \<Rightarrow> ('x, 'm) scope_plan list \<Rightarrow> string \<Rightarrow> string \<Rightarrow> bool" where
  "mounted_at by_entry sps path i \<longleftrightarrow> (\<exists>sp\<in>set sps. sp_path sp = path \<and> (\<exists>e\<in>set (sp_entries sp). map_of by_entry e = Some i))"

lemma mounted_in_plan: "mounted_at by_entry sps path i \<Longrightarrow> path \<in> sp_path ` set sps"
  by (auto simp: mounted_at_def)

lemma local_instance_ids_set:
  assumes "distinct (map sp_path sps)"
  shows "i \<in> set (local_instance_ids by_entry (plans_by_path sps) path) \<longleftrightarrow> mounted_at by_entry sps path i"
proof (cases "map_of (plans_by_path sps) path")
  case None
  then have "\<not> (\<exists>sp\<in>set sps. sp_path sp = path)" using plans_by_path_get [OF assms] by (metis option.distinct(1))
  then show ?thesis using None by (auto simp: local_instance_ids_def mounted_at_def)
next
  case (Some sp)
  then have sp: "sp \<in> set sps" "sp_path sp = path" using plans_by_path_get [OF assms] by blast+
  have "sq = sp" if "sq \<in> set sps" "sp_path sq = path" for sq
    using that sp assms by (simp add: distinct_map inj_on_def)
  then show ?thesis using Some sp by (force simp: local_instance_ids_def mounted_at_def)
qed

lemma dict_get_or_sorted:
  assumes "wf_dict d"
  shows "dict_get_or (sort_key fst d) k v = dict_get_or d k v"
proof -
  have "wf_dict (sort_key fst d)" using assms by (simp add: wf_dict_def distinct_map)
  then have "map_of (sort_key fst d) k = map_of d k"
    using assms by (metis wf_dict_map_of set_sort option.exhaust)
  then show ?thesis by (simp add: dict_get_or_def)
qed

lemma local_providers_get:
  "i \<in> set (dict_get_or (local_providers by_entry names plans path) name []) \<longleftrightarrow>
     i \<in> set (local_instance_ids by_entry plans path) \<and> name \<in> set (dict_get_or names i [])"
  "wf_dict (local_providers by_entry names plans path)"
proof -
  let ?c = "group_by fst (concat (map (\<lambda>i. map (\<lambda>name. (name, i)) (dict_get_or names i [])) (local_instance_ids by_entry plans path)))"
  have wf: "wf_dict (sort_key fst ?c)" by (simp add: wf_dict_def distinct_map) (use wf_group_by in \<open>simp add: wf_dict_def distinct_map\<close>)
  have "dict_get_or (local_providers by_entry names plans path) name [] = sorted_set (map snd (dict_get_or ?c name []))"
    using dict_get_or_map [of "\<lambda>ids. sorted_set (map snd ids)" "sort_key fst ?c" name]
    by (simp add: local_providers_def Let_def dict_get_or_sorted [OF wf_group_by])
  then show "i \<in> set (dict_get_or (local_providers by_entry names plans path) name []) \<longleftrightarrow>
     i \<in> set (local_instance_ids by_entry plans path) \<and> name \<in> set (dict_get_or names i [])"
    by (force simp: dict_get_or_group_by image_iff)
  have "dict_keys (local_providers by_entry names plans path) = dict_keys (sort_key fst ?c)"
    by (simp add: local_providers_def Let_def split_def comp_def)
  then show "wf_dict (local_providers by_entry names plans path)" using wf by (simp add: wf_dict_def)
qed

lemma merge_providers_get:
  assumes "wf_dict found"
  shows "set (dict_get_or (merge_providers found inherited) name []) = set (dict_get_or inherited name []) \<union> set (dict_get_or found name [])"
  using assms
proof (induction found rule: rev_induct)
  case Nil
  then show ?case by (simp add: merge_providers_def dict_get_or_def)
next
  case (snoc p found)
  obtain k ids where p: "p = (k, ids)" by (cases p)
  have "merge_providers (found @ [p]) inherited =
      dict_set k (sorted_set (dict_get_or (merge_providers found inherited) k [] @ ids)) (merge_providers found inherited)"
    by (simp add: merge_providers_def p)
  moreover have wf: "wf_dict found" "map_of found k = None" using snoc.prems p by (auto simp: wf_dict_def map_of_eq_None_iff)
  ultimately show ?case using snoc.IH [OF wf(1)] p
    by (auto simp: dict_get_or_def dict_simps map_add_def split: option.splits)
qed

lemma merged_get:
  assumes "\<And>q. wf_dict (providers q)"
  shows "set (dict_get_or (fold (\<lambda>q. merge_providers (providers q)) qs d) name [])
    = set (dict_get_or d name []) \<union> (\<Union>q\<in>set qs. set (dict_get_or (providers q) name []))"
  by (induction qs arbitrary: d) (auto simp: merge_providers_get [OF assms])

lemma dict_get_or_filter:
  "dict_get_or (filter (\<lambda>(k, v). P k) d) k [] = (if P k then dict_get_or d k [] else [])"
  by (induction d) (auto simp: dict_get_or_def)

lemma dict_get_or_empty: "k \<notin> set (dict_keys d) \<Longrightarrow> dict_get_or d k v = v"
  by (simp add: dict_get_or_def map_of_eq_None_iff [THEN iffD2])

section \<open>Tools\<close>

lemma tool_names_get:
  "name \<in> set (dict_get_or (tool_names_by_scope owners tools) path []) \<longleftrightarrow>
     (\<exists>owner. (owner, name) \<in> set tools \<and> map_of owners owner = Some path)"
proof (induction tools rule: rev_induct)
  case (snoc t tools)
  obtain owner n where "t = (owner, n)" by (cases t)
  then show ?case using snoc
    by (cases "map_of owners owner") (auto simp: tool_names_by_scope_def dict_simps)
qed (simp add: tool_names_by_scope_def dict_get_or_def)

text \<open>Under ids that name one instance, and entries declared in one scope, an owner has one scope.\<close>

lemma tool_scope_step:
  "map_of (fold (\<lambda>entry d. case map_of by_entry entry of None \<Rightarrow> d | Some i \<Rightarrow> dict_set i path d) es d) i
     = (if \<exists>e\<in>set es. map_of by_entry e = Some i then Some path else map_of d i)"
  by (induction es arbitrary: d) (auto simp: dict_simps split: option.splits)

lemma tool_scope_get:
  assumes "\<And>p q. mounted_at by_entry sps p i \<Longrightarrow> mounted_at by_entry sps q i \<Longrightarrow> p = q"
  shows "map_of (tool_scope_by_instance by_entry sps) i = Some path \<longleftrightarrow> mounted_at by_entry sps path i"
  using assms
proof (induction sps rule: rev_induct)
  case (snoc sp sps)
  have apart: "p = q" if "mounted_at by_entry sps p i" "mounted_at by_entry sps q i" for p q
    by (rule snoc.prems) (use that in \<open>auto simp: mounted_at_def\<close>)
  have "map_of (tool_scope_by_instance by_entry (sps @ [sp])) i
      = (if \<exists>e\<in>set (sp_entries sp). map_of by_entry e = Some i then Some (sp_path sp) else map_of (tool_scope_by_instance by_entry sps) i)"
    by (simp add: tool_scope_by_instance_def tool_scope_step)
  moreover have "mounted_at by_entry (sps @ [sp]) path i \<longleftrightarrow>
      mounted_at by_entry sps path i \<or> sp_path sp = path \<and> (\<exists>e\<in>set (sp_entries sp). map_of by_entry e = Some i)" for path
    by (auto simp: mounted_at_def)
  ultimately show ?case using snoc.IH [OF apart] snoc.prems by auto
qed (simp add: tool_scope_by_instance_def mounted_at_def)

section \<open>One scope\<close>

lemma resolve_scope_visible:
  assumes "plan_walks ix sps" "build_index md scopes = Inr ix" "root_without_parent ix" "sp \<in> set sps"
    and "ti_plans ti = plans_by_path sps"
  obtains rv where "resolve_scope ti sp = Some (Inr rv)" "rv_path rv = sp_path sp"
    "\<And>name i. i \<in> set (dict_get_or (rv_visible rv) name []) \<longleftrightarrow>
       (\<exists>q\<in>set (si_lineage ix (sp_path sp)). mounted_at (ti_by_entry ti) sps q i)
       \<and> name \<in> set (dict_get_or (ti_names_by_instance ti) i []) \<and> lineage_lets sp_capabilities sps (si_lineage ix (sp_path sp)) name"
    "\<And>name. name \<in> set (rv_visible_tools rv) \<longleftrightarrow>
       (\<exists>q\<in>set (si_lineage ix (sp_path sp)). name \<in> set (dict_get_or (ti_tool_names ti) q []))
       \<and> lineage_lets sp_tools sps (si_lineage ix (sp_path sp)) name"
proof -
  let ?lin = "si_lineage ix (sp_path sp)"
  have distinct: "distinct (map sp_path sps)" by (rule plan_walks_paths(2) [OF assms(1,2)])
  obtain view where view: "effective_view (ti_plans ti) (sp_path sp) = Some view"
      "\<And>name. within_view view name \<longleftrightarrow> lineage_lets sp_capabilities sps ?lin name"
    using view_along_returns [OF assms(1-4), of sp_capabilities None] assms(5) by (auto simp: effective_view_def)
  obtain tview where tview: "effective_tool_view (ti_plans ti) (sp_path sp) = Some tview"
      "\<And>name. within_view tview name \<longleftrightarrow> lineage_lets sp_tools sps ?lin name"
    using view_along_returns [OF assms(1-4), of sp_tools None] assms(5) by (auto simp: effective_tool_view_def)
  obtain up where up: "ancestors_of (ti_plans ti) (sp_path sp) = Some (Inr up)" "insert (sp_path sp) (set up) = set ?lin"
    using climb_returns [OF assms(1-4), of "[]"] assms(5) by (auto simp: ancestors_of_def)
  let ?at = "local_providers (ti_by_entry ti) (ti_names_by_instance ti) (ti_plans ti)"
  let ?mine = "filter (\<lambda>(name, ids). within_view view name) (?at (sp_path sp))"
  let ?inh = "filter (\<lambda>(name, ids). within_view view name) (fold (\<lambda>q. merge_providers (?at q)) up [])"
  let ?visible = "map (\<lambda>name. (name, sorted_set (dict_get_or ?mine name [] @ dict_get_or ?inh name []))) (sorted_set (dict_keys ?mine @ dict_keys ?inh))"
  let ?tools = "\<lambda>path. dict_get_or (ti_tool_names ti) path []"
  have wf: "wf_dict (?at q)" for q by (rule local_providers_get(2))
  have at: "i \<in> set (dict_get_or (?at q) name []) \<longleftrightarrow>
      mounted_at (ti_by_entry ti) sps q i \<and> name \<in> set (dict_get_or (ti_names_by_instance ti) i [])" for i q name
    by (simp add: local_providers_get(1) local_instance_ids_set [OF distinct] assms(5))
  have union: "set (dict_get_or ?visible name []) = set (dict_get_or ?mine name []) \<union> set (dict_get_or ?inh name [])" for name
  proof (cases "name \<in> set (dict_keys ?mine @ dict_keys ?inh)")
    case True
    then show ?thesis by (simp add: dict_get_or_def [of ?visible] dict_simps)
  next
    case False
    then show ?thesis by (simp add: dict_get_or_def [of ?visible] dict_simps dict_get_or_empty)
  qed
  have visible: "set (dict_get_or ?visible name []) =
      (if within_view view name then \<Union>q\<in>set ?lin. set (dict_get_or (?at q) name []) else {})" for name
    unfolding union unfolding up(2) [symmetric] dict_get_or_filter by (auto simp: merged_get [OF wf] dict_get_or_def [of "[]"])
  obtain rv where rv: "resolve_scope ti sp = Some (Inr rv)" "rv_path rv = sp_path sp" "rv_visible rv = ?visible"
      "rv_visible_tools rv = sorted_set (filter (within_view tview) (?tools (sp_path sp)) @ filter (within_view tview) (concat (map ?tools up)))"
    using view(1) tview(1) up(1) by (simp add: resolve_scope_def Let_def)
  have tools: "name \<in> set (rv_visible_tools rv) \<longleftrightarrow> within_view tview name \<and> (\<exists>q\<in>set ?lin. name \<in> set (?tools q))" for name
    unfolding up(2) [symmetric] using rv(4) by auto
  show ?thesis
    by (rule that [OF rv(1,2)]) (use visible at view(2) tools tview(2) rv(3) in auto)
qed

lemma resolve_scopes_all:
  assumes "\<And>sp. sp \<in> set sps \<Longrightarrow> \<exists>rv. resolve_scope ti sp = Some (Inr rv) \<and> P sp rv"
  shows "\<exists>rvs. resolve_scopes ti sps = Some (Inr rvs) \<and> list_all2 P sps rvs"
  using assms
proof (induction sps)
  case (Cons sp sps)
  then obtain rv rvs where "resolve_scope ti sp = Some (Inr rv)" "P sp rv" "resolve_scopes ti sps = Some (Inr rvs)" "list_all2 P sps rvs"
    by (metis list.set_intros)
  then show ?case by simp
qed simp

section \<open>The whole tree\<close>

text \<open>Every declared scope of a lineage lets a name through the view \<open>f\<close> reads.\<close>

definition lets_through :: "('x, 'm) scope_index \<Rightarrow> (('x, 'm) scope_spec \<Rightarrow> string list option) \<Rightarrow> string \<Rightarrow> string \<Rightarrow> bool" where
  "lets_through ix f path name \<longleftrightarrow>
     (\<forall>q\<in>set (si_lineage ix path). case map_of (si_specs ix) q of None \<Rightarrow> True | Some s \<Rightarrow> within_view (f s) name)"

lemma allowed_for_lets:
  "within_view (allowed_for d lineage) name \<longleftrightarrow>
     (\<forall>q\<in>set lineage. case map_of d q of None \<Rightarrow> True | Some s \<Rightarrow> within_view (ss_capabilities s) name)"
proof (induction lineage rule: rev_induct)
  case (snoc q lineage)
  have "within_view (allowed_for d (lineage @ [q])) name \<longleftrightarrow>
      within_view (allowed_for d lineage) name \<and> (case map_of d q of None \<Rightarrow> True | Some s \<Rightarrow> within_view (ss_capabilities s) name)"
    by (auto simp: allowed_for_def within_view_def split: option.splits)
  then show ?case using snoc by auto
qed (simp add: allowed_for_def)

lemma within_view_sorted [simp]: "within_view (map_option sorted_set v) name \<longleftrightarrow> within_view v name"
  by (cases v) (simp_all add: within_view_def)

lemma lineage_in_plan:
  assumes "plan_walks ix sps" "build_index md scopes = Inr ix" "root_without_parent ix"
  shows "sp \<in> set sps \<Longrightarrow> q \<in> set (si_lineage ix (sp_path sp)) \<Longrightarrow>
    \<exists>sq\<in>set sps. sp_path sq = q \<and> set (si_lineage ix q) \<subseteq> set (si_lineage ix (sp_path sp))"
proof (induction "length (si_lineage ix (sp_path sp))" arbitrary: sp rule: less_induct)
  case less
  obtain s where s: "map_of (si_specs ix) (sp_path sp) = Some s" "sp_parent sp = ss_parent s"
      "\<And>p. sp_parent sp = Some p \<Longrightarrow> \<exists>sq \<in> set sps. sp_path sq = p"
    by (rule plan_walks_mem [OF assms less.prems(1)]) blast
  show ?case
  proof (cases "q = sp_path sp")
    case True
    then show ?thesis using less.prems(1) by blast
  next
    case False
    then obtain p where p: "sp_parent sp = Some p"
      using less.prems(2) si_lineage_root [OF assms(2) s(1)] s(2) by (cases "ss_parent s") auto
    then obtain sq where sq: "sq \<in> set sps" "sp_path sq = p" using s(3) by blast
    have lin: "si_lineage ix (sp_path sp) = si_lineage ix p @ [sp_path sp]"
      using si_lineage_parent(1) [OF assms(2) s(1)] s(2) p by simp
    then show ?thesis using less.hyps [OF _ sq(1)] less.prems(2) False sq(2) by auto
  qed
qed

lemma lets_through_plan:
  assumes "plan_walks ix sps" "build_index md scopes = Inr ix" "root_without_parent ix" "sp \<in> set sps"
  shows "lineage_lets sp_capabilities sps (si_lineage ix (sp_path sp)) name \<longleftrightarrow> lets_through ix ss_capabilities (sp_path sp) name"
    and "lineage_lets sp_tools sps (si_lineage ix (sp_path sp)) name \<longleftrightarrow> lets_through ix ss_tools (sp_path sp) name"
proof -
  let ?lin = "set (si_lineage ix (sp_path sp))"
  have view: "within_view (sp_capabilities sq) name \<longleftrightarrow> lets_through ix ss_capabilities (sp_path sq) name"
    and tview: "case map_of (si_specs ix) (sp_path sq) of None \<Rightarrow> False | Some s \<Rightarrow> within_view (sp_tools sq) name = within_view (ss_tools s) name"
    if sq: "sq \<in> set sps" for sq
  proof -
    obtain s where "map_of (si_specs ix) (sp_path sq) = Some s" "sp_capabilities sq = map_option sorted_set (si_allow ix (sp_path sq))"
        "sp_tools sq = map_option sorted_set (ss_tools s)"
      by (rule plan_walks_mem [OF assms(1-3) sq]) blast
    then show "within_view (sp_capabilities sq) name \<longleftrightarrow> lets_through ix ss_capabilities (sp_path sq) name"
      "case map_of (si_specs ix) (sp_path sq) of None \<Rightarrow> False | Some s \<Rightarrow> within_view (sp_tools sq) name = within_view (ss_tools s) name"
      using build_index_specs(6) [OF assms(2)] by (simp_all add: allowed_for_lets lets_through_def)
  qed
  have up: "\<exists>sq\<in>set sps. sp_path sq = q \<and> set (si_lineage ix q) \<subseteq> ?lin" if "q \<in> ?lin" for q
    by (rule lineage_in_plan [OF assms that])
  have self: "sp_path sp \<in> ?lin"
  proof -
    obtain s where s: "map_of (si_specs ix) (sp_path sp) = Some s" by (rule plan_walks_mem [OF assms]) blast
    then show ?thesis using si_lineage_root [OF assms(2) s] si_lineage_parent(1) [OF assms(2) s] by (cases "ss_parent s") auto
  qed
  show "lineage_lets sp_capabilities sps (si_lineage ix (sp_path sp)) name \<longleftrightarrow> lets_through ix ss_capabilities (sp_path sp) name"
  proof
    assume "lineage_lets sp_capabilities sps (si_lineage ix (sp_path sp)) name"
    then show "lets_through ix ss_capabilities (sp_path sp) name" using self assms(4) view by (simp add: lineage_lets_def)
  next
    assume all: "lets_through ix ss_capabilities (sp_path sp) name"
    have "lets_through ix ss_capabilities q name" if "q \<in> ?lin" for q
      using all up [OF that] by (auto simp: lets_through_def)
    then show "lineage_lets sp_capabilities sps (si_lineage ix (sp_path sp)) name" using view by (simp add: lineage_lets_def)
  qed
  show "lineage_lets sp_tools sps (si_lineage ix (sp_path sp)) name \<longleftrightarrow> lets_through ix ss_tools (sp_path sp) name"
  proof
    assume lets: "lineage_lets sp_tools sps (si_lineage ix (sp_path sp)) name"
    have "case map_of (si_specs ix) q of None \<Rightarrow> True | Some s \<Rightarrow> within_view (ss_tools s) name" if q: "q \<in> ?lin" for q
    proof -
      obtain sq where sq: "sq \<in> set sps" "sp_path sq = q" using up [OF q] by blast
      then have "within_view (sp_tools sq) name" using lets q by (simp add: lineage_lets_def)
      then show ?thesis using tview [OF sq(1)] sq(2) by (auto split: option.splits)
    qed
    then show "lets_through ix ss_tools (sp_path sp) name" by (simp add: lets_through_def)
  next
    assume lets: "lets_through ix ss_tools (sp_path sp) name"
    have "within_view (sp_tools sq) name" if "sq \<in> set sps" "sp_path sq \<in> ?lin" for sq
      using tview [OF that(1)] lets that(2) by (auto simp: lets_through_def split: option.splits)
    then show "lineage_lets sp_tools sps (si_lineage ix (sp_path sp)) name" by (simp add: lineage_lets_def)
  qed
qed

text \<open>The instance mounted for a candidate of a scope.\<close>

definition backs ::
  "('v, 'x, 'o) candidate list \<Rightarrow> ('v, 'x, 'o, 'p) plugin_instance list \<Rightarrow> string \<Rightarrow> string \<Rightarrow> bool" where
  "backs cs instances path i \<longleftrightarrow> (\<exists>c\<in>set cs. pc_scope c = path
     \<and> (case find (\<lambda>x. pi_entry_id x = pc_entry_id c) instances of None \<Rightarrow> False | Some inst \<Rightarrow> pi_instance_id inst = i))"

lemma resolve_entries:
  assumes "sp \<in> set (rp_scopes (resolve_plan pk selection ordered ix))"
  shows "set (sp_entries sp) = pc_entry_id ` {c \<in> set ordered. pc_scope c = sp_path sp}"
proof -
  obtain plans view order pending options s where "sp = build_scope_plan pk ix ordered plans view order pending selection options s"
    using assms unfolding resolve_plan_def Let_def split_def resolution_plan.select_convs set_map by (elim imageE)
  then show ?thesis by (simp only: build_scope_plan_fields dict_get_or_group_by) auto
qed

lemma mounted_backs:
  assumes "sps = rp_scopes (resolve_plan pk selection ordered ix)" "set ordered = set cs" "path \<in> sp_path ` set sps"
  shows "mounted_at (instance_by_entry instances) sps path i \<longleftrightarrow> backs cs instances path i"
proof -
  have "mounted_at (instance_by_entry instances) sps path i \<longleftrightarrow>
      (\<exists>c\<in>set cs. pc_scope c = path \<and> map_of (instance_by_entry instances) (pc_entry_id c) = Some i)"
    using assms(3) resolve_entries [of _ pk selection ordered ix] assms(1,2) by (auto simp: mounted_at_def)
  then show ?thesis by (auto simp: backs_def instance_by_entry_get split: option.splits)
qed

lemma backs_unique:
  assumes "distinct (map pc_entry_id cs)" "distinct (map pi_instance_id instances)"
    and "backs cs instances p i" "backs cs instances q i"
  shows "p = q"
proof -
  obtain c x where c: "c \<in> set cs" "pc_scope c = p" "find (\<lambda>x. pi_entry_id x = pc_entry_id c) instances = Some x" "pi_instance_id x = i"
    using assms(3) by (auto simp: backs_def split: option.splits)
  obtain c' x' where c': "c' \<in> set cs" "pc_scope c' = q" "find (\<lambda>x. pi_entry_id x = pc_entry_id c') instances = Some x'" "pi_instance_id x' = i"
    using assms(4) by (auto simp: backs_def split: option.splits)
  have x: "x \<in> set instances" "pi_entry_id x = pc_entry_id c" "x' \<in> set instances" "pi_entry_id x' = pc_entry_id c'"
    using c(3) c'(3) by (auto simp: find_Some_iff)
  then have "x = x'" using assms(2) c(4) c'(4) by (simp add: distinct_map inj_on_def)
  then have "c = c'" using assms(1) x c(1) c'(1) by (simp add: distinct_map inj_on_def)
  then show ?thesis using c(2) c'(2) by simp
qed

lemma names_by_instance:
  "name \<in> set (dict_get_or (ti_names_by_instance (tree_inputs_of plan instances regs tools)) i []) \<longleftrightarrow>
     (\<exists>r\<in>set regs. cr_provider_id r = i \<and> ck_name (cr_key r) = name)"
proof -
  have "dict_get_or (map (\<lambda>(i, rs). (i, map (\<lambda>r. ck_name (cr_key r)) rs)) (group_by cr_provider_id regs)) i []
      = map (\<lambda>r. ck_name (cr_key r)) (filter (\<lambda>r. cr_provider_id r = i) regs)"
    by (simp add: dict_get_or_map dict_get_or_group_by)
  then show ?thesis by (auto simp: tree_inputs_of_def Let_def)
qed

lemma st_get_paths: "path \<in> set (st_paths tree) \<Longrightarrow> \<exists>rv\<in>set (st_scopes tree). st_get path tree = Some rv \<and> rv_path rv = path"
proof -
  have "path \<in> rv_path ` set rvs \<Longrightarrow> \<exists>rv\<in>set rvs. find (\<lambda>rv. rv_path rv = path) rvs = Some rv \<and> rv_path rv = path" for rvs :: "'a resolved_scope list"
    by (induction rvs) auto
  then show "path \<in> set (st_paths tree) \<Longrightarrow> ?thesis" by (simp add: st_paths_def st_get_def)
qed

lemma build_scope_tree_scopes:
  assumes "resolve pk md cs selection scopes = Inr plan" "build_index md scopes = Inr ix" "root_without_parent ix"
  obtains tree where "build_scope_tree plan instances regs tools = Some (Inr tree)" "st_paths tree = map ss_path (si_ordered ix)"
    "\<And>path. path \<in> set (st_paths tree) \<Longrightarrow> \<exists>rv. st_get path tree = Some rv
       \<and> (\<forall>name i. i \<in> set (dict_get_or (rv_visible rv) name []) \<longleftrightarrow>
            (\<exists>q\<in>set (si_lineage ix path). backs cs instances q i)
            \<and> (\<exists>r\<in>set regs. cr_provider_id r = i \<and> ck_name (cr_key r) = name) \<and> lets_through ix ss_capabilities path name)
       \<and> (distinct (map pi_instance_id instances) \<longrightarrow> (\<forall>name. name \<in> set (rv_visible_tools rv) \<longleftrightarrow>
            (\<exists>t\<in>set tools. rt_name t = name \<and> (\<exists>q\<in>set (si_lineage ix path). backs cs instances q (te_owner_id (rt_data t))))
            \<and> lets_through ix ss_tools path name))"
proof -
  obtain ordered where ordered: "ordered = sort_key pc_entry_id cs" "plan = resolve_plan pk selection ordered ix"
      "distinct (map pc_entry_id ordered)"
    using resolve_Inr [OF assms(1)] assms(2) by (metis Inr_inject)
  have cs: "set ordered = set cs" "distinct (map pc_entry_id cs)" using ordered(1,3) by (simp_all add: distinct_map)
  let ?sps = "rp_scopes plan" and ?ti = "tree_inputs_of plan instances regs tools"
  have walks: "plan_walks ix ?sps" using resolve_plan_walks ordered(2) by blast
  note paths = plan_walks_paths [OF walks assms(2)]
  have ti: "ti_plans ?ti = plans_by_path ?sps" "ti_by_entry ?ti = instance_by_entry instances" by (simp_all add: tree_inputs_of_def Let_def)
  have sps: "?sps = rp_scopes (resolve_plan pk selection ordered ix)" using ordered(2) by simp
  have at: "(\<exists>q\<in>set (si_lineage ix (sp_path sp)). mounted_at (instance_by_entry instances) ?sps q i)
      \<longleftrightarrow> (\<exists>q\<in>set (si_lineage ix (sp_path sp)). backs cs instances q i)" if "sp \<in> set ?sps" for sp i
    using lineage_in_plan [OF walks assms(2,3) that] mounted_backs [OF sps cs(1)] by (metis imageI)
  have tools_at: "name \<in> set (dict_get_or (ti_tool_names ?ti) q []) \<longleftrightarrow>
      (\<exists>t\<in>set tools. rt_name t = name \<and> mounted_at (instance_by_entry instances) ?sps q (te_owner_id (rt_data t)))"
    if "distinct (map pi_instance_id instances)" for name q
  proof -
    have "map_of (tool_scope_by_instance (instance_by_entry instances) ?sps) i = Some q \<longleftrightarrow> mounted_at (instance_by_entry instances) ?sps q i" for i q
    proof (rule tool_scope_get)
      fix p q assume "mounted_at (instance_by_entry instances) ?sps p i" "mounted_at (instance_by_entry instances) ?sps q i"
      then have "backs cs instances p i" "backs cs instances q i"
        using mounted_backs [OF sps cs(1) mounted_in_plan] by blast+
      then show "p = q" by (rule backs_unique [OF cs(2) that])
    qed
    then show ?thesis by (auto simp: tree_inputs_of_def Let_def tool_names_get)
  qed
  let ?P = "\<lambda>sp rv. rv_path rv = sp_path sp
     \<and> (\<forall>name i. i \<in> set (dict_get_or (rv_visible rv) name []) \<longleftrightarrow>
          (\<exists>q\<in>set (si_lineage ix (sp_path sp)). backs cs instances q i)
          \<and> (\<exists>r\<in>set regs. cr_provider_id r = i \<and> ck_name (cr_key r) = name) \<and> lets_through ix ss_capabilities (sp_path sp) name)
     \<and> (distinct (map pi_instance_id instances) \<longrightarrow> (\<forall>name. name \<in> set (rv_visible_tools rv) \<longleftrightarrow>
          (\<exists>t\<in>set tools. rt_name t = name \<and> (\<exists>q\<in>set (si_lineage ix (sp_path sp)). backs cs instances q (te_owner_id (rt_data t))))
          \<and> lets_through ix ss_tools (sp_path sp) name))"
  have each: "\<exists>rv. resolve_scope ?ti sp = Some (Inr rv) \<and> ?P sp rv" if sp: "sp \<in> set ?sps" for sp
  proof (rule resolve_scope_visible [OF walks assms(2,3) sp ti(1)])
    fix rv assume rv: "resolve_scope ?ti sp = Some (Inr rv)" "rv_path rv = sp_path sp"
      and visible: "\<And>name i. i \<in> set (dict_get_or (rv_visible rv) name []) \<longleftrightarrow>
       (\<exists>q\<in>set (si_lineage ix (sp_path sp)). mounted_at (ti_by_entry ?ti) ?sps q i)
       \<and> name \<in> set (dict_get_or (ti_names_by_instance ?ti) i []) \<and> lineage_lets sp_capabilities ?sps (si_lineage ix (sp_path sp)) name"
      and tools: "\<And>name. name \<in> set (rv_visible_tools rv) \<longleftrightarrow>
       (\<exists>q\<in>set (si_lineage ix (sp_path sp)). name \<in> set (dict_get_or (ti_tool_names ?ti) q []))
       \<and> lineage_lets sp_tools ?sps (si_lineage ix (sp_path sp)) name"
    have "i \<in> set (dict_get_or (rv_visible rv) name []) \<longleftrightarrow>
          (\<exists>q\<in>set (si_lineage ix (sp_path sp)). backs cs instances q i)
          \<and> (\<exists>r\<in>set regs. cr_provider_id r = i \<and> ck_name (cr_key r) = name) \<and> lets_through ix ss_capabilities (sp_path sp) name" for name i
      unfolding visible ti(2) at [OF sp] names_by_instance lets_through_plan(1) [OF walks assms(2,3) sp] by (rule refl)
    moreover have "name \<in> set (rv_visible_tools rv) \<longleftrightarrow>
          (\<exists>t\<in>set tools. rt_name t = name \<and> (\<exists>q\<in>set (si_lineage ix (sp_path sp)). backs cs instances q (te_owner_id (rt_data t))))
          \<and> lets_through ix ss_tools (sp_path sp) name" if "distinct (map pi_instance_id instances)" for name
      unfolding tools tools_at [OF that] at [OF sp, symmetric] lets_through_plan(2) [OF walks assms(2,3) sp] by blast
    ultimately show ?thesis using rv by blast
  qed
  obtain rvs where rvs: "resolve_scopes ?ti ?sps = Some (Inr rvs)" "list_all2 ?P ?sps rvs"
    using resolve_scopes_all [of ?sps ?ti ?P, OF each] by blast
  have same: "map rv_path rvs = map sp_path ?sps" using rvs(2) by (auto simp: list_all2_conv_all_nth intro!: nth_equalityI)
  obtain first rest where "?sps = first # rest" using paths(3) by (cases ?sps) auto
  then have built: "build_scope_tree plan instances regs tools = Some (Inr \<lparr>st_root = sp_path first, st_scopes = rvs\<rparr>)"
    using rvs(1) by (simp add: build_scope_tree_def)
  show ?thesis
  proof (rule that [OF built])
    show "st_paths \<lparr>st_root = sp_path first, st_scopes = rvs\<rparr> = map ss_path (si_ordered ix)"
      using same paths(1) by (simp add: st_paths_def)
    fix path assume "path \<in> set (st_paths \<lparr>st_root = sp_path first, st_scopes = rvs\<rparr>)"
    then obtain rv where rv: "st_get path \<lparr>st_root = sp_path first, st_scopes = rvs\<rparr> = Some rv" "rv \<in> set rvs" "rv_path rv = path"
      using st_get_paths by fastforce
    obtain k where k: "k < length rvs" "rvs ! k = rv" using rv(2) by (auto simp: in_set_conv_nth)
    have sp: "?P (?sps ! k) rv" using list_all2_nthD2 [OF rvs(2) k(1)] unfolding k(2) .
    then have path: "sp_path (?sps ! k) = path" using rv(3) by simp
    show "\<exists>rv. st_get path \<lparr>st_root = sp_path first, st_scopes = rvs\<rparr> = Some rv
       \<and> (\<forall>name i. i \<in> set (dict_get_or (rv_visible rv) name []) \<longleftrightarrow>
            (\<exists>q\<in>set (si_lineage ix path). backs cs instances q i)
            \<and> (\<exists>r\<in>set regs. cr_provider_id r = i \<and> ck_name (cr_key r) = name) \<and> lets_through ix ss_capabilities path name)
       \<and> (distinct (map pi_instance_id instances) \<longrightarrow> (\<forall>name. name \<in> set (rv_visible_tools rv) \<longleftrightarrow>
            (\<exists>t\<in>set tools. rt_name t = name \<and> (\<exists>q\<in>set (si_lineage ix path). backs cs instances q (te_owner_id (rt_data t))))
            \<and> lets_through ix ss_tools path name))"
      using sp rv(1) unfolding path by blast
  qed
qed

section \<open>Properties\<close>

text \<open>C17: the published scope tree is computed for every plan of the resolver, with one scope per declared
  one, and in each scope a capability shows exactly the mounted instances of plugins declared in that
  scope or one of its ancestors which registered it, provided that every scope from the root down lets
  the capability through its declared view. Nothing of a sibling or a child is visible.\<close>

theorem published_visibility_exact:
  assumes "resolve pk md cs selection scopes = Inr plan" "build_index md scopes = Inr ix" "root_without_parent ix"
  shows "\<exists>tree. build_scope_tree plan instances regs tools = Some (Inr tree) \<and> st_paths tree = map ss_path (si_ordered ix)
    \<and> (\<forall>path\<in>set (st_paths tree). \<forall>name. \<exists>ids. providers_of path name tree = Inr ids
         \<and> (\<forall>i. i \<in> set ids \<longleftrightarrow>
              (\<exists>q\<in>set (si_lineage ix path). backs cs instances q i)
              \<and> (\<exists>r\<in>set regs. cr_provider_id r = i \<and> ck_name (cr_key r) = name)
              \<and> lets_through ix ss_capabilities path name))"
proof (rule build_scope_tree_scopes [OF assms, of instances regs tools])
  fix tree
  assume tree: "build_scope_tree plan instances regs tools = Some (Inr tree)" "st_paths tree = map ss_path (si_ordered ix)"
    and scopes: "\<And>path. path \<in> set (st_paths tree) \<Longrightarrow> \<exists>rv. st_get path tree = Some rv
       \<and> (\<forall>name i. i \<in> set (dict_get_or (rv_visible rv) name []) \<longleftrightarrow>
            (\<exists>q\<in>set (si_lineage ix path). backs cs instances q i)
            \<and> (\<exists>r\<in>set regs. cr_provider_id r = i \<and> ck_name (cr_key r) = name) \<and> lets_through ix ss_capabilities path name)
       \<and> (distinct (map pi_instance_id instances) \<longrightarrow> (\<forall>name. name \<in> set (rv_visible_tools rv) \<longleftrightarrow>
            (\<exists>t\<in>set tools. rt_name t = name \<and> (\<exists>q\<in>set (si_lineage ix path). backs cs instances q (te_owner_id (rt_data t))))
            \<and> lets_through ix ss_tools path name))"
  have "\<exists>ids. providers_of path name tree = Inr ids
         \<and> (\<forall>i. i \<in> set ids \<longleftrightarrow> (\<exists>q\<in>set (si_lineage ix path). backs cs instances q i)
              \<and> (\<exists>r\<in>set regs. cr_provider_id r = i \<and> ck_name (cr_key r) = name) \<and> lets_through ix ss_capabilities path name)"
    if path: "path \<in> set (st_paths tree)" for path name
  proof -
    obtain rv where rv: "st_get path tree = Some rv"
      and visible: "\<forall>name i. i \<in> set (dict_get_or (rv_visible rv) name []) \<longleftrightarrow>
            (\<exists>q\<in>set (si_lineage ix path). backs cs instances q i)
            \<and> (\<exists>r\<in>set regs. cr_provider_id r = i \<and> ck_name (cr_key r) = name) \<and> lets_through ix ss_capabilities path name"
      using scopes [OF path] by (elim exE conjE) (rule that)
    have "providers_of path name tree = Inr (dict_get_or (rv_visible rv) name [])"
      by (simp add: providers_of_def rv)
    then show ?thesis using spec [OF visible, of name] by (intro exI conjI)
  qed
  then show ?thesis using tree by blast
qed

text \<open>A flat composition with one mounted plugin that registered what it declares.\<close>

definition demo_flat_index :: "(unit, payload) scope_index" where
  "demo_flat_index = \<lparr>si_specs = [(root_scope, root_spec [])], si_lineages = [(root_scope, [root_scope])],
     si_allowed = [(root_scope, None)]\<rparr>"

lemma demo_flat_build: "build_index [] None = Inr demo_flat_index"
  by (simp add: build_index_def root_spec_def lineage_up.simps allowed_for_def demo_flat_index_def root_scope_def)

definition demo_flat_candidates :: "(nat, unit, unit) candidate list" where
  "demo_flat_candidates = [demo_candidate ''db'' [''store''] [] []]"

lemma demo_flat_resolve:
  "resolve nat_packaging [] demo_flat_candidates [] None =
     Inr (resolve_plan nat_packaging [] (sort_key pc_entry_id demo_flat_candidates) demo_flat_index)"
  by (rule resolve_succeeds [OF _ demo_flat_build])
    (simp_all add: demo_flat_candidates_def demo_candidate_def demo_flat_index_def)

definition demo_mounted :: "(nat, unit, unit, unit) plugin_instance" where
  "demo_mounted = \<lparr>pi_instance_id = ''plugin_1'', pi_entry_id = ''db'',
     pi_manifest = pc_manifest (demo_candidate ''db'' [''store''] [] []),
     pi_plugin = \<lparr>pg_manifest = None, pg_config = [], pg_body = ()\<rparr>, pi_scope_id = 0, pi_config = [], pi_resolved = [],
     pi_entry_revision = 1, pi_state = ACTIVE, pi_health = HEALTHY, pi_error = None, pi_generation_refs = 0\<rparr>"

definition demo_registration :: "(nat, unit) registration" where
  "demo_registration = \<lparr>cr_id = ''reg_1'', cr_key = \<lparr>ck_name = ''store'', ck_api_version = ''1''\<rparr>, cr_version = 1,
     cr_value = (), cr_provider_id = ''plugin_1'', cr_provider_name = ''db'', cr_scope_id = 0\<rparr>"

lemma demo_flat_facts:
  "root_without_parent demo_flat_index" "si_ordered demo_flat_index = [root_spec []]"
  "si_lineage demo_flat_index root_scope = [root_scope]"
  by (simp_all add: root_without_parent_def demo_flat_index_def root_spec_def si_ordered_def si_children_def si_lineage_def dict_get_or_def)

theorem published_visibility_exact_witness:
  "\<exists>tree ids. build_scope_tree (resolve_plan nat_packaging [] (sort_key pc_entry_id demo_flat_candidates) demo_flat_index)
       [demo_mounted] [demo_registration] ([] :: unit registered_tool list) = Some (Inr tree)
     \<and> providers_of root_scope ''store'' tree = Inr ids \<and> set ids = {''plugin_1''}"
proof -
  have root: "ss_path (root_spec ([] :: payload) :: (unit, payload) scope_spec) = root_scope" by (simp add: root_spec_def)
  have backs: "backs demo_flat_candidates [demo_mounted] root_scope i \<longleftrightarrow> i = ''plugin_1''" for i
    by (auto simp: backs_def demo_flat_candidates_def demo_candidate_def demo_mounted_def)
  have lets: "lets_through demo_flat_index ss_capabilities root_scope ''store''"
    by (simp add: lets_through_def demo_flat_facts) (simp add: demo_flat_index_def root_spec_def)
  from published_visibility_exact [OF demo_flat_resolve demo_flat_build demo_flat_facts(1), of "[demo_mounted]" "[demo_registration]"
      "[] :: unit registered_tool list"]
  obtain tree where tree: "build_scope_tree (resolve_plan nat_packaging [] (sort_key pc_entry_id demo_flat_candidates) demo_flat_index)
       [demo_mounted] [demo_registration] ([] :: unit registered_tool list) = Some (Inr tree)"
    and "root_scope \<in> set (st_paths tree)"
    and all: "\<And>path name. path \<in> set (st_paths tree) \<Longrightarrow> \<exists>ids. providers_of path name tree = Inr ids
         \<and> (\<forall>i. i \<in> set ids \<longleftrightarrow> (\<exists>q\<in>set (si_lineage demo_flat_index path). backs demo_flat_candidates [demo_mounted] q i)
              \<and> (\<exists>r\<in>set [demo_registration]. cr_provider_id r = i \<and> ck_name (cr_key r) = name)
              \<and> lets_through demo_flat_index ss_capabilities path name)"
    unfolding demo_flat_facts(2) by (auto simp: root)
  from all [OF this(2), of "''store''"] obtain ids where "providers_of root_scope ''store'' tree = Inr ids"
      "\<And>i. i \<in> set ids \<longleftrightarrow> i = ''plugin_1''"
    using lets by (auto simp: demo_flat_facts(3) backs demo_registration_def)
  then show ?thesis using tree by blast
qed

text \<open>A tool shows in a published scope exactly when a plugin declared there or in an ancestor owns it
  and every scope from the root down lets its name through the tool view, where instance ids are unique.\<close>

theorem published_tools_exact:
  assumes "resolve pk md cs selection scopes = Inr plan" "build_index md scopes = Inr ix" "root_without_parent ix"
    and "distinct (map pi_instance_id instances)" "build_scope_tree plan instances regs tools = Some (Inr tree)"
    and "st_get path tree = Some rv"
  shows "name \<in> set (rv_visible_tools rv) \<longleftrightarrow>
      (\<exists>t\<in>set tools. rt_name t = name \<and> (\<exists>q\<in>set (si_lineage ix path). backs cs instances q (te_owner_id (rt_data t))))
      \<and> lets_through ix ss_tools path name"
proof (rule build_scope_tree_scopes [OF assms(1-3), of instances regs tools])
  fix tree'
  assume tree: "build_scope_tree plan instances regs tools = Some (Inr tree')"
    and scopes: "\<And>path. path \<in> set (st_paths tree') \<Longrightarrow> \<exists>rv. st_get path tree' = Some rv
       \<and> (\<forall>name i. i \<in> set (dict_get_or (rv_visible rv) name []) \<longleftrightarrow>
            (\<exists>q\<in>set (si_lineage ix path). backs cs instances q i)
            \<and> (\<exists>r\<in>set regs. cr_provider_id r = i \<and> ck_name (cr_key r) = name) \<and> lets_through ix ss_capabilities path name)
       \<and> (distinct (map pi_instance_id instances) \<longrightarrow> (\<forall>name. name \<in> set (rv_visible_tools rv) \<longleftrightarrow>
            (\<exists>t\<in>set tools. rt_name t = name \<and> (\<exists>q\<in>set (si_lineage ix path). backs cs instances q (te_owner_id (rt_data t))))
            \<and> lets_through ix ss_tools path name))"
  have "tree' = tree" using tree assms(5) by simp
  moreover have "path \<in> set (st_paths tree)"
    using assms(6) by (auto simp: st_get_def st_paths_def find_Some_iff)
  ultimately obtain rv' where rv': "st_get path tree = Some rv'" "name \<in> set (rv_visible_tools rv') \<longleftrightarrow>
            (\<exists>t\<in>set tools. rt_name t = name \<and> (\<exists>q\<in>set (si_lineage ix path). backs cs instances q (te_owner_id (rt_data t))))
            \<and> lets_through ix ss_tools path name"
    using scopes [of path] assms(4) by blast
  then show ?thesis using assms(6) by simp
qed

end
