(* ===== verification/Config.thy ===== *)
theory Config
  imports Plugins Hashing
begin

text \<open>
  Declarative configuration (\<open>config/models.py\<close>, \<open>config/loader.py\<close>, \<open>config/reconcile.py\<close>): the validated
  models, the catalog of implementation names, and the operations derived by comparing a
  configuration with what is installed. Reading and parsing a document is left to third-party
  parsers; a configuration starts as the field values they deliver.
\<close>

section \<open>Models\<close>

record entry_config =
  ec_id :: string
  ec_plugin :: string
  ec_config :: payload
  ec_enabled :: bool
  ec_preference :: "(string, string) dict"

text \<open>\<open>isinstance(declared, int)\<close> without \<open>bool\<close>, and not negative.\<close>

definition bad_config_version :: "pvalue \<Rightarrow> bool" where
  "bad_config_version v = (case v of PNone \<Rightarrow> False | PInt n \<Rightarrow> n < 0 | _ \<Rightarrow> True)"

definition make_entry_config :: "entry_config \<Rightarrow> entry_config result" where
  "make_entry_config e =
     (if ec_id e = [] then Inl (value_error ''String should have at least 1 character'')
      else if ec_id e \<noteq> strip (ec_id e) then Inl (value_error ''plugin entry id must not have surrounding whitespace'')
      else if ec_plugin e = [] then Inl (value_error ''String should have at least 1 character'')
      else if (case map_of (ec_config e) ''config_version'' of None \<Rightarrow> False | Some v \<Rightarrow> bad_config_version v) then
        Inl (value_error ''config_version must be a non-negative integer'')
      else Inr (e\<lparr>ec_config := frozen_mapping (ec_config e)\<rparr>))"

definition ec_config_version :: "entry_config \<Rightarrow> int option" where
  "ec_config_version e = (case map_of (ec_config e) ''config_version'' of
     Some (PInt n) \<Rightarrow> Some n | Some (PBool b) \<Rightarrow> Some (if b then 1 else 0) | _ \<Rightarrow> None)"

record harness_config =
  hc_version :: int
  hc_plugins :: "entry_config list"
  hc_preferences :: "(string, string) dict"

fun unique_ids :: "string list \<Rightarrow> entry_config list \<Rightarrow> unit result" where
  "unique_ids seen [] = Inr ()"
| "unique_ids seen (e # es) =
     (if ec_id e \<in> set seen then Inl (value_error ''duplicate plugin entry id'') else unique_ids (ec_id e # seen) es)"

text \<open>A boolean version is refused before it could pass for the integer it is in Python.\<close>

definition make_harness_config :: "bool + int \<Rightarrow> entry_config list \<Rightarrow> (string, string) dict \<Rightarrow> harness_config result" where
  "make_harness_config version plugins preferences =
     (case version of
        Inl b \<Rightarrow> Inl (value_error ''configuration schema version must be an integer'')
      | Inr n \<Rightarrow>
          if n \<noteq> 1 then Inl (value_error ''unsupported configuration schema version'')
          else bind_result (map_result make_entry_config plugins) (\<lambda>entries.
               bind_result (unique_ids [] entries) (\<lambda>_.
               Inr \<lparr>hc_version = n, hc_plugins = entries, hc_preferences = preferences\<rparr>)))"

definition enabled_entries :: "harness_config \<Rightarrow> entry_config list" where
  "enabled_entries config = filter ec_enabled (hc_plugins config)"

definition config_entry :: "string \<Rightarrow> harness_config \<Rightarrow> entry_config option" where
  "config_entry i config = find (\<lambda>e. ec_id e = i) (hc_plugins config)"

text \<open>\<open>migrate_config\<close>: the only supported schema version is 1.\<close>

definition migrate_config :: "payload \<Rightarrow> payload result" where
  "migrate_config payload =
     (case dict_get_or payload ''version'' (PInt 1) of
        PInt n \<Rightarrow> if n = 1 then Inr payload else Inl (ConfigurationError ''unsupported configuration schema version'')
      | _ \<Rightarrow> Inl (ConfigurationError ''unsupported configuration schema version''))"

section \<open>The catalog\<close>

text \<open>An implementation is a class: constructing it from a configuration may raise.\<close>

type_synonym ('v, 'x, 'p) plugin_class = "payload option \<Rightarrow> ('v, 'x, 'p) plugin_object result"

type_synonym ('v, 'x, 'p) catalog = "(string, ('v, 'x, 'p) plugin_class) dict"

definition catalog_register ::
  "string \<Rightarrow> ('v, 'x, 'p) plugin_source \<Rightarrow> bool \<Rightarrow> ('v, 'x, 'p) catalog \<Rightarrow> unit result \<times> ('v, 'x, 'p) catalog" where
  "catalog_register name plugin_type replace catalog =
     (if name = [] \<or> name \<noteq> strip name then
        (Inl (ConfigurationError ''plugin catalog name must be a non-empty, trimmed string''), catalog)
      else case plugin_type of
             PluginObject _ \<Rightarrow> (Inl (ConfigurationError ''catalog entries must be plugin classes''), catalog)
           | PluginClass cls \<Rightarrow>
               if map_of catalog name \<noteq> None \<and> \<not> replace then
                 (Inl (ConfigurationError ''plugin implementation is already registered''), catalog)
               else (Inr (), dict_set name cls catalog))"

definition catalog_unregister :: "string \<Rightarrow> ('v, 'x, 'p) catalog \<Rightarrow> bool \<times> ('v, 'x, 'p) catalog" where
  "catalog_unregister name catalog = (map_of catalog name \<noteq> None, dict_pop name catalog)"

definition catalog_get :: "string \<Rightarrow> ('v, 'x, 'p) catalog \<Rightarrow> ('v, 'x, 'p) plugin_class result" where
  "catalog_get name catalog =
     (case map_of catalog name of
        None \<Rightarrow> Inl (ConfigurationError ''plugin implementation is not registered'')
      | Some cls \<Rightarrow> Inr cls)"

definition catalog_names :: "('v, 'x, 'p) catalog \<Rightarrow> string list" where
  "catalog_names catalog = sort (dict_keys catalog)"

section \<open>Derived operations\<close>

datatype state_action = AddEntry | RemoveEntry | UnchangedEntry | ReplaceEntry | ReconfigureEntry

record state_change =
  sc_action :: state_action
  sc_entry_id :: string
  sc_plugin :: "string option"
  sc_reason :: string

definition is_mutation :: "state_change \<Rightarrow> bool" where
  "is_mutation c \<longleftrightarrow> sc_action c \<in> {AddEntry, RemoveEntry, ReplaceEntry}"

record installed_entry =
  ie_entry_id :: string
  ie_plugin :: string
  ie_revision :: nat
  ie_fingerprint :: string

definition config_fingerprint :: "(string \<Rightarrow> string) \<Rightarrow> (rat \<Rightarrow> string) \<Rightarrow> string \<Rightarrow> payload \<Rightarrow> string result" where
  "config_fingerprint digest ft plugin config =
     stable_hash digest ft None (PDict [(KText ''plugin'', PText plugin),
       (KText ''config'', PDict (map (\<lambda>(k, v). (KText k, v)) config))])"

definition change_for ::
  "(string \<Rightarrow> string) \<Rightarrow> (rat \<Rightarrow> string) \<Rightarrow> string \<Rightarrow> entry_config option \<Rightarrow> installed_entry option \<Rightarrow> state_change result" where
  "change_for digest ft i wanted current =
     (case (wanted, current) of
        (Some e, None) \<Rightarrow> Inr \<lparr>sc_action = AddEntry, sc_entry_id = i, sc_plugin = Some (ec_plugin e),
                                sc_reason = ''entry is desired but not installed''\<rparr>
      | (None, Some c) \<Rightarrow> Inr \<lparr>sc_action = RemoveEntry, sc_entry_id = i, sc_plugin = Some (ie_plugin c),
                                sc_reason = ''entry is installed but no longer desired''\<rparr>
      | (None, None) \<Rightarrow> Inl (PyException ''AssertionError'' [])
      | (Some e, Some c) \<Rightarrow>
          if ec_plugin e \<noteq> ie_plugin c then
            Inr \<lparr>sc_action = ReplaceEntry, sc_entry_id = i, sc_plugin = Some (ec_plugin e),
                 sc_reason = ''implementation changed from '' @ py_repr (ie_plugin c)\<rparr>
          else bind_result (config_fingerprint digest ft (ec_plugin e) (ec_config e)) (\<lambda>h.
            Inr (if h \<noteq> ie_fingerprint c then
                   \<lparr>sc_action = ReplaceEntry, sc_entry_id = i, sc_plugin = Some (ec_plugin e),
                    sc_reason = ''configuration changed; in-place reconfigure is not supported''\<rparr>
                 else \<lparr>sc_action = UnchangedEntry, sc_entry_id = i, sc_plugin = Some (ec_plugin e), sc_reason = []\<rparr>)))"

text \<open>The dictionary of wanted entries keeps the last one of an id; the models refuse duplicates.\<close>

definition wanted_entries :: "harness_config \<Rightarrow> (string, entry_config) dict" where
  "wanted_entries config = fold (\<lambda>e. dict_set (ec_id e) e) (enabled_entries config) []"

definition diff_desired_state ::
  "(string \<Rightarrow> string) \<Rightarrow> (rat \<Rightarrow> string) \<Rightarrow> harness_config \<Rightarrow> (string, installed_entry) dict \<Rightarrow> state_change list result" where
  "diff_desired_state digest ft desired installed =
     (let wanted = wanted_entries desired
      in map_result (\<lambda>i. change_for digest ft i (map_of wanted i) (map_of installed i))
           (sorted_set (dict_keys wanted @ dict_keys installed)))"

end
