(* ===== verification/Desired.thy ===== *)
theory Desired
  imports Config Composition
begin

text \<open>
  The desired state of a harness (\<open>harness.py\<close>, the synchronous half): entries installed by the
  program, through scopes, as provisions or from a declarative configuration, and the provider
  preferences. It extends the composition tree: the tree's owner is the harness, its registry and its
  dirty flag are the harness's. None of these operations publishes anything.
\<close>

section \<open>State\<close>

type_synonym 'o provision = "capability_key \<times> 'o \<times> string option"

record ('v, 'x, 'o, 'p) desired = "('v, 'x, 'o, 'p) control" +
  ds_catalog :: "('v, 'x, 'p) catalog"
  ds_config :: "harness_config option"
  ds_config_preferences :: "(string, string) dict"
  ds_preferences :: "(string, string) dict"
  ds_provisions :: "(capability_key, 'o provision) dict"

definition new_desired :: "('v, 'x, 'o, 'p) desired" where
  "new_desired = control.extend new_control
     \<lparr>ds_catalog = [], ds_config = None, ds_config_preferences = [], ds_preferences = [], ds_provisions = []\<rparr>"

definition mark_dirty :: "('v, 'x, 'o, 'p) desired \<Rightarrow> ('v, 'x, 'o, 'p) desired" where
  "mark_dirty ds = ds\<lparr>ct_dirty := True\<rparr>"

definition register_plugin_type ::
  "string \<Rightarrow> ('v, 'x, 'p) plugin_source \<Rightarrow> bool \<Rightarrow> ('v, 'x, 'o, 'p) desired \<Rightarrow> unit result \<times> ('v, 'x, 'o, 'p) desired" where
  "register_plugin_type name cls replace ds =
     (case catalog_register name cls replace (ds_catalog ds) of (r, catalog) \<Rightarrow> (r, ds\<lparr>ds_catalog := catalog\<rparr>))"

section \<open>Entries\<close>

text \<open>A scope argument: none, a scope object, or a path.\<close>

definition scope_path :: "parent_ref \<Rightarrow> ('v, 'x, 'o, 'p) desired \<Rightarrow> string result" where
  "scope_path scope ds =
     (case scope of
        NoParent \<Rightarrow> Inr (node_path (ct_nodes ds) 0)
      | _ \<Rightarrow>
          bind_result (canonical_scope_path (case scope of ParentScope i \<Rightarrow> node_path (ct_nodes ds) i | ParentPath p \<Rightarrow> p | NoParent \<Rightarrow> []))
            (\<lambda>path. bind_result (tree_get path ds) (\<lambda>found.
              if found = None then Inl (ConfigurationError ''cannot install into an undeclared composition scope'') else Inr path)))"

definition harness_install ::
  "('v, 'x, 'p) plugin_source \<Rightarrow> string option \<Rightarrow> payload option \<Rightarrow> bool \<Rightarrow> parent_ref \<Rightarrow> ('v, 'x, 'o, 'p) desired
     \<Rightarrow> string result \<times> ('v, 'x, 'o, 'p) desired" where
  "harness_install source entry_id config replace scope ds =
     (case scope_path scope ds of
        Inl e \<Rightarrow> (Inl e, ds)
      | Inr path \<Rightarrow>
          (case plugin_install source entry_id config replace path (ct_registry ds) of
             (Inl e, reg) \<Rightarrow> (Inl e, ds\<lparr>ct_registry := reg\<rparr>)
           | (Inr entry, reg) \<Rightarrow> (Inr (pe_entry_id entry), ds\<lparr>ct_registry := reg, ct_dirty := True\<rparr>)))"

definition harness_uninstall :: "string \<Rightarrow> ('v, 'x, 'o, 'p) desired \<Rightarrow> bool \<times> ('v, 'x, 'o, 'p) desired" where
  "harness_uninstall i ds =
     (case plugin_uninstall i (ct_registry ds) of
        (removed, reg) \<Rightarrow> (removed, ds\<lparr>ct_registry := reg, ct_dirty := ct_dirty ds \<or> removed\<rparr>))"

definition harness_entry :: "string \<Rightarrow> ('v, 'x, 'o, 'p) desired \<Rightarrow> ('v, 'x, 'p) plugin_entry option" where
  "harness_entry i ds = map_of (pr_entries (ct_registry ds)) i"

text \<open>\<open>entry_restorer\<close>: the captured entry, and what running the restorer does.\<close>

definition restore_captured :: "string \<times> ('v, 'x, 'p) captured_entry \<Rightarrow> ('v, 'x, 'o, 'p) desired \<Rightarrow> ('v, 'x, 'o, 'p) desired" where
  "restore_captured u ds = ds\<lparr>ct_registry := restore_entry (fst u) (snd u) (ct_registry ds)\<rparr>"

definition entry_restorer :: "string \<Rightarrow> ('v, 'x, 'o, 'p) desired \<Rightarrow> string \<times> ('v, 'x, 'p) captured_entry" where
  "entry_restorer i ds = (i, capture_entry i (ct_registry ds))"

section \<open>Provisions\<close>

definition services_id :: string where
  "services_id = ''chassis.services''"

definition services_provides :: "'o provision list \<Rightarrow> (string, string list) dict" where
  "services_provides provisions =
     fold (\<lambda>(key, value, version) provides.
       let promised = (case version of None \<Rightarrow> ck_api_version key | Some v \<Rightarrow> v);
           versions = dict_get_or provides (ck_name key) []
       in if promised \<in> set versions then provides else dict_set (ck_name key) (versions @ [promised]) provides)
     provisions []"

definition services_manifest :: "'o provision list \<Rightarrow> unit manifest" where
  "services_manifest provisions =
     \<lparr>mf_name = ''chassis-services'', mf_version = ''1.0.0'',
      mf_provides = map (\<lambda>(name, vs). (name, Versions vs)) (services_provides provisions),
      mf_requires = [], mf_optional = [], mf_permissions = [], mf_config_version = 1,
      mf_implementation_revision = None, mf_metadata = ()\<rparr>"

text \<open>
  The decorated class: its manifest is validated when the class is made, its body, which provides the
  values, is the argument \<open>body\<close>.
\<close>

definition services_plugin ::
  "('v, 'x) packaging \<Rightarrow> ('o provision list \<Rightarrow> 'p) \<Rightarrow> 'o provision list \<Rightarrow> ('v, 'x, 'p) plugin_source result" where
  "services_plugin pk body provisions =
     bind_result (make_manifest pk (services_manifest provisions)) (\<lambda>mf.
     bind_result (read_contracts pk mf) (\<lambda>contracts.
     Inr (PluginClass (\<lambda>config. Inr \<lparr>pg_manifest = Some contracts,
       pg_config = (case config of None \<Rightarrow> [] | Some c \<Rightarrow> frozen_mapping c), pg_body = body provisions\<rparr>))))"

definition sync_services_entry ::
  "('v, 'x) packaging \<Rightarrow> ('o provision list \<Rightarrow> 'p) \<Rightarrow> ('v, 'x, 'o, 'p) desired \<Rightarrow> unit result \<times> ('v, 'x, 'o, 'p) desired" where
  "sync_services_entry pk body ds =
     (if ds_provisions ds = [] then
        (Inr (), ds\<lparr>ct_registry := snd (plugin_uninstall services_id (ct_registry ds))\<rparr>)
      else case services_plugin pk body (dict_values (ds_provisions ds)) of
             Inl e \<Rightarrow> (Inl e, ds)
           | Inr services \<Rightarrow>
               (case harness_install services (Some services_id) None
                       (services_id \<in> pe_entry_id ` set (plugin_entries (ct_registry ds))) NoParent ds of
                  (Inl e, ds') \<Rightarrow> (Inl e, ds')
                | (Inr _, ds') \<Rightarrow> (Inr (), ds')))"

definition harness_provide ::
  "('v, 'x) packaging \<Rightarrow> ('o provision list \<Rightarrow> 'p) \<Rightarrow> capability_key \<Rightarrow> 'o \<Rightarrow> string option \<Rightarrow> ('v, 'x, 'o, 'p) desired
     \<Rightarrow> unit result \<times> ('v, 'x, 'o, 'p) desired" where
  "harness_provide pk body key v version ds =
     (case sync_services_entry pk body (ds\<lparr>ds_provisions := dict_set key (key, v, version) (ds_provisions ds)\<rparr>) of
        (Inl e, ds') \<Rightarrow> (Inl e, ds')
      | (Inr _, ds') \<Rightarrow> (Inr (), ds'\<lparr>ct_dirty := True\<rparr>))"

text \<open>A capability is withdrawn by its key or by its name.\<close>

definition harness_withdraw ::
  "('v, 'x) packaging \<Rightarrow> ('o provision list \<Rightarrow> 'p) \<Rightarrow> capability_key + string \<Rightarrow> ('v, 'x, 'o, 'p) desired
     \<Rightarrow> bool result \<times> ('v, 'x, 'o, 'p) desired" where
  "harness_withdraw pk body capability ds =
     (let gone = (case capability of
            Inl key \<Rightarrow> filter (\<lambda>k. k = key) (dict_keys (ds_provisions ds))
          | Inr name \<Rightarrow> filter (\<lambda>k. ck_name k = name) (dict_keys (ds_provisions ds)))
      in if gone = [] then (Inr False, ds)
         else case sync_services_entry pk body (ds\<lparr>ds_provisions := fold dict_pop gone (ds_provisions ds)\<rparr>) of
                (Inl e, ds') \<Rightarrow> (Inl e, ds')
              | (Inr _, ds') \<Rightarrow> (Inr True, ds'\<lparr>ct_dirty := True\<rparr>))"

section \<open>Preferences\<close>

definition prefer_provider ::
  "string \<Rightarrow> string \<Rightarrow> string option \<Rightarrow> parent_ref \<Rightarrow> ('v, 'x, 'o, 'p) desired \<Rightarrow> unit result \<times> ('v, 'x, 'o, 'p) desired" where
  "prefer_provider capability provider consumer scope ds =
     (case (case consumer of
              Some c \<Rightarrow>
                if scope \<noteq> NoParent then
                  Inl (ConfigurationError ''a provider preference cannot be scoped to a consumer and a scope at once'')
                else Inr (c @ '':'' @ capability)
            | None \<Rightarrow>
                if scope \<noteq> NoParent then bind_result (scope_path scope ds) (\<lambda>path. Inr (''scope:'' @ path @ '':'' @ capability))
                else Inr capability) of
        Inl e \<Rightarrow> (Inl e, ds)
      | Inr key \<Rightarrow> (Inr (), ds\<lparr>ds_preferences := dict_set key provider (ds_preferences ds), ct_dirty := True\<rparr>))"

text \<open>\<open>{**self._config_preferences, **self._provider_preference}\<close>\<close>

definition effective_preferences :: "('v, 'x, 'o, 'p) desired \<Rightarrow> (string, string) dict" where
  "effective_preferences ds = fold (\<lambda>(k, v). dict_set k v) (ds_preferences ds) (ds_config_preferences ds)"

definition preference_for :: "(string, string) dict \<Rightarrow> string \<Rightarrow> string \<Rightarrow> string \<Rightarrow> string option" where
  "preference_for preferences consumer capability scope =
     (case map_of preferences (consumer @ '':'' @ capability) of
        Some p \<Rightarrow> Some p
      | None \<Rightarrow>
          (case map_of preferences (''scope:'' @ scope @ '':'' @ capability) of
             Some p \<Rightarrow> Some p
           | None \<Rightarrow> map_of preferences capability))"

section \<open>Declarative configuration\<close>

definition installed_state ::
  "(string \<Rightarrow> string) \<Rightarrow> (rat \<Rightarrow> string) \<Rightarrow> ('v, 'x, 'o, 'p) desired \<Rightarrow> (string, installed_entry) dict result" where
  "installed_state digest ft ds =
     map_result (\<lambda>e. bind_result (config_fingerprint digest ft (ct_name (pe_manifest e)) (pe_config e)) (\<lambda>h.
       Inr (pe_entry_id e, \<lparr>ie_entry_id = pe_entry_id e, ie_plugin = ct_name (pe_manifest e), ie_revision = pe_revision e,
         ie_fingerprint = h\<rparr>))) (plugin_entries (ct_registry ds))"

text \<open>Every preference of the configuration, merged by capability.\<close>

definition staged_preferences :: "harness_config \<Rightarrow> (string, string) dict" where
  "staged_preferences config =
     fold (\<lambda>e. fold (\<lambda>(k, v). dict_set k v) (ec_preference e)) (enabled_entries config) (hc_preferences config)"

definition stage_config :: "harness_config \<Rightarrow> ('v, 'x, 'o, 'p) desired \<Rightarrow> unit result" where
  "stage_config config ds =
     bind_result (map_result (\<lambda>e. catalog_get (ec_plugin e) (ds_catalog ds)) (hc_plugins config)) (\<lambda>_.
       if list_ex (\<lambda>(capability, provider). strip capability = [] \<or> strip provider = []) (staged_preferences config) then
         Inl (ConfigurationError ''provider preferences need a non-empty capability and provider'')
       else Inr ())"

definition config_preferences :: "harness_config \<Rightarrow> (string, string) dict" where
  "config_preferences config =
     fold (\<lambda>e. fold (\<lambda>(capability, provider). dict_set (ec_id e @ '':'' @ capability) provider) (ec_preference e))
       (enabled_entries config) (hc_preferences config)"

text \<open>One operation of a batch: the error it raised, what undoes it, and whether it was applied.\<close>

type_synonym ('v, 'x, 'o, 'p) batch =
  "(string \<times> ('v, 'x, 'p) captured_entry) list \<times> state_change list \<times> ('v, 'x, 'o, 'p) desired"

definition apply_change ::
  "harness_config \<Rightarrow> state_change \<Rightarrow> ('v, 'x, 'o, 'p) batch \<Rightarrow> unit result \<times> ('v, 'x, 'o, 'p) batch" where
  "apply_change config change b =
     (case b of (undo, applied, ds) \<Rightarrow>
        if \<not> is_mutation change then (Inr (), b)
        else if sc_action change = RemoveEntry then
          (Inr (), (undo @ [entry_restorer (sc_entry_id change) ds], applied @ [change], snd (harness_uninstall (sc_entry_id change) ds)))
        else (case config_entry (sc_entry_id change) config of
                None \<Rightarrow> (Inr (), (undo, applied @ [change], ds))
              | Some e \<Rightarrow>
                  (let undo' = undo @ [entry_restorer (ec_id e) ds]
                   in case catalog_get (ec_plugin e) (ds_catalog ds) of
                        Inl err \<Rightarrow> (Inl err, (undo', applied, ds))
                      | Inr cls \<Rightarrow>
                          (case harness_install (PluginClass cls) (Some (ec_id e)) (Some (ec_config e))
                                  (sc_action change = ReplaceEntry) NoParent ds of
                             (Inl err, ds') \<Rightarrow> (Inl err, (undo', applied, ds'))
                           | (Inr _, ds') \<Rightarrow> (Inr (), (undo', applied @ [change], ds'))))))"

fun apply_changes ::
  "harness_config \<Rightarrow> state_change list \<Rightarrow> ('v, 'x, 'o, 'p) batch \<Rightarrow> unit result \<times> ('v, 'x, 'o, 'p) batch" where
  "apply_changes config [] b = (Inr (), b)"
| "apply_changes config (c # cs) b =
     (case apply_change config c b of
        (Inl e, b') \<Rightarrow> (Inl e, b')
      | (Inr _, b') \<Rightarrow> apply_changes config cs b')"

text \<open>Equality of dictionaries, whatever their order.\<close>

definition dict_eq :: "('k, 'w) dict \<Rightarrow> ('k, 'w) dict \<Rightarrow> bool" where
  "dict_eq a b \<longleftrightarrow> list_all (\<lambda>k. map_of a k = map_of b k) (dict_keys a @ dict_keys b)"

record apply_result =
  ar_config :: harness_config
  ar_changes :: "state_change list"
  ar_applied :: "state_change list"

definition apply_config ::
  "(string \<Rightarrow> string) \<Rightarrow> (rat \<Rightarrow> string) \<Rightarrow> harness_config \<Rightarrow> ('v, 'x, 'o, 'p) desired
     \<Rightarrow> apply_result result \<times> ('v, 'x, 'o, 'p) desired" where
  "apply_config digest ft config ds =
     (case bind_result (stage_config config ds) (\<lambda>_. bind_result (installed_state digest ft ds)
             (\<lambda>installed. diff_desired_state digest ft config installed)) of
        Inl e \<Rightarrow> (Inl e, ds)
      | Inr changes \<Rightarrow>
          (case apply_changes config changes ([], [], ds) of
             (Inl e, (undo, applied, ds')) \<Rightarrow>
               (Inl e, (fold restore_captured (rev undo) ds')\<lparr>ds_config_preferences := ds_config_preferences ds,
                  ds_config := ds_config ds, ct_dirty := ct_dirty ds\<rparr>)
           | (Inr _, (undo, applied, ds')) \<Rightarrow>
               (Inr \<lparr>ar_config = config, ar_changes = changes, ar_applied = applied\<rparr>,
                ds'\<lparr>ds_config_preferences := config_preferences config, ds_config := Some config,
                    ct_dirty := ct_dirty ds' \<or> \<not> dict_eq (config_preferences config) (ds_config_preferences ds)\<rparr>)))"

end
