(* ===== verification/Desired_Props.thy ===== *)
theory Desired_Props
  imports Desired Entry_Props Capability_Props Composition_Props
begin

text \<open>
  Applying a configuration is a transaction on the desired state: it happens completely or not at all,
  it leaves exactly the configured entries installed, and doing it again changes nothing.
\<close>

section \<open>Undoing a batch\<close>

text \<open>Registries that answer every question alike; the order of their dictionaries may differ.\<close>

definition same_registry :: "('v, 'x, 'o, 'p) plugin_registry \<Rightarrow> ('v, 'x, 'o, 'p) plugin_registry \<Rightarrow> bool" where
  "same_registry a b \<longleftrightarrow> wf_dict (pr_entries a) \<and> wf_dict (pr_entries b)
     \<and> (\<forall>i. map_of (pr_entries a) i = map_of (pr_entries b) i \<and> map_of (pr_revisions a) i = map_of (pr_revisions b) i)
     \<and> pr_instances a = pr_instances b \<and> pr_by_entry a = pr_by_entry b"

lemma same_registry_refl: "wf_dict (pr_entries a) \<Longrightarrow> same_registry a a"
  by (simp add: same_registry_def)

lemma same_registry_trans: "same_registry a b \<Longrightarrow> same_registry b c \<Longrightarrow> same_registry a c"
  by (simp add: same_registry_def)

lemma same_registry_restore:
  "same_registry a b \<Longrightarrow> same_registry (restore_entry i c a) (restore_entry i c b)"
  by (auto simp: same_registry_def restore_entry_def dict_simps split: option.splits)

lemma restore_captured_entry:
  assumes "same_but i reg reg'" "wf_dict (pr_entries reg)"
  shows "same_registry (restore_entry i (capture_entry i reg) reg') reg"
  using assms by (auto simp: same_registry_def restore_entry_def capture_entry_def same_but_def dict_simps split: option.splits)

lemma restores_registry:
  "ct_registry (fold restore_captured us ds) = fold (\<lambda>u. restore_entry (fst u) (snd u)) us (ct_registry ds)"
  by (induction us arbitrary: ds) (simp_all add: restore_captured_def)

lemma restores_same:
  "same_registry a b \<Longrightarrow> same_registry (fold (\<lambda>u. restore_entry (fst u) (snd u)) us a) (fold (\<lambda>u. restore_entry (fst u) (snd u)) us b)"
  by (induction us arbitrary: a b) (simp_all add: same_registry_restore)

text \<open>What no change touches.\<close>

definition same_rest :: "('v, 'x, 'o, 'p) desired \<Rightarrow> ('v, 'x, 'o, 'p) desired \<Rightarrow> bool" where
  "same_rest a b \<longleftrightarrow> ct_nodes a = ct_nodes b \<and> ct_scopes a = ct_scopes b \<and> ds_catalog a = ds_catalog b \<and> ds_config a = ds_config b
     \<and> ds_config_preferences a = ds_config_preferences b \<and> ds_preferences a = ds_preferences b \<and> ds_provisions a = ds_provisions b"

lemma same_rest_trans: "same_rest a b \<Longrightarrow> same_rest b c \<Longrightarrow> same_rest a c"
  by (simp add: same_rest_def)

lemma same_rest_refl [simp]: "same_rest a a"
  by (simp add: same_rest_def)

lemma same_rest_restores: "same_rest (fold restore_captured us a) a"
  by (induction us arbitrary: a) (simp_all add: same_rest_def restore_captured_def)

lemma same_but_refl: "wf_dict (pr_entries reg) \<Longrightarrow> same_but i reg reg"
  by (simp add: same_but_def)

lemma harness_install_step:
  assumes "harness_install source (Some i) config replace scope ds = (r, ds')" "wf_dict (pr_entries (ct_registry ds))"
  shows "same_but i (ct_registry ds) (ct_registry ds') \<and> same_rest ds' ds"
proof (cases "scope_path scope ds")
  case (Inl e)
  then show ?thesis using assms by (auto simp: harness_install_def same_but_refl)
next
  case (Inr path)
  obtain q reg where run: "plugin_install source (Some i) config replace path (ct_registry ds) = (q, reg)" by fastforce
  have "same_but i (ct_registry ds) reg"
    using same_but_step [OF es_install [OF run] same_but_refl [OF assms(2)]] .
  moreover have "ct_registry ds' = reg \<and> same_rest ds' ds"
    using assms(1) Inr run by (auto simp: harness_install_def same_rest_def split: sum.splits)
  ultimately show ?thesis by simp
qed

lemma harness_uninstall_step:
  assumes "wf_dict (pr_entries (ct_registry ds))"
  shows "same_but i (ct_registry ds) (ct_registry (snd (harness_uninstall i ds))) \<and> same_rest (snd (harness_uninstall i ds)) ds"
  using assms by (auto simp: harness_uninstall_def plugin_uninstall_def same_but_def same_rest_def dict_simps split: prod.splits)

text \<open>Running the undo actions in reverse leads back to where the batch began.\<close>

definition undoes :: "('v, 'x, 'o, 'p) desired \<Rightarrow> ('v, 'x, 'o, 'p) batch \<Rightarrow> bool" where
  "undoes start b = (case b of (undo, applied, ds) \<Rightarrow>
     wf_dict (pr_entries (ct_registry ds)) \<and> same_rest ds start
     \<and> same_registry (fold (\<lambda>u. restore_entry (fst u) (snd u)) (rev undo) (ct_registry ds)) (ct_registry start))"

lemma undoes_step:
  assumes "undoes start (undo, applied, ds)" "same_but i (ct_registry ds) (ct_registry ds')" "same_rest ds' ds"
  shows "undoes start (undo @ [entry_restorer i ds], applied', ds')"
proof -
  have wf: "wf_dict (pr_entries (ct_registry ds))" "same_rest ds start"
    and undone: "same_registry (fold (\<lambda>u. restore_entry (fst u) (snd u)) (rev undo) (ct_registry ds)) (ct_registry start)"
    using assms(1) by (simp_all add: undoes_def)
  have "same_registry (restore_entry i (capture_entry i (ct_registry ds)) (ct_registry ds')) (ct_registry ds)"
    by (rule restore_captured_entry [OF assms(2) wf(1)])
  from restores_same [OF this, of "rev undo"] undone same_registry_trans
  have "same_registry (fold (\<lambda>u. restore_entry (fst u) (snd u)) (rev (undo @ [entry_restorer i ds])) (ct_registry ds')) (ct_registry start)"
    by (fastforce simp: entry_restorer_def)
  moreover have "wf_dict (pr_entries (ct_registry ds'))" using assms(2) by (simp add: same_but_def)
  ultimately show ?thesis using same_rest_trans [OF assms(3) wf(2)] by (simp add: undoes_def)
qed

lemma apply_change_cases:
  assumes "apply_change config c (undo, applied, ds) = (r, b')"
  obtains (kept) "r = Inr ()" "b' = (undo, applied, ds)" "\<not> is_mutation c"
    | (removed) "r = Inr ()" "sc_action c = RemoveEntry"
        "b' = (undo @ [entry_restorer (sc_entry_id c) ds], applied @ [c], snd (harness_uninstall (sc_entry_id c) ds))"
    | (missing) "r = Inr ()" "config_entry (sc_entry_id c) config = None" "b' = (undo, applied @ [c], ds)" "is_mutation c" "sc_action c \<noteq> RemoveEntry"
    | (unlisted) e :: entry_config and err where "r = Inl err" "b' = (undo @ [entry_restorer (ec_id e) ds], applied, ds)"
    | (refused) e :: entry_config and cls err ds' where "r = Inl err"
        "harness_install (PluginClass cls) (Some (ec_id e)) (Some (ec_config e)) (sc_action c = ReplaceEntry) NoParent ds = (Inl err, ds')"
        "b' = (undo @ [entry_restorer (ec_id e) ds], applied, ds')"
    | (installed) e :: entry_config and cls i ds' where "r = Inr ()" "is_mutation c" "sc_action c \<noteq> RemoveEntry" "config_entry (sc_entry_id c) config = Some e"
        "catalog_get (ec_plugin e) (ds_catalog ds) = Inr cls"
        "harness_install (PluginClass cls) (Some (ec_id e)) (Some (ec_config e)) (sc_action c = ReplaceEntry) NoParent ds = (Inr i, ds')"
        "b' = (undo @ [entry_restorer (ec_id e) ds], applied @ [c], ds')"
proof (cases "is_mutation c \<and> sc_action c \<noteq> RemoveEntry")
  case False
  then show ?thesis using assms kept removed by (cases "is_mutation c") (auto simp: apply_change_def)
next
  case change: True
  show ?thesis
  proof (cases "config_entry (sc_entry_id c) config")
    case None
    then show ?thesis using assms missing change by (auto simp: apply_change_def)
  next
    case entry: (Some e)
    show ?thesis
    proof (cases "catalog_get (ec_plugin e) (ds_catalog ds)")
      case (Inl err)
      then show ?thesis using assms unlisted change entry by (auto simp: apply_change_def Let_def)
    next
      case cls: (Inr cls)
      obtain q ds' where run: "harness_install (PluginClass cls) (Some (ec_id e)) (Some (ec_config e)) (sc_action c = ReplaceEntry) NoParent ds = (q, ds')"
        by (rule prod.exhaust)
      show ?thesis
      proof (cases q)
        case (Inl err)
        then show ?thesis using assms refused [of err cls e ds'] change entry cls run by (auto simp: apply_change_def Let_def)
      next
        case (Inr i)
        then show ?thesis using assms installed [of e cls i ds'] change entry cls run by (auto simp: apply_change_def Let_def)
      qed
    qed
  qed
qed

lemma apply_change_undoes:
  assumes "undoes start b" "apply_change config c b = (r, b')"
  shows "undoes start b'"
proof -
  obtain undo applied ds where b: "b = (undo, applied, ds)" by (cases b)
  have wf: "wf_dict (pr_entries (ct_registry ds))" using assms(1) b by (simp add: undoes_def)
  note step = undoes_step [OF assms(1) [unfolded b]]
  show ?thesis
  proof (rule apply_change_cases [OF assms(2) [unfolded b]])
    assume "b' = (undo @ [entry_restorer (sc_entry_id c) ds], applied @ [c], snd (harness_uninstall (sc_entry_id c) ds))"
    then show ?thesis using step harness_uninstall_step [OF wf] by simp
  next
    fix e :: entry_config and err assume "b' = (undo @ [entry_restorer (ec_id e) ds], applied, ds)"
    then show ?thesis using step [OF same_but_refl [OF wf] same_rest_refl] by simp
  next
    fix e :: entry_config and cls err ds'
    assume "harness_install (PluginClass cls) (Some (ec_id e)) (Some (ec_config e)) (sc_action c = ReplaceEntry) NoParent ds = (Inl err, ds')"
      "b' = (undo @ [entry_restorer (ec_id e) ds], applied, ds')"
    then show ?thesis using step harness_install_step [OF _ wf] by blast
  next
    fix e :: entry_config and cls i ds'
    assume "harness_install (PluginClass cls) (Some (ec_id e)) (Some (ec_config e)) (sc_action c = ReplaceEntry) NoParent ds = (Inr i, ds')"
      "b' = (undo @ [entry_restorer (ec_id e) ds], applied @ [c], ds')"
    then show ?thesis using step harness_install_step [OF _ wf] by blast
  qed (use assms(1) b in \<open>simp_all add: undoes_def\<close>)
qed

lemma apply_changes_undoes:
  "undoes start b \<Longrightarrow> apply_changes config cs b = (r, b') \<Longrightarrow> undoes start b'"
proof (induction cs arbitrary: b)
  case (Cons c cs)
  obtain q b1 where step: "apply_change config c b = (q, b1)" by (rule prod.exhaust)
  then have "undoes start b1" by (rule apply_change_undoes [OF Cons.prems(1)])
  then show ?case using Cons step by (cases q) auto
qed simp

text \<open>C20: applying a configuration is atomic: when it fails, at whatever entry, the desired state is the one
  before it. The entries and their revisions, the mounted instances, the composition scopes, the
  catalog, the stored configuration, both kinds of preferences, the provisions and the pending flag
  are unchanged.\<close>

theorem apply_config_atomic:
  assumes "apply_config digest ft config ds = (Inl e, ds')" "wf_dict (pr_entries (ct_registry ds))"
  shows "plugin_entries (ct_registry ds') = plugin_entries (ct_registry ds)
    \<and> same_registry (ct_registry ds') (ct_registry ds) \<and> same_rest ds' ds \<and> ct_dirty ds' = ct_dirty ds"
proof (cases "bind_result (stage_config config ds) (\<lambda>_. bind_result (installed_state digest ft ds)
    (\<lambda>installed. diff_desired_state digest ft config installed))")
  case (Inl err)
  then show ?thesis using assms by (simp add: apply_config_def same_registry_refl)
next
  case (Inr changes)
  obtain r undo applied ds1 where run: "apply_changes config changes ([], [], ds) = (r, (undo, applied, ds1))"
    by (metis prod_cases4)
  have "undoes ds ([], [], ds)" using assms(2) by (simp add: undoes_def same_registry_refl)
  then have undo: "undoes ds (undo, applied, ds1)" by (rule apply_changes_undoes [OF _ run])
  have ds': "ds' = (fold restore_captured (rev undo) ds1)\<lparr>ds_config_preferences := ds_config_preferences ds, ds_config := ds_config ds, ct_dirty := ct_dirty ds\<rparr>"
    using assms(1) Inr run by (cases r) (simp_all add: apply_config_def)
  have same: "same_registry (ct_registry ds') (ct_registry ds)"
    using undo ds' by (simp add: undoes_def restores_registry)
  moreover have "same_rest (fold restore_captured (rev undo) ds1) ds"
    by (rule same_rest_trans [OF same_rest_restores]) (use undo in \<open>simp add: undoes_def\<close>)
  then have "same_rest ds' ds" using ds' by (simp add: same_rest_def)
  moreover have "plugin_entries (ct_registry ds') = plugin_entries (ct_registry ds)"
    using same by (intro plugin_entries_cong) (simp_all add: same_registry_def)
  ultimately show ?thesis using ds' by simp
qed

section \<open>What a configuration installs\<close>

definition unique_config :: "harness_config \<Rightarrow> bool" where
  "unique_config config \<longleftrightarrow> distinct (map ec_id (hc_plugins config))"

text \<open>An entry as the batch builds it from a configured one.\<close>

definition built_from :: "('v, 'x, 'p) catalog \<Rightarrow> entry_config \<Rightarrow> ('v, 'x, 'p) plugin_entry \<Rightarrow> bool" where
  "built_from catalog e ent \<longleftrightarrow> pe_entry_id ent = ec_id e \<and> pe_scope ent = root_scope \<and> pe_config ent = frozen_mapping (ec_config e)
     \<and> (case map_of catalog (ec_plugin e) of None \<Rightarrow> False | Some cls \<Rightarrow> cls (Some (ec_config e)) = Inr (pe_plugin ent))
     \<and> pg_manifest (pe_plugin ent) = Some (pe_manifest ent)"

text \<open>An entry the reconciler leaves alone: the named implementation under an equal fingerprint.\<close>

definition agrees_with :: "(string \<Rightarrow> string) \<Rightarrow> (rat \<Rightarrow> string) \<Rightarrow> entry_config \<Rightarrow> ('v, 'x, 'p) plugin_entry \<Rightarrow> bool" where
  "agrees_with digest ft e ent \<longleftrightarrow> ct_name (pe_manifest ent) = ec_plugin e
     \<and> (\<exists>h. config_fingerprint digest ft (ec_plugin e) (ec_config e) = Inr h
          \<and> config_fingerprint digest ft (ct_name (pe_manifest ent)) (pe_config ent) = Inr h)"

lemma class_install:
  assumes "plugin_install (PluginClass cls) (Some i) (Some c) replace scope reg = (Inr ent, reg')"
  shows "cls (Some c) = Inr (pe_plugin ent)" "pg_manifest (pe_plugin ent) = Some (pe_manifest ent)"
    "pe_config ent = frozen_mapping c" "pe_entry_id ent = i" "pe_scope ent = scope"
proof -
  obtain p where p: "cls (Some c) = Inr p" using assms by (cases "cls (Some c)") (auto simp: plugin_install_def)
  obtain m where m: "pg_manifest p = Some m" using assms p by (cases "pg_manifest p") (auto simp: plugin_install_def)
  show "cls (Some c) = Inr (pe_plugin ent)" "pg_manifest (pe_plugin ent) = Some (pe_manifest ent)"
    "pe_config ent = frozen_mapping c" "pe_entry_id ent = i" "pe_scope ent = scope"
    using assms p m by (auto simp: plugin_install_def make_entry_def Let_def split: if_splits)
qed

lemma harness_install_built:
  assumes "harness_install (PluginClass cls) (Some (ec_id e)) (Some (ec_config e)) replace NoParent ds = (Inr i, ds')"
    and "catalog_get (ec_plugin e) (ds_catalog ds) = Inr cls"
  shows "\<exists>ent. map_of (pr_entries (ct_registry ds')) (ec_id e) = Some ent \<and> built_from (ds_catalog ds) e ent"
    and "j \<noteq> ec_id e \<Longrightarrow> map_of (pr_entries (ct_registry ds')) j = map_of (pr_entries (ct_registry ds)) j"
proof -
  have path: "scope_path NoParent ds = Inr root_scope" by (simp add: scope_path_def node_path_def)
  obtain q reg where run: "plugin_install (PluginClass cls) (Some (ec_id e)) (Some (ec_config e)) replace root_scope (ct_registry ds) = (q, reg)"
    by fastforce
  then obtain ent where ent: "q = Inr ent" "ct_registry ds' = reg"
    using assms(1) path by (cases q) (auto simp: harness_install_def)
  have cls: "map_of (ds_catalog ds) (ec_plugin e) = Some cls" using assms(2) by (auto simp: catalog_get_def split: option.splits)
  have "map_of (pr_entries reg) (pe_entry_id ent) = Some ent" "\<forall>j. j \<noteq> pe_entry_id ent \<longrightarrow> map_of (pr_entries reg) j = map_of (pr_entries (ct_registry ds)) j"
    using plugin_install_outcome [OF run] ent(1) by simp_all
  then show "\<exists>ent. map_of (pr_entries (ct_registry ds')) (ec_id e) = Some ent \<and> built_from (ds_catalog ds) e ent"
    "j \<noteq> ec_id e \<Longrightarrow> map_of (pr_entries (ct_registry ds')) j = map_of (pr_entries (ct_registry ds)) j"
    using class_install [OF run [unfolded ent(1)]] ent(2) cls by (simp_all add: built_from_def)
qed

text \<open>What one change does to the entry under its id.\<close>

definition change_effect ::
  "harness_config \<Rightarrow> ('v, 'x, 'p) catalog \<Rightarrow> state_change \<Rightarrow> ('v, 'x, 'p) plugin_entry option \<Rightarrow> ('v, 'x, 'p) plugin_entry option \<Rightarrow> bool" where
  "change_effect config catalog c old new \<longleftrightarrow>
     (if \<not> is_mutation c then new = old
      else if sc_action c = RemoveEntry then new = None
      else \<exists>e ent. config_entry (sc_entry_id c) config = Some e \<and> new = Some ent \<and> built_from catalog e ent)"

lemma change_effect_simps:
  "sc_action c = RemoveEntry \<Longrightarrow> change_effect config catalog c old new \<longleftrightarrow> new = None"
  "sc_action c = UnchangedEntry \<Longrightarrow> change_effect config catalog c old new \<longleftrightarrow> new = old"
  "sc_action c \<in> {AddEntry, ReplaceEntry} \<Longrightarrow> config_entry (sc_entry_id c) config = Some e \<Longrightarrow>
     change_effect config catalog c old new \<longleftrightarrow> (\<exists>ent. new = Some ent \<and> built_from catalog e ent)"
  by (auto simp: change_effect_def is_mutation_def)

lemma config_entry_id: "config_entry i config = Some e \<Longrightarrow> ec_id e = i \<and> e \<in> set (hc_plugins config)"
  by (auto simp: config_entry_def find_Some_iff)

lemma apply_change_effect:
  assumes "apply_change config c (undo, applied, ds) = (Inr (), (undo', applied', ds'))"
    and "is_mutation c \<and> sc_action c \<noteq> RemoveEntry \<longrightarrow> config_entry (sc_entry_id c) config \<noteq> None"
  shows "change_effect config (ds_catalog ds) c (map_of (pr_entries (ct_registry ds)) (sc_entry_id c)) (map_of (pr_entries (ct_registry ds')) (sc_entry_id c))"
    and "j \<noteq> sc_entry_id c \<Longrightarrow> map_of (pr_entries (ct_registry ds')) j = map_of (pr_entries (ct_registry ds)) j"
    and "ds_catalog ds' = ds_catalog ds" "applied' = applied @ (if is_mutation c then [c] else [])"
proof -
  have "change_effect config (ds_catalog ds) c (map_of (pr_entries (ct_registry ds)) (sc_entry_id c)) (map_of (pr_entries (ct_registry ds')) (sc_entry_id c))
    \<and> (\<forall>j. j \<noteq> sc_entry_id c \<longrightarrow> map_of (pr_entries (ct_registry ds')) j = map_of (pr_entries (ct_registry ds)) j)
    \<and> ds_catalog ds' = ds_catalog ds \<and> applied' = applied @ (if is_mutation c then [c] else [])"
  proof (rule apply_change_cases [OF assms(1)])
    assume "(undo', applied', ds') = (undo, applied, ds)" "\<not> is_mutation c"
    then show ?thesis by (simp add: change_effect_def)
  next
    assume remove: "sc_action c = RemoveEntry"
      and "(undo', applied', ds') = (undo @ [entry_restorer (sc_entry_id c) ds], applied @ [c], snd (harness_uninstall (sc_entry_id c) ds))"
    then show ?thesis
      by (auto simp: change_effect_def is_mutation_def harness_uninstall_def plugin_uninstall_def dict_simps)
  next
    fix e :: entry_config and cls i ds1
    assume c: "is_mutation c" "sc_action c \<noteq> RemoveEntry" "config_entry (sc_entry_id c) config = Some e"
      and run: "catalog_get (ec_plugin e) (ds_catalog ds) = Inr cls"
        "harness_install (PluginClass cls) (Some (ec_id e)) (Some (ec_config e)) (sc_action c = ReplaceEntry) NoParent ds = (Inr i, ds1)"
      and "(undo', applied', ds') = (undo @ [entry_restorer (ec_id e) ds], applied @ [c], ds1)"
    then have eq: "ds' = ds1" "applied' = applied @ [c]" by simp_all
    have "ds_catalog ds1 = ds_catalog ds" using run(2) by (auto simp: harness_install_def split: sum.splits prod.splits)
    moreover have "ec_id e = sc_entry_id c" using config_entry_id [OF c(3)] by simp
    ultimately show ?thesis
      using harness_install_built [OF run(2,1)] c eq by (auto simp: change_effect_def)
  qed (use assms(2) in auto)
  then show "change_effect config (ds_catalog ds) c (map_of (pr_entries (ct_registry ds)) (sc_entry_id c)) (map_of (pr_entries (ct_registry ds')) (sc_entry_id c))"
    "j \<noteq> sc_entry_id c \<Longrightarrow> map_of (pr_entries (ct_registry ds')) j = map_of (pr_entries (ct_registry ds)) j"
    "ds_catalog ds' = ds_catalog ds" "applied' = applied @ (if is_mutation c then [c] else [])" by blast+
qed

lemma apply_changes_effect:
  assumes "apply_changes config cs (undo, applied, ds) = (Inr (), (undo', applied', ds'))" "distinct (map sc_entry_id cs)"
    and "\<forall>c\<in>set cs. is_mutation c \<and> sc_action c \<noteq> RemoveEntry \<longrightarrow> config_entry (sc_entry_id c) config \<noteq> None"
  shows "(\<forall>c\<in>set cs. change_effect config (ds_catalog ds) c (map_of (pr_entries (ct_registry ds)) (sc_entry_id c)) (map_of (pr_entries (ct_registry ds')) (sc_entry_id c)))
    \<and> (\<forall>j. j \<notin> set (map sc_entry_id cs) \<longrightarrow> map_of (pr_entries (ct_registry ds')) j = map_of (pr_entries (ct_registry ds)) j)
    \<and> ds_catalog ds' = ds_catalog ds \<and> applied' = applied @ filter is_mutation cs"
  using assms
proof (induction cs arbitrary: undo applied ds)
  case (Cons c cs)
  obtain q undo1 applied1 ds1 where step: "apply_change config c (undo, applied, ds) = (q, (undo1, applied1, ds1))"
    by (metis prod_cases4)
  then have q: "q = Inr ()" "apply_changes config cs (undo1, applied1, ds1) = (Inr (), (undo', applied', ds'))"
    using Cons.prems(1) by (cases q; simp)+
  have one: "change_effect config (ds_catalog ds) c (map_of (pr_entries (ct_registry ds)) (sc_entry_id c)) (map_of (pr_entries (ct_registry ds1)) (sc_entry_id c))"
      "\<And>j. j \<noteq> sc_entry_id c \<Longrightarrow> map_of (pr_entries (ct_registry ds1)) j = map_of (pr_entries (ct_registry ds)) j"
      "ds_catalog ds1 = ds_catalog ds" "applied1 = applied @ (if is_mutation c then [c] else [])"
    using apply_change_effect [OF step [unfolded q(1)]] Cons.prems(3) by simp_all
  have ih: "\<forall>c\<in>set cs. change_effect config (ds_catalog ds) c (map_of (pr_entries (ct_registry ds1)) (sc_entry_id c)) (map_of (pr_entries (ct_registry ds')) (sc_entry_id c))"
      "\<forall>j. j \<notin> set (map sc_entry_id cs) \<longrightarrow> map_of (pr_entries (ct_registry ds')) j = map_of (pr_entries (ct_registry ds1)) j"
      "ds_catalog ds' = ds_catalog ds" "applied' = applied1 @ filter is_mutation cs"
    using Cons.IH [OF q(2)] Cons.prems(2,3) one(3) by simp_all
  have fresh: "sc_entry_id c \<notin> set (map sc_entry_id cs)" using Cons.prems(2) by simp
  have "change_effect config (ds_catalog ds) d (map_of (pr_entries (ct_registry ds)) (sc_entry_id d)) (map_of (pr_entries (ct_registry ds')) (sc_entry_id d))"
    if d: "d \<in> set (c # cs)" for d
  proof (cases "d = c")
    case True
    then show ?thesis using one(1) ih(2) fresh by simp
  next
    case False
    then have "d \<in> set cs" using d by simp
    moreover from this have "sc_entry_id d \<in> set (map sc_entry_id cs)" by simp
    then have "sc_entry_id d \<noteq> sc_entry_id c" using fresh by metis
    ultimately show ?thesis using ih(1) one(2) by auto
  qed
  then show ?case using one(2,4) ih(2,3,4) by simp
qed simp

section \<open>The comparison\<close>

lemma wanted_get:
  assumes "unique_config config"
  shows "map_of (wanted_entries config) i = Some e \<longleftrightarrow> e \<in> set (enabled_entries config) \<and> ec_id e = i"
    and "e \<in> set (enabled_entries config) \<Longrightarrow> config_entry (ec_id e) config = Some e"
proof -
  have "distinct (map ec_id (enabled_entries config))"
    using assms by (simp add: unique_config_def enabled_entries_def distinct_map_filter)
  then show "map_of (wanted_entries config) i = Some e \<longleftrightarrow> e \<in> set (enabled_entries config) \<and> ec_id e = i"
    unfolding wanted_entries_def by (rule fold_dict_set_get)
  assume "e \<in> set (enabled_entries config)"
  then have e: "e \<in> set (hc_plugins config)" by (simp add: enabled_entries_def)
  then obtain x where x: "config_entry (ec_id e) config = Some x"
    by (cases "config_entry (ec_id e) config") (auto simp: config_entry_def find_None_iff)
  then show "config_entry (ec_id e) config = Some e"
    using config_entry_id [OF x] e assms by (simp add: unique_config_def distinct_map inj_on_def)
qed

lemma key_known: "k \<in> set (dict_keys d) \<longleftrightarrow> map_of d k \<noteq> None"
  by (simp add: map_of_eq_None_iff)

lemma wf_filed_entries:
  assumes "wf_dict (pr_entries reg)" "filed_entries reg"
  shows "distinct (map pe_entry_id (plugin_entries reg))" "ent \<in> set (plugin_entries reg) \<longleftrightarrow> map_of (pr_entries reg) (pe_entry_id ent) = Some ent"
proof -
  have found: "\<exists>ent. map_of (pr_entries reg) i = Some ent \<and> pe_entry_id ent = i" if "i \<in> set (dict_keys (pr_entries reg))" for i
    using that assms(2) map_of_eq_None_iff [of "pr_entries reg" i] by (fastforce simp: filed_entries_def)
  have "map pe_entry_id (plugin_entries reg) = sort (dict_keys (pr_entries reg))"
    unfolding plugin_entries_def map_map
  proof (rule map_idI)
    fix i assume "i \<in> set (sort (dict_keys (pr_entries reg)))"
    then have "i \<in> set (dict_keys (pr_entries reg))" by simp
    then show "(pe_entry_id \<circ> (\<lambda>i. the (map_of (pr_entries reg) i))) i = i" using found by fastforce
  qed
  then show "distinct (map pe_entry_id (plugin_entries reg))" using assms(1) by (simp add: wf_dict_def)
  show "ent \<in> set (plugin_entries reg) \<longleftrightarrow> map_of (pr_entries reg) (pe_entry_id ent) = Some ent"
  proof
    assume "ent \<in> set (plugin_entries reg)"
    then obtain i where "i \<in> set (dict_keys (pr_entries reg))" "ent = the (map_of (pr_entries reg) i)"
      unfolding plugin_entries_def set_map set_sort by (elim imageE) blast
    then show "map_of (pr_entries reg) (pe_entry_id ent) = Some ent" using found by fastforce
  next
    assume "map_of (pr_entries reg) (pe_entry_id ent) = Some ent"
    note there = this
    have known: "(\<lambda>i. the (map_of (pr_entries reg) i)) (pe_entry_id ent) = ent" by (simp only: there option.sel)
    have "map_of (pr_entries reg) (pe_entry_id ent) \<noteq> None" by (rule option.discI [OF there])
    then have "(\<lambda>i. the (map_of (pr_entries reg) i)) (pe_entry_id ent) \<in> (\<lambda>i. the (map_of (pr_entries reg) i)) ` set (dict_keys (pr_entries reg))"
      unfolding key_known [symmetric] by (rule imageI)
    then show "ent \<in> set (plugin_entries reg)" unfolding plugin_entries_def set_map set_sort known .
  qed
qed

lemma installed_state_get:
  assumes "installed_state digest ft ds = Inr installed" "wf_dict (pr_entries (ct_registry ds))" "filed_entries (ct_registry ds)"
  shows "case map_of (pr_entries (ct_registry ds)) i of
      None \<Rightarrow> map_of installed i = None
    | Some ent \<Rightarrow> \<exists>ie. map_of installed i = Some ie \<and> ie_plugin ie = ct_name (pe_manifest ent)
        \<and> config_fingerprint digest ft (ct_name (pe_manifest ent)) (pe_config ent) = Inr (ie_fingerprint ie)"
proof -
  let ?reg = "ct_registry ds"
  let ?R = "\<lambda>ent p. fst p = pe_entry_id ent \<and> ie_plugin (snd p) = ct_name (pe_manifest ent)
    \<and> config_fingerprint digest ft (ct_name (pe_manifest ent)) (pe_config ent) = Inr (ie_fingerprint (snd p))"
  have all: "list_all2 ?R (plugin_entries ?reg) installed"
    using assms(1) unfolding installed_state_def map_result_Inr
    by (rule list_all2_mono) (auto simp: bind_result_eq_Inr)
  have keys: "dict_keys installed = map pe_entry_id (plugin_entries ?reg)"
    using all by (auto simp: list_all2_conv_all_nth intro!: nth_equalityI)
  note entries = wf_filed_entries [OF assms(2,3)]
  show ?thesis
  proof (cases "map_of (pr_entries ?reg) i")
    case None
    have "i \<notin> set (dict_keys installed)"
    proof
      assume "i \<in> set (dict_keys installed)"
      then obtain ent where "ent \<in> set (plugin_entries ?reg)" "pe_entry_id ent = i" unfolding keys by auto
      then show False using entries(2) None by simp
    qed
    then have "map_of installed i = None" by (simp add: map_of_eq_None_iff)
    then show ?thesis using None by simp
  next
    case (Some ent)
    then have ent: "pe_entry_id ent = i" "ent \<in> set (plugin_entries ?reg)"
      using assms(3) entries(2) by (auto simp: filed_entries_def)
    then obtain k where k: "k < length (plugin_entries ?reg)" "plugin_entries ?reg ! k = ent" by (auto simp: in_set_conv_nth)
    then have R: "?R ent (installed ! k)" "installed ! k \<in> set installed"
      using list_all2_nthD [OF all k(1)] list_all2_lengthD [OF all] by auto
    have "distinct (dict_keys installed)" using keys entries(1) by simp
    then have "map_of installed (fst (installed ! k)) = Some (snd (installed ! k))" using R(2) by simp
    then show ?thesis using Some R(1) ent(1) by auto
  qed
qed

lemma diff_changes:
  assumes "diff_desired_state digest ft config installed = Inr changes"
  shows "map sc_entry_id changes = sorted_set (dict_keys (wanted_entries config) @ dict_keys installed)"
    and "c \<in> set changes \<Longrightarrow> change_for digest ft (sc_entry_id c) (map_of (wanted_entries config) (sc_entry_id c)) (map_of installed (sc_entry_id c)) = Inr c"
proof -
  let ?ids = "sorted_set (dict_keys (wanted_entries config) @ dict_keys installed)"
  have all: "list_all2 (\<lambda>i c. change_for digest ft i (map_of (wanted_entries config) i) (map_of installed i) = Inr c) ?ids changes"
    using assms by (simp add: diff_desired_state_def Let_def map_result_Inr)
  have id: "sc_entry_id c = i" if "change_for digest ft i w o1 = Inr c" for i w o1 c
    using that by (auto simp: change_for_def bind_result_eq_Inr split: option.splits if_splits)
  show "map sc_entry_id changes = ?ids"
    using all id by (auto simp: list_all2_conv_all_nth intro!: nth_equalityI)
  assume "c \<in> set changes"
  then obtain k where k: "k < length changes" "changes ! k = c" by (auto simp: in_set_conv_nth)
  have "change_for digest ft (?ids ! k) (map_of (wanted_entries config) (?ids ! k)) (map_of installed (?ids ! k)) = Inr c"
    using list_all2_nthD2 [OF all k(1)] k(2) by simp
  then show "change_for digest ft (sc_entry_id c) (map_of (wanted_entries config) (sc_entry_id c)) (map_of installed (sc_entry_id c)) = Inr c"
    using id by simp
qed

lemma change_for_cases:
  assumes "change_for digest ft i wanted current = Inr c"
  obtains (add) e where "wanted = Some e" "current = None" "sc_action c = AddEntry"
    | (remove) ie where "wanted = None" "current = Some ie" "sc_action c = RemoveEntry"
    | (replace) e ie where "wanted = Some e" "current = Some ie" "sc_action c = ReplaceEntry"
        "ec_plugin e \<noteq> ie_plugin ie \<or> config_fingerprint digest ft (ec_plugin e) (ec_config e) \<noteq> Inr (ie_fingerprint ie)"
    | (keep) e ie where "wanted = Some e" "current = Some ie" "sc_action c = UnchangedEntry" "ec_plugin e = ie_plugin ie"
        "config_fingerprint digest ft (ec_plugin e) (ec_config e) = Inr (ie_fingerprint ie)"
  using assms add remove replace keep
  by (cases wanted; cases current) (auto simp: change_for_def bind_result_eq_Inr split: if_splits)

text \<open>The entry under every id after a successful application.\<close>

definition configured_entry ::
  "(string \<Rightarrow> string) \<Rightarrow> (rat \<Rightarrow> string) \<Rightarrow> harness_config \<Rightarrow> ('v, 'x, 'p) catalog \<Rightarrow> string
     \<Rightarrow> ('v, 'x, 'p) plugin_entry option \<Rightarrow> ('v, 'x, 'p) plugin_entry option \<Rightarrow> bool" where
  "configured_entry digest ft config catalog i old new \<longleftrightarrow>
     (case map_of (wanted_entries config) i of
        None \<Rightarrow> new = None
      | Some e \<Rightarrow> \<exists>ent. new = Some ent \<and> (built_from catalog e ent \<or> old = Some ent \<and> agrees_with digest ft e ent))"

lemma apply_config_result:
  assumes "apply_config digest ft config ds = (Inr res, ds')" "unique_config config"
    and "wf_dict (pr_entries (ct_registry ds))" "filed_entries (ct_registry ds)"
  shows "configured_entry digest ft config (ds_catalog ds) i (map_of (pr_entries (ct_registry ds)) i) (map_of (pr_entries (ct_registry ds')) i)"
    and "stage_config config ds = Inr ()" "wf_dict (pr_entries (ct_registry ds'))"
    and "ds_config ds' = Some config" "ds_config_preferences ds' = config_preferences config"
    and "ds_preferences ds' = ds_preferences ds" "ds_provisions ds' = ds_provisions ds" "ds_catalog ds' = ds_catalog ds"
    and "ct_nodes ds' = ct_nodes ds" "ct_scopes ds' = ct_scopes ds"
proof -
  obtain installed changes where stage: "stage_config config ds = Inr ()" and pre: "installed_state digest ft ds = Inr installed" "diff_desired_state digest ft config installed = Inr changes"
    and staged: "bind_result (stage_config config ds) (\<lambda>_. bind_result (installed_state digest ft ds)
             (\<lambda>installed. diff_desired_state digest ft config installed)) = Inr changes"
    using assms(1) by (auto simp: apply_config_def bind_result_eq_Inr split: sum.splits)
  obtain q undo applied ds1 where run: "apply_changes config changes ([], [], ds) = (q, (undo, applied, ds1))"
    by (metis prod_cases4)
  then have q: "q = Inr ()" and ds': "ct_registry ds' = ct_registry ds1" "ds_config ds' = Some config"
      "ds_config_preferences ds' = config_preferences config" "ds_preferences ds' = ds_preferences ds1" "ds_provisions ds' = ds_provisions ds1"
      "ds_catalog ds' = ds_catalog ds1" "ct_nodes ds' = ct_nodes ds1" "ct_scopes ds' = ct_scopes ds1"
    using assms(1) staged by (cases q; auto simp: apply_config_def)+
  have "undoes ds ([], [], ds)" using assms(3) by (simp add: undoes_def same_registry_refl)
  then have rest: "same_rest ds1 ds" using apply_changes_undoes [OF _ run] by (simp add: undoes_def)
  note ids = diff_changes(1) [OF pre(2)] and each = diff_changes(2) [OF pre(2)]
  have wanted: "config_entry i config = Some e" if "map_of (wanted_entries config) i = Some e" for i e
    using wanted_get(1) [OF assms(2), of i e] wanted_get(2) [OF assms(2), of e] that by metis
  have "distinct (map sc_entry_id changes)" unfolding ids by simp
  moreover have "\<forall>c\<in>set changes. is_mutation c \<and> sc_action c \<noteq> RemoveEntry \<longrightarrow> config_entry (sc_entry_id c) config \<noteq> None"
  proof (intro ballI impI)
    fix c assume c: "c \<in> set changes" "is_mutation c \<and> sc_action c \<noteq> RemoveEntry"
    from each [OF c(1)] obtain e where "map_of (wanted_entries config) (sc_entry_id c) = Some e"
      by (rule change_for_cases) (use c(2) in \<open>simp_all add: is_mutation_def\<close>)
    then show "config_entry (sc_entry_id c) config \<noteq> None" by (simp add: wanted)
  qed
  ultimately have effect: "\<forall>c\<in>set changes. change_effect config (ds_catalog ds) c (map_of (pr_entries (ct_registry ds)) (sc_entry_id c)) (map_of (pr_entries (ct_registry ds1)) (sc_entry_id c))"
      "\<forall>j. j \<notin> set (map sc_entry_id changes) \<longrightarrow> map_of (pr_entries (ct_registry ds1)) j = map_of (pr_entries (ct_registry ds)) j"
    using apply_changes_effect [OF run [unfolded q]] by blast+
  have covered: "i \<in> set (map sc_entry_id changes) \<longleftrightarrow>
      map_of (wanted_entries config) i \<noteq> None \<or> map_of (pr_entries (ct_registry ds)) i \<noteq> None" for i
    using installed_state_get [OF pre(1) assms(3,4), of i] unfolding ids set_sorted_set set_append Un_iff key_known
    by (cases "map_of (pr_entries (ct_registry ds)) i") auto
  have known: "configured_entry digest ft config (ds_catalog ds) i (map_of (pr_entries (ct_registry ds)) i) (map_of (pr_entries (ct_registry ds1)) i)"
  proof (cases "i \<in> set (map sc_entry_id changes)")
    case False
    then show ?thesis using covered effect(2) by (simp add: configured_entry_def)
  next
    case True
    then obtain c where c: "c \<in> set changes" "sc_entry_id c = i" by auto
    note old = installed_state_get [OF pre(1) assms(3,4), of i]
    have eff: "change_effect config (ds_catalog ds) c (map_of (pr_entries (ct_registry ds)) i) (map_of (pr_entries (ct_registry ds1)) i)"
      using effect(1) c by blast
    from each [OF c(1)] show ?thesis unfolding c(2)
    proof (cases rule: change_for_cases)
      case (add e)
      have "config_entry (sc_entry_id c) config = Some e" using wanted [OF add(1)] c(2) by simp
      from change_effect_simps(3) [THEN iffD1, OF _ this eff] show ?thesis using add(1,3) by (auto simp: configured_entry_def)
    next
      case (remove ie)
      then show ?thesis using eff by (simp add: change_effect_simps configured_entry_def)
    next
      case (replace e ie)
      have "config_entry (sc_entry_id c) config = Some e" using wanted [OF replace(1)] c(2) by simp
      from change_effect_simps(3) [THEN iffD1, OF _ this eff] show ?thesis using replace(1,3) by (auto simp: configured_entry_def)
    next
      case (keep e ie)
      obtain ent where ent: "map_of (pr_entries (ct_registry ds)) i = Some ent"
        using old keep(2) by (cases "map_of (pr_entries (ct_registry ds)) i") simp_all
      then have "ie_plugin ie = ct_name (pe_manifest ent)"
          "config_fingerprint digest ft (ct_name (pe_manifest ent)) (pe_config ent) = Inr (ie_fingerprint ie)"
        using old keep(2) by simp_all
      then have "agrees_with digest ft e ent" using keep(4,5) by (simp add: agrees_with_def)
      then show ?thesis using eff keep(1,3) ent by (simp add: change_effect_simps configured_entry_def)
    qed
  qed
  then show "configured_entry digest ft config (ds_catalog ds) i (map_of (pr_entries (ct_registry ds)) i) (map_of (pr_entries (ct_registry ds')) i)"
    using ds'(1) by simp
  show "stage_config config ds = Inr ()" by (rule stage)
  show "wf_dict (pr_entries (ct_registry ds'))"
    using apply_changes_undoes [OF \<open>undoes ds ([], [], ds)\<close> run] ds'(1) by (simp add: undoes_def)
  show "ds_config ds' = Some config" "ds_config_preferences ds' = config_preferences config"
    "ds_preferences ds' = ds_preferences ds" "ds_provisions ds' = ds_provisions ds" "ds_catalog ds' = ds_catalog ds"
    "ct_nodes ds' = ct_nodes ds" "ct_scopes ds' = ct_scopes ds"
    using ds' rest by (simp_all add: same_rest_def)
qed

text \<open>C21: a successful application leaves exactly the enabled entries of the configuration installed. Each
  is either the entry that was there, kept because its implementation and the fingerprint of its
  configuration already agreed, or one built in the root scope from the catalog's class and the
  configured values. The stored configuration and its preferences are the new ones; scopes, catalog,
  provisions and the preferences set by the program are untouched.\<close>

theorem apply_config_exact:
  assumes "apply_config digest ft config ds = (Inr res, ds')" "unique_config config"
    and "wf_dict (pr_entries (ct_registry ds))" "filed_entries (ct_registry ds)"
  shows "(\<forall>i. map_of (pr_entries (ct_registry ds')) i \<noteq> None \<longleftrightarrow> (\<exists>e\<in>set (enabled_entries config). ec_id e = i))
    \<and> (\<forall>e\<in>set (enabled_entries config). \<exists>ent. map_of (pr_entries (ct_registry ds')) (ec_id e) = Some ent
         \<and> (built_from (ds_catalog ds) e ent
            \<or> map_of (pr_entries (ct_registry ds)) (ec_id e) = Some ent \<and> agrees_with digest ft e ent))
    \<and> ds_config ds' = Some config \<and> ds_config_preferences ds' = config_preferences config
    \<and> ds_preferences ds' = ds_preferences ds \<and> ds_provisions ds' = ds_provisions ds \<and> ds_catalog ds' = ds_catalog ds
    \<and> ct_nodes ds' = ct_nodes ds \<and> ct_scopes ds' = ct_scopes ds"
proof -
  note result = apply_config_result [OF assms]
  note wanted = wanted_get(1) [OF assms(2)]
  have "map_of (pr_entries (ct_registry ds')) i \<noteq> None \<longleftrightarrow> (\<exists>e\<in>set (enabled_entries config). ec_id e = i)" for i
    using result(1) [of i] wanted [of i] by (cases "map_of (wanted_entries config) i") (auto simp: configured_entry_def)
  moreover have "\<exists>ent. map_of (pr_entries (ct_registry ds')) (ec_id e) = Some ent
         \<and> (built_from (ds_catalog ds) e ent \<or> map_of (pr_entries (ct_registry ds)) (ec_id e) = Some ent \<and> agrees_with digest ft e ent)"
    if "e \<in> set (enabled_entries config)" for e
    using result(1) [of "ec_id e"] wanted [of "ec_id e" e] that by (auto simp: configured_entry_def)
  ultimately show ?thesis using result(4-) by simp
qed

section \<open>Applying a configuration twice\<close>

text \<open>The catalog files every class under the name its manifest declares.\<close>

definition catalog_by_name :: "('v, 'x, 'p) catalog \<Rightarrow> bool" where
  "catalog_by_name catalog \<longleftrightarrow> (\<forall>name cls c p m. map_of catalog name = Some cls \<longrightarrow> cls c = Inr p \<longrightarrow> pg_manifest p = Some m
     \<longrightarrow> ct_name m = name)"

text \<open>The entries as the models deliver them, with configurations that have a fingerprint.\<close>

definition sound_entries :: "(string \<Rightarrow> string) \<Rightarrow> (rat \<Rightarrow> string) \<Rightarrow> harness_config \<Rightarrow> bool" where
  "sound_entries digest ft config \<longleftrightarrow> (\<forall>e\<in>set (enabled_entries config). frozen_mapping (ec_config e) = ec_config e
     \<and> (\<exists>h. config_fingerprint digest ft (ec_plugin e) (ec_config e) = Inr h))"

lemma map_result_total: "(\<And>x. x \<in> set xs \<Longrightarrow> \<exists>y. f x = Inr y) \<Longrightarrow> \<exists>ys. map_result f xs = Inr ys"
proof (induction xs)
  case (Cons x xs)
  obtain y where y: "f x = Inr y" using Cons.prems [of x] by auto
  obtain ys where "map_result f xs = Inr ys" using Cons.IH Cons.prems by (metis list.set_intros(2))
  with y show ?case by simp
qed simp

lemma apply_changes_nothing:
  "\<forall>c\<in>set cs. sc_action c = UnchangedEntry \<Longrightarrow> apply_changes config cs b = (Inr (), b)"
  by (induction cs) (auto simp: apply_change_def is_mutation_def split: prod.splits)

lemma settled_entry:
  assumes "configured_entry digest ft config catalog i old (Some ent)" "catalog_by_name catalog" "sound_entries digest ft config"
    and "unique_config config" "old = Some ent \<Longrightarrow> pe_entry_id ent = i"
  obtains e h where "map_of (wanted_entries config) i = Some e" "pe_entry_id ent = i" "ct_name (pe_manifest ent) = ec_plugin e"
    "config_fingerprint digest ft (ec_plugin e) (ec_config e) = Inr h" "config_fingerprint digest ft (ec_plugin e) (pe_config ent) = Inr h"
proof -
  obtain e where e: "map_of (wanted_entries config) i = Some e"
    and built: "built_from catalog e ent \<or> old = Some ent \<and> agrees_with digest ft e ent"
    using assms(1) by (auto simp: configured_entry_def split: option.splits)
  have listed: "e \<in> set (enabled_entries config)" "ec_id e = i" using wanted_get(1) [OF assms(4)] e by simp_all
  then obtain h where h: "config_fingerprint digest ft (ec_plugin e) (ec_config e) = Inr h" "frozen_mapping (ec_config e) = ec_config e"
    using assms(3) by (auto simp: sound_entries_def)
  from built show ?thesis
  proof
    assume b: "built_from catalog e ent"
    then obtain cls where "map_of catalog (ec_plugin e) = Some cls" "cls (Some (ec_config e)) = Inr (pe_plugin ent)"
        "pg_manifest (pe_plugin ent) = Some (pe_manifest ent)"
      by (auto simp: built_from_def split: option.splits)
    then have "ct_name (pe_manifest ent) = ec_plugin e" using assms(2) unfolding catalog_by_name_def by blast
    then show ?thesis using that [OF e] b h listed by (simp add: built_from_def)
  next
    assume "old = Some ent \<and> agrees_with digest ft e ent"
    then show ?thesis using that [OF e] assms(5) by (auto simp: agrees_with_def)
  qed
qed

text \<open>C22: applying a configuration is idempotent: once it was applied, applying it again succeeds, plans only
  unchanged entries and leaves the desired state as it is, the pending flag included. It holds for a
  catalog that files every class under the name in its manifest (a class filed under another name is
  replaced at every application, see \<open>renamed_class_replaced_again\<close>), and for configurations as their
  models deliver them: entry ids are unique, and the configuration of every entry is frozen and has a
  fingerprint.\<close>

theorem apply_config_idempotent:
  assumes "apply_config digest ft config ds = (Inr res, ds')" "unique_config config"
    and "wf_dict (pr_entries (ct_registry ds))" "filed_entries (ct_registry ds)"
    and "catalog_by_name (ds_catalog ds)" "sound_entries digest ft config"
  shows "\<exists>changes. apply_config digest ft config ds' = (Inr \<lparr>ar_config = config, ar_changes = changes, ar_applied = []\<rparr>, ds')
    \<and> map sc_entry_id changes = sorted_set (dict_keys (wanted_entries config)) \<and> (\<forall>c\<in>set changes. sc_action c = UnchangedEntry)"
proof -
  note result = apply_config_result [OF assms(1-4)]
  let ?reg = "ct_registry ds'"
  have settled: "\<exists>e h. map_of (wanted_entries config) i = Some e \<and> pe_entry_id ent = i \<and> ct_name (pe_manifest ent) = ec_plugin e
      \<and> config_fingerprint digest ft (ec_plugin e) (ec_config e) = Inr h \<and> config_fingerprint digest ft (ec_plugin e) (pe_config ent) = Inr h"
    if ent: "map_of (pr_entries ?reg) i = Some ent" for i ent
    by (rule settled_entry [OF result(1) [of i, unfolded ent] assms(5,6,2)]) (use assms(4) in \<open>auto simp: filed_entries_def\<close>)
  have filed: "filed_entries ?reg" unfolding filed_entries_def using settled by blast
  have wanted: "map_of (wanted_entries config) i = None \<longleftrightarrow> map_of (pr_entries ?reg) i = None" for i
    using result(1) [of i] by (cases "map_of (wanted_entries config) i") (auto simp: configured_entry_def)
  have "\<exists>installed. installed_state digest ft ds' = Inr installed" unfolding installed_state_def
  proof (rule map_result_total)
    fix ent assume "ent \<in> set (plugin_entries ?reg)"
    then have "map_of (pr_entries ?reg) (pe_entry_id ent) = Some ent" using wf_filed_entries(2) [OF result(3) filed] by simp
    from settled [OF this] show "\<exists>y. bind_result (config_fingerprint digest ft (ct_name (pe_manifest ent)) (pe_config ent)) (\<lambda>h.
       Inr (pe_entry_id ent, \<lparr>ie_entry_id = pe_entry_id ent, ie_plugin = ct_name (pe_manifest ent), ie_revision = pe_revision ent,
         ie_fingerprint = h\<rparr>)) = Inr y" by auto
  qed
  then obtain installed where installed: "installed_state digest ft ds' = Inr installed" by blast
  note found = installed_state_get [OF installed result(3) filed]
  have change: "\<exists>c. change_for digest ft i (map_of (wanted_entries config) i) (map_of installed i) = Inr c \<and> sc_action c = UnchangedEntry"
    if i: "map_of (wanted_entries config) i \<noteq> None" for i
  proof -
    obtain ent where ent: "map_of (pr_entries ?reg) i = Some ent" using wanted [of i] i by (cases "map_of (pr_entries ?reg) i") auto
    show ?thesis using settled [OF ent] found [of i] ent by (auto simp: change_for_def)
  qed
  have ids: "set (dict_keys installed) \<subseteq> set (dict_keys (wanted_entries config))"
  proof
    fix i assume "i \<in> set (dict_keys installed)"
    then have "map_of installed i \<noteq> None" unfolding key_known .
    then show "i \<in> set (dict_keys (wanted_entries config))"
      using found [of i] wanted [of i] unfolding key_known by (cases "map_of (pr_entries ?reg) i") simp_all
  qed
  have "\<exists>changes. diff_desired_state digest ft config installed = Inr changes" unfolding diff_desired_state_def Let_def
    by (rule map_result_total) (use change ids in \<open>fastforce simp only: set_sorted_set set_append Un_iff key_known\<close>)
  then obtain changes where diff: "diff_desired_state digest ft config installed = Inr changes" by blast
  note changes = diff_changes [OF diff]
  have keys: "map sc_entry_id changes = sorted_set (dict_keys (wanted_entries config))"
    unfolding changes(1) using ids by (intro sorted_set_cong) auto
  have quiet: "\<forall>c\<in>set changes. sc_action c = UnchangedEntry"
  proof
    fix c assume c: "c \<in> set changes"
    then have "sc_entry_id c \<in> set (map sc_entry_id changes)" by simp
    then have "map_of (wanted_entries config) (sc_entry_id c) \<noteq> None" unfolding keys set_sorted_set key_known .
    from change [OF this] changes(2) [OF c] show "sc_action c = UnchangedEntry" by auto
  qed
  have stage: "stage_config config ds' = Inr ()" using result(2,8) by (simp add: stage_config_def)
  have "ds'\<lparr>ds_config_preferences := config_preferences config, ds_config := Some config, ct_dirty := ct_dirty ds'\<rparr> = ds'"
    using result(4,5) by simp
  then have "apply_config digest ft config ds' = (Inr \<lparr>ar_config = config, ar_changes = changes, ar_applied = []\<rparr>, ds')"
    using stage installed diff result(5) by (simp add: apply_config_def apply_changes_nothing [OF quiet] dict_eq_def list_all_iff)
  then show ?thesis using keys quiet by blast
qed
section \<open>Instances\<close>

text \<open>A catalog with one class, which accepts the empty configuration only.\<close>

definition picky_class :: "(nat, unit, unit) plugin_class" where
  "picky_class config = (if config = Some [] then Inr demo_plugin else Inl (ConfigurationError ''unsupported option''))"

definition picky_harness :: "string \<Rightarrow> (nat, unit, unit, unit) desired" where
  "picky_harness name = snd (register_plugin_type name (PluginClass picky_class) False new_desired)"

definition demo_entry_config :: "string \<Rightarrow> string \<Rightarrow> payload \<Rightarrow> entry_config" where
  "demo_entry_config i plugin config = \<lparr>ec_id = i, ec_plugin = plugin, ec_config = config, ec_enabled = True, ec_preference = []\<rparr>"

definition good_config :: harness_config where
  "good_config = \<lparr>hc_version = 1, hc_plugins = [demo_entry_config ''a'' ''mailer'' []], hc_preferences = []\<rparr>"

definition bad_config :: harness_config where
  "bad_config = \<lparr>hc_version = 1, hc_plugins = [demo_entry_config ''a'' ''mailer'' [],
     demo_entry_config ''b'' ''mailer'' [(''retries'', PInt 3)]], hc_preferences = []\<rparr>"

lemma picky_registry: "ct_registry (picky_harness name) = new_plugin_registry"
  by (simp add: picky_harness_def register_plugin_type_def new_desired_def new_control_def control.defs split: prod.splits)

lemma picky_entries: "wf_dict (pr_entries (ct_registry (picky_harness name)))" "filed_entries (ct_registry (picky_harness name))"
  by (simp_all add: picky_registry new_plugin_registry_def filed_entries_def)

theorem apply_config_atomic_witness:
  "plugin_entries (ct_registry (snd (apply_config id (\<lambda>_. []) bad_config (picky_harness ''mailer'')))) = []"
proof -
  obtain q ds' where run: "apply_config id (\<lambda>_. []) bad_config (picky_harness ''mailer'') = (q, ds')" by fastforce
  have "map_sum id (\<lambda>_. ()) (fst (apply_config id (\<lambda>_. []) bad_config (picky_harness ''mailer''))) = Inl (ConfigurationError ''unsupported option'')"
    by code_simp
  then obtain e where "q = Inl e" unfolding run by (cases q) simp_all
  then show ?thesis using apply_config_atomic [OF _ picky_entries(1)] run
    by (simp add: picky_registry new_plugin_registry_def plugin_entries_def)
qed

lemma good_config_sound: "unique_config good_config" "sound_entries id (\<lambda>_. []) good_config"
proof -
  show "unique_config good_config" by (simp add: unique_config_def good_config_def)
  have "map_sum id (\<lambda>_. ()) (config_fingerprint id (\<lambda>_. []) ''mailer'' []) = Inr ()" by code_simp
  then have "\<exists>h. config_fingerprint id (\<lambda>_. []) ''mailer'' [] = Inr h" by (cases "config_fingerprint id (\<lambda>_. []) ''mailer'' []") auto
  then show "sound_entries id (\<lambda>_. []) good_config"
    by (simp add: sound_entries_def good_config_def enabled_entries_def demo_entry_config_def frozen_mapping_def)
qed

lemma good_config_applied:
  obtains res ds' where "apply_config id (\<lambda>_. []) good_config (picky_harness ''mailer'') = (Inr res, ds')"
proof -
  have done_once: "map_sum id (\<lambda>_. ()) (fst (apply_config id (\<lambda>_. []) good_config (picky_harness ''mailer''))) = Inr ()" by code_simp
  obtain q ds' where "apply_config id (\<lambda>_. []) good_config (picky_harness ''mailer'') = (q, ds')" by fastforce
  note run = this
  have "\<exists>res. q = Inr res" using done_once unfolding run fst_conv by (cases q) simp_all
  then show thesis using that run by blast
qed

theorem apply_config_exact_witness:
  "\<exists>ds'. snd (apply_config id (\<lambda>_. []) good_config (picky_harness ''mailer'')) = ds'
     \<and> map_of (pr_entries (ct_registry ds')) ''a'' \<noteq> None \<and> map_of (pr_entries (ct_registry ds')) ''b'' = None"
proof -
  obtain res ds' where run: "apply_config id (\<lambda>_. []) good_config (picky_harness ''mailer'') = (Inr res, ds')" by (rule good_config_applied)
  have listed: "map_of (pr_entries (ct_registry ds')) i \<noteq> None \<longleftrightarrow> (\<exists>e\<in>set (enabled_entries good_config). ec_id e = i)" for i
    by (rule apply_config_exact [OF run good_config_sound(1) picky_entries, THEN conjunct1, THEN spec])
  have "enabled_entries good_config = [demo_entry_config ''a'' ''mailer'' []]"
    by (simp add: good_config_def enabled_entries_def demo_entry_config_def)
  then have "\<exists>e\<in>set (enabled_entries good_config). ec_id e = ''a''" "\<not> (\<exists>e\<in>set (enabled_entries good_config). ec_id e = ''b'')"
    by (simp_all add: demo_entry_config_def)
  then have "map_of (pr_entries (ct_registry ds')) ''a'' \<noteq> None" "\<not> map_of (pr_entries (ct_registry ds')) ''b'' \<noteq> None"
    unfolding listed by blast+
  then show ?thesis unfolding run snd_conv by simp
qed

lemma picky_catalog: "catalog_by_name (ds_catalog (picky_harness ''mailer''))"
proof -
  have "ds_catalog (picky_harness ''mailer'') = [(''mailer'', picky_class)]"
    by (simp add: picky_harness_def register_plugin_type_def catalog_register_def new_desired_def control.defs) code_simp
  then show ?thesis by (auto simp: catalog_by_name_def picky_class_def demo_plugin_def demo_contracts_def split: if_splits)
qed

theorem apply_config_idempotent_witness:
  "let ds' = snd (apply_config id (\<lambda>_. []) good_config (picky_harness ''mailer''))
   in snd (apply_config id (\<lambda>_. []) good_config ds') = ds'"
proof -
  obtain res ds' where run: "apply_config id (\<lambda>_. []) good_config (picky_harness ''mailer'') = (Inr res, ds')" by (rule good_config_applied)
  from apply_config_idempotent [OF this good_config_sound(1) picky_entries picky_catalog good_config_sound(2)] show ?thesis
    by (auto simp: run)
qed

section \<open>Where the desired state surprises\<close>

text \<open>A class filed under another name than its manifest's is replaced at every application.\<close>

lemma renamed_class_replaced_again:
  "map_sum id (\<lambda>res. map sc_action (ar_applied res)) (fst (apply_config id (\<lambda>_. []) good_config
     (snd (apply_config id (\<lambda>_. []) good_config (picky_harness ''mailer''))))) = Inr []"
  "let config = \<lparr>hc_version = 1, hc_plugins = [demo_entry_config ''a'' ''mail'' []], hc_preferences = []\<rparr>
   in map_sum id (\<lambda>res. map sc_action (ar_applied res)) (fst (apply_config id (\<lambda>_. []) config
     (snd (apply_config id (\<lambda>_. []) config (picky_harness ''mail''))))) = Inr [ReplaceEntry]"
  by code_simp+

text \<open>Applying a configuration uninstalls the entry of the provisions, which stay on record.\<close>

definition provided_harness :: "capability_key list \<Rightarrow> (nat, unit, unit, unit) desired" where
  "provided_harness keys = fold (\<lambda>key ds. snd (harness_provide demo_packaging (\<lambda>_. ()) key () None ds)) keys (picky_harness ''mailer'')"

lemma config_drops_provisions:
  "let ds = provided_harness [\<lparr>ck_name = ''db'', ck_api_version = ''1''\<rparr>];
       ds' = snd (apply_config id (\<lambda>_. []) good_config ds)
   in dict_keys (pr_entries (ct_registry ds)) = [services_id] \<and> dict_keys (pr_entries (ct_registry ds')) = [''a'']
    \<and> length (ds_provisions ds') = 1"
  by code_simp
text \<open>A provision whose key has no contract is refused, but stays on record and blocks the later ones.\<close>

definition strict_packaging :: "(nat, unit) packaging" where
  "strict_packaging = demo_packaging\<lparr>pkg_version := (\<lambda>s. if s = ''next'' then None else Some 0)\<rparr>"

lemma refused_provision_blocks:
  "let provide = (\<lambda>v. harness_provide strict_packaging (\<lambda>_. ()) \<lparr>ck_name = ''db'', ck_api_version = v\<rparr> () None);
       ds = snd (provide ''next'' (picky_harness ''mailer''))
   in map_sum (\<lambda>_. ()) id (fst (provide ''next'' (picky_harness ''mailer''))) = Inl ()
    \<and> length (ds_provisions ds) = 1 \<and> map_sum (\<lambda>_. ()) id (fst (provide ''1'' ds)) = Inl ()"
  by code_simp

end
