(* ===== verification/Json_Read.thy ===== *)
theory Json_Read
  imports Hashing
begin

text \<open>
  Canonical JSON can be read back: the text of data without floats determines the data, so with a
  digest that has no collisions two such values have the same stable hash exactly when they are the
  same data.
\<close>

section \<open>Strings\<close>

lemma read_hex_digit: "n < 16 \<Longrightarrow> (if hex_digit n \<ge> CHR ''a'' then of_char (hex_digit n) - 87 else read_digit (hex_digit n)) = n"
  by (auto simp: hex_digit_def read_digit_def less_eq_char_def)

lemma hex_digit_inj: "a < 16 \<Longrightarrow> b < 16 \<Longrightarrow> hex_digit a = hex_digit b \<Longrightarrow> a = b"
  using read_hex_digit by metis

definition short_escape :: "char \<Rightarrow> bool" where
  "short_escape c \<longleftrightarrow> (of_char c :: nat) \<in> {34, 92, 8, 9, 10, 12, 13}"

lemma escape_forms:
  obtains (short) d where "json_escape ascii c = [CHR 0x5C, d]" "short_escape c" "d \<noteq> CHR ''u''"
      "\<And>e. short_escape e \<Longrightarrow> json_escape ascii e = [CHR 0x5C, d] \<Longrightarrow> e = c"
  | (long) "json_escape ascii c = [CHR 0x5C, CHR ''u'', CHR ''0'', CHR ''0'', hex_digit (of_char c div 16), hex_digit (of_char c mod 16)]"
  | (plain) "json_escape ascii c = [c]" "c \<noteq> CHR 0x5C" "c \<noteq> CHR 0x22"
proof -
  have code: "of_char c = (34 :: nat) \<Longrightarrow> c = CHR 0x22" "of_char c = (92 :: nat) \<Longrightarrow> c = CHR 0x5C"
    "of_char c = (8 :: nat) \<Longrightarrow> c = CHR 0x08" "of_char c = (9 :: nat) \<Longrightarrow> c = CHR 0x09" "of_char c = (10 :: nat) \<Longrightarrow> c = CHR 0x0A"
    "of_char c = (12 :: nat) \<Longrightarrow> c = CHR 0x0C" "of_char c = (13 :: nat) \<Longrightarrow> c = CHR 0x0D" for c :: char
    by (rule of_char_eqI [where ?'a = nat], simp)+
  show thesis
  proof (cases "short_escape c")
    case True
    define d where "d = (if of_char c = (34::nat) \<or> of_char c = (92::nat) then c else if of_char c = (8::nat) then CHR ''b''
      else if of_char c = (9::nat) then CHR ''t'' else if of_char c = (10::nat) then CHR ''n''
      else if of_char c = (12::nat) then CHR ''f'' else CHR ''r'')"
    show thesis
      by (rule short [of d]) (use True in \<open>auto simp: short_escape_def d_def json_escape_def Let_def dest!: code split: if_splits\<close>)
  next
    case False
    moreover from this have "c \<noteq> CHR 0x5C" "c \<noteq> CHR 0x22" by (auto simp: short_escape_def)
    ultimately show thesis using long plain
      by (cases "(of_char c :: nat) < 32 \<or> ascii \<and> 127 \<le> (of_char c :: nat)") (simp_all add: short_escape_def json_escape_def Let_def)
  qed
qed

lemma escape_prefix_free:
  assumes "json_escape ascii c @ x = json_escape ascii d @ y"
  shows "c = d \<and> x = y"
proof -
  have hexes: "c = d" if "hex_digit (of_char c div 16) = hex_digit (of_char d div 16)"
      "hex_digit (of_char c mod 16) = hex_digit (of_char d mod 16)"
  proof -
    have less: "(of_char c :: nat) < 256" for c :: char
      using of_char_mod_256 [of c] mod_less_divisor [of 256 "of_char c :: nat"] by simp
    have small: "of_char c div 16 < (16 :: nat)" for c :: char using less_mult_imp_div_less [of "of_char c" 16 16] less [of c] by simp
    have "of_char c div 16 = (of_char d div 16 :: nat)" using that(1) by (rule hex_digit_inj [OF small small])
    moreover have "of_char c mod 16 = (of_char d mod 16 :: nat)"
      using that(2) by (rule hex_digit_inj [rotated 2]) simp_all
    ultimately have "of_char c = (of_char d :: nat)" by (metis div_mult_mod_eq)
    then show ?thesis by simp
  qed
  show ?thesis
  proof (cases rule: escape_forms [of ascii c])
    case (short k)
    show ?thesis
    proof (cases rule: escape_forms [of ascii d])
      case other: (short l)
      have "k = l" "x = y" using assms unfolding short(1) other(1) by simp_all
      then show ?thesis using short(4) [OF other(2)] other(1) by blast
    next
      case other: long
      have "k = CHR ''u''" using assms unfolding short(1) other(1) by simp
      then show ?thesis using short(3) by simp
    next
      case plain
      have "CHR 0x5C = d" using assms unfolding short(1) plain(1) by simp
      then show ?thesis using plain(2) by simp
    qed
  next
    case one: long
    show ?thesis
    proof (cases rule: escape_forms [of ascii d])
      case (short l)
      have "l = CHR ''u''" using assms unfolding short(1) one(1) by simp
      then show ?thesis using short(3) by simp
    next
      case two: long
      show ?thesis using assms hexes unfolding one(1) two(1) by simp
    next
      case plain
      have "CHR 0x5C = d" using assms unfolding one(1) plain(1) by simp
      then show ?thesis using plain(2) by simp
    qed
  next
    case one: plain
    show ?thesis
    proof (cases rule: escape_forms [of ascii d])
      case (short l)
      have "c = CHR 0x5C" using assms unfolding short(1) one(1) by simp
      then show ?thesis using one(2) by simp
    next
      case long
      have "c = CHR 0x5C" using assms unfolding long(1) one(1) by simp
      then show ?thesis using one(2) by simp
    next
      case plain
      show ?thesis using assms unfolding plain(1) one(1) by simp
    qed
  qed
qed

lemma escape_start: obtains z zs where "json_escape ascii d = z # zs" "z \<noteq> CHR 0x22"
proof (cases rule: escape_forms [of ascii d])
  case (short k)
  show ?thesis by (rule that [OF short(1)]) simp
next
  case long
  show ?thesis by (rule that [OF long(1)]) simp
next
  case plain
  show ?thesis by (rule that [OF plain(1,3)])
qed

lemma string_prefix_free:
  "concat (map (json_escape ascii) s) @ CHR 0x22 # x = concat (map (json_escape ascii) t) @ CHR 0x22 # y \<Longrightarrow> s = t \<and> x = y"
proof (induction s arbitrary: t)
  case Nil
  show ?case
  proof (cases t)
    case (Cons d t')
    obtain z zs where "json_escape ascii d = z # zs" "z \<noteq> CHR 0x22" by (rule escape_start)
    then show ?thesis using Nil Cons by simp
  qed (use Nil in simp)
next
  case (Cons c s)
  show ?case
  proof (cases t)
    case Nil
    obtain z zs where "json_escape ascii c = z # zs" "z \<noteq> CHR 0x22" by (rule escape_start)
    then show ?thesis using Cons.prems Nil by simp
  next
    case t: (Cons d t')
    then have "c = d \<and> concat (map (json_escape ascii) s) @ CHR 0x22 # x = concat (map (json_escape ascii) t') @ CHR 0x22 # y"
      using Cons.prems by (intro escape_prefix_free) simp
    then show ?thesis using Cons.IH [of t'] t by simp
  qed
qed

lemma json_string_read: "json_string ascii s @ x = json_string ascii t @ y \<Longrightarrow> s = t \<and> x = y"
  by (rule string_prefix_free) (simp add: json_string_def)

section \<open>Numbers\<close>

definition numeric :: "char \<Rightarrow> bool" where
  "numeric c \<longleftrightarrow> (let n = (of_char c :: nat) in n = 45 \<or> 48 \<le> n \<and> n \<le> 57)"

lemma show_nat_numeric: "list_all numeric (show_nat n)"
proof (induction n rule: show_nat.induct)
  case (1 n)
  have digit: "numeric (char_of (48 + k :: nat))" if "k < 10" for k
    using that by (simp add: numeric_def)
  show ?case
    using 1 digit [of n] digit [of "n mod 10"] by (simp add: show_nat.simps [of n])
qed

lemma show_nat_first: "\<exists>z zs. show_nat n = z # zs \<and> z \<noteq> CHR ''-''"
proof (induction n rule: show_nat.induct)
  case (1 n)
  have "char_of (48 + k :: nat) \<noteq> CHR ''-''" if "k < 10" for k
  proof
    assume "char_of (48 + k) = CHR ''-''"
    then have "of_char (char_of (48 + k) :: char) = (45 :: nat)" by simp
    then show False using that by (simp add: of_char_of)
  qed
  then show ?case using 1 by (cases "n < 10") (auto simp: show_nat.simps [of n])
qed

lemma show_int_numeric: "list_all numeric (show_int i)" "\<exists>z zs. show_int i = z # zs \<and> numeric z"
proof -
  show all: "list_all numeric (show_int i)" by (simp add: show_int_def show_nat_numeric) (simp add: numeric_def)
  have "show_int i \<noteq> []" using show_nat_first by (auto simp: show_int_def) (metis list.discI)
  then show "\<exists>z zs. show_int i = z # zs \<and> numeric z" using all by (cases "show_int i") auto
qed

lemma show_int_inj: "show_int i = show_int j \<longleftrightarrow> i = j"
proof
  assume eq: "show_int i = show_int j"
  obtain z zs where zi: "show_nat (nat i) = z # zs" "z \<noteq> CHR ''-''" using show_nat_first by blast
  obtain y ys where yj: "show_nat (nat j) = y # ys" "y \<noteq> CHR ''-''" using show_nat_first by blast
  show "i = j"
  proof (cases "i < 0"; cases "j < 0")
    assume "i < 0" "j < 0"
    then have "show_nat (nat (- i)) = show_nat (nat (- j))" using eq by (simp add: show_int_def)
    then have "nat (- i) = nat (- j)" by (simp only: show_nat_inj)
    then show ?thesis using \<open>i < 0\<close> \<open>j < 0\<close> by simp
  next
    assume "\<not> i < 0" "\<not> j < 0"
    then have "show_nat (nat i) = show_nat (nat j)" using eq by (simp add: show_int_def)
    then have "nat i = nat j" by (simp only: show_nat_inj)
    then show ?thesis using \<open>\<not> i < 0\<close> \<open>\<not> j < 0\<close> by simp
  qed (use eq zi yj in \<open>auto simp: show_int_def\<close>)
qed simp

definition stops :: "string \<Rightarrow> bool" where
  "stops x \<longleftrightarrow> (case x of [] \<Rightarrow> True | c # _ \<Rightarrow> \<not> numeric c)"

lemma show_int_read:
  assumes "show_int i @ x = show_int j @ y" "stops x" "stops y"
  shows "i = j \<and> x = y"
proof -
  have "takeWhile numeric (show_int i @ x) = show_int i" if "stops x" for i x
    using show_int_numeric(1) [of i] that by (cases x) (auto simp: takeWhile_append list_all_iff stops_def)
  then have "show_int i = show_int j" using assms by metis
  then show ?thesis using assms(1) show_int_inj by simp
qed

section \<open>Data\<close>

text \<open>Canonical data without floats: texts, integers, truth values, null, lists, and mappings with text keys.\<close>

fun readable :: "pvalue \<Rightarrow> bool" where
  "readable PNone = True"
| "readable (PBool b) = True"
| "readable (PInt i) = True"
| "readable (PText s) = True"
| "readable (PList vs) = list_all readable vs"
| "readable (PDict kvs) = list_all (\<lambda>(k, v). (case k of KText s \<Rightarrow> True | _ \<Rightarrow> False) \<and> readable v) kvs"
| "readable _ = False"

abbreviation compact :: "(rat \<Rightarrow> string) \<Rightarrow> pvalue \<Rightarrow> string" where
  "compact ft \<equiv> json_text compact_style ft"

text \<open>The first character tells the kind of a value.\<close>

fun value_tag :: "pvalue \<Rightarrow> nat" where
  "value_tag PNone = 0"
| "value_tag (PBool b) = (if b then 1 else 2)"
| "value_tag (PInt i) = 3"
| "value_tag (PText s) = 4"
| "value_tag (PList vs) = 5"
| "value_tag (PDict kvs) = 6"
| "value_tag _ = 7"

definition char_tag :: "char \<Rightarrow> nat" where
  "char_tag z = (if numeric z then 3 else if z = CHR ''n'' then 0 else if z = CHR ''t'' then 1 else if z = CHR ''f'' then 2
     else if z = CHR 0x22 then 4 else if z = CHR ''['' then 5 else if z = CHR ''{'' then 6 else 8)"

lemma compact_start:
  assumes "readable v"
  shows "\<exists>z zs. compact ft v = z # zs \<and> char_tag z = value_tag v"
proof (cases v)
  case (PInt i)
  obtain z zs where "show_int i = z # zs" "numeric z" using show_int_numeric(2) by blast
  then show ?thesis using PInt by (simp add: char_tag_def)
qed (use assms in \<open>simp_all add: json_string_def compact_style_def char_tag_def numeric_def\<close>)

lemma compact_tag:
  "readable v \<Longrightarrow> readable w \<Longrightarrow> compact ft v @ x = compact ft w @ y \<Longrightarrow> value_tag v = value_tag w"
  using compact_start [of v ft] compact_start [of w ft] by auto

lemma compact_open:
  assumes "readable v"
  shows "\<exists>z zs. compact ft v = z # zs \<and> z \<noteq> CHR '']'' \<and> z \<noteq> CHR ''}''"
proof -
  obtain z zs where z: "compact ft v = z # zs" "char_tag z = value_tag v" using compact_start [OF assms] by blast
  moreover have "value_tag v \<noteq> 8" by (cases v) simp_all
  moreover have "char_tag (CHR '']'') = 8" "char_tag (CHR ''}'') = 8" by (simp_all add: char_tag_def numeric_def)
  ultimately show ?thesis by metis
qed

definition item_text :: "(rat \<Rightarrow> string) \<Rightarrow> pkey \<times> pvalue \<Rightarrow> string" where
  "item_text ft kv = json_string False (key_text (fst kv)) @ '':'' @ compact ft (snd kv)"

lemma compact_simps:
  "compact ft (PList vs) = ''['' @ join_with '','' (map (compact ft) vs) @ '']''"
  "compact ft (PDict kvs) = ''{'' @ join_with '','' (map (item_text ft) kvs) @ ''}''"
  by (simp_all add: compact_style_def item_text_def [abs_def] case_prod_beta' json_string_def)

text \<open>Items that can be read one after the other, separated by commas and closed by a bracket.\<close>

lemma join_read:
  assumes "\<And>v w x y. v \<in> set vs \<Longrightarrow> w \<in> set ws \<Longrightarrow> stops x \<Longrightarrow> stops y \<Longrightarrow> f v @ x = f w @ y \<Longrightarrow> v = w \<and> x = y"
    and "\<And>v. v \<in> set vs \<union> set ws \<Longrightarrow> \<exists>z zs. f v = z # zs \<and> z \<noteq> c" "c \<noteq> CHR '',''" "\<not> numeric c"
    and "join_with '','' (map f vs) @ c # x = join_with '','' (map f ws) @ c # y"
  shows "vs = ws \<and> x = y"
  using assms
proof (induction vs arbitrary: ws)
  case Nil
  show ?case
  proof (cases ws)
    case (Cons w ws')
    obtain z zs where "f w = z # zs" "z \<noteq> c" using Nil.prems(2) [of w] Cons by auto
    then show ?thesis using Nil.prems(5) Cons by (cases ws') auto
  qed (use Nil in simp)
next
  case (Cons v vs)
  show ?case
  proof (cases ws)
    case Nil
    obtain z zs where "f v = z # zs" "z \<noteq> c" using Cons.prems(2) [of v] by auto
    then show ?thesis using Cons.prems(5) Nil by (cases vs) auto
  next
    case ws: (Cons w ws')
    define rest where "rest us u = (if us = [] then c # u else CHR '','' # join_with '','' (map f us) @ c # u)" for us u
    have split: "join_with '','' (map f (u # us)) @ c # t = f u @ rest us t" for u us t by (cases us) (simp_all add: rest_def)
    have stop: "stops (rest us t)" for us t using Cons.prems(4) by (simp add: rest_def stops_def numeric_def)
    have "f v @ rest vs x = f w @ rest ws' y" using Cons.prems(5) unfolding ws split .
    then have eq: "v = w" "rest vs x = rest ws' y" using Cons.prems(1) [of v w] ws stop by auto
    show ?thesis
    proof (cases "vs = [] \<or> ws' = []")
      case True
      then show ?thesis using eq ws Cons.prems(3) by (auto simp: rest_def split: if_splits)
    next
      case False
      then have "join_with '','' (map f vs) @ c # x = join_with '','' (map f ws') @ c # y" using eq(2) by (simp add: rest_def)
      then show ?thesis using Cons.IH [of ws'] Cons.prems(1-4) eq(1) ws by auto
    qed
  qed
qed

lemma compact_read:
  "readable v \<Longrightarrow> readable w \<Longrightarrow> stops x \<Longrightarrow> stops y \<Longrightarrow> compact ft v @ x = compact ft w @ y \<Longrightarrow> v = w \<and> x = y"
proof (induction v arbitrary: w x y)
  case PNone
  note tag = compact_tag [OF PNone.prems(1,2,5)]
  show ?case using tag PNone.prems by (cases w) (simp_all split: if_splits)
next
  case (PBool b)
  note tag = compact_tag [OF PBool.prems(1,2,5)]
  show ?case using tag PBool.prems by (cases w) (simp_all split: if_splits)
next
  case (PInt i)
  note tag = compact_tag [OF PInt.prems(1,2,5)]
  obtain j where w: "w = PInt j" using tag PInt.prems(2) by (cases w) (simp_all split: if_splits)
  then show ?case using PInt.prems show_int_read [of i x j y] by simp
next
  case (PText s)
  note tag = compact_tag [OF PText.prems(1,2,5)]
  obtain t where w: "w = PText t" using tag PText.prems(2) by (cases w) (simp_all split: if_splits)
  have "json_string False s @ x = json_string False t @ y" using PText.prems(5) w by (simp add: compact_style_def)
  then show ?case using json_string_read w by blast
next
  case (PList vs)
  note tag = compact_tag [OF PList.prems(1,2,5)]
  obtain ws where w: "w = PList ws" using tag PList.prems(2) by (cases w) (simp_all split: if_splits)
  have eq: "join_with '','' (map (compact ft) vs) @ CHR '']'' # x = join_with '','' (map (compact ft) ws) @ CHR '']'' # y"
    using PList.prems(5) w by (simp only: compact_simps) simp
  have "vs = ws \<and> x = y"
  proof (rule join_read [OF _ _ _ _ eq])
    show "v = u \<and> x' = y'" if "v \<in> set vs" "u \<in> set ws" "stops x'" "stops y'" "compact ft v @ x' = compact ft u @ y'" for v u x' y'
      using PList.IH [of v u x' y'] PList.prems(1,2) w that by (simp add: list_all_iff)
    show "\<exists>z zs. compact ft v = z # zs \<and> z \<noteq> CHR '']''" if "v \<in> set vs \<union> set ws" for v
      using compact_open [of v ft] PList.prems(1,2) w that by (auto simp: list_all_iff)
  qed (simp_all add: numeric_def)
  then show ?case using w by simp
next
  case (PDict kvs)
  note tag = compact_tag [OF PDict.prems(1,2,5)]
  obtain ms where w: "w = PDict ms" using tag PDict.prems(2) by (cases w) (simp_all split: if_splits)
  have eq: "join_with '','' (map (item_text ft) kvs) @ CHR ''}'' # x = join_with '','' (map (item_text ft) ms) @ CHR ''}'' # y"
    using PDict.prems(5) w by (simp only: compact_simps) simp
  have "kvs = ms \<and> x = y"
  proof (rule join_read [OF _ _ _ _ eq])
    fix p q x' y' assume p: "p \<in> set kvs" "q \<in> set ms" "stops x'" "stops y'" "item_text ft p @ x' = item_text ft q @ y'"
    obtain s v t u where pq: "p = (KText s, v)" "q = (KText t, u)" "readable v" "readable u"
      using PDict.prems(1,2) w p(1,2) by (cases p; cases q) (fastforce simp: list_all_iff split: pkey.splits)
    have "s = t \<and> '':'' @ compact ft v @ x' = '':'' @ compact ft u @ y'"
      using p(5) unfolding pq item_text_def by (intro json_string_read) (simp add: key_text_def)
    moreover have "compact ft v @ x' = compact ft u @ y' \<Longrightarrow> v = u \<and> x' = y'"
      using PDict.IH [of p v u x' y'] p(1,3,4) pq by (simp add: snds.simps)
    ultimately show "p = q \<and> x' = y'" using pq by simp
  next
    show "\<exists>z zs. item_text ft p = z # zs \<and> z \<noteq> CHR ''}''" for p by (simp add: item_text_def json_string_def)
  qed (simp_all add: numeric_def)
  then show ?case using w by simp
qed simp_all

section \<open>What a stable hash identifies\<close>

text \<open>Data without fractional floats, sets and opaque objects, whose mappings have distinct text keys.\<close>

fun plain :: "pvalue \<Rightarrow> bool" where
  "plain PNone = True"
| "plain (PBool b) = True"
| "plain (PInt i) = True"
| "plain (PText s) = True"
| "plain (PFloat f) = (case f of Fin r \<Rightarrow> of_int \<lfloor>r\<rfloor> = r \<and> \<bar>r\<bar> < 2 ^ 53 | _ \<Rightarrow> False)"
| "plain (PList vs) = list_all plain vs"
| "plain (PTuple vs) = list_all plain vs"
| "plain (PDict kvs) = (wf_dict kvs \<and> list_all (\<lambda>(k, v). (case k of KText s \<Rightarrow> True | _ \<Rightarrow> False) \<and> plain v) kvs)"
| "plain (PFrozenDict kvs) = (wf_dict kvs \<and> list_all (\<lambda>(k, v). plain v) kvs)"
| "plain _ = False"

lemma canonical_items_readable:
  assumes "\<And>k x. (k, x) \<in> set d \<Longrightarrow> \<exists>c. canonicalize ft x = Inr c \<and> readable c"
  shows "\<exists>items. canonical_items ft d = Inr items \<and> readable (sorted_mapping items)"
proof -
  have "canonical_items ft d = Inr (map (\<lambda>(k, x). (k, projr (canonicalize ft x))) d)"
    unfolding canonical_items_Inr using assms by blast
  moreover have "readable (sorted_mapping (map (\<lambda>(k, x). (k, projr (canonicalize ft x))) d))"
    using assms by (force simp: sorted_mapping_def list_all_iff)
  ultimately show ?thesis by blast
qed

lemma text_items_plain:
  assumes "plain v" "text_items v = Some d"
  shows "wf_dict d" "list_all (\<lambda>(k, x). plain x) d"
proof -
  have inj: "inj_on key_text {k. \<exists>s. k = KText s}" by (auto simp: inj_on_def key_text_def)
  have "wf_dict d \<and> list_all (\<lambda>(k, x). plain x) d"
  proof (cases v)
    case (PDict kvs)
    then have keyed: "list_all (\<lambda>(k, x). \<exists>s. k = KText s) kvs" and d: "d = map (\<lambda>(k, x). (key_text k, x)) kvs"
      using assms(2) by (auto simp: text_items_def split: if_splits)
    have "inj_on key_text (set (map fst kvs))"
      by (rule inj_on_subset [OF inj]) (use keyed in \<open>auto simp: list_all_iff\<close>)
    then have "distinct (map key_text (map fst kvs))"
      using assms(1) PDict by (simp add: distinct_map wf_dict_def del: map_map)
    then show ?thesis using assms(1) PDict d by (auto simp: wf_dict_def comp_def case_prod_beta' list_all_iff)
  qed (use assms in \<open>simp_all add: text_items_def\<close>)
  then show "wf_dict d" "list_all (\<lambda>(k, x). plain x) d" by simp_all
qed

lemma text_key_iff: "(case k of KText s \<Rightarrow> True | _ \<Rightarrow> False) \<longleftrightarrow> (\<exists>s. k = KText s)"
  by (cases k) simp_all

lemma plain_text_items: "plain v \<Longrightarrow> v = PDict kvs \<or> v = PFrozenDict fd \<Longrightarrow> \<exists>d. text_items v = Some d"
  by (auto simp: text_items_def list_all_iff text_key_iff)

lemma plain_canonical: "plain v \<Longrightarrow> \<exists>c. canonicalize ft v = Inr c \<and> readable c"
proof (induction v)
  case (PFloat f)
  then show ?case by (cases f) (simp_all add: canonical_float_def)
next
  case (PList vs)
  then have "map_result (canonicalize ft) vs = Inr (map (\<lambda>x. projr (canonicalize ft x)) vs)"
    unfolding map_result_Inr_map by (auto simp: list_all_iff)
  then show ?case using PList by (force simp: list_all_iff)
next
  case (PTuple vs)
  then have "map_result (canonicalize ft) vs = Inr (map (\<lambda>x. projr (canonicalize ft x)) vs)"
    unfolding map_result_Inr_map by (auto simp: list_all_iff)
  then show ?case using PTuple by (force simp: list_all_iff)
next
  case (PDict kvs)
  then obtain d where d: "text_items (PDict kvs) = Some d" using plain_text_items by blast
  have "\<exists>c. canonicalize ft x = Inr c \<and> readable c" if "(k, x) \<in> set d" for k x
    using PDict d that by (force simp: text_items_def list_all_iff snds.simps split: if_splits)
  then obtain items where "canonical_items ft d = Inr items" "readable (sorted_mapping items)"
    using canonical_items_readable [of d ft] by blast
  then show ?case unfolding canonicalize_mapping [OF d] by simp
next
  case (PFrozenDict kvs)
  then obtain d where d: "text_items (PFrozenDict kvs) = Some d" using plain_text_items by blast
  have "\<exists>c. canonicalize ft x = Inr c \<and> readable c" if "(k, x) \<in> set d" for k x
    using PFrozenDict d that by (force simp: text_items_def list_all_iff snds.simps)
  then obtain items where "canonical_items ft d = Inr items" "readable (sorted_mapping items)"
    using canonical_items_readable [of d ft] by blast
  then show ?case unfolding canonicalize_mapping [OF d] by simp
qed simp_all

lemma canonical_list:
  assumes "plain w" "canonicalize ft w = Inr (PList cs)"
  obtains ws where "sequence_items w = Some ws" "map_result (canonicalize ft) ws = Inr cs" "list_all plain ws"
  using assms
  by (cases w)
    (auto simp: sequence_items_def bind_result_eq_Inr canonical_float_def sorted_mapping_def split: pfloat.splits if_splits intro: that)

lemma canonical_dict:
  assumes "plain w" "canonicalize ft w = Inr (PDict m)"
  obtains e items where "text_items w = Some e" "canonical_items ft e = Inr items" "PDict m = sorted_mapping items"
proof -
  have "\<exists>kvs fd. w = PDict kvs \<or> w = PFrozenDict fd"
    using assms by (cases w) (auto simp: bind_result_eq_Inr canonical_float_def split: pfloat.splits if_splits)
  then obtain e where e: "text_items w = Some e" using plain_text_items [OF assms(1)] by blast
  show thesis using assms(2) that [OF e] unfolding canonicalize_mapping [OF e] by (auto simp: bind_result_eq_Inr)
qed

lemma sorted_mapping_agree:
  assumes "wf_dict e" "canonical_items ft d = Inr a" "canonical_items ft e = Inr b" "sorted_mapping a = sorted_mapping b"
  shows "mset (map fst d) = mset (map fst e)"
    and "map_of d k = Some x \<Longrightarrow> map_of e k = Some y \<Longrightarrow> canonicalize ft x = canonicalize ft y"
proof -
  have a: "a = map (\<lambda>(k, x). (k, projr (canonicalize ft x))) d" and oka: "\<And>k x. (k, x) \<in> set d \<Longrightarrow> \<exists>c. canonicalize ft x = Inr c"
    using assms(2) by (simp_all add: canonical_items_Inr)
  have b: "b = map (\<lambda>(k, x). (k, projr (canonicalize ft x))) e" and okb: "\<And>k x. (k, x) \<in> set e \<Longrightarrow> \<exists>c. canonicalize ft x = Inr c"
    using assms(3) by (simp_all add: canonical_items_Inr)
  have "sort_key fst a = sort_key fst b"
    using assms(4) by (auto simp: sorted_mapping_def inj_map_eq_map inj_on_def)
  then have m: "mset a = mset b" by (metis mset_sort)
  have "map fst a = map fst d" "map fst b = map fst e" by (simp_all add: a b comp_def case_prod_beta')
  then show "mset (map fst d) = mset (map fst e)" using m by (metis mset_map)
  show "canonicalize ft x = canonicalize ft y" if "map_of d k = Some x" "map_of e k = Some y"
  proof -
    have "(k, projr (canonicalize ft x)) \<in> set a" using map_of_SomeD [OF that(1)] by (force simp: a)
    then have "(k, projr (canonicalize ft x)) \<in> set b" using m mset_eq_setD by blast
    then obtain z where z: "(k, z) \<in> set e" "projr (canonicalize ft z) = projr (canonicalize ft x)" by (auto simp: b)
    moreover from this have "map_of e k = Some z" using assms(1) by (simp add: wf_dict_def)
    ultimately have z: "(k, y) \<in> set e" "projr (canonicalize ft y) = projr (canonicalize ft x)" using that(2) by simp_all
    then show ?thesis using z oka [OF map_of_SomeD [OF that(1)]] okb [OF map_of_SomeD [OF that(2)]] by auto
  qed
qed

lemma integral_cases:
  assumes "plain w" "canonicalize ft w = Inr (PInt i)"
  shows "same_data ft (PInt i) w"
proof (cases w)
  case (PFloat f)
  with assms obtain r where r: "f = Fin r" "of_int \<lfloor>r\<rfloor> = r" "\<bar>r\<bar> < 2 ^ 53" "\<lfloor>r\<rfloor> = i"
    by (cases f) (auto simp: canonical_float_def)
  then have "r = of_int i" by simp
  moreover have "\<bar>i\<bar> < 2 ^ 53"
    using r(3) unfolding \<open>r = of_int i\<close> by (metis of_int_abs of_int_less_iff of_int_numeral of_int_power)
  ultimately show ?thesis using PFloat r(1) sd_integral by simp
qed (use assms in \<open>auto simp: bind_result_eq_Inr sorted_mapping_def intro: sd_refl\<close>)

lemma same_data_trans_int: "same_data ft (PInt i) v \<Longrightarrow> same_data ft (PInt i) w \<Longrightarrow> v = PInt i \<or> w = PInt i \<or> v = w \<Longrightarrow> same_data ft v w"
  by (auto intro: sd_refl sd_symmetric)

lemma sequence_same_data:
  assumes "sequence_items v = Some vs" "list_all plain vs" "plain w" "canonicalize ft v = canonicalize ft w"
    and "\<And>x y. x \<in> set vs \<Longrightarrow> plain y \<Longrightarrow> canonicalize ft x = canonicalize ft y \<Longrightarrow> same_data ft x y"
  shows "same_data ft v w"
proof -
  have "map_result (canonicalize ft) vs = Inr (map (\<lambda>x. projr (canonicalize ft x)) vs)"
    unfolding map_result_Inr_map using assms(2) plain_canonical by (fastforce simp: list_all_iff)
  then obtain cs where cs: "map_result (canonicalize ft) vs = Inr cs" by blast
  then have "canonicalize ft w = Inr (PList cs)" using assms(4) by (simp add: canonicalize_sequence [OF assms(1)])
  then obtain ws where ws: "sequence_items w = Some ws" "map_result (canonicalize ft) ws = Inr cs" "list_all plain ws"
    using canonical_list [OF assms(3)] by blast
  have "list_all2 (\<lambda>x c. canonicalize ft x = Inr c) vs cs" "list_all2 (\<lambda>x c. canonicalize ft x = Inr c) ws cs"
    using cs ws(2) by (simp_all add: map_result_Inr)
  then have "length vs = length ws" "\<And>i. i < length vs \<Longrightarrow> canonicalize ft (vs ! i) = canonicalize ft (ws ! i)"
    by (auto simp: list_all2_conv_all_nth)
  then have "list_all2 (same_data ft) vs ws"
    using assms(5) ws(3) by (simp add: list_all2_conv_all_nth list_all_length)
  then show ?thesis by (rule sd_sequence [OF assms(1) ws(1)])
qed

lemma mapping_same_data:
  assumes "text_items v = Some d" "plain v" "plain w" "canonicalize ft v = canonicalize ft w"
    and "\<And>k x y. (k, x) \<in> set d \<Longrightarrow> plain y \<Longrightarrow> canonicalize ft x = canonicalize ft y \<Longrightarrow> same_data ft x y"
  shows "same_data ft v w"
proof -
  note d = text_items_plain [OF assms(2,1)]
  obtain c where "canonicalize ft v = Inr c" using plain_canonical [OF assms(2)] by blast
  then obtain a where a: "canonical_items ft d = Inr a" "canonicalize ft v = Inr (sorted_mapping a)"
    by (auto simp: canonicalize_mapping [OF assms(1)] bind_result_eq_Inr)
  then have "canonicalize ft w = Inr (PDict (map (\<lambda>(s, v). (KText s, v)) (sort_key fst a)))"
    using assms(4) by (simp add: sorted_mapping_def)
  then obtain e b where e: "text_items w = Some e" "canonical_items ft e = Inr b" "sorted_mapping a = sorted_mapping b"
    using canonical_dict [OF assms(3)] by (metis sorted_mapping_def)
  note we = text_items_plain [OF assms(3) e(1)]
  note agree = sorted_mapping_agree [OF we(1) a(1) e(2,3)]
  show ?thesis
  proof (rule sd_mapping [OF assms(1) e(1) d(1) agree(1)])
    fix k x y assume xy: "map_of d k = Some x" "map_of e k = Some y"
    show "same_data ft x y"
      by (rule assms(5) [OF map_of_SomeD [OF xy(1)] _ agree(2) [OF xy]])
         (use we(2) map_of_SomeD [OF xy(2)] in \<open>auto simp: list_all_iff\<close>)
  qed
qed

lemma canonical_same_data:
  "plain v \<Longrightarrow> plain w \<Longrightarrow> canonicalize ft v = canonicalize ft w \<Longrightarrow> same_data ft v w"
proof (induction v arbitrary: w)
  case PNone
  from PNone.prems(2) PNone.prems(3) [symmetric] show ?case
    by (cases w) (auto simp: bind_result_eq_Inr canonical_float_def sorted_mapping_def intro: sd_refl split: pfloat.splits if_splits)
next
  case (PBool b)
  from PBool.prems(2) PBool.prems(3) [symmetric] show ?case
    by (cases w) (auto simp: bind_result_eq_Inr canonical_float_def sorted_mapping_def intro: sd_refl split: pfloat.splits if_splits)
next
  case (PText s)
  from PText.prems(2) PText.prems(3) [symmetric] show ?case
    by (cases w) (auto simp: bind_result_eq_Inr canonical_float_def sorted_mapping_def intro: sd_refl split: pfloat.splits if_splits)
next
  case (PInt i)
  then show ?case using integral_cases [of w ft i] by simp
next
  case (PFloat f)
  then obtain i where i: "canonicalize ft (PFloat f) = Inr (PInt i)" by (cases f) (simp_all add: canonical_float_def)
  have v: "same_data ft (PInt i) (PFloat f)" by (rule integral_cases [OF PFloat.prems(1) i])
  have w: "canonicalize ft w = Inr (PInt i)" using PFloat.prems(3) i by simp
  have "w = PInt i \<or> w = PFloat f"
    using PFloat.prems(1,2) i w
    by (cases w; cases f) (auto simp: bind_result_eq_Inr canonical_float_def sorted_mapping_def split: pfloat.splits if_splits)
  then show ?case using v by (auto intro: sd_refl sd_symmetric)
next
  case (PList vs)
  show ?case
    by (rule sequence_same_data [of _ vs]) (use PList in \<open>auto simp: sequence_items_def list_all_iff\<close>)
next
  case (PTuple vs)
  show ?case
    by (rule sequence_same_data [of _ vs]) (use PTuple in \<open>auto simp: sequence_items_def list_all_iff\<close>)
next
  case (PDict kvs)
  then obtain d where d: "text_items (PDict kvs) = Some d" using plain_text_items by blast
  show ?case
  proof (rule mapping_same_data [OF d PDict.prems])
    fix k x y assume x: "(k, x) \<in> set d" "plain y" "canonicalize ft x = canonicalize ft y"
    then obtain p where "p \<in> set kvs" "x \<in> Basic_BNFs.snds p" "plain x"
      using d PDict.prems(1) by (force simp: text_items_def list_all_iff snds.simps split: if_splits)
    then show "same_data ft x y" using PDict.IH x(2,3) by blast
  qed
next
  case (PFrozenDict kvs)
  then obtain d where d: "text_items (PFrozenDict kvs) = Some d" using plain_text_items by blast
  show ?case
  proof (rule mapping_same_data [OF d PFrozenDict.prems])
    fix k x y assume x: "(k, x) \<in> set d" "plain y" "canonicalize ft x = canonicalize ft y"
    then obtain p where "p \<in> set kvs" "x \<in> Basic_BNFs.snds p" "plain x"
      using d PFrozenDict.prems(1) by (force simp: text_items_def list_all_iff snds.simps)
    then show "same_data ft x y" using PFrozenDict.IH x(2,3) by blast
  qed
qed simp_all



text \<open>Sets of texts are always told apart by the text they are sorted by.\<close>

lemma told_apart_texts: "told_apart ft (map PText ss)"
proof -
  have "s = t" if "json_string True s = json_string True t" for s t
    using json_string_read [of True s "[]" t "[]"] that by simp
  then show ?thesis by (auto simp: told_apart_def order_text_def default_style_def)
qed

text \<open>A mapping with a set in it, in two representations, and the text both are hashed from.\<close>

definition some_representation :: pvalue where
  "some_representation = PDict [(KText ''b'', PInt 1), (KText ''a'', PSet [PText ''y'', PText ''x''])]"

definition other_representation :: pvalue where
  "other_representation = PFrozenDict [(''a'', PFrozenSet [PText ''x'', PText ''y'']), (''b'', PFloat (Fin 1))]"

definition common_text :: string where
  "common_text = ''{'' @ json_string False ''a'' @ '':['' @ json_string False ''x'' @ '','' @ json_string False ''y'' @ ''],''
     @ json_string False ''b'' @ '':1}''"

lemma representations_hash_alike:
  "stable_hash (\<lambda>s. s) (\<lambda>r. []) None some_representation = Inr common_text
   \<and> stable_hash (\<lambda>s. s) (\<lambda>r. []) None other_representation = Inr common_text"
proof -
  have hashed: "stable_hash (\<lambda>s. s) (\<lambda>r. []) None some_representation = Inr common_text" by code_simp
  have sets: "same_data (\<lambda>r. []) (PSet [PText ''y'', PText ''x'']) (PFrozenSet [PText ''x'', PText ''y''])"
  proof (rule sd_set [where xs = "[PText ''y'', PText ''x'']" and ys = "[PText ''x'', PText ''y'']"])
    show "told_apart (\<lambda>r. []) [PText ''y'', PText ''x'']" using told_apart_texts [of _ "[''y'', ''x'']"] by simp
  qed (simp_all add: set_items_def)
  have one: "same_data (\<lambda>r. []) (PInt 1) (PFloat (Fin 1))" using sd_integral [of 1] by simp
  have "same_data (\<lambda>r. []) some_representation other_representation"
    unfolding some_representation_def other_representation_def
    by (rule sd_mapping [where d = "[(''b'', PInt 1), (''a'', PSet [PText ''y'', PText ''x''])]"
          and e = "[(''a'', PFrozenSet [PText ''x'', PText ''y'']), (''b'', PFloat (Fin 1))]"])
       (auto simp: text_items_def key_text_def wf_dict_def sets one split: if_splits)
  from stable_hash_representation_independent [OF this] hashed show ?thesis by blast
qed

end
