(* ===== verification/Spec2Isabelle.thy ===== *)
theory Spec2Isabelle
  imports Scope_Ops Generation_Props Capability_Props Resolver_Examples World_Props Hook_Props Tool_Props
    Plugin_Outcomes Budget_Props Executor_Props Composition_Props Published_Props
    Desired_Props Json_Read
begin

text \<open>
  A model of the Chassis control plane (\<open>src/src/chassis\<close>), the runtime that hosts agent plugins:
  plugins contribute capabilities, hooks, tools and agents; every contribution is a reversible
  effect owned by a scope; a resolver decides which plugins can run; immutable generations are
  published to running agents and stay alive while they are leased; budgets bound what a run uses.

  \<^bold>\<open>Theories and code.\<close>

    \<^item> \<open>Prelude\<close>, \<open>Errors\<close>, \<open>Values\<close>: Python dictionaries as association lists in insertion
      order, text, the error classes of \<open>core/errors.py\<close> as one datatype, dynamic values and the
      deep freeze of \<open>core/collections.py\<close>.
    \<^item> \<open>Scope\<close>, \<open>Scope_Ops\<close>, \<open>Scope_Tree\<close>: \<open>core/scope.py\<close>. A store maps scope identities to scope
      records with their exit stack; closing is the recursion of the code, over the stack and into
      child scopes. \<open>Scope\<close> states what a close promises (\<open>closes\<close>: it runs the teardown plan, frames
      everything outside the subtree, reports the recorded failures) and proves that the code's
      recursion refines it; \<open>Scope_Ops\<close> has the life of a store as a step relation with its
      invariant; \<open>Scope_Tree\<close> proves that a close reaches the whole subtree.
    \<^item> \<open>Generations\<close>, \<open>Generation_Props\<close>: \<open>core/generation.py\<close> and \<open>core/generations.py\<close>, lease
      accounting and the manager with its current, draining and retired generations.
    \<^item> \<open>Capabilities\<close>, \<open>Capability_Props\<close>: \<open>capabilities/\<close>, contract keys, requirements,
      resolution with preferences, the snapshot published with a generation.
    \<^item> \<open>Manifest\<close>, \<open>Resolver\<close>, \<open>Resolver_Plan\<close>, \<open>Resolver_Order\<close>, \<open>Resolver_Props\<close>,
      \<open>Resolver_Examples\<close>: \<open>plugins/manifest.py\<close> and \<open>plugins/resolver.py\<close>: scope visibility, one
      requirement with its assessments, the eligibility loop, activation order, cycles, the plan.
    \<^item> \<open>Hooks\<close>, \<open>Hook_Props\<close>: \<open>hooks/\<close>, ordering and dispatch.
    \<^item> \<open>Named_Index\<close>, \<open>Tools\<close>, \<open>Tool_Props\<close>, \<open>Agent_Registry\<close>: \<open>tools/registry.py\<close>,
      \<open>tools/metadata.py\<close> and the runtime registrations of \<open>agents.py\<close>; the two registries share
      the index from names to identifiers.
    \<^item> \<open>Ownership\<close>, \<open>World\<close>, \<open>World_Props\<close>: the registries under scoped ownership. \<open>Ownership\<close> is the
      interface (a locale: every entry records its scope, a disposer withdraws one entry and leaves
      the rest alone) with the theorems that follow from it once for all registries; \<open>World\<close>
      registers, and interprets the locale for capabilities, hooks, tools and agents;
      \<open>World_Props\<close> is the life of a harness as steps over scopes and registries.
    \<^item> \<open>Plugins\<close>, \<open>Plugin_Props\<close>, \<open>Plugin_Outcomes\<close>, \<open>Entry_Props\<close>: \<open>plugins/lifecycle.py\<close> and
      \<open>plugins/registry.py\<close>: desired entries, mount with rollback, disposal, on top of \<open>World\<close>.
    \<^item> \<open>Budget\<close>, \<open>Budget_Props\<close>: \<open>budget/models.py\<close> and \<open>budget/governor.py\<close>, the governor tree.
    \<^item> \<open>Policy\<close>: \<open>policy/\<close>, permissions, grants with their patterns, the shipped engines.
    \<^item> \<open>Hashing\<close>, \<open>Formats\<close>, \<open>Redaction\<close>: \<open>persistence/hashing.py\<close>, \<open>persistence/formats.py\<close> and
      \<open>secrets/redaction.py\<close>: canonical JSON and its hash, format versions and migration, the redactor. \<open>Json_Read\<close>
      reads canonical JSON back: data with distinct texts have distinct hashes as far as the digest,
      a parameter, has no collisions.
    \<^item> \<open>Replay\<close>, \<open>Replay_Props\<close>: \<open>replay/models.py\<close> and \<open>replay/session.py\<close>, recordings, their
      documents and the cursor that answers calls from them.
    \<^item> \<open>Executor\<close>, \<open>Executor_Props\<close>: \<open>tools/executor.py\<close>, one tool call through hooks, policy,
      approval, budget, recording and the tool, over the components above. A ghost log of decisions
      and invocations carries the statements about their order.

    \<^item> \<open>Composition\<close>, \<open>Composition_Props\<close>: the desired-state tree of \<open>composition.py\<close> and the paths of
      \<open>core/paths.py\<close>: scope objects by index, so that handles to removed scopes are in the model.
    \<^item> \<open>Published\<close>, \<open>Published_Props\<close>: the published scope tree of \<open>composition.py\<close>, a resolution plan
      bound to what was mounted, and who can see what in it.
    \<^item> \<open>Config\<close>: \<open>config/\<close>, the validated models, the catalog of implementations and the comparison of a
      configuration with what is installed.
    \<^item> \<open>Desired\<close>, \<open>Desired_Props\<close>: the synchronous half of \<open>harness.py\<close>: install and uninstall, scopes,
      provisions, preferences, and \<open>apply_config\<close> as a transaction with its undo actions.

  \<^bold>\<open>Conventions.\<close> A class instance is a record, its methods take and return it; shared mutable objects
  live in a store by identity. A raise is \<open>Inl\<close> of a result. Code the program only calls is an
  argument: callbacks, plugin code, handlers, task results, clocks, the packaging library; for the
  last the record \<open>packaging\<close> carries parsing and comparison. Random identifiers are arguments, with
  the hypothesis that the one drawn is unused. An \<open>await\<close> at which another task may run is a step
  boundary where the code allows one (\<open>enter_async_context\<close>, \<open>aclose\<close>, \<open>drain\<close>).

  \<^bold>\<open>Fuel.\<close> \<open>scope_aclose\<close> recurses into child scopes, which are younger than their parents: the number
  of scopes ever created is enough, and every theorem about a close states that it returns with it.
  The eligibility loop gets one round per candidate, each round removes one; Kahn's loop one step per
  node; a fresh entry name one trial per taken name. Each bound is proved sufficient.

  \<^bold>\<open>Not modelled.\<close> Rendering (\<open>to_dict\<close>, \<open>explain\<close>, diagnostics), telemetry exporters, the LangGraph
  and LangChain adapters, test doubles, file and environment access: input and output around
  third-party code. The event loop is modelled by the order of steps and by the results of tasks, not
  by a scheduler. Of \<open>harness.py\<close> the synchronous desired state is modelled (\<open>Desired\<close>); its
  reconciliation, start and stop, and the runtime snapshots, are not.

  \<^bold>\<open>Limits of what is modelled.\<close>

    \<^item> Closing a scope, mounting and disposing a plugin are single steps: the states they pass through
      (\<open>CLOSING\<close>, \<open>LOADING\<close>, \<open>PENDING\<close>) are not seen by other tasks, nothing else runs in between, and a
      close is not cancelled while it waits for its tasks.
    \<^item> Disposers, hooks, policies and tools act on the world outside: what they do to scopes, to the
      budget and to the replay session by calling back into the runtime (a tool that runs another
      agent) is not modelled.
    \<^item> Documents are JSON documents: a mapping with a key that is not text, which no JSON parser
      produces, is classed as corrupt where the code would accept any mapping.
    \<^item> Floats are rationals with the two infinities and NaN: arithmetic on them does not round.
\<close>

end
